(* ===== verification/Py_Prelude.thy ===== *)
theory Py_Prelude
  imports
    Main
    "HOL-Library.AList"
    "HOL-Library.Char_ord"
    "HOL-Library.List_Lexorder"
    "HOL-Library.Product_Lexorder"
begin

text \<open>
  What the components of the development share: the fragment of Python's string and dictionary
  operations that the sources use, as executable functions, with the generic lemmas the component
  proofs rest on.

  A Python string is a \<^typ>\<open>string\<close>, one \<^typ>\<open>char\<close> per code point (code points above 255 are
  outside the model).  A \<^verbatim>\<open>dict\<close> whose iteration order matters is an association list with
  distinct keys: reading is \<^const>\<open>map_of\<close>, \<^verbatim>\<open>d[k] = v\<close> is \<^const>\<open>AList.update\<close> (in place for an
  old key, at the end for a new one, as Python does), \<^verbatim>\<open>d.pop(k, None)\<close> is \<^const>\<open>AList.delete\<close>.
\<close>

named_theorems dict_simps \<open>reading a dictionary after an update or a deletion\<close>
named_theorems py_str_simps \<open>evaluation of the Python string helpers\<close>

type_synonym path = string
type_synonym ('k, 'v) dict = "('k \<times> 'v) list"

section \<open>Strings\<close>

definition py_rstrip :: "char \<Rightarrow> string \<Rightarrow> string" where
  "py_rstrip c s = rev (dropWhile (\<lambda>x. x = c) (rev s))"

definition py_lstrip :: "char \<Rightarrow> string \<Rightarrow> string" where
  "py_lstrip c s = dropWhile (\<lambda>x. x = c) s"

definition py_startswith :: "string \<Rightarrow> string \<Rightarrow> bool" where
  "py_startswith s p \<longleftrightarrow> take (length p) s = p"

definition py_endswith :: "string \<Rightarrow> string \<Rightarrow> bool" where
  "py_endswith s p \<longleftrightarrow> length p \<le> length s \<and> drop (length s - length p) s = p"

text \<open>\<^verbatim>\<open>s.rsplit(c, 1)\<close>: the text before and after the last \<open>c\<close>; \<open>None\<close> when \<open>c\<close> is absent.\<close>

definition py_rsplit1 :: "char \<Rightarrow> string \<Rightarrow> (string \<times> string) option" where
  "py_rsplit1 c s =
     (if c \<in> set s
      then Some (rev (tl (dropWhile (\<lambda>x. x \<noteq> c) (rev s))), rev (takeWhile (\<lambda>x. x \<noteq> c) (rev s)))
      else None)"

text \<open>\<^verbatim>\<open>s.split(c)\<close>: always at least one segment.\<close>

fun py_split :: "char \<Rightarrow> string \<Rightarrow> string list" where
  "py_split c [] = [[]]"
| "py_split c (x # xs) =
     (if x = c then [] # py_split c xs
      else (case py_split c xs of [] \<Rightarrow> [[x]] | seg # rest \<Rightarrow> (x # seg) # rest))"

text \<open>\<^verbatim>\<open>c.join(segments)\<close> for a one-character separator.\<close>

fun py_join :: "char \<Rightarrow> string list \<Rightarrow> string" where
  "py_join c [] = []"
| "py_join c [s] = s"
| "py_join c (s # t # rest) = s @ c # py_join c (t # rest)"

text \<open>\<^verbatim>\<open>str.strip()\<close>: the white space of the first 256 code points.\<close>

definition py_space :: "char \<Rightarrow> bool" where
  "py_space c \<longleftrightarrow> (of_char c :: nat) \<in> {9, 10, 11, 12, 13, 28, 29, 30, 31, 32, 133, 160}"

definition py_strip :: "string \<Rightarrow> string" where
  "py_strip s = rev (dropWhile py_space (rev (dropWhile py_space s)))"

text \<open>\<^verbatim>\<open>p in s\<close>, and \<^verbatim>\<open>s.lower()\<close> where only the ASCII letters of the result matter.\<close>

definition py_contains :: "string \<Rightarrow> string \<Rightarrow> bool" where
  "py_contains s p \<longleftrightarrow> list_ex (\<lambda>i. py_startswith (drop i s) p) [0..<Suc (length s)]"

definition lower_char :: "char \<Rightarrow> char" where
  "lower_char c = (if CHR ''A'' \<le> c \<and> c \<le> CHR ''Z'' then char_of (of_char c + (32 :: nat)) else c)"

definition py_lower :: "string \<Rightarrow> string" where
  "py_lower s = map lower_char s"

text \<open>The letters and digits of ASCII.\<close>

definition ascii_alnum :: "char \<Rightarrow> bool" where
  "ascii_alnum c =
     (let n = of_char c :: nat in n \<in> {97..122} \<or> n \<in> {65..90} \<or> n \<in> {48..57})"

section \<open>Decimal integers\<close>

definition digit_char :: "nat \<Rightarrow> char" where
  "digit_char d = ''0123456789'' ! d"

definition is_digit :: "char \<Rightarrow> bool" where
  "is_digit c \<longleftrightarrow> 48 \<le> (of_char c :: nat) \<and> (of_char c :: nat) \<le> 57"

definition digit_val :: "char \<Rightarrow> nat" where
  "digit_val c = of_char c - 48"

fun nat_str :: "nat \<Rightarrow> string" where
  "nat_str n = (if n < 10 then [digit_char n] else nat_str (n div 10) @ [digit_char (n mod 10)])"

definition int_str :: "int \<Rightarrow> string" where
  "int_str i = (if i < 0 then CHR ''-'' # nat_str (nat (- i)) else nat_str (nat i))"

text \<open>
  \<^verbatim>\<open>int(s)\<close>: surrounding white space is dropped, one sign is accepted, underscores may stand
  between two digits; everything else raises \<^verbatim>\<open>ValueError\<close> (\<open>None\<close>).
\<close>

fun digit_run :: "string \<Rightarrow> nat \<Rightarrow> bool \<Rightarrow> nat option" where
  "digit_run [] acc prev = (if prev then Some acc else None)"
| "digit_run (c # cs) acc prev =
     (if is_digit c then digit_run cs (acc * 10 + digit_val c) True
      else if c = CHR ''_'' \<and> prev then digit_run cs acc False
      else None)"

definition py_int :: "string \<Rightarrow> int option" where
  "py_int s =
     (case py_strip s of
        [] \<Rightarrow> None
      | c # cs \<Rightarrow>
          if c = CHR ''-'' then map_option (\<lambda>n. - int n) (digit_run cs 0 False)
          else if c = CHR ''+'' then map_option int (digit_run cs 0 False)
          else map_option int (digit_run (c # cs) 0 False))"

section \<open>Generic lemmas\<close>

declare nat_str.simps [simp del]

lemma dict_get_set [dict_simps, simp]:
  "map_of (AList.update k v d) k' = (if k' = k then Some v else map_of d k')"
  by (simp add: update_conv')

lemma dict_get_del [dict_simps, simp]:
  "map_of (AList.delete k d) k' = (if k' = k then None else map_of d k')"
  by (simp add: delete_conv')

lemma dict_set_subset: "set (AList.update k v d) \<subseteq> insert (k, v) (set d)"
  by (induction d) auto

lemma dict_keys_del: "fst ` set (AList.delete k d) = fst ` set d - {k}"
  by (induction d) auto

lemma update_fresh: "k \<notin> fst ` set d \<Longrightarrow> AList.update k v d = d @ [(k, v)]"
  by (induction d) auto

lemma dict_keys_set: "fst ` set (AList.update k v d) = insert k (fst ` set d)"
  by (simp add: dom_update)

lemma rstrip_simps [py_str_simps]:
  "py_rstrip c [] = []"
  "py_rstrip c (s @ [x]) = (if x = c then py_rstrip c s else s @ [x])"
  by (simp_all add: py_rstrip_def)

lemma rstrip_no_suffix: "py_rstrip c s = [] \<or> last (py_rstrip c s) \<noteq> c"
  by (induction s rule: rev_induct) (auto simp: py_str_simps)

lemma rstrip_id: "s = [] \<or> last s \<noteq> c \<Longrightarrow> py_rstrip c s = s"
  by (cases s rule: rev_cases) (auto simp: py_str_simps)

lemma rstrip_idem [simp]: "py_rstrip c (py_rstrip c s) = py_rstrip c s"
  by (rule rstrip_id [OF rstrip_no_suffix])

lemma rstrip_length: "length (py_rstrip c s) \<le> length s"
  by (induction s rule: rev_induct) (auto simp: py_str_simps)

lemma rsplit1_append:
  "c \<notin> set b \<Longrightarrow> py_rsplit1 c (a @ c # b) = Some (a, b)"
proof -
  assume "c \<notin> set b"
  then have b: "\<And>x. x \<in> set (rev b) \<Longrightarrow> x \<noteq> c" by auto
  have "dropWhile (\<lambda>x. x \<noteq> c) (rev b @ c # rev a) = c # rev a"
    using b by (subst dropWhile_append2) auto
  moreover have "takeWhile (\<lambda>x. x \<noteq> c) (rev b @ c # rev a) = rev b"
    using b by (subst takeWhile_append2) auto
  ultimately show ?thesis
    by (simp add: py_rsplit1_def)
qed

lemma rsplit1_Some:
  assumes "py_rsplit1 c s = Some (a, b)"
  shows "s = a @ c # b \<and> c \<notin> set b"
proof -
  from assms have c: "c \<in> set s" by (auto simp: py_rsplit1_def split: if_splits)
  then obtain x y where s: "s = x @ c # y" and y: "c \<notin> set y"
    by (meson split_list_last)
  from rsplit1_append [OF y, of x] s assms show ?thesis using y by auto
qed

lemma rsplit1_None: "py_rsplit1 c s = None \<longleftrightarrow> c \<notin> set s"
  by (simp add: py_rsplit1_def)

lemma rsplit1_shorter: "py_rsplit1 c s = Some (a, b) \<Longrightarrow> length a < length s \<and> length b < length s"
  by (drule rsplit1_Some) auto

lemma split_nonempty [simp]: "py_split c s \<noteq> []"
  by (induction s) (auto split: list.splits)

lemma split_join: "py_join c (py_split c s) = s"
proof (induction s)
  case Nil
  show ?case by simp
next
  case (Cons x xs)
  obtain seg rest where sp: "py_split c xs = seg # rest"
    by (cases "py_split c xs") auto
  with Cons show ?case by (cases rest) auto
qed

lemma split_segments: "seg \<in> set (py_split c s) \<Longrightarrow> c \<notin> set seg"
proof (induction s arbitrary: seg)
  case Nil
  then show ?case by simp
next
  case (Cons x xs)
  then show ?case by (auto split: if_splits list.splits)
qed

lemma split_single: "c \<notin> set s \<Longrightarrow> py_split c s = [s]"
  by (induction s) auto

lemma split_cons_sep: "c \<notin> set s \<Longrightarrow> py_split c (s @ c # t) = s # py_split c t"
  by (induction s) auto

lemma split_snoc_sep: "c \<notin> set t \<Longrightarrow> py_split c (s @ c # t) = py_split c s @ [t]"
proof (induction s)
  case Nil
  then show ?case by (simp add: split_single)
next
  case (Cons x xs)
  obtain seg rest where "py_split c xs = seg # rest" by (cases "py_split c xs") auto
  with Cons show ?case by auto
qed

lemma split_sep_length:
  assumes "c \<in> set s"
  shows "2 \<le> length (py_split c s)"
proof -
  obtain x y where "s = x @ c # y" "c \<notin> set y"
    using assms by (meson split_list_last)
  then have "length (py_split c s) = Suc (length (py_split c x))"
    by (simp add: split_snoc_sep)
  moreover have "0 < length (py_split c x)" by simp
  ultimately show ?thesis by linarith
qed

lemma join_split:
  "xs \<noteq> [] \<Longrightarrow> \<forall>s \<in> set xs. c \<notin> set s \<Longrightarrow> py_split c (py_join c xs) = xs"
proof (induction c xs rule: py_join.induct)
  case (3 c s t rest)
  then show ?case by (simp add: split_cons_sep)
qed (simp_all add: split_single)

lemma digit_char_code:
  assumes "d < 10"
  shows "(of_char (digit_char d) :: nat) = 48 + d"
proof -
  have "d = 0 \<or> d = 1 \<or> d = 2 \<or> d = 3 \<or> d = 4 \<or> d = 5 \<or> d = 6 \<or> d = 7 \<or> d = 8 \<or> d = 9"
    using assms by arith
  then show ?thesis by (elim disjE) (simp_all add: digit_char_def)
qed

lemma digit_char_props:
  assumes "d < 10"
  shows "is_digit (digit_char d)" "digit_val (digit_char d) = d"
    "\<not> py_space (digit_char d)" "digit_char d \<noteq> CHR ''-''" "digit_char d \<noteq> CHR ''+''"
    "digit_char d \<noteq> CHR '':''"
proof -
  note oc = digit_char_code [OF assms]
  show "is_digit (digit_char d)" "digit_val (digit_char d) = d" "\<not> py_space (digit_char d)"
    using assms oc by (auto simp: is_digit_def digit_val_def py_space_def)
  show "digit_char d \<noteq> CHR ''-''" "digit_char d \<noteq> CHR ''+''" "digit_char d \<noteq> CHR '':''"
    using assms oc by (auto dest!: arg_cong [where f = "of_char :: char \<Rightarrow> nat"])
qed

lemma nat_str_nonempty [simp]: "nat_str n \<noteq> []"
  by (subst nat_str.simps) simp

lemma nat_str_digits: "x \<in> set (nat_str n) \<Longrightarrow> \<exists>d < 10. x = digit_char d"
proof (induction n rule: nat_str.induct)
  case (1 n)
  show ?case
  proof (cases "n < 10")
    case True
    with "1.prems" show ?thesis by (auto simp: nat_str.simps [of n])
  next
    case False
    with "1.prems" have "x \<in> set (nat_str (n div 10)) \<or> x = digit_char (n mod 10)"
      by (auto simp: nat_str.simps [of n])
    moreover have "n mod 10 < 10" by simp
    ultimately show ?thesis using "1.IH" [OF False] by blast
  qed
qed

lemma digit_run_nat_str:
  "digit_run (nat_str n @ rest) acc prev = digit_run rest (acc * 10 ^ length (nat_str n) + n) True"
proof (induction n arbitrary: acc prev rest rule: nat_str.induct)
  case (1 n)
  show ?case
  proof (cases "n < 10")
    case True
    then show ?thesis by (simp add: nat_str.simps [of n] digit_char_props)
  next
    case False
    let ?m = "n div 10"
    have "digit_run (nat_str ?m @ digit_char (n mod 10) # rest) acc prev =
        digit_run (digit_char (n mod 10) # rest) (acc * 10 ^ length (nat_str ?m) + ?m) True"
      by (rule "1.IH" [OF False])
    with False show ?thesis
      by (simp add: nat_str.simps [of n] digit_char_props algebra_simps)
  qed
qed

lemma strip_nonspace:
  assumes "s \<noteq> []" "\<not> py_space (hd s)" "\<not> py_space (last s)"
  shows "py_strip s = s"
proof -
  have "dropWhile py_space s = s" using assms(1,2) by (cases s) auto
  moreover have "dropWhile py_space (rev s) = rev s"
    using assms(1,3) by (cases s rule: rev_cases) auto
  ultimately show ?thesis by (simp add: py_strip_def)
qed

lemma py_int_nat_str: "py_int (nat_str n) = Some (int n)"
proof -
  obtain c cs where ns: "nat_str n = c # cs" by (cases "nat_str n") auto
  have hd: "\<exists>d < 10. c = digit_char d" using nat_str_digits [of c n] ns by simp
  have "\<exists>d < 10. last (nat_str n) = digit_char d"
    using nat_str_digits [of "last (nat_str n)" n] by simp
  with hd ns have st: "py_strip (nat_str n) = nat_str n"
    by (intro strip_nonspace) (auto simp: digit_char_props)
  have run: "digit_run (nat_str n) 0 False = Some n"
    using digit_run_nat_str [of n "[]" 0 False] by simp
  from hd st run ns show ?thesis
    by (auto simp: py_int_def digit_char_props)
qed

lemma py_int_int_str: "0 \<le> i \<Longrightarrow> py_int (int_str i) = Some i"
  by (simp add: int_str_def py_int_nat_str)

lemma nat_str_no_colon: "CHR '':'' \<notin> set (nat_str n)"
  using nat_str_digits digit_char_props(6) by metis

lemma find_SomeD: "find P xs = Some x \<Longrightarrow> x \<in> set xs \<and> P x"
  by (auto simp: find_Some_iff)

lemma find_append: "find P (xs @ ys) = (case find P xs of None \<Rightarrow> find P ys | Some x \<Rightarrow> Some x)"
  by (induction xs) auto

lemma startswith_append [simp]: "py_startswith (p @ s) p"
  by (simp add: py_startswith_def)

lemma startswith_iff: "py_startswith s p \<longleftrightarrow> (\<exists>t. s = p @ t)"
proof
  assume "py_startswith s p"
  then show "\<exists>t. s = p @ t"
    by (metis append_take_drop_id py_startswith_def)
qed auto

lemma endswith_append [simp]: "py_endswith (s @ p) p"
  by (simp add: py_endswith_def)

lemma endswith_iff: "py_endswith s p \<longleftrightarrow> (\<exists>t. s = t @ p)"
proof
  assume "py_endswith s p"
  then show "\<exists>t. s = t @ p"
    by (metis append_take_drop_id py_endswith_def)
qed auto

text \<open>\<^verbatim>\<open>dict.fromkeys(xs)\<close>: the elements in the order of their first occurrence.\<close>

definition py_fromkeys :: "'a list \<Rightarrow> 'a list" where
  "py_fromkeys xs = rev (remdups (rev xs))"

lemma fromkeys_set [simp]: "set (py_fromkeys xs) = set xs" "distinct (py_fromkeys xs)"
  by (simp_all add: py_fromkeys_def)

lemma fromkeys_id [simp]: "distinct xs \<Longrightarrow> py_fromkeys xs = xs"
  unfolding py_fromkeys_def by (metis distinct_remdups_id distinct_rev rev_rev_ident)

end
