(* ===== verification/Agfs.thy ===== *)
theory Agfs
  imports Py_Prelude
begin

text \<open>
  The file service the Python storage code calls (\<^verbatim>\<open>AsyncAGFSClient\<close> over the RAGFS binding),
  as a record of operations on an abstract file-system state, and the laws its clients rely on, as
  the locale \<open>agfs_laws\<close>.  The provider modelled here is the in-memory plugin of
  \<^verbatim>\<open>crates/ragfs/src/plugins/memfs/mod.rs\<close>, reached through the binding of
  \<^verbatim>\<open>crates/ragfs-python/src/lib.rs\<close> (\<^verbatim>\<open>write\<close> uses the Create flag at offset 0, \<^verbatim>\<open>read\<close> reads
  the whole file, \<^verbatim>\<open>rm\<close> is \<^verbatim>\<open>remove\<close> or, with \<^verbatim>\<open>recursive\<close>, \<^verbatim>\<open>remove_all\<close>).  The
  interpretation \<open>mem\<close> discharges the laws for it.
  File modes and modification times are not modelled: no client reads them.
\<close>

section \<open>The interface\<close>

datatype agfs_error =
    NotFound path
  | AlreadyExists path
  | NotADirectory path
  | IsADirectory path
  | OtherError string

text \<open>A directory entry as the clients read it: \<^verbatim>\<open>entry["name"]\<close> and \<^verbatim>\<open>entry["isDir"]\<close>.\<close>

type_synonym dir_entry = "string \<times> bool"

record 'fs agfs =
  ag_stat :: "'fs \<Rightarrow> path \<Rightarrow> agfs_error + bool"
  ag_ls :: "'fs \<Rightarrow> path \<Rightarrow> agfs_error + dir_entry list"
  ag_read :: "'fs \<Rightarrow> path \<Rightarrow> agfs_error + string"
  ag_write :: "'fs \<Rightarrow> path \<Rightarrow> string \<Rightarrow> agfs_error + 'fs"
  ag_mkdir :: "'fs \<Rightarrow> path \<Rightarrow> agfs_error + 'fs"
  ag_rm :: "'fs \<Rightarrow> path \<Rightarrow> agfs_error + 'fs"
  ag_rm_all :: "'fs \<Rightarrow> path \<Rightarrow> agfs_error + 'fs"

text \<open>An absolute path without empty segments (so without a trailing slash), the form the storage
  components pass.\<close>

definition clean_path :: "path \<Rightarrow> bool" where
  "clean_path p =
     (case p of
        [] \<Rightarrow> False
      | c # r \<Rightarrow> c = CHR ''/'' \<and> (r = [] \<or> [] \<notin> set (py_split CHR ''/'' r)))"

text \<open>The child \<^verbatim>\<open>name\<close> of directory \<^verbatim>\<open>p\<close>.\<close>

definition child_path :: "path \<Rightarrow> string \<Rightarrow> path" where
  "child_path p name = (if p = ''/'' then ''/'' @ name else p @ ''/'' @ name)"

definition entry_name :: "string \<Rightarrow> bool" where
  "entry_name name \<longleftrightarrow> name \<noteq> [] \<and> CHR ''/'' \<notin> set name"

section \<open>The in-memory plugin\<close>

datatype file_entry = FileData string | DirEntry

type_synonym memfs = "(path, file_entry) dict"

definition mem_new :: memfs where
  "mem_new = [(''/'', DirEntry)]"

definition normalize_path :: "path \<Rightarrow> path" where
  "normalize_path p =
     (if p = [] \<or> p = ''/'' then ''/''
      else (let n = (if py_startswith p ''/'' then p else CHR ''/'' # p)
            in if 1 < length n \<and> py_endswith n ''/'' then butlast n else n))"

definition parent_path :: "path \<Rightarrow> path option" where
  "parent_path p =
     (if p = ''/'' then None
      else (let parts = py_split CHR ''/'' (normalize_path p)
            in if length parts \<le> 2 then Some ''/''
               else Some (py_join CHR ''/'' (butlast parts))))"

definition file_name :: "path \<Rightarrow> string" where
  "file_name p =
     (if p = ''/'' then ''/'' else last (py_split CHR ''/'' (normalize_path p)))"

definition list_entries :: "memfs \<Rightarrow> path \<Rightarrow> path list" where
  "list_entries s d =
     (let nd = normalize_path d; pre = (if nd = ''/'' then ''/'' else nd @ ''/'')
      in filter (\<lambda>p. p \<noteq> nd \<and> py_startswith p pre \<and> CHR ''/'' \<notin> set (drop (length pre) p))
           (map fst s))"

text \<open>The parent check that \<^verbatim>\<open>mkdir\<close> and a creating \<^verbatim>\<open>write\<close> share; \<open>None\<close> lets the operation go on.\<close>

definition check_parent :: "memfs \<Rightarrow> path \<Rightarrow> agfs_error option" where
  "check_parent s n =
     (case parent_path n of
        None \<Rightarrow> None
      | Some q \<Rightarrow>
          (case map_of s q of
             Some DirEntry \<Rightarrow> None
           | Some (FileData _) \<Rightarrow> Some (NotADirectory q)
           | None \<Rightarrow> Some (NotFound q)))"

definition mem_mkdir :: "memfs \<Rightarrow> path \<Rightarrow> agfs_error + memfs" where
  "mem_mkdir s p =
     (let n = normalize_path p
      in if map_of s n \<noteq> None then Inl (AlreadyExists n)
         else (case check_parent s n of
                 Some e \<Rightarrow> Inl e
               | None \<Rightarrow> Inr (AList.update n DirEntry s)))"

definition mem_remove :: "memfs \<Rightarrow> path \<Rightarrow> agfs_error + memfs" where
  "mem_remove s p =
     (let n = normalize_path p
      in case map_of s n of
           Some DirEntry \<Rightarrow> Inl (IsADirectory n)
         | Some (FileData _) \<Rightarrow> Inr (AList.delete n s)
         | None \<Rightarrow> Inl (NotFound n))"

definition mem_remove_all :: "memfs \<Rightarrow> path \<Rightarrow> agfs_error + memfs" where
  "mem_remove_all s p =
     (let n = normalize_path p
      in if map_of s n = None then Inl (NotFound n)
         else Inr (filter (\<lambda>(q, _). \<not> (q = n \<or> py_startswith q (n @ ''/''))) s))"

definition mem_read :: "memfs \<Rightarrow> path \<Rightarrow> agfs_error + string" where
  "mem_read s p =
     (let n = normalize_path p
      in case map_of s n of
           Some DirEntry \<Rightarrow> Inl (IsADirectory n)
         | Some (FileData d) \<Rightarrow> Inr d
         | None \<Rightarrow> Inl (NotFound n))"

definition mem_write :: "memfs \<Rightarrow> path \<Rightarrow> string \<Rightarrow> agfs_error + memfs" where
  "mem_write s p d =
     (let n = normalize_path p
      in case map_of s n of
           Some DirEntry \<Rightarrow> Inl (IsADirectory n)
         | Some (FileData _) \<Rightarrow> Inr (AList.update n (FileData d) s)
         | None \<Rightarrow>
             (case check_parent s n of
                Some e \<Rightarrow> Inl e
              | None \<Rightarrow> Inr (AList.update n (FileData d) s)))"

definition mem_stat :: "memfs \<Rightarrow> path \<Rightarrow> agfs_error + bool" where
  "mem_stat s p =
     (let n = normalize_path p
      in case map_of s n of Some e \<Rightarrow> Inr (e = DirEntry) | None \<Rightarrow> Inl (NotFound n))"

definition mem_read_dir :: "memfs \<Rightarrow> path \<Rightarrow> agfs_error + dir_entry list" where
  "mem_read_dir s p =
     (let n = normalize_path p
      in case map_of s n of
           Some DirEntry \<Rightarrow>
             Inr (map (\<lambda>c. (file_name c, map_of s c = Some DirEntry)) (list_entries s n))
         | Some (FileData _) \<Rightarrow> Inl (NotADirectory n)
         | None \<Rightarrow> Inl (NotFound n))"

definition mem_agfs :: "memfs agfs" where
  "mem_agfs =
     \<lparr>ag_stat = mem_stat, ag_ls = mem_read_dir, ag_read = mem_read, ag_write = mem_write,
      ag_mkdir = mem_mkdir, ag_rm = mem_remove, ag_rm_all = mem_remove_all\<rparr>"

text \<open>The store invariant: the keys are distinct, the root is a directory, and every other entry
  lies in a directory that exists.\<close>

definition mem_inv :: "memfs \<Rightarrow> bool" where
  "mem_inv s \<longleftrightarrow>
     distinct (map fst s) \<and> map_of s ''/'' = Some DirEntry \<and>
     (\<forall>p \<in> fst ` set s. p \<noteq> ''/'' \<longrightarrow> check_parent s p = None)"

definition mem_files :: "memfs \<Rightarrow> nat" where
  "mem_files s = length s"

section \<open>The laws\<close>

text \<open>
  \<open>canon\<close> is the provider's normal form of a path; \<open>inv\<close> its store invariant and \<open>fsize\<close> a size
  that removing a file decreases.
\<close>

locale agfs_laws =
  fixes A :: "'fs agfs"
    and inv :: "'fs \<Rightarrow> bool"
    and canon :: "path \<Rightarrow> path"
    and fsize :: "'fs \<Rightarrow> nat"
  assumes canon_clean: "clean_path p \<Longrightarrow> canon p = p"
    and write_inv: "inv s \<Longrightarrow> ag_write A s p d = Inr s' \<Longrightarrow> inv s'"
    and mkdir_inv: "inv s \<Longrightarrow> ag_mkdir A s p = Inr s' \<Longrightarrow> inv s'"
    and rm_inv: "inv s \<Longrightarrow> ag_rm A s p = Inr s' \<Longrightarrow> inv s'"
    and read_canon: "canon p = canon q \<Longrightarrow> ag_read A s p = ag_read A s q"
    and read_write:
      "inv s \<Longrightarrow> ag_write A s p d = Inr s' \<Longrightarrow>
       ag_read A s' q = (if canon q = canon p then Inr d else ag_read A s q)"
    and stat_write:
      "inv s \<Longrightarrow> ag_write A s p d = Inr s' \<Longrightarrow>
       ag_stat A s' q = (if canon q = canon p then Inr False else ag_stat A s q)"
    and read_rm:
      "inv s \<Longrightarrow> ag_rm A s p = Inr s' \<Longrightarrow>
       ag_read A s' q = (if canon q = canon p then Inl (NotFound (canon p)) else ag_read A s q)"
    and stat_rm:
      "inv s \<Longrightarrow> ag_rm A s p = Inr s' \<Longrightarrow>
       ag_stat A s' q = (if canon q = canon p then Inl (NotFound (canon p)) else ag_stat A s q)"
    and rm_readable: "ag_read A s p = Inr d \<Longrightarrow> \<exists>s'. ag_rm A s p = Inr s'"
    and rm_unreadable: "ag_read A s p = Inl e \<Longrightarrow> ag_rm A s p = Inl e"
    and rm_size: "inv s \<Longrightarrow> ag_rm A s p = Inr s' \<Longrightarrow> fsize s' < fsize s"
    and read_mkdir:
      "inv s \<Longrightarrow> ag_mkdir A s p = Inr s' \<Longrightarrow> (ag_read A s' q = Inr d) = (ag_read A s q = Inr d)"
    and stat_mkdir:
      "inv s \<Longrightarrow> ag_mkdir A s p = Inr s' \<Longrightarrow>
       ag_stat A s' q = (if canon q = canon p then Inr True else ag_stat A s q)"
    and write_not_dir: "ag_write A s p d = Inr s' \<Longrightarrow> ag_stat A s p \<noteq> Inr True"
    and mkdir_absent: "ag_mkdir A s p = Inr s' \<Longrightarrow> \<exists>e. ag_stat A s p = Inl e"
    and stat_canon: "canon p = canon q \<Longrightarrow> ag_stat A s p = ag_stat A s q"
    and read_stat: "ag_read A s p = Inr d \<Longrightarrow> ag_stat A s p = Inr False"
    and write_child:
      "inv s \<Longrightarrow> clean_path p \<Longrightarrow> entry_name name \<Longrightarrow> ag_stat A s p = Inr True \<Longrightarrow>
       ag_stat A s (child_path p name) \<noteq> Inr True \<Longrightarrow>
       \<exists>s'. ag_write A s (child_path p name) d = Inr s'"
    and ls_dir: "ag_stat A s p = Inr True \<Longrightarrow> \<exists>es. ag_ls A s p = Inr es"
    and ls_child:
      "inv s \<Longrightarrow> clean_path p \<Longrightarrow> entry_name name \<Longrightarrow> ag_ls A s p = Inr es \<Longrightarrow>
       ag_stat A s (child_path p name) = Inr b \<Longrightarrow> (name, b) \<in> set es"

section \<open>The plugin satisfies the laws\<close>

lemma clean_root [simp]: "clean_path ''/''"
  by (simp add: clean_path_def)

lemma clean_Cons: "r \<noteq> [] \<Longrightarrow> clean_path (CHR ''/'' # r) \<longleftrightarrow> [] \<notin> set (py_split CHR ''/'' r)"
  by (simp add: clean_path_def)

lemma clean_cases:
  assumes "clean_path p"
  obtains "p = ''/''"
  | r where "p = CHR ''/'' # r" "r \<noteq> []" "[] \<notin> set (py_split CHR ''/'' r)" "last p \<noteq> CHR ''/''"
proof (cases p)
  case Nil
  with assms show ?thesis by (simp add: clean_path_def)
next
  case (Cons c r)
  show ?thesis
  proof (cases "r = []")
    case True
    with Cons assms that(1) show ?thesis by (simp add: clean_path_def)
  next
    case False
    have "last r \<noteq> CHR ''/''"
    proof
      assume "last r = CHR ''/''"
      with False obtain r' where "r = r' @ [CHR ''/'']" by (metis append_butlast_last_id)
      then have "py_split CHR ''/'' r = py_split CHR ''/'' r' @ [[]]"
        using split_snoc_sep [of "CHR ''/''" "[]" r'] by simp
      with Cons False assms show False by (simp add: clean_path_def)
    qed
    with False Cons assms that(2) show ?thesis by (simp add: clean_path_def)
  qed
qed

lemma clean_append:
  assumes "q \<noteq> []" "CHR ''/'' \<notin> set n"
  shows "clean_path (q @ CHR ''/'' # n) \<longleftrightarrow> clean_path q \<and> q \<noteq> ''/'' \<and> n \<noteq> []"
proof -
  obtain c q' where q: "q = c # q'" using assms(1) by (cases q) auto
  have "py_split CHR ''/'' (q' @ CHR ''/'' # n) = py_split CHR ''/'' q' @ [n]"
    using assms(2) by (rule split_snoc_sep)
  then show ?thesis using q by (cases "q' = []") (auto simp: clean_path_def)
qed

lemma endswith_slash: "p \<noteq> [] \<Longrightarrow> py_endswith p ''/'' \<longleftrightarrow> last p = CHR ''/''"
  by (cases p rule: rev_cases) (auto simp: endswith_iff)

lemma normalize_clean: "clean_path p \<Longrightarrow> normalize_path p = p"
  by (erule clean_cases) (auto simp: normalize_path_def py_startswith_def endswith_slash Let_def)

lemma clean_child: "clean_path p \<Longrightarrow> entry_name name \<Longrightarrow> clean_path (child_path p name)"
  by (cases "p = ''/''"; cases p)
    (auto simp: child_path_def entry_name_def clean_append clean_Cons split_single clean_path_def
        split_snoc_sep)

lemma split_child:
  "clean_path p \<Longrightarrow> entry_name name \<Longrightarrow> p \<noteq> ''/'' \<Longrightarrow>
   py_split CHR ''/'' (child_path p name) = py_split CHR ''/'' p @ [name]"
  by (simp add: child_path_def entry_name_def split_snoc_sep)

lemma child_not_root: "entry_name name \<Longrightarrow> child_path p name \<noteq> ''/''"
  by (cases p) (auto simp: child_path_def entry_name_def)

lemma parent_child:
  assumes "clean_path p" "entry_name name"
  shows "parent_path (child_path p name) = Some p"
proof (cases "p = ''/''")
  case True
  with assms have n: "normalize_path (''/'' @ name) = ''/'' @ name"
    using normalize_clean [OF clean_child [OF assms]] by (simp add: child_path_def)
  have sp: "py_split CHR ''/'' (''/'' @ name) = [[], name]"
    using assms by (simp add: entry_name_def split_single)
  show ?thesis
    using True n sp assms by (simp add: parent_path_def child_path_def entry_name_def)
next
  case False
  have n: "normalize_path (child_path p name) = child_path p name"
    by (rule normalize_clean [OF clean_child [OF assms]])
  have "2 \<le> length (py_split CHR ''/'' p)"
    using assms(1) by (intro split_sep_length) (auto elim: clean_cases)
  then show ?thesis
    using False assms n child_not_root [OF assms(2)]
    by (simp add: parent_path_def Let_def split_child split_join)
qed

lemma name_child:
  assumes "clean_path p" "entry_name name"
  shows "file_name (child_path p name) = name"
proof -
  have n: "normalize_path (child_path p name) = child_path p name"
    by (rule normalize_clean [OF clean_child [OF assms]])
  have ne: "child_path p name \<noteq> ''/''"
    by (rule child_not_root [OF assms(2)])
  show ?thesis
  proof (cases "p = ''/''")
    case True
    with assms n ne show ?thesis by (simp add: file_name_def child_path_def entry_name_def split_single)
  next
    case False
    with assms n ne show ?thesis by (simp add: file_name_def split_child)
  qed
qed

lemma check_parent_update:
  "check_parent s k = None \<Longrightarrow> map_of s n \<noteq> Some DirEntry \<or> e = DirEntry \<Longrightarrow>
   check_parent (AList.update n e s) k = None"
  by (auto simp: check_parent_def split: option.splits file_entry.splits)

lemma check_parent_delete:
  "check_parent s k = None \<Longrightarrow> map_of s n \<noteq> Some DirEntry \<Longrightarrow>
   check_parent (AList.delete n s) k = None"
  by (auto simp: check_parent_def split: option.splits file_entry.splits)

lemma mem_inv_new: "mem_inv mem_new"
  by (simp add: mem_inv_def mem_new_def)

lemma mem_inv_update:
  assumes "mem_inv s" "check_parent s n = None \<or> map_of s n \<noteq> None"
    and "map_of s n \<noteq> Some DirEntry"
  shows "mem_inv (AList.update n e s)"
proof -
  have "n \<noteq> ''/''" using assms(1,3) by (auto simp: mem_inv_def)
  moreover have "check_parent s n = None"
    using assms \<open>n \<noteq> ''/''\<close> by (force simp: mem_inv_def dest: map_of_SomeD)
  ultimately show ?thesis
    using assms(1,3)
    by (auto simp: mem_inv_def distinct_update dict_keys_set intro!: check_parent_update)
qed

lemma mem_inv_delete:
  assumes "mem_inv s" "map_of s n \<noteq> Some DirEntry"
  shows "mem_inv (AList.delete n s)"
  using assms
  by (auto simp: mem_inv_def distinct_delete dict_keys_del intro!: check_parent_delete)

lemma mem_delete_shorter: "map_of s n = Some e \<Longrightarrow> length (AList.delete n s) < length s"
  by (induction s) (auto simp: less_Suc_eq_le length_delete_le split: if_splits)

lemma mem_list_child:
  assumes "clean_path p" "entry_name name" "map_of s (child_path p name) = Some e"
  shows "child_path p name \<in> set (list_entries s p)"
proof -
  have "child_path p name \<in> set (map fst s)"
    using assms(3) by (force dest: map_of_SomeD)
  then show ?thesis
    using assms(1,2)
    by (auto simp: list_entries_def Let_def normalize_clean child_path_def entry_name_def
        py_startswith_def)
qed

interpretation mem: agfs_laws mem_agfs mem_inv normalize_path mem_files
proof (unfold_locales, goal_cases)
  case 1
  then show ?case by (rule normalize_clean)
next
  case 2
  then show ?case
    by (auto simp: mem_agfs_def mem_write_def Let_def intro!: mem_inv_update
        split: option.splits file_entry.splits)
next
  case 3
  then show ?case
    by (auto simp: mem_agfs_def mem_mkdir_def Let_def intro!: mem_inv_update
        split: option.splits if_splits)
next
  case 4
  then show ?case
    by (auto simp: mem_agfs_def mem_remove_def Let_def intro!: mem_inv_delete
        split: option.splits file_entry.splits)
next
  case 12
  then show ?case
    by (auto simp: mem_agfs_def mem_remove_def mem_files_def Let_def mem_delete_shorter
        split: option.splits file_entry.splits)
next
  case (19 s p name d)
  then show ?case
    using parent_child [of p name] normalize_clean [OF clean_child [of p name]]
    by (auto simp: mem_agfs_def mem_write_def mem_stat_def check_parent_def Let_def normalize_clean
        split: option.splits file_entry.splits)
next
  case (21 s p name es b)
  have n: "normalize_path (child_path p name) = child_path p name" "normalize_path p = p"
    using 21(2,3) by (simp_all add: normalize_clean clean_child)
  obtain e where e: "map_of s (child_path p name) = Some e" "b = (e = DirEntry)"
    using 21(5) n by (auto simp: mem_agfs_def mem_stat_def Let_def split: option.splits)
  have "child_path p name \<in> set (list_entries s p)"
    using 21(2,3) e(1) by (rule mem_list_child)
  then show ?case
    using 21(4) n e name_child [OF 21(2,3)]
    by (force simp: mem_agfs_def mem_read_dir_def Let_def split: option.splits file_entry.splits)
qed (auto simp: mem_agfs_def mem_write_def mem_read_def mem_remove_def mem_mkdir_def mem_stat_def
    mem_read_dir_def Let_def split: option.splits file_entry.splits if_splits)

end
