(* ===== verification/Fencing_Token.thy ===== *)
theory Fencing_Token
  imports Py_Prelude
begin

text \<open>
  The fencing tokens that lock files hold (\<^verbatim>\<open>openviking/storage/transaction/path_lock.py\<close>, module
  level): the owner's id, the time of the write in nanoseconds and the lock type, separated by
  colons.  Tokens are printed by \<open>make_fencing_token\<close> and read back by \<open>parse_fencing_token\<close>, which
  also accepts the lock types of older releases and tokens without a time stamp.
\<close>

datatype lock_type = EXACT | TREE

fun lock_type_code :: "lock_type \<Rightarrow> string" where
  "lock_type_code EXACT = ''E''"
| "lock_type_code TREE = ''T''"

definition LOCK_FILE_NAME :: string where
  "LOCK_FILE_NAME = ''.path.ovlock''"

definition EXACT_LOCK_FILE_PREFIX :: string where
  "EXACT_LOCK_FILE_PREFIX = ''.exact.ovlock.''"

definition READ_ONLY_TREE_LOCK_TYPES :: "char list" where
  "READ_ONLY_TREE_LOCK_TYPES = [CHR ''P'', CHR ''S'']"

definition known_types :: "char list" where
  "known_types = CHR ''E'' # CHR ''T'' # READ_ONLY_TREE_LOCK_TYPES"

definition lock_type_of_char :: "char \<Rightarrow> lock_type" where
  "lock_type_of_char c =
     (if c \<in> set READ_ONLY_TREE_LOCK_TYPES then TREE
      else if c = CHR ''T'' then TREE else EXACT)"

text \<open>\<open>now\<close> is \<^verbatim>\<open>time.time_ns()\<close> at the call.\<close>

definition make_fencing_token :: "int \<Rightarrow> string \<Rightarrow> lock_type \<Rightarrow> string" where
  "make_fencing_token now owner_id ty = owner_id @ '':'' @ int_str now @ '':'' @ lock_type_code ty"

definition parse_fencing_token :: "string \<Rightarrow> string \<times> int \<times> lock_type" where
  "parse_fencing_token token =
     (let n = length token
      in if 2 \<le> n \<and> token ! (n - 2) = CHR '':'' \<and> token ! (n - 1) \<in> set known_types
         then (let ty = lock_type_of_char (token ! (n - 1)); rest = take (n - 2) token
               in case py_rsplit1 CHR '':'' rest of
                    Some (owner_part, ts_part) \<Rightarrow>
                      (case py_int ts_part of
                         Some ts \<Rightarrow> (owner_part, ts, ty)
                       | None \<Rightarrow> (rest, 0, ty))
                  | None \<Rightarrow> (rest, 0, ty))
         else (token, 0, EXACT))"

definition token_owner :: "string \<Rightarrow> string" where
  "token_owner token = fst (parse_fencing_token token)"

definition token_time :: "string \<Rightarrow> int" where
  "token_time token = fst (snd (parse_fencing_token token))"

definition token_type :: "string \<Rightarrow> lock_type" where
  "token_type token = snd (snd (parse_fencing_token token))"

lemma parse_split: "parse_fencing_token t = (token_owner t, token_time t, token_type t)"
  by (simp add: token_owner_def token_time_def token_type_def)

lemma parse_make:
  assumes "0 \<le> now"
  shows "parse_fencing_token (make_fencing_token now oid ty) = (oid, now, ty)"
proof -
  let ?body = "oid @ CHR '':'' # int_str now"
  have tok: "make_fencing_token now oid ty = ?body @ CHR '':'' # lock_type_code ty"
    by (simp add: make_fencing_token_def)
  have len: "length (make_fencing_token now oid ty) = length ?body + 2"
    unfolding tok by (cases ty) simp_all
  have c1: "make_fencing_token now oid ty ! (length ?body) = CHR '':''"
    unfolding tok by (metis nth_append_length)
  have c2: "make_fencing_token now oid ty ! (length ?body + 1) = hd (lock_type_code ty)"
    unfolding tok by (cases ty) (simp_all add: nth_append)
  have tk: "take (length ?body) (make_fencing_token now oid ty) = ?body"
    unfolding tok by simp
  have "CHR '':'' \<notin> set (int_str now)"
    using assms by (simp add: int_str_def nat_str_no_colon)
  then have sp: "py_rsplit1 CHR '':'' ?body = Some (oid, int_str now)"
    by (rule rsplit1_append)
  have known: "hd (lock_type_code ty) \<in> set known_types" "lock_type_of_char (hd (lock_type_code ty)) = ty"
    by (cases ty; simp add: known_types_def READ_ONLY_TREE_LOCK_TYPES_def lock_type_of_char_def)+
  show ?thesis
    unfolding parse_fencing_token_def Let_def len
    using c1 c2 tk sp known py_int_int_str [OF assms] by (simp add: numeral_2_eq_2)
qed

lemma token_make [simp]:
  assumes "0 \<le> now"
  shows "token_owner (make_fencing_token now oid ty) = oid"
    "token_time (make_fencing_token now oid ty) = now"
    "token_type (make_fencing_token now oid ty) = ty"
  using parse_make [OF assms] by (simp_all add: token_owner_def token_time_def token_type_def)

text \<open>Reading strips white space; owner ids do not start with any.\<close>

definition plain_owner :: "string \<Rightarrow> bool" where
  "plain_owner oid \<longleftrightarrow> oid = [] \<or> \<not> py_space (hd oid)"

lemma strip_make [simp]:
  assumes "plain_owner oid"
  shows "py_strip (make_fencing_token now oid ty) = make_fencing_token now oid ty"
proof (rule strip_nonspace)
  have "last (make_fencing_token now oid ty) = hd (lock_type_code ty)"
    by (cases ty) (simp_all add: make_fencing_token_def)
  then show "\<not> py_space (last (make_fencing_token now oid ty))"
    by (cases ty) (simp_all add: py_space_def)
  show "\<not> py_space (hd (make_fencing_token now oid ty))"
    using assms by (cases oid) (auto simp: plain_owner_def make_fencing_token_def py_space_def)
qed (simp add: make_fencing_token_def)

lemma make_nonempty [simp]: "make_fencing_token now oid ty \<noteq> []"
  by (simp add: make_fencing_token_def)

end
