(* ===== verification/Path_Lock.thy ===== *)
theory Path_Lock
  imports Agfs Fencing_Token
begin

text \<open>
  The path-lock engine (\<^verbatim>\<open>PathLockEngine\<close> of \<^verbatim>\<open>openviking/storage/transaction/path_lock.py\<close>) and
  the lock handle it updates (\<^verbatim>\<open>lock_handle.py\<close>).

  An engine is its AGFS client, the expiry in nanoseconds, the digest of
  \<^verbatim>\<open>hashlib.sha1(path).hexdigest()[:16]\<close> (a parameter) and what the rest of the system does while
  a task sleeps (a parameter: other tasks may run and the clock advances).  The world is the file
  system and the clock; both clocks of the code (\<^verbatim>\<open>time.time_ns\<close> and the event loop's) are the one
  field \<open>now\<close>, in nanoseconds, and an AGFS call takes no time.  Between two calls of one attempt no
  other task runs; other tasks run at the sleeps.

  A synchronous method and its \<^verbatim>\<open>_async\<close> twin perform the same reads, so the twin is the same
  function.  The loops of \<^verbatim>\<open>acquire_exact_path\<close> and \<^verbatim>\<open>acquire_tree\<close> and the directory scan take
  fuel; \<open>None\<close> is running out of it.
\<close>

section \<open>State\<close>

record lock_handle =
  h_id :: string
  h_locks :: "path list"
  h_created_at :: int
  h_last_active_at :: int

definition new_handle :: "string \<Rightarrow> int \<Rightarrow> lock_handle" where
  "new_handle i t = \<lparr>h_id = i, h_locks = [], h_created_at = t, h_last_active_at = t\<rparr>"

definition add_lock :: "path \<Rightarrow> lock_handle \<Rightarrow> lock_handle" where
  "add_lock lp h = (if lp \<in> set (h_locks h) then h else h\<lparr>h_locks := h_locks h @ [lp]\<rparr>)"

definition remove_lock :: "path \<Rightarrow> lock_handle \<Rightarrow> lock_handle" where
  "remove_lock lp h = (if lp \<in> set (h_locks h) then h\<lparr>h_locks := remove1 lp (h_locks h)\<rparr> else h)"

record 'fs world =
  fs :: 'fs
  now :: int

record 'fs engine =
  eng_agfs :: "'fs agfs"
  eng_expire :: int
  eng_digest :: "path \<Rightarrow> string"
  eng_sleep :: "int \<Rightarrow> 'fs world \<Rightarrow> 'fs world"

definition POLL_INTERVAL :: int where
  "POLL_INTERVAL = 100000000"

section \<open>Lock paths\<close>

definition strip_slash :: "path \<Rightarrow> path" where
  "strip_slash p = (let r = py_rstrip CHR ''/'' p in if r = [] then ''/'' else r)"

definition get_lock_path :: "path \<Rightarrow> path" where
  "get_lock_path path =
     (let p = strip_slash path
      in if p = ''/'' then ''/'' @ LOCK_FILE_NAME else p @ ''/'' @ LOCK_FILE_NAME)"

definition get_parent_path :: "path \<Rightarrow> path option" where
  "get_parent_path path =
     (case py_rsplit1 CHR ''/'' (py_rstrip CHR ''/'' path) of
        None \<Rightarrow> None
      | Some (parent, _) \<Rightarrow> if parent = [] then None else Some parent)"

definition is_existing_directory :: "'fs engine \<Rightarrow> 'fs world \<Rightarrow> path \<Rightarrow> bool" where
  "is_existing_directory E w path = (ag_stat (eng_agfs E) (fs w) (strip_slash path) = Inr True)"

definition is_existing_directory_async :: "'fs engine \<Rightarrow> 'fs world \<Rightarrow> path \<Rightarrow> bool" where
  "is_existing_directory_async = is_existing_directory"

definition is_existing_path_async :: "'fs engine \<Rightarrow> 'fs world \<Rightarrow> path \<Rightarrow> bool" where
  "is_existing_path_async E w path =
     (case ag_stat (eng_agfs E) (fs w) (strip_slash path) of Inl _ \<Rightarrow> False | Inr _ \<Rightarrow> True)"

definition safe_char :: "char \<Rightarrow> bool" where
  "safe_char c \<longleftrightarrow>
     CHR ''A'' \<le> c \<and> c \<le> CHR ''Z'' \<or> CHR ''a'' \<le> c \<and> c \<le> CHR ''z'' \<or>
     CHR ''0'' \<le> c \<and> c \<le> CHR ''9'' \<or> c = CHR ''.'' \<or> c = CHR ''_'' \<or> c = CHR ''-''"

text \<open>\<^verbatim>\<open>re.sub(r"[^A-Za-z0-9._-]+", "_", name)\<close>; the flag says that the previous character was
  part of a replaced run.\<close>

fun sub_unsafe :: "bool \<Rightarrow> string \<Rightarrow> string" where
  "sub_unsafe in_run [] = []"
| "sub_unsafe in_run (c # cs) =
     (if safe_char c then c # sub_unsafe False cs
      else if in_run then sub_unsafe True cs
      else CHR ''_'' # sub_unsafe True cs)"

definition strip_dots :: "string \<Rightarrow> string" where
  "strip_dots s =
     (let P = (\<lambda>c. c = CHR ''.'' \<or> c = CHR ''_'') in rev (dropWhile P (rev (dropWhile P s))))"

definition safe_name :: "string \<Rightarrow> string" where
  "safe_name name =
     (let s = strip_dots (sub_unsafe False name) in take 80 (if s = [] then ''path'' else s))"

definition get_prefixed_exact_lock_path :: "'fs engine \<Rightarrow> path \<Rightarrow> path" where
  "get_prefixed_exact_lock_path E path0 =
     (let path = strip_slash path0
      in case get_parent_path path of
           None \<Rightarrow> get_lock_path path
         | Some parent \<Rightarrow>
             (let name = (case py_rsplit1 CHR ''/'' path of Some (_, b) \<Rightarrow> b | None \<Rightarrow> path)
              in parent @ ''/'' @ EXACT_LOCK_FILE_PREFIX @ safe_name name @ ''.'' @ eng_digest E path))"

definition get_exact_lock_path :: "'fs engine \<Rightarrow> 'fs world \<Rightarrow> path \<Rightarrow> path" where
  "get_exact_lock_path E w path =
     (if is_existing_directory E w path then get_lock_path path
      else get_prefixed_exact_lock_path E path)"

definition get_exact_lock_paths :: "'fs engine \<Rightarrow> 'fs world \<Rightarrow> path \<Rightarrow> path list" where
  "get_exact_lock_paths E w path =
     (let primary = get_exact_lock_path E w path; prefixed = get_prefixed_exact_lock_path E path
      in if primary = prefixed then [primary] else [primary, prefixed])"

definition get_exact_lock_path_async :: "'fs engine \<Rightarrow> 'fs world \<Rightarrow> path \<Rightarrow> path" where
  "get_exact_lock_path_async E w path =
     (if is_existing_directory_async E w path then get_lock_path path
      else get_prefixed_exact_lock_path E path)"

definition get_exact_lock_paths_async :: "'fs engine \<Rightarrow> 'fs world \<Rightarrow> path \<Rightarrow> path list" where
  "get_exact_lock_paths_async E w path =
     (let primary = get_exact_lock_path_async E w path;
          prefixed = get_prefixed_exact_lock_path E path
      in if primary = prefixed then [primary] else [primary, prefixed])"

lemma get_parent_shorter: "get_parent_path p = Some q \<Longrightarrow> length q < length p"
  by (auto simp: get_parent_path_def split: option.splits if_splits
      dest!: rsplit1_shorter intro: less_le_trans [OF _ rstrip_length])

text \<open>The ancestors a \<^verbatim>\<open>while parent:\<close> loop visits, nearest first.\<close>

function ancestors :: "path \<Rightarrow> path list" where
  "ancestors path =
     (case get_parent_path path of None \<Rightarrow> [] | Some parent \<Rightarrow> parent # ancestors parent)"
  by pat_completeness auto
termination
  by (relation "measure length") (auto dest: get_parent_shorter)

declare ancestors.simps [simp del]

function ensure_directory_exists_async :: "'fs engine \<Rightarrow> path \<Rightarrow> 'fs world \<Rightarrow> 'fs world \<times> bool" where
  "ensure_directory_exists_async E path w =
     (case ag_stat (eng_agfs E) (fs w) path of
        Inr _ \<Rightarrow> (w, True)
      | Inl _ \<Rightarrow>
          (let w' = (case get_parent_path path of
                       None \<Rightarrow> w
                     | Some parent \<Rightarrow> fst (ensure_directory_exists_async E parent w))
           in case ag_mkdir (eng_agfs E) (fs w') path of
                Inr s \<Rightarrow> (w'\<lparr>fs := s\<rparr>, True)
              | Inl _ \<Rightarrow> (w', is_existing_directory_async E w' path)))"
  by pat_completeness auto
termination
  by (relation "measure (\<lambda>(E, path, w). length path)") (auto dest: get_parent_shorter)

declare ensure_directory_exists_async.simps [simp del]

section \<open>Reading lock files\<close>

definition read_token :: "'fs engine \<Rightarrow> 'fs world \<Rightarrow> path \<Rightarrow> string option" where
  "read_token E w lock_path =
     (case ag_read (eng_agfs E) (fs w) lock_path of
        Inl _ \<Rightarrow> None
      | Inr content \<Rightarrow> (let token = py_strip content in if token = [] then None else Some token))"

definition read_token_async :: "'fs engine \<Rightarrow> 'fs world \<Rightarrow> path \<Rightarrow> string option" where
  "read_token_async = read_token"

definition read_owner_and_type ::
    "'fs engine \<Rightarrow> 'fs world \<Rightarrow> path \<Rightarrow> string option \<times> lock_type option" where
  "read_owner_and_type E w lock_path =
     (case read_token E w lock_path of
        None \<Rightarrow> (None, None)
      | Some token \<Rightarrow> (let (owner_id, _, ty) = parse_fencing_token token in (Some owner_id, Some ty)))"

definition read_owner_and_type_async ::
    "'fs engine \<Rightarrow> 'fs world \<Rightarrow> path \<Rightarrow> string option \<times> lock_type option" where
  "read_owner_and_type_async E w lock_path =
     (case read_token_async E w lock_path of
        None \<Rightarrow> (None, None)
      | Some token \<Rightarrow> (let (owner_id, _, ty) = parse_fencing_token token in (Some owner_id, Some ty)))"

definition is_lock_owned_by :: "'fs engine \<Rightarrow> 'fs world \<Rightarrow> path \<Rightarrow> string \<Rightarrow> bool" where
  "is_lock_owned_by E w lock_path owner_id =
     (fst (read_owner_and_type E w lock_path) = Some owner_id)"

definition is_lock_owned_by_async :: "'fs engine \<Rightarrow> 'fs world \<Rightarrow> path \<Rightarrow> string \<Rightarrow> bool" where
  "is_lock_owned_by_async E w lock_path owner_id =
     (fst (read_owner_and_type_async E w lock_path) = Some owner_id)"

definition is_lock_stale :: "'fs engine \<Rightarrow> 'fs world \<Rightarrow> path \<Rightarrow> int \<Rightarrow> bool" where
  "is_lock_stale E w lock_path expire =
     (case read_token E w lock_path of
        None \<Rightarrow> True
      | Some token \<Rightarrow>
          (let (_, ts, _) = parse_fencing_token token
           in if ts = 0 then True else expire < now w - ts))"

definition is_lock_stale_async :: "'fs engine \<Rightarrow> 'fs world \<Rightarrow> path \<Rightarrow> int \<Rightarrow> bool" where
  "is_lock_stale_async = is_lock_stale"

text \<open>The three checks of \<^verbatim>\<open>is_locked\<close>, each with its early return.\<close>

definition live_lock :: "'fs engine \<Rightarrow> 'fs world \<Rightarrow> bool \<Rightarrow> path \<Rightarrow> bool" where
  "live_lock E w ignore_stale lp =
     (read_token E w lp \<noteq> None \<and> \<not> (ignore_stale \<and> is_lock_stale E w lp (eng_expire E)))"

definition live_tree_lock :: "'fs engine \<Rightarrow> 'fs world \<Rightarrow> bool \<Rightarrow> path \<Rightarrow> bool" where
  "live_tree_lock E w ignore_stale lp =
     (case read_token E w lp of
        None \<Rightarrow> False
      | Some token \<Rightarrow>
          (let (_, _, ty) = parse_fencing_token token
           in ty = TREE \<and> \<not> (ignore_stale \<and> is_lock_stale E w lp (eng_expire E))))"

definition is_locked :: "'fs engine \<Rightarrow> 'fs world \<Rightarrow> path \<Rightarrow> bool \<Rightarrow> bool" where
  "is_locked E w path ignore_stale =
     (let own = get_lock_path path
      in if live_lock E w ignore_stale own then True
         else if list_ex (\<lambda>lp. lp \<noteq> own \<and> live_lock E w ignore_stale lp)
                   (get_exact_lock_paths E w path) then True
         else list_ex (\<lambda>parent. live_tree_lock E w ignore_stale (get_lock_path parent))
                (ancestors path))"

definition is_locked_async :: "'fs engine \<Rightarrow> 'fs world \<Rightarrow> path \<Rightarrow> bool \<Rightarrow> bool" where
  "is_locked_async = is_locked"

definition collect_lost_owner_locks :: "'fs engine \<Rightarrow> 'fs world \<Rightarrow> lock_handle \<Rightarrow> path list" where
  "collect_lost_owner_locks E w owner =
     filter (\<lambda>lp. \<not> is_lock_owned_by E w lp (h_id owner)) (h_locks owner)"

definition collect_lost_owner_locks_async ::
    "'fs engine \<Rightarrow> 'fs world \<Rightarrow> lock_handle \<Rightarrow> path list" where
  "collect_lost_owner_locks_async E w owner =
     filter (\<lambda>lp. \<not> is_lock_owned_by_async E w lp (h_id owner)) (h_locks owner)"

definition is_locked_by_other :: "'fs engine \<Rightarrow> 'fs world \<Rightarrow> path \<Rightarrow> string \<Rightarrow> bool" where
  "is_locked_by_other E w lock_path owner_id =
     (case read_token_async E w lock_path of
        None \<Rightarrow> False
      | Some token \<Rightarrow> (let (lock_owner, _, _) = parse_fencing_token token in lock_owner \<noteq> owner_id))"

section \<open>Writing and removing lock files\<close>

definition create_lock_file ::
    "'fs engine \<Rightarrow> path \<Rightarrow> string \<Rightarrow> lock_type \<Rightarrow> 'fs world \<Rightarrow> agfs_error + 'fs world" where
  "create_lock_file E lock_path owner_id ty w =
     (case ag_write (eng_agfs E) (fs w) lock_path (make_fencing_token (now w) owner_id ty) of
        Inl e \<Rightarrow> Inl e
      | Inr s \<Rightarrow> Inr (w\<lparr>fs := s\<rparr>))"

definition owned_lock_type_for_lock_path ::
    "'fs engine \<Rightarrow> 'fs world \<Rightarrow> path \<Rightarrow> lock_handle \<Rightarrow> lock_type option" where
  "owned_lock_type_for_lock_path E w lock_path owner =
     (if lock_path \<notin> set (h_locks owner) then None
      else (case read_token_async E w lock_path of
              None \<Rightarrow> None
            | Some token \<Rightarrow>
                (let (lock_owner, _, ty) = parse_fencing_token token
                 in if lock_owner \<noteq> h_id owner then None else Some ty)))"

definition owned_lock_type :: "'fs engine \<Rightarrow> 'fs world \<Rightarrow> path \<Rightarrow> lock_handle \<Rightarrow> lock_type option" where
  "owned_lock_type E w path owner =
     owned_lock_type_for_lock_path E w (get_lock_path path) owner"

text \<open>The loop visits \<^verbatim>\<open>path.rstrip("/")\<close> and its ancestors; it does not run on an empty path.\<close>

definition has_owned_ancestor_tree :: "'fs engine \<Rightarrow> 'fs world \<Rightarrow> path \<Rightarrow> lock_handle \<Rightarrow> bool" where
  "has_owned_ancestor_tree E w path owner =
     (let current = py_rstrip CHR ''/'' path
      in current \<noteq> [] \<and>
         list_ex (\<lambda>p. owned_lock_type E w p owner = Some TREE) (current # ancestors current))"

definition remove_lock_file :: "'fs engine \<Rightarrow> path \<Rightarrow> 'fs world \<Rightarrow> 'fs world \<times> bool" where
  "remove_lock_file E lock_path w =
     (case ag_rm (eng_agfs E) (fs w) lock_path of
        Inr s \<Rightarrow> (w\<lparr>fs := s\<rparr>, True)
      | Inl (NotFound _) \<Rightarrow> (w, True)
      | Inl _ \<Rightarrow> (w, False))"

section \<open>Conflict checks\<close>

text \<open>A lock file that another owner's token occupies.\<close>

definition foreign_lock :: "'fs engine \<Rightarrow> 'fs world \<Rightarrow> string \<Rightarrow> path \<Rightarrow> bool" where
  "foreign_lock E w exclude lp =
     (case read_token_async E w lp of
        None \<Rightarrow> False
      | Some token \<Rightarrow> (let (owner_id, _, _) = parse_fencing_token token in owner_id \<noteq> exclude))"

definition foreign_tree_lock :: "'fs engine \<Rightarrow> 'fs world \<Rightarrow> string \<Rightarrow> path \<Rightarrow> bool" where
  "foreign_tree_lock E w exclude lp =
     (case read_token_async E w lp of
        None \<Rightarrow> False
      | Some token \<Rightarrow>
          (let (owner_id, _, ty) = parse_fencing_token token in owner_id \<noteq> exclude \<and> ty = TREE))"

definition check_ancestors_for_tree :: "'fs engine \<Rightarrow> 'fs world \<Rightarrow> path \<Rightarrow> string \<Rightarrow> path option" where
  "check_ancestors_for_tree E w path exclude =
     find (foreign_tree_lock E w exclude) (map get_lock_path (ancestors path))"

definition check_path_lock :: "'fs engine \<Rightarrow> 'fs world \<Rightarrow> path \<Rightarrow> string \<Rightarrow> path option" where
  "check_path_lock E w path exclude =
     (let lp = get_lock_path path in if foreign_lock E w exclude lp then Some lp else None)"

definition check_exact_path_lock :: "'fs engine \<Rightarrow> 'fs world \<Rightarrow> path \<Rightarrow> string \<Rightarrow> path option" where
  "check_exact_path_lock E w path exclude =
     find (foreign_lock E w exclude) (get_exact_lock_paths_async E w path)"

text \<open>The loop over one directory's entries; \<open>scan\<close> is the recursive call on a subdirectory.\<close>

fun scan_entries ::
    "'fs engine \<Rightarrow> 'fs world \<Rightarrow> string \<Rightarrow> path \<Rightarrow> (path \<Rightarrow> path option option) \<Rightarrow> dir_entry list \<Rightarrow>
     path option option" where
  "scan_entries E w exclude path scan [] = Some None"
| "scan_entries E w exclude path scan ((name, is_dir) # es) =
     (if name = [] \<or> name = ''.'' \<or> name = ''..'' then scan_entries E w exclude path scan es
      else (let entry_path = py_rstrip CHR ''/'' path @ ''/'' @ name
            in if py_startswith name EXACT_LOCK_FILE_PREFIX
               then (if foreign_lock E w exclude entry_path then Some (Some entry_path)
                     else scan_entries E w exclude path scan es)
               else if \<not> is_dir then scan_entries E w exclude path scan es
               else (let subdir_lock = get_lock_path entry_path
                     in if foreign_lock E w exclude subdir_lock then Some (Some subdir_lock)
                        else (case scan entry_path of
                                None \<Rightarrow> None
                              | Some (Some r) \<Rightarrow> Some (Some r)
                              | Some None \<Rightarrow> scan_entries E w exclude path scan es))))"

fun scan_descendants_for_locks ::
    "nat \<Rightarrow> 'fs engine \<Rightarrow> 'fs world \<Rightarrow> path \<Rightarrow> string \<Rightarrow> path option option" where
  "scan_descendants_for_locks 0 E w path exclude = None"
| "scan_descendants_for_locks (Suc n) E w path exclude =
     (case ag_stat (eng_agfs E) (fs w) path of
        Inr True \<Rightarrow>
          (case ag_ls (eng_agfs E) (fs w) path of
             Inl _ \<Rightarrow> Some None
           | Inr entries \<Rightarrow>
               scan_entries E w exclude path
                 (\<lambda>subdir. scan_descendants_for_locks n E w subdir exclude) entries)
      | _ \<Rightarrow> Some None)"

section \<open>Acquiring\<close>

text \<open>How one iteration of an acquire loop ends: \<^verbatim>\<open>return b\<close>, \<^verbatim>\<open>continue\<close>, or \<^verbatim>\<open>sleep\<close> and \<^verbatim>\<open>continue\<close>.\<close>

datatype ctl = Return bool | Again | Sleep

text \<open>The reaction to a conflicting lock file: a stale one is removed, otherwise time out or wait.\<close>

definition conflict_wait :: "'fs engine \<Rightarrow> path \<Rightarrow> int \<Rightarrow> 'fs world \<Rightarrow> 'fs world \<times> ctl" where
  "conflict_wait E lp deadline w =
     (if is_lock_stale_async E w lp (eng_expire E) then (fst (remove_lock_file E lp w), Again)
      else if deadline \<le> now w then (w, Return False)
      else (w, Sleep))"

definition wait_or_fail :: "int \<Rightarrow> 'fs world \<Rightarrow> 'fs world \<times> ctl" where
  "wait_or_fail deadline w = (if deadline \<le> now w then (w, Return False) else (w, Sleep))"

text \<open>The livelock guard: whether this owner, with its own token, has to back off.\<close>

definition must_back_off :: "'fs engine \<Rightarrow> 'fs world \<Rightarrow> path \<Rightarrow> path \<Rightarrow> string \<Rightarrow> bool" where
  "must_back_off E w lock_path conflict owner_id =
     (case read_token_async E w conflict of
        None \<Rightarrow> False
      | Some their_token \<Rightarrow>
          (let (their_owner, their_ts, _) = parse_fencing_token their_token;
               my_ts = (case read_token_async E w lock_path of
                          Some my_token \<Rightarrow> fst (snd (parse_fencing_token my_token))
                        | None \<Rightarrow> 0)
           in (their_ts, their_owner) < (my_ts, owner_id)))"

definition exact_after_write ::
    "'fs engine \<Rightarrow> path \<Rightarrow> path \<Rightarrow> string \<Rightarrow> int \<Rightarrow> 'fs world \<Rightarrow> 'fs world \<times> ctl" where
  "exact_after_write E path lock_path owner_id deadline w =
     (if \<not> is_lock_owned_by_async E w lock_path owner_id then wait_or_fail deadline w
      else
        (let c1 = check_path_lock E w path owner_id;
             c2 = (if c1 = Some lock_path then None else c1);
             conflict_after =
               (case c2 of None \<Rightarrow> check_ancestors_for_tree E w path owner_id | Some c \<Rightarrow> Some c)
         in case conflict_after of
              Some conflict \<Rightarrow>
                (let w1 = (if must_back_off E w lock_path conflict owner_id \<and>
                              is_lock_owned_by_async E w lock_path owner_id
                           then fst (remove_lock_file E lock_path w) else w)
                 in if deadline \<le> now w1
                    then ((if is_lock_owned_by_async E w1 lock_path owner_id
                           then fst (remove_lock_file E lock_path w1) else w1), Return False)
                    else (w1, Sleep))
            | None \<Rightarrow>
                if \<not> is_lock_owned_by_async E w lock_path owner_id then wait_or_fail deadline w
                else (w, Return True)))"

text \<open>The parent directory of a prefixed lock file is created first.\<close>

definition exact_prepare :: "'fs engine \<Rightarrow> path \<Rightarrow> path \<Rightarrow> 'fs world \<Rightarrow> 'fs world \<times> bool" where
  "exact_prepare E path lock_path w =
     (case get_parent_path path of
        Some parent \<Rightarrow>
          if lock_path \<noteq> get_lock_path path then ensure_directory_exists_async E parent w else (w, True)
      | None \<Rightarrow> (w, True))"

definition exact_write ::
    "'fs engine \<Rightarrow> path \<Rightarrow> path \<Rightarrow> string \<Rightarrow> int \<Rightarrow> 'fs world \<Rightarrow> 'fs world \<times> ctl" where
  "exact_write E path lock_path owner_id deadline w =
     (let (w1, ok) = exact_prepare E path lock_path w
      in if \<not> ok then (w1, Return False)
         else (case create_lock_file E lock_path owner_id EXACT w1 of
                 Inl _ \<Rightarrow> (w1, Return False)
               | Inr w2 \<Rightarrow> exact_after_write E path lock_path owner_id deadline w2))"

definition exact_attempt ::
    "'fs engine \<Rightarrow> path \<Rightarrow> path \<Rightarrow> string \<Rightarrow> int \<Rightarrow> 'fs world \<Rightarrow> 'fs world \<times> ctl" where
  "exact_attempt E path lock_path owner_id deadline w =
     (case check_exact_path_lock E w path owner_id of
        Some existing_exact_lock \<Rightarrow> conflict_wait E existing_exact_lock deadline w
      | None \<Rightarrow>
          (let same_path_lock = get_lock_path path
           in if same_path_lock \<noteq> lock_path \<and> foreign_lock E w owner_id same_path_lock
              then conflict_wait E same_path_lock deadline w
              else (case check_ancestors_for_tree E w path owner_id of
                      Some ancestor_conflict \<Rightarrow> conflict_wait E ancestor_conflict deadline w
                    | None \<Rightarrow> exact_write E path lock_path owner_id deadline w)))"

fun exact_loop ::
    "nat \<Rightarrow> 'fs engine \<Rightarrow> path \<Rightarrow> path \<Rightarrow> string \<Rightarrow> int \<Rightarrow> 'fs world \<Rightarrow> ('fs world \<times> bool) option" where
  "exact_loop 0 E path lock_path owner_id deadline w = None"
| "exact_loop (Suc n) E path lock_path owner_id deadline w =
     (case exact_attempt E path lock_path owner_id deadline w of
        (w1, Return b) \<Rightarrow> Some (w1, b)
      | (w1, Again) \<Rightarrow> exact_loop n E path lock_path owner_id deadline w1
      | (w1, Sleep) \<Rightarrow> exact_loop n E path lock_path owner_id deadline (eng_sleep E POLL_INTERVAL w1))"

text \<open>\<open>timeout = None\<close> waits for the expiry of a lock.\<close>

definition resolve_deadline :: "'fs engine \<Rightarrow> int option \<Rightarrow> 'fs world \<Rightarrow> int" where
  "resolve_deadline E timeout w = now w + (case timeout of None \<Rightarrow> eng_expire E | Some t \<Rightarrow> t)"

definition acquire_exact_path ::
    "nat \<Rightarrow> 'fs engine \<Rightarrow> path \<Rightarrow> lock_handle \<Rightarrow> int option \<Rightarrow> 'fs world \<Rightarrow>
     ('fs world \<times> lock_handle \<times> bool) option" where
  "acquire_exact_path fuel E path owner timeout w =
     (let owner_id = h_id owner; lock_path = get_exact_lock_path_async E w path
      in if lock_path \<in> set (h_locks owner) \<and> is_lock_owned_by_async E w lock_path owner_id
         then Some (w, add_lock lock_path owner, True)
         else if has_owned_ancestor_tree E w path owner then Some (w, owner, True)
         else (case exact_loop fuel E path lock_path owner_id (resolve_deadline E timeout w) w of
                 None \<Rightarrow> None
               | Some (w1, True) \<Rightarrow> Some (w1, add_lock lock_path owner, True)
               | Some (w1, False) \<Rightarrow> Some (w1, owner, False)))"

definition tree_after_write ::
    "nat \<Rightarrow> 'fs engine \<Rightarrow> path \<Rightarrow> path \<Rightarrow> string \<Rightarrow> int \<Rightarrow> 'fs world \<Rightarrow> ('fs world \<times> ctl) option" where
  "tree_after_write fuel E path lock_path owner_id deadline w =
     (case scan_descendants_for_locks fuel E w path owner_id of
        None \<Rightarrow> None
      | Some desc \<Rightarrow>
          (let c1 = (case desc of None \<Rightarrow> check_exact_path_lock E w path owner_id | Some c \<Rightarrow> Some c);
               conflict_after =
                 (case c1 of None \<Rightarrow> check_ancestors_for_tree E w path owner_id | Some c \<Rightarrow> Some c)
           in Some (case conflict_after of
                Some conflict \<Rightarrow>
                  (let backed_off = must_back_off E w lock_path conflict owner_id;
                       w1 = (if backed_off then fst (remove_lock_file E lock_path w) else w)
                   in if deadline \<le> now w1
                      then ((if \<not> backed_off then fst (remove_lock_file E lock_path w1) else w1),
                            Return False)
                      else (w1, Sleep))
              | None \<Rightarrow>
                  if \<not> is_lock_owned_by_async E w lock_path owner_id then wait_or_fail deadline w
                  else (w, Return True))))"

definition tree_write ::
    "nat \<Rightarrow> 'fs engine \<Rightarrow> path \<Rightarrow> path \<Rightarrow> string \<Rightarrow> int \<Rightarrow> 'fs world \<Rightarrow> ('fs world \<times> ctl) option" where
  "tree_write fuel E path lock_path owner_id deadline w =
     (let (w1, ok) = ensure_directory_exists_async E path w
      in if \<not> ok then Some (w1, Return False)
         else (case create_lock_file E lock_path owner_id TREE w1 of
                 Inl _ \<Rightarrow> Some (w1, Return False)
               | Inr w2 \<Rightarrow> tree_after_write fuel E path lock_path owner_id deadline w2))"

definition tree_attempt ::
    "nat \<Rightarrow> 'fs engine \<Rightarrow> path \<Rightarrow> path \<Rightarrow> string \<Rightarrow> int \<Rightarrow> 'fs world \<Rightarrow> ('fs world \<times> ctl) option" where
  "tree_attempt fuel E path lock_path owner_id deadline w =
     (if is_locked_by_other E w lock_path owner_id then Some (conflict_wait E lock_path deadline w)
      else (case check_ancestors_for_tree E w path owner_id of
              Some ancestor_conflict \<Rightarrow> Some (conflict_wait E ancestor_conflict deadline w)
            | None \<Rightarrow>
                (case check_exact_path_lock E w path owner_id of
                   Some exact_conflict \<Rightarrow> Some (conflict_wait E exact_conflict deadline w)
                 | None \<Rightarrow>
                     (case scan_descendants_for_locks fuel E w path owner_id of
                        None \<Rightarrow> None
                      | Some (Some desc_conflict) \<Rightarrow> Some (conflict_wait E desc_conflict deadline w)
                      | Some None \<Rightarrow> tree_write fuel E path lock_path owner_id deadline w))))"

text \<open>\<open>depth\<close> is the fuel of each directory scan, the first argument the fuel of the loop.\<close>

fun tree_loop ::
    "nat \<Rightarrow> nat \<Rightarrow> 'fs engine \<Rightarrow> path \<Rightarrow> path \<Rightarrow> string \<Rightarrow> int \<Rightarrow> 'fs world \<Rightarrow>
     ('fs world \<times> bool) option" where
  "tree_loop 0 depth E path lock_path owner_id deadline w = None"
| "tree_loop (Suc n) depth E path lock_path owner_id deadline w =
     (case tree_attempt depth E path lock_path owner_id deadline w of
        None \<Rightarrow> None
      | Some (w1, Return b) \<Rightarrow> Some (w1, b)
      | Some (w1, Again) \<Rightarrow> tree_loop n depth E path lock_path owner_id deadline w1
      | Some (w1, Sleep) \<Rightarrow>
          tree_loop n depth E path lock_path owner_id deadline (eng_sleep E POLL_INTERVAL w1))"

definition tree_lock_path :: "'fs engine \<Rightarrow> 'fs world \<Rightarrow> path \<Rightarrow> path" where
  "tree_lock_path E w path =
     (let default_lock_path = get_lock_path path; lock_path = get_exact_lock_path_async E w path
      in if lock_path \<noteq> default_lock_path \<and> \<not> is_existing_path_async E w path
         then default_lock_path else lock_path)"

definition acquire_tree ::
    "nat \<Rightarrow> nat \<Rightarrow> 'fs engine \<Rightarrow> path \<Rightarrow> lock_handle \<Rightarrow> int option \<Rightarrow> 'fs world \<Rightarrow>
     ('fs world \<times> lock_handle \<times> bool) option" where
  "acquire_tree fuel depth E path owner timeout w =
     (let owner_id = h_id owner; lock_path = tree_lock_path E w path
      in if owned_lock_type_for_lock_path E w lock_path owner = Some TREE
         then Some (w, add_lock lock_path owner, True)
         else if has_owned_ancestor_tree E w path owner then Some (w, owner, True)
         else (case tree_loop fuel depth E path lock_path owner_id (resolve_deadline E timeout w) w of
                 None \<Rightarrow> None
               | Some (w1, True) \<Rightarrow> Some (w1, add_lock lock_path owner, True)
               | Some (w1, False) \<Rightarrow> Some (w1, owner, False)))"

section \<open>Releasing and refreshing\<close>

fun release_loop :: "'fs engine \<Rightarrow> path list \<Rightarrow> 'fs world \<Rightarrow> lock_handle \<Rightarrow> 'fs world \<times> lock_handle" where
  "release_loop E [] w owner = (w, owner)"
| "release_loop E (lp # lps) w owner =
     (let w1 = (if is_lock_owned_by_async E w lp (h_id owner)
                then fst (remove_lock_file E lp w) else w)
      in release_loop E lps w1 (remove_lock lp owner))"

definition release :: "'fs engine \<Rightarrow> lock_handle \<Rightarrow> 'fs world \<Rightarrow> 'fs world \<times> lock_handle" where
  "release E owner w = release_loop E (rev (h_locks owner)) w owner"

fun release_selected_loop ::
    "'fs engine \<Rightarrow> path list \<Rightarrow> 'fs world \<Rightarrow> lock_handle \<Rightarrow> 'fs world \<times> lock_handle" where
  "release_selected_loop E [] w owner = (w, owner)"
| "release_selected_loop E (lp # lps) w owner =
     (if lp \<notin> set (h_locks owner) then release_selected_loop E lps w owner
      else (let w1 = (if is_lock_owned_by_async E w lp (h_id owner)
                      then fst (remove_lock_file E lp w) else w)
            in release_selected_loop E lps w1 (remove_lock lp owner)))"

definition release_selected ::
    "'fs engine \<Rightarrow> lock_handle \<Rightarrow> path list \<Rightarrow> 'fs world \<Rightarrow> 'fs world \<times> lock_handle" where
  "release_selected E owner lock_paths w = release_selected_loop E (rev lock_paths) w owner"

record lock_refresh_result =
  refreshed_paths :: "path list"
  lost_paths :: "path list"
  failed_paths :: "path list"

fun refresh_loop ::
    "'fs engine \<Rightarrow> string \<Rightarrow> path list \<Rightarrow> 'fs world \<Rightarrow> lock_refresh_result \<Rightarrow>
     'fs world \<times> lock_refresh_result" where
  "refresh_loop E owner_id [] w res = (w, res)"
| "refresh_loop E owner_id (lp # lps) w res =
     (case read_owner_and_type_async E w lp of
        (Some parsed, Some ty) \<Rightarrow>
          if parsed \<noteq> owner_id
          then refresh_loop E owner_id lps w (res\<lparr>lost_paths := lost_paths res @ [lp]\<rparr>)
          else (case ag_write (eng_agfs E) (fs w) lp (make_fencing_token (now w) owner_id ty) of
                  Inr s \<Rightarrow> refresh_loop E owner_id lps (w\<lparr>fs := s\<rparr>)
                             (res\<lparr>refreshed_paths := refreshed_paths res @ [lp]\<rparr>)
                | Inl _ \<Rightarrow> refresh_loop E owner_id lps w
                             (res\<lparr>failed_paths := failed_paths res @ [lp]\<rparr>))
      | _ \<Rightarrow> refresh_loop E owner_id lps w (res\<lparr>lost_paths := lost_paths res @ [lp]\<rparr>))"

definition refresh :: "'fs engine \<Rightarrow> lock_handle \<Rightarrow> 'fs world \<Rightarrow> 'fs world \<times> lock_refresh_result" where
  "refresh E owner w =
     refresh_loop E (h_id owner) (h_locks owner) w
       \<lparr>refreshed_paths = [], lost_paths = [], failed_paths = []\<rparr>"

definition acquire_mv ::
    "nat \<Rightarrow> nat \<Rightarrow> 'fs engine \<Rightarrow> path \<Rightarrow> path \<Rightarrow> lock_handle \<Rightarrow> int option \<Rightarrow> bool \<Rightarrow> 'fs world \<Rightarrow>
     ('fs world \<times> lock_handle \<times> bool) option" where
  "acquire_mv fuel depth E src_path dst_path owner timeout src_is_dir w =
     (case (if src_is_dir then acquire_tree fuel depth E src_path owner timeout w
            else acquire_exact_path fuel E src_path owner timeout w) of
        None \<Rightarrow> None
      | Some (w1, owner1, False) \<Rightarrow> Some (w1, owner1, False)
      | Some (w1, owner1, True) \<Rightarrow>
          (case acquire_exact_path fuel E dst_path owner1 timeout w1 of
             None \<Rightarrow> None
           | Some (w2, owner2, True) \<Rightarrow> Some (w2, owner2, True)
           | Some (w2, owner2, False) \<Rightarrow>
               (let (w3, owner3) = release E owner2 w2 in Some (w3, owner3, False))))"

end
