(* ===== verification/Lock_Manager.thy ===== *)
theory Lock_Manager
  imports Path_Lock
begin

text \<open>
  \<^verbatim>\<open>LockManager\<close> (\<^verbatim>\<open>openviking/storage/transaction/lock_manager.py\<close>) and the redo log
  (\<^verbatim>\<open>redo_log.py\<close>).

  Handles are objects that callers and the manager's \<^verbatim>\<open>_handles\<close> table share, so the state has a heap
  of handle objects: a reference is a number, \<open>lm_heap\<close> gives the object, \<open>lm_next\<close> is the next fresh
  reference, and \<open>lm_handles\<close> is the \<^verbatim>\<open>_handles\<close> dictionary from handle id to reference.  The file
  system and the clock are the \<open>world\<close> of the path-lock engine.  \<^verbatim>\<open>uuid.uuid4()\<close> is the parameter
  \<open>cfg_uuid\<close>, the id drawn for the \<open>n\<close>-th object.

  The engine's acquire calls catch every exception of the file service themselves, so the
  \<^verbatim>\<open>except Exception\<close> branches of the batch calls have no counterpart here.
\<close>

section \<open>State\<close>

text \<open>\<open>cfg_fuel\<close> and \<open>cfg_depth\<close> are the fuel of the acquire loops and of the directory scans.\<close>

record 'fs lm_config =
  cfg_engine :: "'fs engine"
  cfg_lock_timeout :: "int option"
  cfg_uuid :: "nat \<Rightarrow> string"
  cfg_fuel :: nat
  cfg_depth :: nat

record 'fs lm_state =
  lm_world :: "'fs world"
  lm_heap :: "nat \<Rightarrow> lock_handle"
  lm_next :: nat
  lm_handles :: "(string, nat) dict"
  lm_running :: bool

datatype timeout_arg = LOCK_TIMEOUT_DEFAULT | Timeout "int option"

definition resolve_timeout :: "'fs lm_config \<Rightarrow> timeout_arg \<Rightarrow> int option" where
  "resolve_timeout C timeout =
     (case timeout of LOCK_TIMEOUT_DEFAULT \<Rightarrow> cfg_lock_timeout C | Timeout t \<Rightarrow> t)"

text \<open>Replacing an object and the world together, as every call of the engine on a handle does.\<close>

definition put_handle :: "nat \<Rightarrow> lock_handle \<Rightarrow> 'fs world \<Rightarrow> 'fs lm_state \<Rightarrow> 'fs lm_state" where
  "put_handle r h w st = st\<lparr>lm_world := w, lm_heap := (lm_heap st)(r := h)\<rparr>"

definition alloc_handle :: "lock_handle \<Rightarrow> 'fs lm_state \<Rightarrow> 'fs lm_state \<times> nat" where
  "alloc_handle h st =
     (st\<lparr>lm_heap := (lm_heap st)(lm_next st := h), lm_next := Suc (lm_next st)\<rparr>, lm_next st)"

definition register_handle :: "nat \<Rightarrow> 'fs lm_state \<Rightarrow> 'fs lm_state" where
  "register_handle r st = st\<lparr>lm_handles := AList.update (h_id (lm_heap st r)) r (lm_handles st)\<rparr>"

definition pop_handle :: "string \<Rightarrow> 'fs lm_state \<Rightarrow> 'fs lm_state" where
  "pop_handle hid st = st\<lparr>lm_handles := AList.delete hid (lm_handles st)\<rparr>"

definition mark_handle_active :: "nat \<Rightarrow> 'fs lm_state \<Rightarrow> 'fs lm_state" where
  "mark_handle_active r st =
     st\<lparr>lm_heap := (lm_heap st)(r := (lm_heap st r)\<lparr>h_last_active_at := now (lm_world st)\<rparr>)\<rparr>"

definition create_handle :: "'fs lm_config \<Rightarrow> 'fs lm_state \<Rightarrow> 'fs lm_state \<times> nat" where
  "create_handle C st =
     (let (st1, r) = alloc_handle (new_handle (cfg_uuid C (lm_next st)) (now (lm_world st))) st
      in (register_handle r st1, r))"

section \<open>Reconciling\<close>

definition reconcile_handle ::
    "'fs lm_config \<Rightarrow> nat \<Rightarrow> 'fs lm_state \<Rightarrow> 'fs lm_state \<times> nat option" where
  "reconcile_handle C r st =
     (let h = lm_heap st r;
          had_locks = (h_locks h \<noteq> []);
          lost_paths = collect_lost_owner_locks (cfg_engine C) (lm_world st) h;
          h' = fold remove_lock lost_paths h;
          st' = put_handle r h' (lm_world st) st
      in if had_locks \<and> h_locks h' = [] then (pop_handle (h_id h') st', None) else (st', Some r))"

definition reconcile_handle_async ::
    "'fs lm_config \<Rightarrow> nat \<Rightarrow> 'fs lm_state \<Rightarrow> 'fs lm_state \<times> nat option" where
  "reconcile_handle_async C r st =
     (let h = lm_heap st r;
          had_locks = (h_locks h \<noteq> []);
          lost_paths = collect_lost_owner_locks_async (cfg_engine C) (lm_world st) h;
          h' = fold remove_lock lost_paths h;
          st' = put_handle r h' (lm_world st) st
      in if had_locks \<and> h_locks h' = [] then (pop_handle (h_id h') st', None) else (st', Some r))"

definition get_handle :: "'fs lm_config \<Rightarrow> string \<Rightarrow> 'fs lm_state \<Rightarrow> 'fs lm_state \<times> nat option" where
  "get_handle C hid st =
     (case map_of (lm_handles st) hid of
        None \<Rightarrow> (st, None)
      | Some r \<Rightarrow>
          (case reconcile_handle C r st of
             (st1, None) \<Rightarrow> (st1, None)
           | (st1, Some cur) \<Rightarrow> if h_locks (lm_heap st1 cur) = [] then (st1, None) else (st1, Some cur)))"

definition get_handle_async :: "'fs lm_config \<Rightarrow> string \<Rightarrow> 'fs lm_state \<Rightarrow> 'fs lm_state \<times> nat option" where
  "get_handle_async C hid st =
     (case map_of (lm_handles st) hid of
        None \<Rightarrow> (st, None)
      | Some r \<Rightarrow>
          (case reconcile_handle_async C r st of
             (st1, None) \<Rightarrow> (st1, None)
           | (st1, Some cur) \<Rightarrow> if h_locks (lm_heap st1 cur) = [] then (st1, None) else (st1, Some cur)))"

text \<open>The loop over a snapshot of the table's handles.\<close>

fun active_loop ::
    "'fs lm_config \<Rightarrow> nat list \<Rightarrow> (string, nat) dict \<Rightarrow> 'fs lm_state \<Rightarrow> 'fs lm_state \<times> (string, nat) dict" where
  "active_loop C [] acc st = (st, acc)"
| "active_loop C (r # rs) acc st =
     (case reconcile_handle C r st of
        (st1, None) \<Rightarrow> active_loop C rs acc st1
      | (st1, Some cur) \<Rightarrow>
          active_loop C rs
            (if h_locks (lm_heap st1 cur) = [] then acc
             else AList.update (h_id (lm_heap st1 cur)) cur acc) st1)"

definition get_active_handles :: "'fs lm_config \<Rightarrow> 'fs lm_state \<Rightarrow> 'fs lm_state \<times> (string, nat) dict" where
  "get_active_handles C st = active_loop C (map snd (lm_handles st)) [] st"

section \<open>Releasing\<close>

definition lm_release :: "'fs lm_config \<Rightarrow> nat \<Rightarrow> 'fs lm_state \<Rightarrow> 'fs lm_state" where
  "lm_release C r st =
     (let (w, h) = release (cfg_engine C) (lm_heap st r) (lm_world st)
      in pop_handle (h_id h) (put_handle r h w st))"

definition lm_release_selected :: "'fs lm_config \<Rightarrow> nat \<Rightarrow> path list \<Rightarrow> 'fs lm_state \<Rightarrow> 'fs lm_state" where
  "lm_release_selected C r lock_paths st =
     (let (w, h) = release_selected (cfg_engine C) (lm_heap st r) lock_paths (lm_world st)
      in put_handle r h w st)"

text \<open>The release loop of \<^verbatim>\<open>stop\<close>: the engine's \<^verbatim>\<open>release\<close> on every handle of a snapshot.\<close>

definition release_handle_locks :: "'fs lm_config \<Rightarrow> nat \<Rightarrow> 'fs lm_state \<Rightarrow> 'fs lm_state" where
  "release_handle_locks C r st =
     (let (w, h) = release (cfg_engine C) (lm_heap st r) (lm_world st) in put_handle r h w st)"

definition stop :: "'fs lm_config \<Rightarrow> 'fs lm_state \<Rightarrow> 'fs lm_state" where
  "stop C st =
     (let st1 = st\<lparr>lm_running := False\<rparr>
      in (fold (release_handle_locks C) (map snd (lm_handles st1)) st1)\<lparr>lm_handles := []\<rparr>)"

definition release_all_locks :: "'fs lm_config \<Rightarrow> 'fs lm_state \<Rightarrow> 'fs lm_state" where
  "release_all_locks C st =
     (let (st1, active) = get_active_handles C st in fold (lm_release C) (map snd active) st1)"

section \<open>Acquiring\<close>

text \<open>One call of the engine on a handle.\<close>

definition engine_acquire ::
    "'fs lm_config \<Rightarrow> nat \<Rightarrow> path \<times> bool \<Rightarrow> int option \<Rightarrow> 'fs lm_state \<Rightarrow> ('fs lm_state \<times> bool) option" where
  "engine_acquire C r target t st =
     (let (path, is_tree) = target
      in case (if is_tree
               then acquire_tree (cfg_fuel C) (cfg_depth C) (cfg_engine C) path (lm_heap st r) t (lm_world st)
               else acquire_exact_path (cfg_fuel C) (cfg_engine C) path (lm_heap st r) t (lm_world st)) of
           None \<Rightarrow> None
         | Some (w, h, ok) \<Rightarrow> Some (put_handle r h w st, ok))"

definition mark_if_acquired ::
    "nat \<Rightarrow> ('fs lm_state \<times> bool) option \<Rightarrow> ('fs lm_state \<times> bool) option" where
  "mark_if_acquired r res =
     (case res of
        None \<Rightarrow> None
      | Some (st, acquired) \<Rightarrow> Some (if acquired then mark_handle_active r st else st, acquired))"

definition lm_acquire_exact_path ::
    "'fs lm_config \<Rightarrow> nat \<Rightarrow> path \<Rightarrow> timeout_arg \<Rightarrow> 'fs lm_state \<Rightarrow> ('fs lm_state \<times> bool) option" where
  "lm_acquire_exact_path C r path timeout st =
     mark_if_acquired r (engine_acquire C r (path, False) (resolve_timeout C timeout) st)"

definition lm_acquire_tree ::
    "'fs lm_config \<Rightarrow> nat \<Rightarrow> path \<Rightarrow> timeout_arg \<Rightarrow> 'fs lm_state \<Rightarrow> ('fs lm_state \<times> bool) option" where
  "lm_acquire_tree C r path timeout st =
     mark_if_acquired r (engine_acquire C r (path, True) (resolve_timeout C timeout) st)"

definition lm_acquire_mv ::
    "'fs lm_config \<Rightarrow> nat \<Rightarrow> path \<Rightarrow> path \<Rightarrow> bool \<Rightarrow> timeout_arg \<Rightarrow> 'fs lm_state \<Rightarrow>
     ('fs lm_state \<times> bool) option" where
  "lm_acquire_mv C r src dst src_is_dir timeout st =
     mark_if_acquired r
       (case acquire_mv (cfg_fuel C) (cfg_depth C) (cfg_engine C) src dst (lm_heap st r)
               (resolve_timeout C timeout) src_is_dir (lm_world st) of
          None \<Rightarrow> None
        | Some (w, h, ok) \<Rightarrow> Some (put_handle r h w st, ok))"

text \<open>The loop the three batch calls have in common: acquire in order, remember what each call added,
  and give it all back at the first refusal.\<close>

fun batch_loop ::
    "'fs lm_config \<Rightarrow> nat \<Rightarrow> int option \<Rightarrow> path list \<Rightarrow> (path \<times> bool) list \<Rightarrow> 'fs lm_state \<Rightarrow>
     ('fs lm_state \<times> bool) option" where
  "batch_loop C r t acquired_lock_paths [] st = Some (mark_handle_active r st, True)"
| "batch_loop C r t acquired_lock_paths (target # targets) st =
     (let locks_before = h_locks (lm_heap st r)
      in case engine_acquire C r target t st of
           None \<Rightarrow> None
         | Some (st1, False) \<Rightarrow> Some (lm_release_selected C r acquired_lock_paths st1, False)
         | Some (st1, True) \<Rightarrow>
             (let newly = filter (\<lambda>lp. lp \<notin> set locks_before) (h_locks (lm_heap st1 r))
              in batch_loop C r t (acquired_lock_paths @ newly) targets st1))"

definition lock_order :: "path \<Rightarrow> nat \<times> path" where
  "lock_order p = (length p, p)"

definition tree_batch_order :: "path list \<Rightarrow> (path \<times> bool) list" where
  "tree_batch_order paths = map (\<lambda>p. (p, True)) (sort_key lock_order paths)"

definition exact_batch_order :: "path list \<Rightarrow> (path \<times> bool) list" where
  "exact_batch_order paths = map (\<lambda>p. (p, False)) (sort_key lock_order (py_fromkeys paths))"

text \<open>The sets are iterated in an arbitrary order, but the keys of the sort are distinct.\<close>

definition mixed_batch_order :: "path list \<Rightarrow> path list \<Rightarrow> (path \<times> bool) list" where
  "mixed_batch_order exact_paths tree_paths =
     (let tree_set = remdups tree_paths;
          exact_only = filter (\<lambda>p. p \<notin> set tree_set) (remdups exact_paths);
          all_pairs = map (\<lambda>p. (p, False)) exact_only @ map (\<lambda>p. (p, True)) tree_set
      in sort_key (\<lambda>x. lock_order (fst x)) all_pairs)"

definition acquire_tree_batch ::
    "'fs lm_config \<Rightarrow> nat \<Rightarrow> path list \<Rightarrow> timeout_arg \<Rightarrow> 'fs lm_state \<Rightarrow> ('fs lm_state \<times> bool) option" where
  "acquire_tree_batch C r paths timeout st =
     (if paths = [] then Some (mark_handle_active r st, True)
      else batch_loop C r (resolve_timeout C timeout) [] (tree_batch_order paths) st)"

definition acquire_exact_path_batch ::
    "'fs lm_config \<Rightarrow> nat \<Rightarrow> path list \<Rightarrow> timeout_arg \<Rightarrow> 'fs lm_state \<Rightarrow> ('fs lm_state \<times> bool) option" where
  "acquire_exact_path_batch C r paths timeout st =
     (if paths = [] then Some (mark_handle_active r st, True)
      else batch_loop C r (resolve_timeout C timeout) [] (exact_batch_order paths) st)"

definition acquire_exact_tree_batch ::
    "'fs lm_config \<Rightarrow> nat \<Rightarrow> path list \<Rightarrow> path list \<Rightarrow> timeout_arg \<Rightarrow> 'fs lm_state \<Rightarrow>
     ('fs lm_state \<times> bool) option" where
  "acquire_exact_tree_batch C r exact_paths tree_paths timeout st =
     (let sorted_pairs = mixed_batch_order exact_paths tree_paths
      in if sorted_pairs = [] then Some (mark_handle_active r st, True)
         else batch_loop C r (resolve_timeout C timeout) [] sorted_pairs st)"

section \<open>Adopting and refreshing\<close>

definition adopt_handle ::
    "'fs lm_config \<Rightarrow> string \<Rightarrow> path list \<Rightarrow> 'fs lm_state \<Rightarrow> 'fs lm_state \<times> nat option" where
  "adopt_handle C hid lock_paths st =
     (case get_handle C hid st of
        (st1, Some r) \<Rightarrow> (st1, Some r)
      | (st1, None) \<Rightarrow>
          (let owned = filter (\<lambda>lp. is_lock_owned_by (cfg_engine C) (lm_world st1) lp hid)
                         (py_fromkeys lock_paths);
               adopted = fold add_lock owned (new_handle hid (now (lm_world st1)))
           in if h_locks adopted = [] then (st1, None)
              else (let (st2, r) = alloc_handle adopted st1
                    in (mark_handle_active r (register_handle r st2), Some r))))"

definition adopt_handle_async ::
    "'fs lm_config \<Rightarrow> string \<Rightarrow> path list \<Rightarrow> 'fs lm_state \<Rightarrow> 'fs lm_state \<times> nat option" where
  "adopt_handle_async C hid lock_paths st =
     (case get_handle_async C hid st of
        (st1, Some r) \<Rightarrow> (st1, Some r)
      | (st1, None) \<Rightarrow>
          (let owned = filter (\<lambda>lp. is_lock_owned_by_async (cfg_engine C) (lm_world st1) lp hid)
                         (py_fromkeys lock_paths);
               adopted = fold add_lock owned (new_handle hid (now (lm_world st1)))
           in if h_locks adopted = [] then (st1, None)
              else (let (st2, r) = alloc_handle adopted st1
                    in (mark_handle_active r (register_handle r st2), Some r))))"

definition is_path_locked :: "'fs lm_config \<Rightarrow> path \<Rightarrow> bool \<Rightarrow> 'fs lm_state \<Rightarrow> bool" where
  "is_path_locked C path ignore_stale st = is_locked (cfg_engine C) (lm_world st) path ignore_stale"

definition refresh_lock :: "'fs lm_config \<Rightarrow> nat \<Rightarrow> 'fs lm_state \<Rightarrow> 'fs lm_state" where
  "refresh_lock C r st =
     (case reconcile_handle_async C r st of
        (st1, None) \<Rightarrow> st1
      | (st1, Some cur) \<Rightarrow>
          (let (w, result) = refresh (cfg_engine C) (lm_heap st1 cur) (lm_world st1);
               st2 = put_handle cur (fold remove_lock (lost_paths result) (lm_heap st1 cur)) w st1;
               st3 = (if refreshed_paths result \<noteq> [] then mark_handle_active cur st2 else st2)
           in fst (reconcile_handle_async C cur st3)))"

section \<open>Stale handles\<close>

definition is_handle_stale :: "'fs lm_config \<Rightarrow> lock_handle \<Rightarrow> int \<Rightarrow> bool" where
  "is_handle_stale C h t = (h_locks h \<noteq> [] \<and> eng_expire (cfg_engine C) < t - h_last_active_at h)"

fun collect_stale ::
    "'fs lm_config \<Rightarrow> int \<Rightarrow> nat list \<Rightarrow> 'fs lm_state \<Rightarrow> 'fs lm_state \<times> nat list" where
  "collect_stale C t [] st = (st, [])"
| "collect_stale C t (r # rs) st =
     (case reconcile_handle_async C r st of
        (st1, None) \<Rightarrow> collect_stale C t rs st1
      | (st1, Some cur) \<Rightarrow>
          (let (st2, stale) = collect_stale C t rs st1
           in (st2, if is_handle_stale C (lm_heap st1 cur) t then cur # stale else stale)))"

text \<open>One round of \<^verbatim>\<open>_stale_cleanup_loop\<close> after its sleep.\<close>

definition stale_cleanup :: "'fs lm_config \<Rightarrow> 'fs lm_state \<Rightarrow> 'fs lm_state" where
  "stale_cleanup C st =
     (let (st1, stale) = collect_stale C (now (lm_world st)) (map snd (lm_handles st)) st
      in fold (lm_release C) stale st1)"

section \<open>The redo log\<close>

definition REDO_ROOT :: path where
  "REDO_ROOT = ''/local/_system/redo''"

definition task_path :: "string \<Rightarrow> path" where
  "task_path task_id = REDO_ROOT @ ''/'' @ task_id @ ''/redo.json''"

definition mark_done :: "'fs agfs \<Rightarrow> string \<Rightarrow> 'fs \<Rightarrow> 'fs" where
  "mark_done A task_id s =
     (case ag_rm_all A s (REDO_ROOT @ ''/'' @ task_id) of Inr s' \<Rightarrow> s' | Inl _ \<Rightarrow> s)"

definition list_pending :: "'fs agfs \<Rightarrow> 'fs \<Rightarrow> string list" where
  "list_pending A s =
     (case ag_ls A s REDO_ROOT of
        Inl _ \<Rightarrow> []
      | Inr entries \<Rightarrow> map fst (filter (\<lambda>(name, is_dir). is_dir \<and> name \<notin> {''.'', ''..''}) entries))"

text \<open>The info of a task is a dictionary; \<open>json_loads\<close> is Python's \<^verbatim>\<open>json.loads\<close>, a parameter, \<open>None\<close>
  where it raises.  An unreadable marker reads as the empty dictionary.\<close>

type_synonym redo_info = "(string, string) dict"

definition read_redo :: "(string \<Rightarrow> redo_info option) \<Rightarrow> 'fs agfs \<Rightarrow> string \<Rightarrow> 'fs \<Rightarrow> redo_info" where
  "read_redo json_loads A task_id s =
     (case ag_read A s (task_path task_id) of
        Inl _ \<Rightarrow> []
      | Inr content \<Rightarrow> (case json_loads content of None \<Rightarrow> [] | Some info \<Rightarrow> info))"

text \<open>What \<^verbatim>\<open>_redo_session_memory\<close> calls, as parameters: the URI translation of the file system layer,
  \<^verbatim>\<open>Role(role)\<close>, the decoding of one message line (\<open>None\<close> where it raises), the memory extraction by
  the session compressor (an LLM pipeline; its failures are swallowed) and the semantic queue, \<open>None\<close>
  when there is no queue manager.\<close>

record semantic_msg =
  sm_uri :: string
  sm_context_type :: string
  sm_account_id :: string
  sm_user_id :: string
  sm_peer_id :: string
  sm_role :: string

record ('fs, 'm) redo_env =
  re_json_loads :: "string \<Rightarrow> redo_info option"
  re_role_ok :: "string \<Rightarrow> bool"
  re_uri_to_path :: "string \<Rightarrow> string \<Rightarrow> string \<Rightarrow> path"
  re_message :: "string \<Rightarrow> 'm option"
  re_extract :: "'m list \<Rightarrow> string \<Rightarrow> 'fs \<Rightarrow> 'fs"
  re_enqueue :: "(semantic_msg \<Rightarrow> 'fs \<Rightarrow> string + 'fs) option"

definition info_get :: "redo_info \<Rightarrow> string \<Rightarrow> string \<Rightarrow> string" where
  "info_get info k dflt = (case map_of info k of None \<Rightarrow> dflt | Some v \<Rightarrow> v)"

definition enqueue_semantic ::
    "('fs, 'm) redo_env \<Rightarrow> semantic_msg \<Rightarrow> 'fs \<Rightarrow> string + 'fs" where
  "enqueue_semantic R msg s =
     (case re_enqueue R of
        None \<Rightarrow> Inr s
      | Some enqueue \<Rightarrow> if sm_uri msg = [] then Inr s else enqueue msg s)"

definition read_messages :: "('fs, 'm) redo_env \<Rightarrow> 'fs agfs \<Rightarrow> path \<Rightarrow> 'fs \<Rightarrow> 'm list" where
  "read_messages R A agfs_path s =
     (case ag_read A s agfs_path of
        Inl _ \<Rightarrow> []
      | Inr content \<Rightarrow>
          List.map_filter (re_message R)
            (filter (\<lambda>line. py_strip line \<noteq> []) (py_split (CHR 0x0A) (py_strip content))))"

definition last_segment :: "string \<Rightarrow> string" where
  "last_segment u =
     (let s = py_rstrip CHR ''/'' u in case py_rsplit1 CHR ''/'' s of None \<Rightarrow> s | Some (_, b) \<Rightarrow> b)"

text \<open>The result is the file system with the message of the exception, if one is raised.\<close>

definition redo_session_memory ::
    "('fs, 'm) redo_env \<Rightarrow> 'fs agfs \<Rightarrow> redo_info \<Rightarrow> 'fs \<Rightarrow> 'fs \<times> string option" where
  "redo_session_memory R A info s =
     (let archive_uri = info_get info ''archive_uri'' [];
          session_uri = info_get info ''session_uri'' [];
          account_id = info_get info ''account_id'' ''default'';
          user_id = info_get info ''user_id'' ''default'';
          role_str = info_get info ''role'' ''root''
      in if archive_uri = [] \<or> session_uri = []
         then (s, Some ''Cannot redo session_memory: missing archive_uri or session_uri'')
         else if \<not> re_role_ok R role_str then (s, Some ''not a valid Role'')
         else
           (let messages =
                  read_messages R A (re_uri_to_path R account_id user_id (archive_uri @ ''/messages.jsonl'')) s;
                s1 = (if messages \<noteq> [] then re_extract R messages (last_segment session_uri) s else s)
            in case enqueue_semantic R
                      \<lparr>sm_uri = session_uri, sm_context_type = ''memory'', sm_account_id = account_id,
                       sm_user_id = user_id, sm_peer_id = user_id, sm_role = role_str\<rparr> s1 of
                 Inr s2 \<Rightarrow> (s2, None)
               | Inl e \<Rightarrow> (s1, Some e)))"

fun recover_loop :: "('fs, 'm) redo_env \<Rightarrow> 'fs agfs \<Rightarrow> string list \<Rightarrow> 'fs \<Rightarrow> 'fs" where
  "recover_loop R A [] s = s"
| "recover_loop R A (task_id # ids) s =
     (let info = read_redo (re_json_loads R) A task_id s
      in if info = [] then recover_loop R A ids (mark_done A task_id s)
         else (case redo_session_memory R A info s of
                 (s1, Some _) \<Rightarrow> recover_loop R A ids s1
               | (s1, None) \<Rightarrow> recover_loop R A ids (mark_done A task_id s1)))"

definition recover_pending_redo :: "('fs, 'm) redo_env \<Rightarrow> 'fs agfs \<Rightarrow> 'fs \<Rightarrow> 'fs" where
  "recover_pending_redo R A s = recover_loop R A (list_pending A s) s"

end
