(* ===== verification/Lock_Lease.thy ===== *)
theory Lock_Lease
  imports Lock_Manager
begin

text \<open>
  Lock ownership as callers see it: leases and hand-off references (\<^verbatim>\<open>lock_lease.py\<close>), the
  \<^verbatim>\<open>async with\<close> scope (\<^verbatim>\<open>lock_context.py\<close>) and the lock a semantic-queue message runs under
  (\<^verbatim>\<open>storage/queuefs/semantic_lock.py\<close>).

  A lease object is passed by value: closing returns the lease with its \<^verbatim>\<open>_handle\<close> cleared.  Its
  background refresh task is a flag; one round of it is \<open>refresh_round\<close>.
\<close>

datatype lock_error = LockAcquisitionError | ValueError | IndexError | TypeError

section \<open>Hand-off references\<close>

record lock_handoff_ref =
  ref_handle_id :: string
  ref_lock_paths :: "path list"

text \<open>The values a deserialised queue message can carry.\<close>

datatype py_value =
    PNone
  | PStr string
  | PInt int
  | PBool bool
  | PList "py_value list"
  | PDict "(string \<times> py_value) list"
  | PRef lock_handoff_ref

fun py_truthy :: "py_value \<Rightarrow> bool" where
  "py_truthy PNone = False"
| "py_truthy (PStr s) = (s \<noteq> [])"
| "py_truthy (PInt i) = (i \<noteq> 0)"
| "py_truthy (PBool b) = b"
| "py_truthy (PList xs) = (xs \<noteq> [])"
| "py_truthy (PDict d) = (d \<noteq> [])"
| "py_truthy (PRef r) = True"

text \<open>\<^verbatim>\<open>str(v)\<close>; the text of a container or an object is the parameter \<open>rp\<close>.\<close>

fun py_str :: "(py_value \<Rightarrow> string) \<Rightarrow> py_value \<Rightarrow> string" where
  "py_str rp PNone = ''None''"
| "py_str rp (PStr s) = s"
| "py_str rp (PInt i) = int_str i"
| "py_str rp (PBool b) = (if b then ''True'' else ''False'')"
| "py_str rp v = rp v"

fun py_iter :: "py_value \<Rightarrow> py_value list option" where
  "py_iter (PList xs) = Some xs"
| "py_iter (PStr s) = Some (map (\<lambda>c. PStr [c]) s)"
| "py_iter (PDict d) = Some (map (\<lambda>(k, _). PStr k) d)"
| "py_iter _ = None"

definition from_value :: "(py_value \<Rightarrow> string) \<Rightarrow> py_value \<Rightarrow> lock_error + lock_handoff_ref option" where
  "from_value rp v =
     (case v of
        PNone \<Rightarrow> Inr None
      | PRef r \<Rightarrow> Inr (Some r)
      | PDict d \<Rightarrow>
          (case map_of d ''handle_id'' of
             None \<Rightarrow> Inr None
           | Some hid \<Rightarrow>
               if \<not> py_truthy hid then Inr None
               else (case py_iter (case map_of d ''lock_paths'' of None \<Rightarrow> PList [] | Some ps \<Rightarrow> ps) of
                       None \<Rightarrow> Inl TypeError
                     | Some ps \<Rightarrow>
                         Inr (Some \<lparr>ref_handle_id = py_str rp hid,
                                    ref_lock_paths = map (py_str rp) (filter py_truthy ps)\<rparr>)))
      | _ \<Rightarrow> Inl ValueError)"

definition to_dict :: "lock_handoff_ref \<Rightarrow> py_value" where
  "to_dict ref =
     PDict [(''handle_id'', PStr (ref_handle_id ref)),
            (''lock_paths'', PList (map PStr (ref_lock_paths ref)))]"

section \<open>Leases\<close>

text \<open>An owned lease has its \<^verbatim>\<open>_handle\<close> and whether its refresh task runs.\<close>

datatype lease = NO_LOCK | BorrowedLockLease nat | OwnedLockLease "nat option" bool

definition new_owned_lease :: "nat \<Rightarrow> 'fs lm_state \<Rightarrow> lease" where
  "new_owned_lease r st = OwnedLockLease (Some r) (h_locks (lm_heap st r) \<noteq> [])"

definition lease_handle :: "'fs lm_config \<Rightarrow> lease \<Rightarrow> 'fs lm_state \<Rightarrow> 'fs lm_state \<times> nat option" where
  "lease_handle C l st =
     (case l of
        NO_LOCK \<Rightarrow> (st, None)
      | BorrowedLockLease r \<Rightarrow> get_handle C (h_id (lm_heap st r)) st
      | OwnedLockLease None _ \<Rightarrow> (st, None)
      | OwnedLockLease (Some r) _ \<Rightarrow> get_handle C (h_id (lm_heap st r)) st)"

definition lease_handle_id :: "'fs lm_config \<Rightarrow> lease \<Rightarrow> 'fs lm_state \<Rightarrow> 'fs lm_state \<times> string" where
  "lease_handle_id C l st =
     (case lease_handle C l st of
        (st1, None) \<Rightarrow> (st1, [])
      | (st1, Some r) \<Rightarrow> (st1, h_id (lm_heap st1 r)))"

definition lease_active :: "'fs lm_config \<Rightarrow> lease \<Rightarrow> 'fs lm_state \<Rightarrow> 'fs lm_state \<times> bool" where
  "lease_active C l st =
     (case lease_handle C l st of
        (st1, None) \<Rightarrow> (st1, False)
      | (st1, Some r) \<Rightarrow> (st1, h_locks (lm_heap st1 r) \<noteq> []))"

definition as_borrowed :: "'fs lm_config \<Rightarrow> lease \<Rightarrow> 'fs lm_state \<Rightarrow> 'fs lm_state \<times> lease" where
  "as_borrowed C l st =
     (case l of
        OwnedLockLease _ _ \<Rightarrow>
          (case lease_handle C l st of
             (st1, None) \<Rightarrow> (st1, NO_LOCK)
           | (st1, Some r) \<Rightarrow> (st1, BorrowedLockLease r))
      | _ \<Rightarrow> (st, l))"

definition to_handoff ::
    "'fs lm_config \<Rightarrow> lease \<Rightarrow> 'fs lm_state \<Rightarrow> 'fs lm_state \<times> lock_handoff_ref option" where
  "to_handoff C l st =
     (case l of
        OwnedLockLease _ _ \<Rightarrow>
          (case lease_handle C l st of
             (st1, None) \<Rightarrow> (st1, None)
           | (st1, Some r) \<Rightarrow>
               (st1, Some \<lparr>ref_handle_id = h_id (lm_heap st1 r), ref_lock_paths = h_locks (lm_heap st1 r)\<rparr>))
      | _ \<Rightarrow> (st, None))"

definition lease_close :: "'fs lm_config \<Rightarrow> lease \<Rightarrow> 'fs lm_state \<Rightarrow> 'fs lm_state \<times> lease" where
  "lease_close C l st =
     (case l of
        OwnedLockLease own _ \<Rightarrow>
          (case lease_handle C l st of
             (st1, cur) \<Rightarrow>
               (case (case cur of Some r \<Rightarrow> Some r | None \<Rightarrow> own) of
                  None \<Rightarrow> (st1, OwnedLockLease None False)
                | Some r \<Rightarrow> (lm_release C r st1, OwnedLockLease None False)))
      | _ \<Rightarrow> (st, l))"

definition lease_handoff :: "lease \<Rightarrow> lease" where
  "lease_handoff l = (case l of OwnedLockLease _ _ \<Rightarrow> OwnedLockLease None False | _ \<Rightarrow> l)"

definition from_handoff ::
    "'fs lm_config \<Rightarrow> lock_handoff_ref \<Rightarrow> 'fs lm_state \<Rightarrow> 'fs lm_state \<times> (lock_error + lease)" where
  "from_handoff C ref st =
     (case (case get_handle_async C (ref_handle_id ref) st of
              (st1, Some r) \<Rightarrow> (st1, Some r)
            | (st1, None) \<Rightarrow> adopt_handle_async C (ref_handle_id ref) (ref_lock_paths ref) st1) of
        (st2, Some r) \<Rightarrow> (st2, Inr (new_owned_lease r st2))
      | (st2, None) \<Rightarrow> (st2, Inl LockAcquisitionError))"

definition owned_acquire_tree ::
    "'fs lm_config \<Rightarrow> path \<Rightarrow> timeout_arg \<Rightarrow> 'fs lm_state \<Rightarrow> ('fs lm_state \<times> (lock_error + lease)) option" where
  "owned_acquire_tree C path timeout st =
     (let (st1, r) = create_handle C st
      in case lm_acquire_tree C r path timeout st1 of
           None \<Rightarrow> None
         | Some (st2, True) \<Rightarrow> Some (st2, Inr (new_owned_lease r st2))
         | Some (st2, False) \<Rightarrow> Some (lm_release C r st2, Inl LockAcquisitionError))"

definition owned_acquire_exact_paths ::
    "'fs lm_config \<Rightarrow> path list \<Rightarrow> timeout_arg \<Rightarrow> 'fs lm_state \<Rightarrow>
     ('fs lm_state \<times> (lock_error + lease)) option" where
  "owned_acquire_exact_paths C paths timeout st =
     (let (st1, r) = create_handle C st
      in case acquire_exact_path_batch C r paths timeout st1 of
           None \<Rightarrow> None
         | Some (st2, True) \<Rightarrow> Some (st2, Inr (new_owned_lease r st2))
         | Some (st2, False) \<Rightarrow> Some (lm_release C r st2, Inl LockAcquisitionError))"

text \<open>One round of \<^verbatim>\<open>_refresh_loop\<close> after its sleep; the flag says whether the loop goes on.\<close>

definition refresh_round :: "'fs lm_config \<Rightarrow> lease \<Rightarrow> 'fs lm_state \<Rightarrow> 'fs lm_state \<times> bool" where
  "refresh_round C l st =
     (case lease_handle C l st of
        (st1, None) \<Rightarrow> (st1, False)
      | (st1, Some r) \<Rightarrow> (refresh_lock C r st1, True))"

text \<open>\<^verbatim>\<open>max(0.1, expire / 2)\<close>, in nanoseconds.\<close>

definition refresh_interval :: "'fs lm_config \<Rightarrow> int" where
  "refresh_interval C = max 100000000 (eng_expire (cfg_engine C) div 2)"

section \<open>Lock scopes\<close>

record lock_context =
  lc_paths :: "path list"
  lc_mode :: string
  lc_mv_dst :: "path option"
  lc_src_is_dir :: bool
  lc_handle :: "nat option"
  lc_timeout :: timeout_arg
  lc_owns_handle :: bool
  lc_acquired :: "path list"
  lc_lease :: "lease option"

definition new_lock_context ::
    "path list \<Rightarrow> string \<Rightarrow> path option \<Rightarrow> bool \<Rightarrow> nat option \<Rightarrow> timeout_arg \<Rightarrow> lock_context" where
  "new_lock_context paths mode mv_dst src_is_dir handle timeout =
     \<lparr>lc_paths = paths, lc_mode = mode, lc_mv_dst = mv_dst, lc_src_is_dir = src_is_dir, lc_handle = handle,
      lc_timeout = timeout, lc_owns_handle = (handle = None), lc_acquired = [], lc_lease = None\<rparr>"

text \<open>The loop of the tree mode; \<^verbatim>\<open>success\<close> is \<open>False\<close> when there is no path.\<close>

fun tree_paths_loop ::
    "'fs lm_config \<Rightarrow> nat \<Rightarrow> timeout_arg \<Rightarrow> bool \<Rightarrow> path list \<Rightarrow> 'fs lm_state \<Rightarrow>
     ('fs lm_state \<times> bool) option" where
  "tree_paths_loop C r timeout success [] st = Some (st, success)"
| "tree_paths_loop C r timeout success (path # paths) st =
     (case lm_acquire_tree C r path timeout st of
        None \<Rightarrow> None
      | Some (st1, False) \<Rightarrow> Some (st1, False)
      | Some (st1, True) \<Rightarrow> tree_paths_loop C r timeout True paths st1)"

definition context_acquire ::
    "'fs lm_config \<Rightarrow> nat \<Rightarrow> lock_context \<Rightarrow> 'fs lm_state \<Rightarrow> ('fs lm_state \<times> (lock_error + bool)) option" where
  "context_acquire C r ctx st =
     (if lc_mode ctx = ''tree'' then
        map_option (apsnd Inr) (tree_paths_loop C r (lc_timeout ctx) False (lc_paths ctx) st)
      else if lc_mode ctx = ''exact'' then
        map_option (apsnd Inr) (acquire_exact_path_batch C r (lc_paths ctx) (lc_timeout ctx) st)
      else if lc_mode ctx = ''mv'' then
        (case lc_mv_dst ctx of
           None \<Rightarrow> Some (st, Inl LockAcquisitionError)
         | Some dst \<Rightarrow>
             (case lc_paths ctx of
                [] \<Rightarrow> Some (st, Inl IndexError)
              | src # _ \<Rightarrow>
                  map_option (apsnd Inr) (lm_acquire_mv C r src dst (lc_src_is_dir ctx) (lc_timeout ctx) st)))
      else Some (st, Inl LockAcquisitionError))"

definition aenter ::
    "'fs lm_config \<Rightarrow> lock_context \<Rightarrow> 'fs lm_state \<Rightarrow>
     ('fs lm_state \<times> lock_context \<times> (lock_error + nat)) option" where
  "aenter C ctx st =
     (let (st0, r) = (case lc_handle ctx of Some r \<Rightarrow> (st, r) | None \<Rightarrow> create_handle C st);
          ctx0 = ctx\<lparr>lc_handle := Some r\<rparr>;
          locks_before = h_locks (lm_heap st0 r)
      in case context_acquire C r ctx0 st0 of
           None \<Rightarrow> None
         | Some (st1, Inl e) \<Rightarrow> Some (st1, ctx0, Inl e)
         | Some (st1, Inr success) \<Rightarrow>
             (let acquired = filter (\<lambda>lp. lp \<notin> set locks_before) (h_locks (lm_heap st1 r));
                  ctx1 = ctx0\<lparr>lc_acquired := acquired\<rparr>
              in if \<not> success
                 then Some (if lc_owns_handle ctx1 then lm_release C r st1
                            else lm_release_selected C r acquired st1, ctx1, Inl LockAcquisitionError)
                 else if lc_owns_handle ctx1 \<and> h_locks (lm_heap st1 r) \<noteq> []
                 then Some (st1, ctx1\<lparr>lc_lease := Some (new_owned_lease r st1)\<rparr>, Inr r)
                 else Some (st1, ctx1, Inr r)))"

definition aexit :: "'fs lm_config \<Rightarrow> lock_context \<Rightarrow> 'fs lm_state \<Rightarrow> 'fs lm_state" where
  "aexit C ctx st =
     (case lc_handle ctx of
        None \<Rightarrow> st
      | Some r \<Rightarrow>
          if lc_owns_handle ctx
          then (case lc_lease ctx of Some l \<Rightarrow> fst (lease_close C l st) | None \<Rightarrow> lm_release C r st)
          else lm_release_selected C r (lc_acquired ctx) st)"

section \<open>The lock of a semantic message\<close>

definition TREE_LOCK_SUFFIX :: string where
  "TREE_LOCK_SUFFIX = ''/'' @ LOCK_FILE_NAME"

definition tree_paths_from_handoff :: "path list \<Rightarrow> path list" where
  "tree_paths_from_handoff lock_paths =
     py_fromkeys (map (\<lambda>lp. let t = take (length lp - length TREE_LOCK_SUFFIX) lp in if t = [] then ''/'' else t)
       (filter (\<lambda>lp. py_endswith lp TREE_LOCK_SUFFIX) lock_paths))"

text \<open>The reacquisition after a hand-off whose handle is gone.\<close>

definition reacquire_semantic ::
    "'fs lm_config \<Rightarrow> lock_handoff_ref \<Rightarrow> path option \<Rightarrow> 'fs lm_state \<Rightarrow>
     ('fs lm_state \<times> (lock_error + lease)) option" where
  "reacquire_semantic C ref fallback st =
     (let tps = tree_paths_from_handoff (ref_lock_paths ref);
          tree_paths = (if tps = [] then (case fallback of Some p \<Rightarrow> [p] | None \<Rightarrow> []) else tps)
      in if tree_paths = [] then Some (st, Inl LockAcquisitionError)
         else
           (let (st1, r) = create_handle C st
            in case (if length tree_paths = 1 then lm_acquire_tree C r (hd tree_paths) LOCK_TIMEOUT_DEFAULT st1
                     else acquire_tree_batch C r tree_paths LOCK_TIMEOUT_DEFAULT st1) of
                 None \<Rightarrow> None
               | Some (st2, False) \<Rightarrow> Some (lm_release C r st2, Inl LockAcquisitionError)
               | Some (st2, True) \<Rightarrow> Some (st2, Inr (new_owned_lease r st2))))"

text \<open>\<^verbatim>\<open>resolve\<close>; each evaluation of \<^verbatim>\<open>caller_lock.active\<close> looks the handle up again.\<close>

definition resolve ::
    "'fs lm_config \<Rightarrow> lock_handoff_ref option \<Rightarrow> lease \<Rightarrow> path option \<Rightarrow> 'fs lm_state \<Rightarrow>
     ('fs lm_state \<times> (lock_error + lease)) option" where
  "resolve C lock_handoff caller_lock fallback st =
     (let (st1, both) = (if lock_handoff \<noteq> None then lease_active C caller_lock st else (st, False))
      in if both then Some (st1, Inl ValueError)
         else
           (let (st2, act) = (if caller_lock = NO_LOCK then (st1, True) else lease_active C caller_lock st1)
            in if caller_lock \<noteq> NO_LOCK \<and> \<not> act then Some (st2, Inl ValueError)
               else
                 (let (st3, act3) = lease_active C caller_lock st2
                  in if act3 then (let (st4, l) = as_borrowed C caller_lock st3 in Some (st4, Inr l))
                     else (case lock_handoff of
                             None \<Rightarrow> Some (st3, Inr NO_LOCK)
                           | Some ref \<Rightarrow>
                               (case from_handoff C ref st3 of
                                  (st4, Inr l) \<Rightarrow> Some (st4, Inr l)
                                | (st4, Inl _) \<Rightarrow> reacquire_semantic C ref fallback st4)))))"

definition scope_close :: "'fs lm_config \<Rightarrow> lease \<Rightarrow> 'fs lm_state \<Rightarrow> 'fs lm_state \<times> lease" where
  "scope_close C l st = lease_close C l st"

end
