(* ===== verification/Path_Lock_Facts.thy ===== *)
theory Path_Lock_Facts
  imports Path_Lock "HOL-Library.Multiset"
begin

text \<open>
  What the path-lock engine guarantees, proved once for every file service that satisfies the laws
  of \<open>agfs_laws\<close> (locale \<open>lock_engine\<close>; \<open>passive_engine\<close> adds that nothing else runs while a task
  sleeps) and then used through the interpretation on the in-memory plugin.
\<close>

named_theorems token_simps \<open>the engine's predicates in terms of the token a lock file holds\<close>

section \<open>Predicates in terms of tokens\<close>

lemmas async_twins =
  is_existing_directory_async_def read_token_async_def is_lock_stale_async_def is_locked_async_def

lemma owned_iff [token_simps]:
  "is_lock_owned_by E w lp oid \<longleftrightarrow> (\<exists>t. read_token E w lp = Some t \<and> token_owner t = oid)"
  by (auto simp: is_lock_owned_by_def read_owner_and_type_def parse_split split: option.splits)

lemma owned_async_iff [token_simps]:
  "is_lock_owned_by_async E w lp oid \<longleftrightarrow> (\<exists>t. read_token E w lp = Some t \<and> token_owner t = oid)"
  by (auto simp: is_lock_owned_by_async_def read_owner_and_type_async_def async_twins parse_split
      split: option.splits)

lemma owned_async_eq: "is_lock_owned_by_async = is_lock_owned_by"
  by (simp add: fun_eq_iff owned_iff owned_async_iff)

lemma foreign_iff [token_simps]:
  "foreign_lock E w oid lp \<longleftrightarrow> (\<exists>t. read_token E w lp = Some t \<and> token_owner t \<noteq> oid)"
  by (auto simp: foreign_lock_def async_twins parse_split split: option.splits)

lemma foreign_tree_iff [token_simps]:
  "foreign_tree_lock E w oid lp \<longleftrightarrow>
     (\<exists>t. read_token E w lp = Some t \<and> token_owner t \<noteq> oid \<and> token_type t = TREE)"
  by (auto simp: foreign_tree_lock_def async_twins parse_split split: option.splits)

lemma locked_by_other_iff [token_simps]:
  "is_locked_by_other E w lp oid \<longleftrightarrow> foreign_lock E w oid lp"
  by (auto simp: is_locked_by_other_def foreign_iff async_twins parse_split split: option.splits)

lemma stale_iff [token_simps]:
  "is_lock_stale E w lp e \<longleftrightarrow>
     (\<forall>t. read_token E w lp = Some t \<longrightarrow> token_time t = 0 \<or> e < now w - token_time t)"
  by (auto simp: is_lock_stale_def parse_split split: option.splits)

lemma live_iff [token_simps]:
  "live_lock E w ig lp \<longleftrightarrow>
     read_token E w lp \<noteq> None \<and> \<not> (ig \<and> is_lock_stale E w lp (eng_expire E))"
  by (simp add: live_lock_def)

lemma live_tree_iff [token_simps]:
  "live_tree_lock E w ig lp \<longleftrightarrow>
     (\<exists>t. read_token E w lp = Some t \<and> token_type t = TREE) \<and>
     \<not> (ig \<and> is_lock_stale E w lp (eng_expire E))"
  by (auto simp: live_tree_lock_def parse_split split: option.splits)

lemma owned_type_iff [token_simps]:
  "owned_lock_type_for_lock_path E w lp h = Some ty \<longleftrightarrow>
     lp \<in> set (h_locks h) \<and>
     (\<exists>t. read_token E w lp = Some t \<and> token_owner t = h_id h \<and> token_type t = ty)"
  by (auto simp: owned_lock_type_for_lock_path_def async_twins parse_split split: option.splits)

section \<open>Handles\<close>

lemma add_lock_props [simp]:
  "h_id (add_lock lp h) = h_id h" "set (h_locks (add_lock lp h)) = insert lp (set (h_locks h))"
  "distinct (h_locks h) \<Longrightarrow> distinct (h_locks (add_lock lp h))"
  "h_created_at (add_lock lp h) = h_created_at h"
  "h_last_active_at (add_lock lp h) = h_last_active_at h"
  by (auto simp: add_lock_def)

lemma remove_lock_props [simp]:
  "h_id (remove_lock lp h) = h_id h" "h_locks (remove_lock lp h) = remove1 lp (h_locks h)"
  "h_created_at (remove_lock lp h) = h_created_at h"
  "h_last_active_at (remove_lock lp h) = h_last_active_at h"
  by (auto simp: remove_lock_def remove1_idem)

section \<open>Paths\<close>

lemma rstrip_clean: "clean_path p \<Longrightarrow> p \<noteq> ''/'' \<Longrightarrow> py_rstrip CHR ''/'' p = p"
  by (rule rstrip_id) (auto elim: clean_cases)

lemma strip_slash_clean:
  assumes "clean_path p"
  shows "strip_slash p = p"
proof (cases "p = ''/''")
  case True
  then show ?thesis by (simp add: strip_slash_def py_rstrip_def)
next
  case False
  with assms have "p \<noteq> []" by (auto elim: clean_cases)
  with False assms show ?thesis by (simp add: strip_slash_def rstrip_clean)
qed

lemma parent_root: "get_parent_path ''/'' = None"
  by (simp add: get_parent_path_def py_rstrip_def py_rsplit1_def)

lemma parent_Some:
  assumes "clean_path p" "get_parent_path p = Some q"
  obtains n where "p = q @ CHR ''/'' # n" "q \<noteq> []" "CHR ''/'' \<notin> set n"
proof -
  have "py_rstrip CHR ''/'' p = p"
    using assms parent_root by (metis option.distinct(1) rstrip_clean)
  then obtain n where "py_rsplit1 CHR ''/'' p = Some (q, n)" "q \<noteq> []"
    using assms(2) by (auto simp: get_parent_path_def split: option.splits if_splits)
  then show thesis using that rsplit1_Some by blast
qed

lemma parent_clean:
  assumes "clean_path p" "get_parent_path p = Some q"
  shows "clean_path q" "q \<noteq> ''/''" "length q < length p"
proof -
  show "length q < length p" using assms(2) by (rule get_parent_shorter)
  obtain n where "p = q @ CHR ''/'' # n" "q \<noteq> []" "CHR ''/'' \<notin> set n"
    using assms by (rule parent_Some)
  then show "clean_path q" "q \<noteq> ''/''" using assms(1) by (auto simp: clean_append)
qed

lemma ancestors_clean:
  assumes "clean_path p" "q \<in> set (ancestors p)"
  shows "clean_path q \<and> q \<noteq> ''/'' \<and> length q < length p"
  using assms
proof (induction p rule: ancestors.induct)
  case (1 p)
  from "1.prems"(2) obtain r where r: "get_parent_path p = Some r" "q = r \<or> q \<in> set (ancestors r)"
    by (cases "get_parent_path p") (auto simp: ancestors.simps [of p])
  note rc = parent_clean [OF "1.prems"(1) r(1)]
  show ?case using r(2) rc "1.IH" [OF r(1) rc(1)] by auto
qed

lemma lock_path_child:
  assumes "clean_path p"
  shows "get_lock_path p = child_path p LOCK_FILE_NAME"
  using assms by (simp add: get_lock_path_def strip_slash_clean child_path_def)

lemma lock_name_entry [simp]: "entry_name LOCK_FILE_NAME"
  by (simp add: entry_name_def LOCK_FILE_NAME_def)

lemma lock_path_clean: "clean_path p \<Longrightarrow> clean_path (get_lock_path p)"
  by (simp add: lock_path_child clean_child)

lemma lock_path_inj:
  assumes "clean_path p" "clean_path q" "get_lock_path p = get_lock_path q"
  shows "p = q"
  using assms
  by (auto simp: lock_path_child child_path_def LOCK_FILE_NAME_def split: if_splits elim: clean_cases)

section \<open>Conflicts of an exact lock\<close>

text \<open>The lock files that keep another owner out of \<open>path\<close>: one of the path's own lock files held by
  someone else, or someone else's TREE lock on an ancestor.\<close>

definition exact_conflict :: "'fs engine \<Rightarrow> 'fs world \<Rightarrow> path \<Rightarrow> string \<Rightarrow> path \<Rightarrow> bool" where
  "exact_conflict E w path oid lp \<longleftrightarrow>
     (lp \<in> set (get_exact_lock_paths_async E w path) \<or> lp = get_lock_path path) \<and> foreign_lock E w oid lp \<or>
     lp \<in> get_lock_path ` set (ancestors path) \<and> foreign_tree_lock E w oid lp"

lemma exact_conflict_token: "exact_conflict E w path oid lp \<Longrightarrow> read_token E w lp \<noteq> None"
  by (auto simp: exact_conflict_def token_simps)

lemma check_ancestors_None:
  "check_ancestors_for_tree E w path oid = None \<longleftrightarrow>
     (\<forall>lp \<in> get_lock_path ` set (ancestors path). \<not> foreign_tree_lock E w oid lp)"
  by (auto simp: check_ancestors_for_tree_def find_None_iff)

lemma check_ancestors_Some:
  "check_ancestors_for_tree E w path oid = Some lp \<Longrightarrow> exact_conflict E w path oid lp"
  by (auto simp: check_ancestors_for_tree_def exact_conflict_def dest: find_SomeD)

lemma check_exact_Some:
  "check_exact_path_lock E w path oid = Some lp \<Longrightarrow> exact_conflict E w path oid lp"
  by (auto simp: check_exact_path_lock_def exact_conflict_def dest: find_SomeD)

lemma check_exact_None:
  "check_exact_path_lock E w path oid = None \<longleftrightarrow>
     (\<forall>lp \<in> set (get_exact_lock_paths_async E w path). \<not> foreign_lock E w oid lp)"
  by (auto simp: check_exact_path_lock_def find_None_iff)

text \<open>One attempt either waits on a conflict or writes.\<close>

lemma exact_attempt_conflict:
  assumes "exact_conflict E w path oid lp0" "lock_path \<in> set (get_exact_lock_paths_async E w path)"
  shows "\<exists>lp. exact_conflict E w path oid lp \<and>
    exact_attempt E path lock_path oid deadline w = conflict_wait E lp deadline w"
proof (cases "check_exact_path_lock E w path oid")
  case (Some lp)
  then show ?thesis by (auto simp: exact_attempt_def dest: check_exact_Some)
next
  case None
  note ex = this [unfolded check_exact_None]
  show ?thesis
  proof (cases "foreign_lock E w oid (get_lock_path path)")
    case True
    then have "get_lock_path path \<noteq> lock_path" using ex assms(2) by auto
    with True None show ?thesis by (auto simp: exact_attempt_def exact_conflict_def)
  next
    case False
    then have "check_ancestors_for_tree E w path oid \<noteq> None"
      using assms(1) ex by (auto simp: exact_conflict_def check_ancestors_None)
    with False None show ?thesis
      by (auto simp: exact_attempt_def dest: check_ancestors_Some)
  qed
qed

lemma exact_attempt_free:
  assumes "\<And>lp. \<not> exact_conflict E w path oid lp"
  shows "exact_attempt E path lock_path oid deadline w = exact_write E path lock_path oid deadline w"
proof -
  have "check_exact_path_lock E w path oid = None" "check_ancestors_for_tree E w path oid = None"
    using assms check_exact_Some check_ancestors_Some by (metis not_None_eq)+
  moreover have "\<not> foreign_lock E w oid (get_lock_path path)"
    using assms by (auto simp: exact_conflict_def)
  ultimately show ?thesis by (simp add: exact_attempt_def)
qed

text \<open>What a successful attempt has checked, whatever the file service does.\<close>

definition exact_held :: "'fs engine \<Rightarrow> 'fs world \<Rightarrow> path \<Rightarrow> path \<Rightarrow> string \<Rightarrow> bool" where
  "exact_held E w path lp oid \<longleftrightarrow>
     is_lock_owned_by E w lp oid \<and> \<not> foreign_lock E w oid (get_lock_path path) \<and>
     (\<forall>q \<in> set (ancestors path). \<not> foreign_tree_lock E w oid (get_lock_path q))"

lemma exact_after_write_True:
  assumes "exact_after_write E path lp oid deadline w = (w', Return True)"
  shows "w' = w \<and> exact_held E w path lp oid"
proof -
  from assms have own: "is_lock_owned_by E w lp oid"
    by (auto simp: exact_after_write_def wait_or_fail_def owned_iff owned_async_iff split: if_splits)
  with assms have "check_ancestors_for_tree E w path oid = None" "w' = w"
    and c: "check_path_lock E w path oid = None \<or> check_path_lock E w path oid = Some lp"
    by (auto simp: exact_after_write_def wait_or_fail_def owned_iff owned_async_iff Let_def
        split: if_splits option.splits)
  moreover have "\<not> foreign_lock E w oid (get_lock_path path)"
    using c own by (auto simp: check_path_lock_def Let_def token_simps split: if_splits)
  ultimately show ?thesis using own by (auto simp: exact_held_def check_ancestors_None)
qed

lemma conflict_wait_not_True: "conflict_wait E lp deadline w \<noteq> (w', Return True)"
  by (simp add: conflict_wait_def)

lemma exact_attempt_True:
  assumes "exact_attempt E path lp oid deadline w = (w', Return True)"
  shows "exact_held E w' path lp oid"
proof -
  from assms have "exact_write E path lp oid deadline w = (w', Return True)"
    by (auto simp: exact_attempt_def conflict_wait_not_True Let_def split: option.splits if_splits)
  then obtain w2 where "exact_after_write E path lp oid deadline w2 = (w', Return True)"
    by (auto simp: exact_write_def split: if_splits sum.splits prod.splits option.splits)
  then show ?thesis using exact_after_write_True by blast
qed

lemma exact_loop_True:
  "exact_loop n E path lp oid deadline w = Some (w', True) \<Longrightarrow> exact_held E w' path lp oid"
  by (induction n arbitrary: w) (auto dest: exact_attempt_True split: prod.splits ctl.splits)

lemma exact_loop_mono:
  "exact_loop n E path lp oid deadline w = Some r \<Longrightarrow> n \<le> m \<Longrightarrow>
   exact_loop m E path lp oid deadline w = Some r"
proof (induction n arbitrary: w m)
  case (Suc n)
  then obtain m' where "m = Suc m'" "n \<le> m'" by (cases m) auto
  with Suc show ?case by (auto split: prod.splits ctl.splits)
qed simp

lemma acquire_exact_True:
  assumes "acquire_exact_path fuel E path h timeout w = Some (w', h', True)"
  shows "h_id h' = h_id h \<and>
    (has_owned_ancestor_tree E w' path h' \<or>
     (let lp = get_exact_lock_path_async E w path
      in lp \<in> set (h_locks h') \<and> is_lock_owned_by E w' lp (h_id h) \<and>
         (lp \<notin> set (h_locks h) \<longrightarrow> exact_held E w' path lp (h_id h))))"
proof -
  let ?lp = "get_exact_lock_path_async E w path"
  let ?reuse = "?lp \<in> set (h_locks h) \<and> is_lock_owned_by_async E w ?lp (h_id h)"
  let ?loop = "exact_loop fuel E path ?lp (h_id h) (resolve_deadline E timeout w) w"
  show ?thesis
  proof (cases "?reuse \<or> has_owned_ancestor_tree E w path h")
    case True
    then have "w' = w \<and> (if ?reuse then h' = add_lock ?lp h else h' = h)"
      using assms by (auto simp: acquire_exact_path_def Let_def split: if_splits)
    with True show ?thesis by (auto simp: owned_async_eq split: if_splits)
  next
    case False
    then have "?loop = Some (w', True) \<and> h' = add_lock ?lp h"
      using assms unfolding acquire_exact_path_def Let_def
      by (simp split: option.splits prod.splits bool.splits if_splits)
    with exact_loop_True [of fuel E path ?lp] show ?thesis by (auto simp: exact_held_def)
  qed
qed

lemma acquire_exact_handle:
  assumes "acquire_exact_path fuel E path h timeout w = Some (w', h', b)"
  shows "(\<not> b \<longrightarrow> h' = h) \<and> set (h_locks h) \<subseteq> set (h_locks h') \<and> h_id h' = h_id h"
  using assms unfolding acquire_exact_path_def Let_def
  by (auto split: option.splits prod.splits bool.splits if_splits)

lemma after_write_free:
  assumes "is_lock_owned_by E w lp oid" "\<not> foreign_lock E w oid (get_lock_path path)"
    and "check_ancestors_for_tree E w path oid = None"
  shows "exact_after_write E path lp oid deadline w = (w, Return True)"
  using assms by (simp add: exact_after_write_def owned_async_eq check_path_lock_def)

lemma exact_paths_cong:
  "is_existing_directory E w' path = is_existing_directory E w path \<Longrightarrow>
   get_exact_lock_paths_async E w' path = get_exact_lock_paths_async E w path"
  by (simp add: get_exact_lock_paths_async_def get_exact_lock_path_async_def async_twins)

text \<open>Conflicts do not appear where every changed token is gone or the owner's.\<close>

lemma conflict_antimono:
  assumes "is_existing_directory E w' path = is_existing_directory E w path"
    and "\<And>q t. read_token E w' q = Some t \<Longrightarrow> read_token E w q = Some t \<or> token_owner t = oid"
    and "exact_conflict E w' path oid lp"
  shows "exact_conflict E w path oid lp \<and> read_token E w' lp = read_token E w lp"
  using assms(2) [of lp] assms(3)
  by (auto simp: exact_conflict_def exact_paths_cong [OF assms(1)] token_simps)

text \<open>For an owner with no lock file, a path counts as locked exactly when some conflict is live.\<close>

lemma is_locked_iff:
  assumes "\<And>lp t. read_token E w lp = Some t \<Longrightarrow> token_owner t \<noteq> oid"
  shows "is_locked E w path True \<longleftrightarrow>
    (\<exists>lp. exact_conflict E w path oid lp \<and> \<not> is_lock_stale E w lp (eng_expire E))"
proof -
  have paths: "get_exact_lock_paths E w path = get_exact_lock_paths_async E w path"
    by (simp add: get_exact_lock_paths_def get_exact_lock_paths_async_def get_exact_lock_path_def
        get_exact_lock_path_async_def async_twins)
  have foreign: "foreign_lock E w oid lp \<longleftrightarrow> read_token E w lp \<noteq> None" for lp
    using assms by (auto simp: foreign_iff)
  have tree: "foreign_tree_lock E w oid lp \<longleftrightarrow> (\<exists>t. read_token E w lp = Some t \<and> token_type t = TREE)" for lp
    using assms by (auto simp: foreign_tree_iff)
  show ?thesis
    unfolding is_locked_def exact_conflict_def foreign tree paths live_iff live_tree_iff list_ex_iff Let_def
    by auto
qed

section \<open>What a TREE lock has checked\<close>

definition tree_held :: "nat \<Rightarrow> 'fs engine \<Rightarrow> 'fs world \<Rightarrow> path \<Rightarrow> path \<Rightarrow> string \<Rightarrow> bool" where
  "tree_held depth E w path lp oid \<longleftrightarrow>
     is_lock_owned_by E w lp oid \<and> scan_descendants_for_locks depth E w path oid = Some None \<and>
     (\<forall>q \<in> set (get_exact_lock_paths_async E w path). \<not> foreign_lock E w oid q) \<and>
     (\<forall>q \<in> set (ancestors path). \<not> foreign_tree_lock E w oid (get_lock_path q))"

lemma tree_after_write_True:
  assumes "tree_after_write depth E path lp oid deadline w = Some (w', Return True)"
  shows "tree_held depth E w' path lp oid"
proof -
  from assms obtain desc where desc: "scan_descendants_for_locks depth E w path oid = Some desc"
    by (auto simp: tree_after_write_def split: option.splits)
  with assms have "desc = None" "check_exact_path_lock E w path oid = None"
    "check_ancestors_for_tree E w path oid = None" "is_lock_owned_by_async E w lp oid" "w' = w"
    by (auto simp: tree_after_write_def wait_or_fail_def Let_def split: if_splits option.splits)
  with desc show ?thesis
    by (simp add: tree_held_def owned_async_eq check_exact_None check_ancestors_None)
qed

lemma tree_attempt_True:
  assumes "tree_attempt depth E path lp oid deadline w = Some (w', Return True)"
  shows "tree_held depth E w' path lp oid"
proof -
  from assms have "tree_write depth E path lp oid deadline w = Some (w', Return True)"
    by (auto simp: tree_attempt_def conflict_wait_not_True split: option.splits if_splits)
  then obtain w2 where "tree_after_write depth E path lp oid deadline w2 = Some (w', Return True)"
    by (auto simp: tree_write_def split: if_splits sum.splits prod.splits)
  then show ?thesis by (rule tree_after_write_True)
qed

lemma tree_loop_True:
  "tree_loop n depth E path lp oid deadline w = Some (w', True) \<Longrightarrow> tree_held depth E w' path lp oid"
  by (induction n arbitrary: w)
    (auto dest: tree_attempt_True split: prod.splits ctl.splits option.splits)

lemma acquire_tree_True:
  assumes "acquire_tree fuel depth E path h timeout w = Some (w', h', True)"
  shows "h_id h' = h_id h \<and>
    (has_owned_ancestor_tree E w' path h' \<or>
     (let lp = tree_lock_path E w path
      in lp \<in> set (h_locks h') \<and> is_lock_owned_by E w' lp (h_id h) \<and>
         (owned_lock_type_for_lock_path E w lp h = Some TREE \<or> tree_held depth E w' path lp (h_id h))))"
proof -
  let ?lp = "tree_lock_path E w path"
  let ?reuse = "owned_lock_type_for_lock_path E w ?lp h = Some TREE"
  show ?thesis
  proof (cases "?reuse \<or> has_owned_ancestor_tree E w path h")
    case True
    then have "w' = w \<and> (if ?reuse then h' = add_lock ?lp h else h' = h)"
      using assms by (auto simp: acquire_tree_def Let_def split: if_splits)
    with True show ?thesis by (auto simp: owned_type_iff owned_iff split: if_splits)
  next
    case False
    then have "tree_loop fuel depth E path ?lp (h_id h) (resolve_deadline E timeout w) w = Some (w', True)
        \<and> h' = add_lock ?lp h"
      using assms unfolding acquire_tree_def Let_def
      by (simp split: option.splits prod.splits bool.splits if_splits)
    with tree_loop_True [of fuel depth E path ?lp] show ?thesis by (auto simp: tree_held_def)
  qed
qed

lemma acquire_tree_new:
  assumes "acquire_tree fuel depth E path h timeout w = Some (w', h', True)"
    and "owned_lock_type_for_lock_path E w (tree_lock_path E w path) h \<noteq> Some TREE"
    and "\<not> has_owned_ancestor_tree E w path h"
  shows "tree_lock_path E w path \<in> set (h_locks h') \<and>
    tree_held depth E w' path (tree_lock_path E w path) (h_id h)"
proof -
  have "tree_loop fuel depth E path (tree_lock_path E w path) (h_id h) (resolve_deadline E timeout w) w =
      Some (w', True) \<and> h' = add_lock (tree_lock_path E w path) h"
    using assms unfolding acquire_tree_def Let_def
    by (simp split: option.splits prod.splits bool.splits if_splits)
  then show ?thesis using tree_loop_True by auto
qed

text \<open>The directories a scan from \<open>p\<close> visits.\<close>

inductive scanned_dir :: "'fs engine \<Rightarrow> 'fs world \<Rightarrow> path \<Rightarrow> path \<Rightarrow> bool" for E w where
  here: "scanned_dir E w p p"
| below: "ag_stat (eng_agfs E) (fs w) (child_path p n) = Inr True \<Longrightarrow> entry_name n \<Longrightarrow>
    n \<noteq> ''.'' \<Longrightarrow> n \<noteq> ''..'' \<Longrightarrow> \<not> py_startswith n EXACT_LOCK_FILE_PREFIX \<Longrightarrow>
    scanned_dir E w (child_path p n) d \<Longrightarrow> scanned_dir E w p d"

lemma entry_path_child: "clean_path p \<Longrightarrow> py_rstrip CHR ''/'' p @ ''/'' @ n = child_path p n"
  by (cases "p = ''/''") (simp add: child_path_def py_rstrip_def, simp add: child_path_def rstrip_clean)

text \<open>A scan that finds nothing has looked at every entry.\<close>

lemma scan_entries_None:
  assumes "scan_entries E w oid p scan es = Some None" "clean_path p" "(n, b) \<in> set es"
    and "n \<noteq> []" "n \<noteq> ''.''" "n \<noteq> ''..''"
  shows "if py_startswith n EXACT_LOCK_FILE_PREFIX then \<not> foreign_lock E w oid (child_path p n)
    else b \<longrightarrow> \<not> foreign_lock E w oid (get_lock_path (child_path p n)) \<and> scan (child_path p n) = Some None"
  using assms(1,3)
proof (induction es)
  case (Cons e es)
  obtain n' b' where e: "e = (n', b')" by fastforce
  have rest: "scan_entries E w oid p scan es = Some None"
    using Cons.prems(1) e
    by (auto simp: Let_def split: if_splits option.splits)
  show ?case
  proof (cases "(n, b) \<in> set es")
    case True
    with Cons.IH rest show ?thesis by blast
  next
    case False
    with Cons.prems(2) e have "n' = n" "b' = b" by auto
    with Cons.prems(1) e assms(2,4-6) show ?thesis
      by (auto simp: Let_def entry_path_child [OF assms(2), simplified] split: if_splits option.splits)
  qed
qed simp

lemma scan_entries_foreign:
  "scan_entries E w oid p scan es = Some (Some lp) \<Longrightarrow>
   (\<And>d q. scan d = Some (Some q) \<Longrightarrow> foreign_lock E w oid q) \<Longrightarrow> foreign_lock E w oid lp"
  by (induction es) (auto simp: Let_def split: if_splits option.splits)

lemma scan_foreign:
  "scan_descendants_for_locks k E w p oid = Some (Some lp) \<Longrightarrow> foreign_lock E w oid lp"
proof (induction k arbitrary: p lp)
  case (Suc k)
  then obtain es where
    "scan_entries E w oid p (\<lambda>d. scan_descendants_for_locks k E w d oid) es = Some (Some lp)"
    by (auto split: sum.splits bool.splits)
  then show ?case by (rule scan_entries_foreign) (rule Suc.IH)
qed simp

section \<open>Where a lock file can be written\<close>

lemma safe_char_slash [simp]: "\<not> safe_char CHR ''/''"
  by (simp add: safe_char_def less_eq_char_def)

lemma sub_unsafe_slash: "CHR ''/'' \<notin> set (sub_unsafe b s)"
  by (induction b s rule: sub_unsafe.induct) auto

lemma safe_name_slash: "CHR ''/'' \<notin> set (safe_name s)"
proof -
  have "set (strip_dots (sub_unsafe False s)) \<subseteq> set (sub_unsafe False s)"
    by (auto simp: strip_dots_def Let_def dest!: set_dropWhileD)
  then show ?thesis
    using sub_unsafe_slash [of False s] by (auto simp: safe_name_def Let_def dest!: in_set_takeD)
qed

definition exact_lock_name :: "'fs engine \<Rightarrow> path \<Rightarrow> string" where
  "exact_lock_name E path =
     EXACT_LOCK_FILE_PREFIX @
     safe_name (case py_rsplit1 CHR ''/'' path of Some (_, b) \<Rightarrow> b | None \<Rightarrow> path) @ ''.'' @ eng_digest E path"

lemma prefixed_child:
  assumes "clean_path path" "get_parent_path path = Some parent"
  shows "get_prefixed_exact_lock_path E path = child_path parent (exact_lock_name E path)"
  using assms parent_clean [OF assms]
  by (simp add: get_prefixed_exact_lock_path_def strip_slash_clean exact_lock_name_def child_path_def
      Let_def)

lemma exact_name_entry: "CHR ''/'' \<notin> set (eng_digest E path) \<Longrightarrow> entry_name (exact_lock_name E path)"
  using safe_name_slash by (auto simp: entry_name_def exact_lock_name_def EXACT_LOCK_FILE_PREFIX_def)

text \<open>The lock file of \<open>path\<close> can be created: its directory exists and no directory has its name.\<close>

definition lock_writable :: "'fs engine \<Rightarrow> 'fs world \<Rightarrow> path \<Rightarrow> bool" where
  "lock_writable E w path \<longleftrightarrow>
     ag_stat (eng_agfs E) (fs w) (get_exact_lock_path_async E w path) \<noteq> Inr True \<and>
     (is_existing_directory E w path \<or>
      (case get_parent_path path of Some parent \<Rightarrow> is_existing_directory E w parent | None \<Rightarrow> False))"

section \<open>Engines over a lawful file service\<close>

text \<open>What creating missing directories leaves alone: the clock, every token, and every entry but
  new directories at the paths \<open>P\<close>.\<close>

definition dirs_added ::
    "'fs engine \<Rightarrow> (path \<Rightarrow> path) \<Rightarrow> path set \<Rightarrow> 'fs world \<Rightarrow> 'fs world \<Rightarrow> bool" where
  "dirs_added E canon P w w' \<longleftrightarrow>
     now w' = now w \<and> (\<forall>q. read_token E w' q = read_token E w q) \<and>
     (\<forall>q. ag_stat (eng_agfs E) (fs w') q = ag_stat (eng_agfs E) (fs w) q \<or>
          canon q \<in> P \<and> ag_stat (eng_agfs E) (fs w') q = Inr True \<and>
          (\<exists>e. ag_stat (eng_agfs E) (fs w) q = Inl e))"

lemma dirs_added_refl: "dirs_added E canon P w w"
  by (simp add: dirs_added_def)

lemma dirs_added_trans:
  "dirs_added E canon P w w1 \<Longrightarrow> dirs_added E canon Q w1 w2 \<Longrightarrow> P \<union> Q \<subseteq> R \<Longrightarrow>
   dirs_added E canon R w w2"
  unfolding dirs_added_def by (metis UnI1 UnI2 subsetD)

text \<open>One step of \<^verbatim>\<open>refresh\<close>: a path whose token the owner lost is reported, any other is rewritten.\<close>

lemma refresh_Cons:
  "refresh_loop E oid (lp # lps) w res =
     (if is_lock_owned_by E w lp oid
      then (case create_lock_file E lp oid (token_type (the (read_token E w lp))) w of
              Inr w1 \<Rightarrow> refresh_loop E oid lps w1 (res\<lparr>refreshed_paths := refreshed_paths res @ [lp]\<rparr>)
            | Inl _ \<Rightarrow> refresh_loop E oid lps w (res\<lparr>failed_paths := failed_paths res @ [lp]\<rparr>))
      else refresh_loop E oid lps w (res\<lparr>lost_paths := lost_paths res @ [lp]\<rparr>))"
  by (auto simp: read_owner_and_type_async_def async_twins parse_split owned_iff create_lock_file_def
      split: option.splits sum.splits)

declare refresh_loop.simps(2) [simp del]

locale lock_engine = agfs_laws A inv canon fsize
  for A :: "'fs agfs" and inv :: "'fs \<Rightarrow> bool" and canon :: "path \<Rightarrow> path" and fsize :: "'fs \<Rightarrow> nat" +
  fixes E :: "'fs engine"
  assumes engine_client: "eng_agfs E = A"
begin

lemma tok_canon: "canon p = canon q \<Longrightarrow> read_token E w p = read_token E w q"
  by (simp add: read_token_def engine_client read_canon [of p q])

lemma create_props:
  assumes "create_lock_file E lp oid ty w = Inr w'" "inv (fs w)"
  shows "inv (fs w')" "now w' = now w"
    "ag_stat A (fs w') q = (if canon q = canon lp then Inr False else ag_stat A (fs w) q)"
    "ag_read A (fs w') q = (if canon q = canon lp then Inr (make_fencing_token (now w) oid ty)
                            else ag_read A (fs w) q)"
proof -
  obtain s where s: "ag_write A (fs w) lp (make_fencing_token (now w) oid ty) = Inr s" "w' = w\<lparr>fs := s\<rparr>"
    using assms(1) by (auto simp: create_lock_file_def engine_client split: sum.splits)
  then show "inv (fs w')" "now w' = now w" using write_inv [OF assms(2)] by auto
  show "ag_stat A (fs w') q = (if canon q = canon lp then Inr False else ag_stat A (fs w) q)"
    using s stat_write [OF assms(2) s(1), of q] by simp
  show "ag_read A (fs w') q = (if canon q = canon lp then Inr (make_fencing_token (now w) oid ty)
                            else ag_read A (fs w) q)"
    using s read_write [OF assms(2) s(1), of q] by simp
qed

lemma tok_create:
  assumes "create_lock_file E lp oid ty w = Inr w'" "inv (fs w)" "plain_owner oid"
  shows "read_token E w' q =
    (if canon q = canon lp then Some (make_fencing_token (now w) oid ty) else read_token E w q)"
  using create_props(4) [OF assms(1,2), of q] assms(3)
  by (simp add: read_token_def engine_client)

lemma remove_props:
  assumes "inv (fs w)"
  shows "inv (fs (fst (remove_lock_file E lp w)))" "now (fst (remove_lock_file E lp w)) = now w"
    "read_token E (fst (remove_lock_file E lp w)) q =
       (if canon q = canon lp then None else read_token E w q)"
proof -
  have "inv (fs (fst (remove_lock_file E lp w))) \<and> now (fst (remove_lock_file E lp w)) = now w \<and>
    read_token E (fst (remove_lock_file E lp w)) q =
       (if canon q = canon lp then None else read_token E w q)"
  proof (cases "ag_rm A (fs w) lp")
    case (Inl e)
    with rm_readable obtain e' where "ag_read A (fs w) lp = Inl e'"
      by (cases "ag_read A (fs w) lp") fastforce+
    then have "canon q = canon lp \<Longrightarrow> read_token E w q = None"
      using read_canon [of q lp "fs w"] by (simp add: read_token_def engine_client)
    with Inl assms show ?thesis
      by (auto simp: remove_lock_file_def engine_client split: agfs_error.splits)
  next
    case (Inr s)
    then have "fst (remove_lock_file E lp w) = w\<lparr>fs := s\<rparr>"
      by (simp add: remove_lock_file_def engine_client)
    with Inr read_rm [OF assms Inr, of q] rm_inv [OF assms Inr] show ?thesis
      by (simp add: read_token_def engine_client)
  qed
  then show "inv (fs (fst (remove_lock_file E lp w)))" "now (fst (remove_lock_file E lp w)) = now w"
    "read_token E (fst (remove_lock_file E lp w)) q =
       (if canon q = canon lp then None else read_token E w q)" by auto
qed

text \<open>Removing a lock file never changes whether a path is a directory.\<close>

lemma remove_keeps_dirs:
  assumes "inv (fs w)"
  shows "(ag_stat A (fs (fst (remove_lock_file E lp w))) q = Inr True) = (ag_stat A (fs w) q = Inr True)"
proof (cases "ag_rm A (fs w) lp")
  case (Inl e)
  then show ?thesis
    by (auto simp: remove_lock_file_def engine_client split: agfs_error.splits)
next
  case (Inr s)
  then obtain d where "ag_read A (fs w) lp = Inr d"
    using rm_unreadable by (cases "ag_read A (fs w) lp") fastforce+
  then have "canon q = canon lp \<Longrightarrow> ag_stat A (fs w) q = Inr False"
    using read_stat stat_canon by metis
  with Inr stat_rm [OF assms Inr, of q] show ?thesis
    by (auto simp: remove_lock_file_def engine_client)
qed

lemma remove_smaller:
  assumes "inv (fs w)" "read_token E w lp \<noteq> None"
  shows "fsize (fs (fst (remove_lock_file E lp w))) < fsize (fs w)"
proof -
  obtain d where "ag_read A (fs w) lp = Inr d"
    using assms(2) by (auto simp: read_token_def engine_client split: sum.splits)
  then obtain s where s: "ag_rm A (fs w) lp = Inr s" using rm_readable by blast
  with rm_size [OF assms(1) s] show ?thesis by (simp add: remove_lock_file_def engine_client)
qed

lemma mkdir_dirs_added:
  assumes "inv (fs w)" "ag_mkdir A (fs w) p = Inr s"
  shows "dirs_added E canon {canon p} w (w\<lparr>fs := s\<rparr>)"
proof -
  have "read_token E (w\<lparr>fs := s\<rparr>) q = read_token E w q" for q
  proof (cases "ag_read A s q")
    case (Inl e)
    then have "ag_read A (fs w) q \<noteq> Inr d" for d using read_mkdir [OF assms, of q d] by simp
    with Inl show ?thesis by (cases "ag_read A (fs w) q") (auto simp: read_token_def engine_client)
  next
    case (Inr d)
    then have "ag_read A (fs w) q = Inr d" using read_mkdir [OF assms, of q d] by simp
    with Inr show ?thesis by (simp add: read_token_def engine_client)
  qed
  moreover have "canon q = canon p \<Longrightarrow> \<exists>e. ag_stat A (fs w) q = Inl e" for q
    using mkdir_absent [OF assms(2)] stat_canon [of q p "fs w"] by simp
  moreover have "ag_stat A s q = (if canon q = canon p then Inr True else ag_stat A (fs w) q)" for q
    by (rule stat_mkdir [OF assms])
  ultimately show ?thesis
    unfolding dirs_added_def engine_client by auto
qed

lemma ensure_props:
  assumes "inv (fs w)"
  shows "inv (fs (fst (ensure_directory_exists_async E p w))) \<and>
    dirs_added E canon (canon ` set (p # ancestors p)) w (fst (ensure_directory_exists_async E p w))"
  using assms
proof (induction p arbitrary: w rule: measure_induct_rule [of length])
  case (less p)
  define w1 where "w1 = (case get_parent_path p of None \<Rightarrow> w
      | Some parent \<Rightarrow> fst (ensure_directory_exists_async E parent w))"
  have w1: "inv (fs w1)" "dirs_added E canon (canon ` set (ancestors p)) w w1"
    using less.IH [OF get_parent_shorter less.prems] less.prems
    by (cases "get_parent_path p"; simp add: w1_def ancestors.simps [of p] dirs_added_refl)+
  show ?case
  proof (cases "ag_stat A (fs w) p")
    case (Inr b)
    then show ?thesis
      using less.prems
      by (simp add: ensure_directory_exists_async.simps [of E p] engine_client dirs_added_refl)
  next
    case (Inl e)
    show ?thesis
    proof (cases "ag_mkdir A (fs w1) p")
      case (Inl e')
      with \<open>ag_stat A (fs w) p = Inl e\<close> have "fst (ensure_directory_exists_async E p w) = w1"
        by (simp add: ensure_directory_exists_async.simps [of E p] engine_client w1_def Let_def)
      with w1 dirs_added_trans [OF w1(2) dirs_added_refl [of E canon "{}"]] show ?thesis
        by (metis Un_empty_right image_mono set_subset_Cons)
    next
      case (Inr s)
      with \<open>ag_stat A (fs w) p = Inl e\<close> have
        eq: "fst (ensure_directory_exists_async E p w) = w1\<lparr>fs := s\<rparr>"
        by (simp add: ensure_directory_exists_async.simps [of E p] engine_client w1_def Let_def)
      have "dirs_added E canon (canon ` set (p # ancestors p)) w (w1\<lparr>fs := s\<rparr>)"
        by (rule dirs_added_trans [OF w1(2) mkdir_dirs_added [OF w1(1) Inr]]) auto
      with eq mkdir_inv [OF w1(1) Inr] show ?thesis by simp
    qed
  qed
qed

lemma after_write_step:
  assumes "exact_after_write E path lp oid deadline w = (w', c)" "inv (fs w)"
  shows "inv (fs w') \<and> now w' = now w \<and> c \<noteq> Again \<and> (c = Sleep \<longrightarrow> now w < deadline)"
  using assms remove_props(1,2) [OF assms(2), of lp]
    remove_props(1,2) [OF remove_props(1) [OF assms(2), of lp], of lp]
  by (auto simp: exact_after_write_def wait_or_fail_def Let_def split: if_splits option.splits)

lemma prepare_props:
  assumes "exact_prepare E path lp w = (w1, ok)" "inv (fs w)" "clean_path path"
  shows "inv (fs w1)" "now w1 = now w" "read_token E w1 q = read_token E w q"
    "is_existing_directory E w1 path = is_existing_directory E w path"
proof -
  have "\<exists>P. dirs_added E canon P w w1 \<and> path \<notin> P \<and> inv (fs w1)"
  proof (cases "get_parent_path path")
    case None
    then have "w1 = w" using assms(1) by (simp add: exact_prepare_def)
    then show ?thesis using dirs_added_refl [of E canon "{}" w] assms(2) by blast
  next
    case (Some parent)
    note pc = parent_clean [OF assms(3) Some]
    let ?P = "canon ` set (parent # ancestors parent)"
    have "path \<notin> ?P"
      using pc ancestors_clean [OF pc(1)] canon_clean by force
    moreover have "w1 = w \<or> w1 = fst (ensure_directory_exists_async E parent w)"
      using assms(1) Some by (auto simp: exact_prepare_def split: if_splits)
    ultimately show ?thesis
      using ensure_props [OF assms(2), of parent] dirs_added_refl [of E canon ?P w] assms(2) by metis
  qed
  then obtain P where P: "dirs_added E canon P w w1" "path \<notin> P" "inv (fs w1)" by blast
  then show "inv (fs w1)" "now w1 = now w" "read_token E w1 q = read_token E w q"
    by (simp_all add: dirs_added_def)
  show "is_existing_directory E w1 path = is_existing_directory E w path"
    using P(1,2) canon_clean [OF assms(3)]
    unfolding dirs_added_def is_existing_directory_def strip_slash_clean [OF assms(3)] by metis
qed

lemma conflict_wait_step:
  assumes "conflict_wait E lp deadline w = (w', c)" "inv (fs w)" "read_token E w lp \<noteq> None"
  shows "inv (fs w') \<and> now w' = now w \<and> (c = Again \<longrightarrow> fsize (fs w') < fsize (fs w)) \<and>
    (c = Sleep \<longrightarrow> now w < deadline)"
  using assms remove_props(1,2) [OF assms(2), of lp] remove_smaller [OF assms(2,3)]
  by (auto simp: conflict_wait_def split: if_splits)

lemma exact_write_step:
  assumes "exact_write E path lp oid deadline w = (w', c)" "inv (fs w)" "clean_path path"
  shows "inv (fs w') \<and> now w' = now w \<and> c \<noteq> Again \<and> (c = Sleep \<longrightarrow> now w < deadline)"
proof -
  obtain w1 ok where prep: "exact_prepare E path lp w = (w1, ok)" by fastforce
  note p = prepare_props [OF prep assms(2,3)]
  show ?thesis
  proof (cases "create_lock_file E lp oid EXACT w1")
    case (Inl e)
    with prep assms(1) p show ?thesis by (auto simp: exact_write_def split: if_splits)
  next
    case (Inr w2)
    note cp = create_props(1,2) [OF Inr p(1)]
    show ?thesis
    proof (cases ok)
      case False
      with prep assms(1) p show ?thesis by (auto simp: exact_write_def)
    next
      case True
      with prep Inr assms(1) have "exact_after_write E path lp oid deadline w2 = (w', c)"
        by (simp add: exact_write_def)
      from after_write_step [OF this cp(1)] cp(2) p(2) show ?thesis by simp
    qed
  qed
qed

lemma exact_attempt_step:
  assumes "exact_attempt E path lp oid deadline w = (w', c)" "inv (fs w)" "clean_path path"
  shows "inv (fs w') \<and> now w' = now w \<and> (c = Again \<longrightarrow> fsize (fs w') < fsize (fs w)) \<and>
    (c = Sleep \<longrightarrow> now w < deadline)"
proof -
  have "(\<exists>q. read_token E w q \<noteq> None \<and> conflict_wait E q deadline w = (w', c)) \<or>
      exact_write E path lp oid deadline w = (w', c)"
    using assms(1)
    by (auto simp: exact_attempt_def Let_def foreign_iff split: option.splits if_splits
        dest!: check_exact_Some check_ancestors_Some exact_conflict_token)
  then show ?thesis
    using conflict_wait_step [OF _ assms(2)] exact_write_step [OF _ assms(2,3)] by blast
qed

text \<open>With no conflict in the way, the attempt succeeds as soon as the lock file can be written.\<close>

lemma exact_write_free:
  assumes "inv (fs w)" "0 \<le> now w" "plain_owner oid" "clean_path path"
    and free: "\<And>q. \<not> exact_conflict E w path oid q"
    and prep: "exact_prepare E path lp w = (w1, True)"
    and create: "create_lock_file E lp oid EXACT w1 = Inr w2"
  shows "exact_write E path lp oid deadline w = (w2, Return True)"
    and "is_lock_owned_by E w2 lp oid"
    and "read_token E w2 q = (if canon q = canon lp then Some (make_fencing_token (now w) oid EXACT)
                              else read_token E w q)"
    and "\<not> exact_conflict E w2 path oid q"
proof -
  note p = prepare_props [OF prep assms(1,4)]
  have tok: "read_token E w2 q = (if canon q = canon lp then Some (make_fencing_token (now w) oid EXACT)
                              else read_token E w q)" for q
    using tok_create [OF create p(1) assms(3)] p(2,3) by simp
  then show "read_token E w2 q = (if canon q = canon lp
      then Some (make_fencing_token (now w) oid EXACT) else read_token E w q)" .
  show own: "is_lock_owned_by E w2 lp oid"
    using tok [of lp] assms(2) by (simp add: owned_iff)
  have "ag_stat A (fs w1) lp \<noteq> Inr True"
    using create write_not_dir by (auto simp: create_lock_file_def engine_client split: sum.splits)
  then have dir: "is_existing_directory E w2 path = is_existing_directory E w path"
    using create_props(3) [OF create p(1), of path] p(4) stat_canon [of path lp "fs w1"]
    by (auto simp: is_existing_directory_def strip_slash_clean [OF assms(4)] engine_client)
  have ant: "read_token E w2 q = Some t \<Longrightarrow> read_token E w q = Some t \<or> token_owner t = oid" for q t
    using tok [of q] assms(2) by (auto split: if_splits)
  have free2: "\<not> exact_conflict E w2 path oid q" for q
    using conflict_antimono [OF dir ant] free by blast
  then show "\<not> exact_conflict E w2 path oid q" .
  have "\<not> foreign_lock E w2 oid (get_lock_path path)"
    using free2 [of "get_lock_path path"] by (simp add: exact_conflict_def)
  moreover have "check_ancestors_for_tree E w2 path oid = None"
    using free2 check_ancestors_Some [of E w2 path oid] by (meson not_None_eq)
  ultimately show "exact_write E path lp oid deadline w = (w2, Return True)"
    using prep create own by (simp add: exact_write_def after_write_free)
qed

lemma writable_create:
  assumes "inv (fs w)" "clean_path path" "CHR ''/'' \<notin> set (eng_digest E path)" "lock_writable E w path"
  shows "\<exists>w1 w2. exact_prepare E path (get_exact_lock_path_async E w path) w = (w1, True) \<and>
    create_lock_file E (get_exact_lock_path_async E w path) oid EXACT w1 = Inr w2"
proof -
  let ?lp = "get_exact_lock_path_async E w path"
  have nd: "ag_stat A (fs w) ?lp \<noteq> Inr True"
    using assms(4) by (simp add: lock_writable_def engine_client)
  have wr: "\<exists>w2. create_lock_file E ?lp oid EXACT w = Inr w2"
    if "ag_stat A (fs w) d = Inr True" "clean_path d" "entry_name n" "?lp = child_path d n" for d n
    using write_child [OF assms(1) that(2,3,1), of "make_fencing_token (now w) oid EXACT"] that(4) nd
    by (auto simp: create_lock_file_def engine_client)
  show ?thesis
  proof (cases "is_existing_directory E w path")
    case True
    then have "?lp = get_lock_path path" by (simp add: get_exact_lock_path_async_def async_twins)
    moreover have "ag_stat A (fs w) path = Inr True"
      using True by (simp add: is_existing_directory_def strip_slash_clean assms(2) engine_client)
    ultimately have "\<exists>w2. create_lock_file E ?lp oid EXACT w = Inr w2"
      using wr [of path LOCK_FILE_NAME] assms(2) by (simp add: lock_path_child)
    moreover have "exact_prepare E path ?lp w = (w, True)"
      using \<open>?lp = get_lock_path path\<close> by (simp add: exact_prepare_def split: option.split)
    ultimately show ?thesis by blast
  next
    case False
    then obtain parent where par: "get_parent_path path = Some parent" "is_existing_directory E w parent"
      using assms(4) by (auto simp: lock_writable_def split: option.splits)
    note pc = parent_clean [OF assms(2) par(1)]
    have st: "ag_stat A (fs w) parent = Inr True"
      using par(2) by (simp add: is_existing_directory_def strip_slash_clean pc(1) engine_client)
    have "?lp = child_path parent (exact_lock_name E path)"
      using False prefixed_child [OF assms(2) par(1)]
      by (simp add: get_exact_lock_path_async_def async_twins)
    with wr [OF st pc(1) exact_name_entry [OF assms(3)]]
    have "\<exists>w2. create_lock_file E ?lp oid EXACT w = Inr w2" by simp
    moreover have "exact_prepare E path ?lp w = (w, True)"
      using par st by (simp add: exact_prepare_def ensure_directory_exists_async.simps [of E parent]
          engine_client)
    ultimately show ?thesis by blast
  qed
qed

lemma remove_dirs:
  assumes "inv (fs w)"
  shows "is_existing_directory E (fst (remove_lock_file E q w)) p = is_existing_directory E w p"
  using remove_keeps_dirs [OF assms] by (simp add: is_existing_directory_def engine_client)

lemma remove_exact_path:
  assumes "inv (fs w)"
  shows "get_exact_lock_path_async E (fst (remove_lock_file E q w)) p = get_exact_lock_path_async E w p"
    "get_exact_lock_paths_async E (fst (remove_lock_file E q w)) p = get_exact_lock_paths_async E w p"
  using remove_dirs [OF assms]
  by (simp_all add: get_exact_lock_paths_async_def get_exact_lock_path_async_def async_twins)

lemma remove_writable:
  assumes "inv (fs w)"
  shows "lock_writable E (fst (remove_lock_file E q w)) p = lock_writable E w p"
  using remove_keeps_dirs [OF assms] remove_dirs [OF assms] remove_exact_path [OF assms]
  by (simp add: lock_writable_def engine_client split: option.split)

lemma remove_conflict:
  assumes "inv (fs w)" "exact_conflict E (fst (remove_lock_file E q w)) path oid lp"
  shows "exact_conflict E w path oid lp \<and>
    read_token E (fst (remove_lock_file E q w)) lp = read_token E w lp"
  by (rule conflict_antimono [OF remove_dirs [OF assms(1)] _ assms(2)])
    (auto simp: remove_props [OF assms(1)] split: if_splits)

lemma remove_other_conflict:
  assumes "inv (fs w)" "exact_conflict E w path oid lp" "canon lp \<noteq> canon q"
  shows "exact_conflict E (fst (remove_lock_file E q w)) path oid lp"
  using assms(2,3)
  by (auto simp: exact_conflict_def remove_exact_path [OF assms(1)] remove_props [OF assms(1)]
      token_simps)

text \<open>One step of a release loop: the file goes away if the owner's token is in it.\<close>

lemma drop_owned:
  assumes "inv (fs w)" "w1 = (if is_lock_owned_by_async E w lp oid then fst (remove_lock_file E lp w) else w)"
  shows "inv (fs w1)" "now w1 = now w"
    "read_token E w1 q = (if canon lp = canon q \<and> is_lock_owned_by E w q oid then None else read_token E w q)"
    "is_lock_owned_by E w1 q oid = (is_lock_owned_by E w q oid \<and> canon lp \<noteq> canon q)"
proof -
  note rp = remove_props [OF assms(1), of lp]
  show "inv (fs w1)" "now w1 = now w" using rp(1,2) assms by auto
  have own: "canon lp = canon q \<Longrightarrow> is_lock_owned_by_async E w lp oid = is_lock_owned_by E w q oid"
    using tok_canon [of lp q w] by (simp add: owned_async_iff owned_iff)
  show tok: "read_token E w1 q =
      (if canon lp = canon q \<and> is_lock_owned_by E w q oid then None else read_token E w q)"
    using rp(3) [of q] own assms(2) by (auto simp: owned_iff)
  show "is_lock_owned_by E w1 q oid = (is_lock_owned_by E w q oid \<and> canon lp \<noteq> canon q)"
    using tok by (auto simp: owned_iff)
qed

lemma release_loop_spec:
  assumes "release_loop E lps w h = (w', h')" "inv (fs w)"
  shows "inv (fs w') \<and> now w' = now w \<and> h_id h' = h_id h \<and>
    h_locks h' = fold remove1 lps (h_locks h) \<and>
    (\<forall>q. read_token E w' q =
       (if (\<exists>lp \<in> set lps. canon lp = canon q) \<and> is_lock_owned_by E w q (h_id h) then None
        else read_token E w q))"
  using assms
proof (induction lps arbitrary: w h)
  case Nil
  then show ?case by simp
next
  case (Cons lp lps)
  define w1 where
    "w1 = (if is_lock_owned_by_async E w lp (h_id h) then fst (remove_lock_file E lp w) else w)"
  note d = drop_owned [OF Cons.prems(2) w1_def]
  have "release_loop E lps w1 (remove_lock lp h) = (w', h')"
    using Cons.prems(1) by (simp add: Let_def w1_def)
  from Cons.IH [OF this d(1)] show ?case by (auto simp: d)
qed

lemma release_spec:
  assumes "release E h w = (w', h')" "inv (fs w)" "distinct (h_locks h)"
  shows "inv (fs w')" "now w' = now w" "h_id h' = h_id h" "h_locks h' = []"
    "read_token E w' q =
       (if (\<exists>lp \<in> set (h_locks h). canon lp = canon q) \<and> is_lock_owned_by E w q (h_id h) then None
        else read_token E w q)"
proof -
  have "fold remove1 (rev xs) xs = []" if "distinct xs" for xs :: "path list"
  proof -
    have "fold remove1 ys zs = [z \<leftarrow> zs. z \<notin> set ys]" if "distinct zs" for ys zs :: "path list"
      using that by (induction ys arbitrary: zs) (auto simp: distinct_remove1_removeAll removeAll_filter_not_eq
          intro: filter_cong)
    with that show ?thesis by simp
  qed
  with release_loop_spec [OF assms(1) [unfolded release_def] assms(2)] assms(3)
  show "inv (fs w')" "now w' = now w" "h_id h' = h_id h" "h_locks h' = []"
    "read_token E w' q =
       (if (\<exists>lp \<in> set (h_locks h). canon lp = canon q) \<and> is_lock_owned_by E w q (h_id h) then None
        else read_token E w q)"
    by simp_all
qed

lemma release_selected_spec:
  assumes "release_selected_loop E lps w h = (w', h')" "inv (fs w)" "distinct (h_locks h)"
  shows "inv (fs w') \<and> now w' = now w \<and> h_id h' = h_id h \<and>
    h_locks h' = [l \<leftarrow> h_locks h. l \<notin> set lps] \<and>
    (\<forall>q. read_token E w' q =
       (if (\<exists>lp \<in> set lps \<inter> set (h_locks h). canon lp = canon q) \<and> is_lock_owned_by E w q (h_id h)
        then None else read_token E w q))"
  using assms
proof (induction lps arbitrary: w h)
  case Nil
  then show ?case by simp
next
  case (Cons lp lps)
  show ?case
  proof (cases "lp \<in> set (h_locks h)")
    case False
    then have "release_selected_loop E lps w h = (w', h')" using Cons.prems(1) by simp
    from Cons.IH [OF this Cons.prems(2,3)] False show ?thesis by (auto intro: filter_cong)
  next
    case True
    define w1 where
      "w1 = (if is_lock_owned_by_async E w lp (h_id h) then fst (remove_lock_file E lp w) else w)"
    note d = drop_owned [OF Cons.prems(2) w1_def]
    have "release_selected_loop E lps w1 (remove_lock lp h) = (w', h')"
      using Cons.prems(1) True by (simp add: Let_def w1_def)
    moreover have "distinct (h_locks (remove_lock lp h))" using Cons.prems(3) by simp
    moreover have "h_locks (remove_lock lp h) = [l \<leftarrow> h_locks h. l \<noteq> lp]"
      using Cons.prems(3) by (auto simp: distinct_remove1_removeAll removeAll_filter_not_eq intro: filter_cong)
    ultimately show ?thesis
      using Cons.IH [of w1 "remove_lock lp h"] d True by (auto simp: d intro: filter_cong)
  qed
qed

lemma tree_after_write_step:
  assumes "tree_after_write depth E path lp oid deadline w = Some (w', c)" "inv (fs w)"
  shows "inv (fs w') \<and> now w' = now w \<and> c \<noteq> Again \<and> (c = Sleep \<longrightarrow> now w < deadline)"
  using assms remove_props(1,2) [OF assms(2), of lp]
    remove_props(1,2) [OF remove_props(1) [OF assms(2), of lp], of lp]
  by (auto simp: tree_after_write_def wait_or_fail_def Let_def split: if_splits option.splits)

lemma tree_write_step:
  assumes "tree_write depth E path lp oid deadline w = Some (w', c)" "inv (fs w)"
  shows "inv (fs w') \<and> now w' = now w \<and> c \<noteq> Again \<and> (c = Sleep \<longrightarrow> now w < deadline)"
proof -
  obtain w1 ok where ens: "ensure_directory_exists_async E path w = (w1, ok)" by fastforce
  have w1: "inv (fs w1)" "now w1 = now w"
    using ensure_props [OF assms(2), of path] ens by (auto simp: dirs_added_def)
  show ?thesis
  proof (cases "ok \<and> (\<exists>w2. create_lock_file E lp oid TREE w1 = Inr w2)")
    case True
    then obtain w2 where w2: "create_lock_file E lp oid TREE w1 = Inr w2" by blast
    with True ens assms(1) have "tree_after_write depth E path lp oid deadline w2 = Some (w', c)"
      by (simp add: tree_write_def)
    from tree_after_write_step [OF this] create_props(1,2) [OF w2 w1(1)] w1(2) show ?thesis by simp
  next
    case False
    with ens assms(1) have "w' = w1" "c = Return False"
      by (auto simp: tree_write_def split: if_splits sum.splits)
    with w1 show ?thesis by simp
  qed
qed

lemma tree_attempt_step:
  assumes "tree_attempt depth E path lp oid deadline w = Some (w', c)" "inv (fs w)"
  shows "inv (fs w') \<and> now w' = now w \<and> (c = Again \<longrightarrow> fsize (fs w') < fsize (fs w)) \<and>
    (c = Sleep \<longrightarrow> now w < deadline)"
proof -
  have "(\<exists>q. read_token E w q \<noteq> None \<and> conflict_wait E q deadline w = (w', c)) \<or>
      tree_write depth E path lp oid deadline w = Some (w', c)"
    using assms(1)
    by (auto simp: tree_attempt_def locked_by_other_iff foreign_iff split: option.splits if_splits
        dest!: check_exact_Some check_ancestors_Some exact_conflict_token scan_foreign; metis)
  then show ?thesis
    using conflict_wait_step [OF _ assms(2)] tree_write_step [OF _ assms(2)] by blast
qed

lemma scan_None_step:
  assumes "scan_descendants_for_locks (Suc k) E w p oid = Some None" "inv (fs w)" "clean_path p"
    and "ag_stat A (fs w) p = Inr True" "ag_stat A (fs w) (child_path p n) = Inr b" "entry_name n"
    and "n \<noteq> ''.''" "n \<noteq> ''..''"
  shows "if py_startswith n EXACT_LOCK_FILE_PREFIX then \<not> foreign_lock E w oid (child_path p n)
    else b \<longrightarrow> \<not> foreign_lock E w oid (get_lock_path (child_path p n)) \<and>
      scan_descendants_for_locks k E w (child_path p n) oid = Some None"
proof -
  obtain es where es: "ag_ls A (fs w) p = Inr es" using ls_dir [OF assms(4)] by blast
  have "scan_entries E w oid p (\<lambda>d. scan_descendants_for_locks k E w d oid) es = Some None"
    using assms(1,4) es by (simp add: engine_client)
  moreover have "(n, b) \<in> set es" by (rule ls_child [OF assms(2,3,6) es assms(5)])
  ultimately show ?thesis
    using scan_entries_None [OF _ assms(3)] assms(6-8) by (fastforce simp: entry_name_def)
qed

text \<open>After a scan that found nothing, no directory below holds a foreign lock and no foreign exact
  lock file lies in any of them.\<close>

lemma scan_None_complete:
  assumes "scanned_dir E w p d"
    and "scan_descendants_for_locks k E w p oid = Some None" "inv (fs w)" "clean_path p"
    and "ag_stat A (fs w) p = Inr True"
  shows "(d \<noteq> p \<longrightarrow> \<not> foreign_lock E w oid (get_lock_path d)) \<and>
    (\<forall>n. entry_name n \<longrightarrow> py_startswith n EXACT_LOCK_FILE_PREFIX \<longrightarrow>
       \<not> foreign_lock E w oid (child_path d n))"
  using assms
proof (induction arbitrary: k rule: scanned_dir.induct)
  case (here p)
  then obtain k' where k: "k = Suc k'" by (cases k) auto
  have "\<not> foreign_lock E w oid (child_path p n)"
    if n: "entry_name n" "py_startswith n EXACT_LOCK_FILE_PREFIX" for n
  proof
    assume f: "foreign_lock E w oid (child_path p n)"
    then obtain c where "ag_read A (fs w) (child_path p n) = Inr c"
      by (auto simp: foreign_iff read_token_def engine_client split: sum.splits)
    then have "ag_stat A (fs w) (child_path p n) = Inr False" by (rule read_stat)
    moreover have "n \<noteq> ''.''" "n \<noteq> ''..''"
      using n(2) by (auto simp: py_startswith_def EXACT_LOCK_FILE_PREFIX_def)
    ultimately show False
      using scan_None_step [of k' w p oid n False] here k n f by auto
  qed
  then show ?case by blast
next
  case (below p n d)
  then obtain k' where k: "k = Suc k'" by (cases k) auto
  have st: "\<not> foreign_lock E w oid (get_lock_path (child_path p n))"
    "scan_descendants_for_locks k' E w (child_path p n) oid = Some None"
    using scan_None_step [of k' w p oid n True] below.prems below.hyps k by (auto simp: engine_client)
  have "clean_path (child_path p n)" using below.prems(3) below.hyps(2) by (rule clean_child)
  with below.IH [OF st(2) below.prems(2)] below.hyps(1) st(1) show ?case
    by (auto simp: engine_client)
qed

lemma rewrite_owned:
  assumes "create_lock_file E lp oid (token_type (the (read_token E w lp))) w = Inr w1"
    and "is_lock_owned_by E w lp oid" "inv (fs w)" "plain_owner oid" "0 \<le> now w"
  shows "inv (fs w1) \<and> now w1 = now w \<and>
    (\<forall>q. is_lock_owned_by E w1 q oid = is_lock_owned_by E w q oid) \<and>
    (\<forall>q. map_option token_type (read_token E w1 q) = map_option token_type (read_token E w q)) \<and>
    (\<forall>q. read_token E w1 q = (if canon q = canon lp
       then map_option (\<lambda>t. make_fencing_token (now w) oid (token_type t)) (read_token E w q)
       else read_token E w q))"
proof -
  have same: "canon q = canon lp \<Longrightarrow> read_token E w q = read_token E w lp" for q
    by (rule tok_canon)
  obtain t where t: "read_token E w lp = Some t" "token_owner t = oid"
    using assms(2) by (auto simp: owned_iff)
  have tok: "read_token E w1 q = (if canon q = canon lp
      then Some (make_fencing_token (now w) oid (token_type t)) else read_token E w q)" for q
    using tok_create [OF assms(1,3,4), of q] t(1) by simp
  have "is_lock_owned_by E w1 q oid = is_lock_owned_by E w q oid" for q
    using tok [of q] same [of q] t assms(5) by (cases "canon q = canon lp") (simp_all add: owned_iff)
  moreover have "map_option token_type (read_token E w1 q) = map_option token_type (read_token E w q)" for q
    using tok [of q] same [of q] t assms(5) by (cases "canon q = canon lp") simp_all
  ultimately show ?thesis
    using create_props(1,2) [OF assms(1,3)] tok same t(1) by simp
qed

lemma refresh_loop_spec:
  assumes "refresh_loop E oid lps w res = (w', res')" "inv (fs w)" "plain_owner oid" "0 \<le> now w"
  shows "inv (fs w') \<and> now w' = now w \<and>
    lost_paths res' = lost_paths res @ [lp \<leftarrow> lps. \<not> is_lock_owned_by E w lp oid] \<and>
    (\<exists>ok bad. refreshed_paths res' = refreshed_paths res @ ok \<and> failed_paths res' = failed_paths res @ bad \<and>
       mset ok + mset bad = mset [lp \<leftarrow> lps. is_lock_owned_by E w lp oid] \<and>
       (\<forall>q. read_token E w' q = (if \<exists>lp \<in> set ok. canon q = canon lp
          then map_option (\<lambda>t. make_fencing_token (now w) oid (token_type t)) (read_token E w q)
          else read_token E w q)))"
  using assms
proof (induction lps arbitrary: w res)
  case Nil
  then show ?case by simp
next
  case (Cons lp lps)
  consider (lost) "\<not> is_lock_owned_by E w lp oid"
    | (bad) e where "is_lock_owned_by E w lp oid"
        "create_lock_file E lp oid (token_type (the (read_token E w lp))) w = Inl e"
    | (ok) w1 where "is_lock_owned_by E w lp oid"
        "create_lock_file E lp oid (token_type (the (read_token E w lp))) w = Inr w1"
    by (metis sum.exhaust)
  then show ?case
  proof cases
    case lost
    with Cons.prems(1) have "refresh_loop E oid lps w (res\<lparr>lost_paths := lost_paths res @ [lp]\<rparr>) = (w', res')"
      by (simp add: refresh_Cons)
    from Cons.IH [OF this Cons.prems(2-4)] lost show ?thesis by auto
  next
    case bad
    with Cons.prems(1) have "refresh_loop E oid lps w (res\<lparr>failed_paths := failed_paths res @ [lp]\<rparr>) = (w', res')"
      by (simp add: refresh_Cons)
    from Cons.IH [OF this Cons.prems(2-4)] bad show ?thesis
      by simp (metis (no_types, lifting) mset.simps(2) union_mset_add_mset_right)
  next
    case ok
    note r = rewrite_owned [OF ok(2,1) Cons.prems(2-4)]
    from ok Cons.prems(1)
    have "refresh_loop E oid lps w1 (res\<lparr>refreshed_paths := refreshed_paths res @ [lp]\<rparr>) = (w', res')"
      by (simp add: refresh_Cons)
    from Cons.IH [OF this] r Cons.prems(3,4) obtain ok' bad' where
      "inv (fs w')" "now w' = now w" "lost_paths res' = lost_paths res @ [lp \<leftarrow> lps. \<not> is_lock_owned_by E w lp oid]"
      "refreshed_paths res' = refreshed_paths res @ lp # ok'" "failed_paths res' = failed_paths res @ bad'"
      "mset ok' + mset bad' = mset [lp \<leftarrow> lps. is_lock_owned_by E w lp oid]"
      and tok: "\<forall>q. read_token E w' q = (if \<exists>lp \<in> set ok'. canon q = canon lp
          then map_option (\<lambda>t. make_fencing_token (now w) oid (token_type t)) (read_token E w1 q)
          else read_token E w1 q)"
      by auto
    moreover have "read_token E w' q = (if \<exists>l \<in> set (lp # ok'). canon q = canon l
          then map_option (\<lambda>t. make_fencing_token (now w) oid (token_type t)) (read_token E w q)
          else read_token E w q)" for q
      using tok [rule_format, of q] r Cons.prems(4) by (auto simp: option.map_comp comp_def)
    ultimately show ?thesis using ok(1) by (auto intro!: exI [of _ "lp # ok'"] exI [of _ bad'])
  qed
qed

end

text \<open>An engine whose sleeps only let time pass.\<close>

locale passive_engine = lock_engine A inv canon fsize E
  for A :: "'fs agfs" and inv :: "'fs \<Rightarrow> bool" and canon :: "path \<Rightarrow> path" and fsize :: "'fs \<Rightarrow> nat"
    and E :: "'fs engine" +
  assumes sleep_passive: "eng_sleep E d w = w\<lparr>now := now w + d\<rparr>"
begin

lemma exact_loop_terminates:
  assumes "inv (fs w)" "clean_path path"
  shows "\<exists>n r. exact_loop n E path lp oid deadline w = Some r"
  using assms(1)
proof (induction w rule: wf_induct_rule
    [OF wf_measures, of "[\<lambda>w. nat (deadline - now w), \<lambda>w. fsize (fs w)]"])
  case (1 w)
  obtain w1 c where att: "exact_attempt E path lp oid deadline w = (w1, c)" by fastforce
  note st = exact_attempt_step [OF att "1.prems" assms(2)]
  show ?case
  proof (cases c)
    case (Return b)
    with att have "exact_loop (Suc 0) E path lp oid deadline w = Some (w1, b)" by simp
    then show ?thesis by blast
  next
    case Again
    with st have "(w1, w) \<in> measures [\<lambda>w. nat (deadline - now w), \<lambda>w. fsize (fs w)]" by simp
    with "1.IH" st obtain n r where "exact_loop n E path lp oid deadline w1 = Some r" by blast
    with att Again have "exact_loop (Suc n) E path lp oid deadline w = Some r" by simp
    then show ?thesis by blast
  next
    case Sleep
    let ?w2 = "eng_sleep E POLL_INTERVAL w1"
    have "inv (fs ?w2)" "(?w2, w) \<in> measures [\<lambda>w. nat (deadline - now w), \<lambda>w. fsize (fs w)]"
      using st Sleep by (simp_all add: sleep_passive POLL_INTERVAL_def)
    with "1.IH" obtain n r where "exact_loop n E path lp oid deadline ?w2 = Some r" by blast
    with att Sleep have "exact_loop (Suc n) E path lp oid deadline w = Some r" by simp
    then show ?thesis by blast
  qed
qed

lemma tree_loop_inv:
  "tree_loop n depth E path lp oid deadline w = Some (w', b) \<Longrightarrow> inv (fs w) \<Longrightarrow> inv (fs w')"
proof (induction n arbitrary: w)
  case (Suc n)
  obtain w1 c where att: "tree_attempt depth E path lp oid deadline w = Some (w1, c)"
    using Suc.prems(1) by (auto split: option.splits)
  have "inv (fs w1)" using tree_attempt_step [OF att Suc.prems(2)] by simp
  with att Suc show ?case by (cases c) (auto simp: sleep_passive)
qed simp

lemma exact_loop_inv:
  "exact_loop n E path lp oid deadline w = Some (w', b) \<Longrightarrow> inv (fs w) \<Longrightarrow> clean_path path \<Longrightarrow> inv (fs w')"
proof (induction n arbitrary: w)
  case (Suc n)
  obtain w1 c where att: "exact_attempt E path lp oid deadline w = (w1, c)" by fastforce
  have "inv (fs w1)" using exact_attempt_step [OF att Suc.prems(2,3)] by simp
  with att Suc show ?case by (cases c) (auto simp: sleep_passive)
qed simp

lemma acquire_exact_inv:
  assumes "acquire_exact_path n E path h timeout w = Some (w', h', b)" "inv (fs w)" "clean_path path"
    and "distinct (h_locks h)"
  shows "inv (fs w') \<and> distinct (h_locks h') \<and> h_id h' = h_id h"
  using assms exact_loop_inv
  by (fastforce simp: acquire_exact_path_def Let_def split: if_splits option.splits prod.splits bool.splits)

lemma acquire_tree_inv:
  assumes "acquire_tree n depth E path h timeout w = Some (w', h', b)" "inv (fs w)"
    and "distinct (h_locks h)"
  shows "inv (fs w') \<and> distinct (h_locks h') \<and> h_id h' = h_id h"
  using assms tree_loop_inv
  by (fastforce simp: acquire_tree_def Let_def split: if_splits option.splits prod.splits bool.splits)

text \<open>A live foreign lock keeps every attempt out: the call reports failure and the lock stays.\<close>

lemma exact_blocked:
  assumes "exact_loop n E path lp oid deadline w = Some (w', b)"
    and "inv (fs w)" "clean_path path" "lp \<in> set (get_exact_lock_paths_async E w path)"
    and "exact_conflict E w path oid lp0" "read_token E w lp0 = Some t"
    and "token_time t \<noteq> 0" "lim - token_time t \<le> eng_expire E"
    and "now w \<le> lim" "deadline \<le> now w \<or> deadline + POLL_INTERVAL \<le> lim"
  shows "\<not> b \<and> read_token E w' lp0 = Some t"
  using assms(1,2,4,5,6,9,10)
proof (induction n arbitrary: w)
  case 0
  then show ?case by simp
next
  case (Suc n)
  obtain q where q: "exact_conflict E w path oid q"
    "exact_attempt E path lp oid deadline w = conflict_wait E q deadline w"
    using exact_attempt_conflict [OF Suc.prems(4,3)] by blast
  have live: "\<not> is_lock_stale E w lp0 (eng_expire E)"
    using Suc.prems(5,6) assms(7,8) by (simp add: stale_iff)
  show ?case
  proof (cases "is_lock_stale E w q (eng_expire E)")
    case True
    have ne: "canon lp0 \<noteq> canon q"
      using live True tok_canon [of lp0 q w] by (metis stale_iff)
    let ?w1 = "fst (remove_lock_file E q w)"
    note rp = remove_props [OF Suc.prems(2), of q]
    have "exact_loop n E path lp oid deadline ?w1 = Some (w', b)"
      using Suc.prems(1) q(2) True by (simp add: conflict_wait_def async_twins)
    then show ?thesis
      using Suc.IH [of ?w1] rp remove_exact_path [OF Suc.prems(2)] Suc.prems(3-7) ne
        remove_other_conflict [OF Suc.prems(2,4) ne] by simp
  next
    case False
    show ?thesis
    proof (cases "deadline \<le> now w")
      case True
      with Suc.prems(1,5) q(2) False show ?thesis by (simp add: conflict_wait_def async_twins)
    next
      case late: False
      let ?w1 = "w\<lparr>now := now w + POLL_INTERVAL\<rparr>"
      have fs: "read_token E ?w1 = read_token E w"
        "get_exact_lock_paths_async E ?w1 path = get_exact_lock_paths_async E w path"
        by (simp_all add: read_token_def fun_eq_iff get_exact_lock_paths_async_def
            get_exact_lock_path_async_def is_existing_directory_async_def is_existing_directory_def)
      have "exact_conflict E ?w1 path oid lp0"
        using Suc.prems(4) by (simp add: exact_conflict_def foreign_iff foreign_tree_iff fs)
      moreover have "exact_loop n E path lp oid deadline ?w1 = Some (w', b)"
        using Suc.prems(1) q(2) False late by (simp add: conflict_wait_def async_twins sleep_passive)
      ultimately show ?thesis
        using Suc.IH [of ?w1] Suc.prems(2,3,5,7) late fs by simp
    qed
  qed
qed

text \<open>Stale locks are cleared away, and a writable lock file is then taken.\<close>

lemma exact_unblocked:
  assumes "inv (fs w)" "0 \<le> now w" "plain_owner oid" "clean_path path"
    and "CHR ''/'' \<notin> set (eng_digest E path)" "lock_writable E w path"
    and "\<And>q. exact_conflict E w path oid q \<Longrightarrow> is_lock_stale E w q (eng_expire E)"
  shows "\<exists>n w'. exact_loop n E path (get_exact_lock_path_async E w path) oid deadline w = Some (w', True)"
  using assms(1,2,6,7)
proof (induction w rule: measure_induct_rule [of "\<lambda>w. fsize (fs w)"])
  case (less w)
  let ?lp = "get_exact_lock_path_async E w path"
  have lp: "?lp \<in> set (get_exact_lock_paths_async E w path)"
    by (simp add: get_exact_lock_paths_async_def Let_def)
  show ?case
  proof (cases "\<exists>q. exact_conflict E w path oid q")
    case True
    then obtain q where q: "exact_conflict E w path oid q"
      "exact_attempt E path ?lp oid deadline w = conflict_wait E q deadline w"
      using exact_attempt_conflict [OF _ lp] by blast
    let ?w1 = "fst (remove_lock_file E q w)"
    have att: "exact_attempt E path ?lp oid deadline w = (?w1, Again)"
      using q less.prems(4) by (simp add: conflict_wait_def async_twins)
    note rp = remove_props [OF less.prems(1), of q]
    have "is_lock_stale E ?w1 q' (eng_expire E)" if "exact_conflict E ?w1 path oid q'" for q'
      using less.prems(4) [of q'] remove_conflict [OF less.prems(1) that] rp(2) by (simp add: stale_iff)
    moreover have "fsize (fs ?w1) < fsize (fs w)"
      using remove_smaller [OF less.prems(1) exact_conflict_token [OF q(1)]] .
    ultimately obtain n w' where "exact_loop n E path ?lp oid deadline ?w1 = Some (w', True)"
      using less.IH [of ?w1] rp less.prems(2,3) remove_writable [OF less.prems(1)]
        remove_exact_path [OF less.prems(1)] by auto
    with att have "exact_loop (Suc n) E path ?lp oid deadline w = Some (w', True)" by simp
    then show ?thesis by blast
  next
    case False
    then have free: "\<And>q. \<not> exact_conflict E w path oid q" by blast
    obtain w1 w2 where pc: "exact_prepare E path ?lp w = (w1, True)"
      "create_lock_file E ?lp oid EXACT w1 = Inr w2"
      using writable_create [OF less.prems(1) assms(4,5) less.prems(3)] by blast
    have "exact_attempt E path ?lp oid deadline w = (w2, Return True)"
      using exact_attempt_free [OF free]
        exact_write_free(1) [OF less.prems(1,2) assms(3,4) free pc] by simp
    then have "exact_loop (Suc 0) E path ?lp oid deadline w = Some (w2, True)" by simp
    then show ?thesis by blast
  qed
qed


end

section \<open>The engine on the in-memory plugin\<close>

definition mem_sleep :: "int \<Rightarrow> memfs world \<Rightarrow> memfs world" where
  "mem_sleep d w = w\<lparr>now := now w + d\<rparr>"

definition mem_engine :: "int \<Rightarrow> (path \<Rightarrow> string) \<Rightarrow> memfs engine" where
  "mem_engine expire digest =
     \<lparr>eng_agfs = mem_agfs, eng_expire = expire, eng_digest = digest, eng_sleep = mem_sleep\<rparr>"

interpretation mem_lock: passive_engine mem_agfs mem_inv normalize_path mem_files "mem_engine expire digest"
  for expire digest
  by unfold_locales (simp_all add: mem_engine_def mem_sleep_def)

end
