(* ===== verification/Lock_Manager_Facts.thy ===== *)
theory Lock_Manager_Facts
  imports Lock_Lease Path_Lock_Facts
begin

text \<open>
  What the manager's operations do to its table and to the handle objects, for every file service:
  the frame of an operation on one handle, the invariant of the table and the reachable states.
\<close>

section \<open>Handles under the engine\<close>

lemma acquire_tree_handle:
  assumes "acquire_tree fuel depth E path h timeout w = Some (w', h', b)"
  shows "(\<not> b \<longrightarrow> h' = h) \<and> (h' = h \<or> h' = add_lock (tree_lock_path E w path) h)"
  using assms unfolding acquire_tree_def Let_def
  by (auto split: option.splits prod.splits bool.splits if_splits)

lemma acquire_exact_handle_cases:
  assumes "acquire_exact_path fuel E path h timeout w = Some (w', h', b)"
  shows "(\<not> b \<longrightarrow> h' = h) \<and> (h' = h \<or> h' = add_lock (get_exact_lock_path_async E w path) h)"
  using assms unfolding acquire_exact_path_def Let_def
  by (auto split: option.splits prod.splits bool.splits if_splits)

lemma release_selected_loop_handle:
  assumes "release_selected_loop E lps w h = (w', h')" "distinct (h_locks h)"
  shows "h' = h\<lparr>h_locks := [l \<leftarrow> h_locks h. l \<notin> set lps]\<rparr>"
  using assms
proof (induction lps arbitrary: w h)
  case Nil
  then show ?case by simp
next
  case (Cons lp lps)
  have rest: "h' = h1\<lparr>h_locks := [l \<leftarrow> h_locks h1. l \<notin> set lps]\<rparr>"
    if "release_selected_loop E lps w1 h1 = (w', h')" "distinct (h_locks h1)" for w1 h1
    using Cons.IH that by blast
  show ?case
  proof (cases "lp \<in> set (h_locks h)")
    case False
    with Cons.prems have "h' = h\<lparr>h_locks := [l \<leftarrow> h_locks h. l \<notin> set lps]\<rparr>" by (intro rest) auto
    moreover have "[l \<leftarrow> h_locks h. l \<notin> set lps] = [l \<leftarrow> h_locks h. l \<notin> set (lp # lps)]"
      using False by (auto intro: filter_cong)
    ultimately show ?thesis by simp
  next
    case True
    with Cons.prems have "h' = (remove_lock lp h)\<lparr>h_locks := [l \<leftarrow> h_locks (remove_lock lp h). l \<notin> set lps]\<rparr>"
      by (intro rest) (auto simp: Let_def)
    moreover have "[l \<leftarrow> h_locks (remove_lock lp h). l \<notin> set lps] = [l \<leftarrow> h_locks h. l \<notin> set (lp # lps)]"
      using Cons.prems(2) by (auto simp: distinct_remove1_removeAll removeAll_filter_not_eq intro: filter_cong)
    ultimately show ?thesis using True by (simp add: remove_lock_def)
  qed
qed

lemma release_selected_handle:
  "release_selected E h lps w = (w', h') \<Longrightarrow> distinct (h_locks h) \<Longrightarrow>
   h' = h\<lparr>h_locks := [l \<leftarrow> h_locks h. l \<notin> set lps]\<rparr>"
  unfolding release_selected_def by (drule (1) release_selected_loop_handle) simp

lemma remove_fold: "fold remove_lock lps h = h\<lparr>h_locks := fold remove1 lps (h_locks h)\<rparr>"
  by (induction lps arbitrary: h) (auto simp: remove_lock_def remove1_idem)

lemma fold_remove1: "distinct xs \<Longrightarrow> fold remove1 ys xs = [x \<leftarrow> xs. x \<notin> set ys]"
  by (induction ys arbitrary: xs)
    (auto simp: distinct_remove1_removeAll removeAll_filter_not_eq intro: filter_cong)

lemma release_loop_handle: "release_loop E lps w h = (w', h') \<Longrightarrow> h' = fold remove_lock lps h"
  by (induction lps arbitrary: w h) (auto simp: Let_def)

lemma release_handle:
  "release E h w = (w', h') \<Longrightarrow> distinct (h_locks h) \<Longrightarrow> h' = h\<lparr>h_locks := []\<rparr>"
  unfolding release_def by (drule release_loop_handle) (simp add: remove_fold fold_remove1)

lemma fold_add_lock:
  "distinct (h_locks h @ lps) \<Longrightarrow> fold add_lock lps h = h\<lparr>h_locks := h_locks h @ lps\<rparr>"
  by (induction lps arbitrary: h) (auto simp: add_lock_def)

lemma acquire_mv_handle:
  assumes "acquire_mv fuel depth E src dst h timeout is_dir w = Some (w', h', b)"
  shows "h_id h' = h_id h \<and> (distinct (h_locks h) \<longrightarrow> distinct (h_locks h')) \<and>
    (b \<longrightarrow> set (h_locks h) \<subseteq> set (h_locks h'))"
proof -
  obtain w1 h1 b1 where a: "(if is_dir then acquire_tree fuel depth E src h timeout w
      else acquire_exact_path fuel E src h timeout w) = Some (w1, h1, b1)"
    using assms(1) by (auto simp: acquire_mv_def split: option.splits)
  then have h1: "h1 = h \<or> (\<exists>lp. h1 = add_lock lp h)"
    by (metis acquire_tree_handle acquire_exact_handle_cases)
  then have d1: "h_id h1 = h_id h" "distinct (h_locks h) \<Longrightarrow> distinct (h_locks h1)"
    "set (h_locks h) \<subseteq> set (h_locks h1)"
    by auto
  show ?thesis
  proof (cases b1)
    case False
    with a assms(1) have "h' = h1 \<and> \<not> b" by (simp add: acquire_mv_def)
    with d1 show ?thesis by simp
  next
    case True
    with a assms(1) obtain w2 h2 b2 where e: "acquire_exact_path fuel E dst h1 timeout w1 = Some (w2, h2, b2)"
      by (auto simp: acquire_mv_def split: option.splits)
    then have d2: "h_id h2 = h_id h" "distinct (h_locks h) \<Longrightarrow> distinct (h_locks h2)"
      "set (h_locks h) \<subseteq> set (h_locks h2)"
      using acquire_exact_handle_cases [OF e] d1 by auto
    show ?thesis
    proof (cases b2)
      case True
      with e \<open>b1\<close> a assms(1) have "h' = h2" by (simp add: acquire_mv_def)
      with d2 show ?thesis by simp
    next
      case False
      with e \<open>b1\<close> a assms(1) obtain w3 where "release E h2 w2 = (w3, h')" "\<not> b"
        by (auto simp: acquire_mv_def split: prod.splits)
      moreover from this have "h_id h' = h_id h2"
        using release_loop_handle by (fastforce simp: release_def remove_fold)
      ultimately show ?thesis using release_handle [of E h2 w2 w3 h'] d2 by auto
    qed
  qed
qed

section \<open>The frame of an operation on one handle\<close>

definition touches :: "nat \<Rightarrow> 'fs lm_state \<Rightarrow> 'fs lm_state \<Rightarrow> bool" where
  "touches r st st' \<longleftrightarrow>
     lm_next st' = lm_next st \<and> h_id (lm_heap st' r) = h_id (lm_heap st r) \<and>
     (distinct (h_locks (lm_heap st r)) \<longrightarrow> distinct (h_locks (lm_heap st' r))) \<and>
     (\<forall>q. q \<noteq> r \<longrightarrow> lm_heap st' q = lm_heap st q) \<and>
     set (lm_handles st') \<subseteq> set (lm_handles st) \<and>
     (distinct (map fst (lm_handles st)) \<longrightarrow> distinct (map fst (lm_handles st')))"

definition lm_inv :: "'fs lm_state \<Rightarrow> bool" where
  "lm_inv st \<longleftrightarrow>
     distinct (map fst (lm_handles st)) \<and>
     (\<forall>(k, r) \<in> set (lm_handles st). r < lm_next st \<and> h_id (lm_heap st r) = k) \<and>
     (\<forall>r < lm_next st. distinct (h_locks (lm_heap st r)))"

lemma touches_trans:
  assumes "touches r st st1" "touches r st1 st2"
  shows "touches r st st2"
  using assms unfolding touches_def by auto

lemma touches_refl [simp]: "touches r st st"
  by (simp add: touches_def)

lemma touches_inv:
  assumes "touches r st st'" "lm_inv st"
  shows "lm_inv st'"
proof -
  have "q < lm_next st' \<and> h_id (lm_heap st' q) = k" if "(k, q) \<in> set (lm_handles st')" for k q
    using assms that by (cases "q = r") (auto simp: touches_def lm_inv_def)
  moreover have "distinct (h_locks (lm_heap st' q))" if "q < lm_next st'" for q
    using assms that by (cases "q = r") (auto simp: touches_def lm_inv_def)
  ultimately show ?thesis using assms by (auto simp: lm_inv_def touches_def)
qed

lemma touches_put:
  "h_id h = h_id (lm_heap st r) \<Longrightarrow> (distinct (h_locks (lm_heap st r)) \<Longrightarrow> distinct (h_locks h)) \<Longrightarrow>
   touches r st (put_handle r h w st)"
  by (auto simp: touches_def put_handle_def)

lemma touches_pop: "touches r st (pop_handle k st)"
  using distinct_delete [of "lm_handles st" k] by (auto simp: touches_def pop_handle_def AList.delete_eq)

lemma touches_mark: "touches r st (mark_handle_active r st)"
  by (auto simp: touches_def mark_handle_active_def)

lemma put_handle_sel [simp]:
  "lm_heap (put_handle r h w st) r = h" "lm_world (put_handle r h w st) = w"
  "lm_handles (put_handle r h w st) = lm_handles st" "lm_next (put_handle r h w st) = lm_next st"
  "lm_running (put_handle r h w st) = lm_running st"
  "q \<noteq> r \<Longrightarrow> lm_heap (put_handle r h w st) q = lm_heap st q"
  by (simp_all add: put_handle_def)

lemma pop_handle_sel [simp]:
  "lm_heap (pop_handle k st) = lm_heap st" "lm_world (pop_handle k st) = lm_world st"
  "lm_handles (pop_handle k st) = AList.delete k (lm_handles st)" "lm_next (pop_handle k st) = lm_next st"
  by (simp_all add: pop_handle_def)

lemma mark_handle_sel [simp]:
  "h_locks (lm_heap (mark_handle_active r st) q) = h_locks (lm_heap st q)"
  "h_id (lm_heap (mark_handle_active r st) q) = h_id (lm_heap st q)"
  "h_last_active_at (lm_heap (mark_handle_active r st) r) = now (lm_world st)"
  "lm_world (mark_handle_active r st) = lm_world st"
  "lm_handles (mark_handle_active r st) = lm_handles st" "lm_next (mark_handle_active r st) = lm_next st"
  by (simp_all add: mark_handle_active_def)

lemma reconcile_eq: "reconcile_handle_async = reconcile_handle"
  by (simp add: fun_eq_iff reconcile_handle_async_def reconcile_handle_def collect_lost_owner_locks_async_def
      collect_lost_owner_locks_def owned_async_eq)

lemma get_handle_eq: "get_handle_async = get_handle"
  unfolding get_handle_async_def get_handle_def reconcile_eq ..

lemma adopt_handle_eq: "adopt_handle_async = adopt_handle"
  unfolding adopt_handle_async_def adopt_handle_def get_handle_eq owned_async_eq ..

text \<open>Reconciling keeps exactly the lock files that still carry the owner's token.\<close>

definition kept_locks :: "'fs lm_config \<Rightarrow> 'fs lm_state \<Rightarrow> nat \<Rightarrow> path list" where
  "kept_locks C st r =
     [lp \<leftarrow> h_locks (lm_heap st r). is_lock_owned_by (cfg_engine C) (lm_world st) lp (h_id (lm_heap st r))]"

lemma reconcile_handle_spec:
  assumes "distinct (h_locks (lm_heap st r))"
  shows "reconcile_handle C r st =
    (let st' = put_handle r ((lm_heap st r)\<lparr>h_locks := kept_locks C st r\<rparr>) (lm_world st) st
     in if h_locks (lm_heap st r) \<noteq> [] \<and> kept_locks C st r = []
        then (pop_handle (h_id (lm_heap st r)) st', None) else (st', Some r))"
proof -
  have "fold remove_lock (collect_lost_owner_locks (cfg_engine C) (lm_world st) (lm_heap st r)) (lm_heap st r) =
      (lm_heap st r)\<lparr>h_locks := kept_locks C st r\<rparr>"
    using assms
    by (simp add: remove_fold fold_remove1 collect_lost_owner_locks_def kept_locks_def cong: filter_cong)
  then show ?thesis by (simp add: reconcile_handle_def Let_def)
qed

lemma fold_remove_distinct: "distinct (h_locks h) \<Longrightarrow> distinct (h_locks (fold remove_lock lps h))"
  by (simp add: remove_fold fold_remove1)

lemma touches_reconcile: "reconcile_handle C r st = (st', res) \<Longrightarrow> touches r st st'"
  by (auto simp: reconcile_handle_def Let_def remove_fold fold_remove1 split: if_splits
      intro!: touches_put intro: touches_trans [OF touches_put touches_pop])

lemma reconcile_result: "reconcile_handle C r st = (st', Some q) \<Longrightarrow> q = r"
  by (auto simp: reconcile_handle_def Let_def split: if_splits)

lemma touches_release: "touches r st (lm_release C r st)"
proof -
  obtain w h where e: "release (cfg_engine C) (lm_heap st r) (lm_world st) = (w, h)" by fastforce
  then have "h_id h = h_id (lm_heap st r)" "distinct (h_locks (lm_heap st r)) \<Longrightarrow> distinct (h_locks h)"
    using release_loop_handle release_handle by (fastforce simp: release_def remove_fold)+
  with e show ?thesis
    by (auto simp: lm_release_def intro: touches_trans [OF touches_put touches_pop])
qed

lemma release_selected_id: "release_selected_loop E lps w h = (w', h') \<Longrightarrow> h_id h' = h_id h"
  by (induction lps arbitrary: w h) (auto simp: Let_def split: if_splits)

lemma touches_release_selected: "touches r st (lm_release_selected C r lps st)"
proof -
  obtain w h where e: "release_selected (cfg_engine C) (lm_heap st r) lps (lm_world st) = (w, h)" by fastforce
  then have "h_id h = h_id (lm_heap st r)" by (simp add: release_selected_def release_selected_id)
  with e release_selected_handle [OF e] show ?thesis
    by (auto simp: lm_release_selected_def intro!: touches_put)
qed

lemma engine_acquire_handle:
  assumes "engine_acquire C r target t st = Some (st', ok)"
  shows "(\<not> ok \<longrightarrow> lm_heap st' = lm_heap st) \<and> lm_handles st' = lm_handles st \<and> lm_next st' = lm_next st \<and>
    (lm_heap st' r = lm_heap st r \<or> (\<exists>lp. lm_heap st' r = add_lock lp (lm_heap st r))) \<and>
    (\<forall>q. q \<noteq> r \<longrightarrow> lm_heap st' q = lm_heap st q)"
proof -
  obtain path is_tree where t: "target = (path, is_tree)" by fastforce
  from assms obtain w h where
    e: "(if is_tree
         then acquire_tree (cfg_fuel C) (cfg_depth C) (cfg_engine C) path (lm_heap st r) t (lm_world st)
         else acquire_exact_path (cfg_fuel C) (cfg_engine C) path (lm_heap st r) t (lm_world st)) = Some (w, h, ok)"
    and st': "st' = put_handle r h w st"
    by (auto simp: engine_acquire_def t split: option.splits)
  from e have "(\<not> ok \<longrightarrow> h = lm_heap st r) \<and> (h = lm_heap st r \<or> (\<exists>lp. h = add_lock lp (lm_heap st r)))"
    by (metis acquire_tree_handle acquire_exact_handle_cases)
  then show ?thesis by (auto simp: st' put_handle_def fun_eq_iff)
qed

text \<open>A call that returns appends at most one lock file to the handle's list.\<close>

lemma add_lock_suffix:
  "h_locks (add_lock lp h) = h_locks h @ [l \<leftarrow> h_locks (add_lock lp h). l \<notin> set (h_locks h)]"
  by (auto simp: add_lock_def filter_empty_conv)

lemma engine_acquire_suffix:
  assumes "engine_acquire C r target t st = Some (st', ok)"
  shows "h_locks (lm_heap st' r) =
      h_locks (lm_heap st r) @ [l \<leftarrow> h_locks (lm_heap st' r). l \<notin> set (h_locks (lm_heap st r))]"
  using engine_acquire_handle [OF assms] add_lock_suffix [of _ "lm_heap st r"]
  by (auto simp: filter_empty_conv)

lemma touches_engine_acquire: "engine_acquire C r target t st = Some (st', ok) \<Longrightarrow> touches r st st'"
  by (drule engine_acquire_handle) (auto simp: touches_def)

lemma touches_mark_if:
  "mark_if_acquired r res = Some (st', ok) \<Longrightarrow> (\<And>st1. res = Some (st1, ok) \<Longrightarrow> touches r st st1) \<Longrightarrow>
   touches r st st'"
  by (auto simp: mark_if_acquired_def split: option.splits if_splits intro: touches_trans [OF _ touches_mark])

lemma touches_batch:
  "batch_loop C r t acc targets st = Some (st', ok) \<Longrightarrow> touches r st st'"
proof (induction targets arbitrary: acc st)
  case Nil
  then show ?case by (auto simp: touches_mark)
next
  case (Cons target targets)
  then obtain st1 b where e: "engine_acquire C r target t st = Some (st1, b)"
    by (auto simp: Let_def split: option.splits)
  note t1 = touches_engine_acquire [OF e]
  show ?case
  proof (cases b)
    case True
    with e Cons show ?thesis by (fastforce simp: Let_def intro: touches_trans [OF t1])
  next
    case False
    with e Cons.prems have "st' = lm_release_selected C r acc st1" by simp
    then show ?thesis using touches_trans [OF t1 touches_release_selected] by simp
  qed
qed

lemma touches_mv: "lm_acquire_mv C r src dst is_dir timeout st = Some (st', ok) \<Longrightarrow> touches r st st'"
  unfolding lm_acquire_mv_def
proof (erule touches_mark_if)
  fix st1
  assume "(case acquire_mv (cfg_fuel C) (cfg_depth C) (cfg_engine C) src dst (lm_heap st r)
      (resolve_timeout C timeout) is_dir (lm_world st) of
      None \<Rightarrow> None | Some (w, h, ok) \<Rightarrow> Some (put_handle r h w st, ok)) = Some (st1, ok)"
  then show "touches r st st1"
    by (auto split: option.splits intro!: touches_put dest: acquire_mv_handle)
qed

section \<open>The invariant of the manager\<close>

lemma register_inv:
  assumes "lm_inv st" "distinct (h_locks h)"
  shows "lm_inv (register_handle (lm_next st) (fst (alloc_handle h st)))"
proof -
  let ?st = "register_handle (lm_next st) (fst (alloc_handle h st))"
  have st: "lm_next ?st = Suc (lm_next st)" "lm_heap ?st = (lm_heap st)(lm_next st := h)"
    "lm_handles ?st = AList.update (h_id h) (lm_next st) (lm_handles st)"
    by (simp_all add: register_handle_def alloc_handle_def)
  have "(k, q) \<in> set (lm_handles ?st) \<Longrightarrow> q < lm_next ?st \<and> h_id (lm_heap ?st q) = k" for k q
    using assms(1) dict_set_subset [of "h_id h" "lm_next st" "lm_handles st"]
    unfolding st by (fastforce simp: lm_inv_def)
  moreover have "distinct (map fst (lm_handles ?st))"
    using assms(1) by (simp add: st lm_inv_def distinct_update)
  moreover have "\<forall>q < lm_next ?st. distinct (h_locks (lm_heap ?st q))"
    using assms by (simp add: st lm_inv_def less_Suc_eq)
  ultimately show ?thesis unfolding lm_inv_def by blast
qed

lemma create_handle_eq:
  "create_handle C st =
     (register_handle (lm_next st)
        (fst (alloc_handle (new_handle (cfg_uuid C (lm_next st)) (now (lm_world st))) st)), lm_next st)"
  by (simp add: create_handle_def alloc_handle_def)

lemma create_inv: "lm_inv st \<Longrightarrow> lm_inv (fst (create_handle C st))"
  by (simp add: create_handle_eq register_inv new_handle_def)

lemma get_handle_touches: "get_handle C hid st = (st', res) \<Longrightarrow> st' = st \<or> (\<exists>r. touches r st st')"
  by (auto simp: get_handle_def split: option.splits prod.splits if_splits dest: touches_reconcile)

lemma get_handle_inv: "lm_inv st \<Longrightarrow> lm_inv (fst (get_handle C hid st))"
  by (cases "get_handle C hid st") (auto dest: get_handle_touches touches_inv)

lemma adopt_handle_cases:
  assumes "adopt_handle C hid lps st = (st', res)"
  obtains (known) r where "get_handle C hid st = (st', Some r)" "res = Some r"
  | (gone) "get_handle C hid st = (st', None)" "res = None"
      "[lp \<leftarrow> py_fromkeys lps. is_lock_owned_by (cfg_engine C) (lm_world st') lp hid] = []"
  | (adopted) st1 h where "get_handle C hid st = (st1, None)" "res = Some (lm_next st1)"
      "h = (new_handle hid (now (lm_world st1)))
         \<lparr>h_locks := [lp \<leftarrow> py_fromkeys lps. is_lock_owned_by (cfg_engine C) (lm_world st1) lp hid]\<rparr>"
      "h_locks h \<noteq> []"
      "st' = mark_handle_active (lm_next st1) (register_handle (lm_next st1) (fst (alloc_handle h st1)))"
proof -
  obtain st1 g where g: "get_handle C hid st = (st1, g)" by fastforce
  let ?own = "[lp \<leftarrow> py_fromkeys lps. is_lock_owned_by (cfg_engine C) (lm_world st1) lp hid]"
  have f: "fold add_lock ?own (new_handle hid (now (lm_world st1))) =
      (new_handle hid (now (lm_world st1)))\<lparr>h_locks := ?own\<rparr>"
    by (subst fold_add_lock) (simp_all add: new_handle_def)
  show thesis
  proof (cases g)
    case (Some r)
    with g assms have "st1 = st'" "res = Some r" by (simp_all add: adopt_handle_def)
    with g Some known show ?thesis by simp
  next
    case None
    let ?h = "(new_handle hid (now (lm_world st1)))\<lparr>h_locks := ?own\<rparr>"
    from None g assms have e: "(st', res) = (if ?own = [] then (st1, None)
        else (mark_handle_active (lm_next st1) (register_handle (lm_next st1) (fst (alloc_handle ?h st1))),
              Some (lm_next st1)))"
      unfolding adopt_handle_def by (simp add: Let_def f alloc_handle_def cong: if_cong split del: if_split)
    show ?thesis
    proof (cases "?own = []")
      case True
      with e g None show ?thesis by (intro gone) auto
    next
      case False
      with e g None show ?thesis by (intro adopted [of st1 ?h]) auto
    qed
  qed
qed

lemma adopt_inv:
  assumes "lm_inv st"
  shows "lm_inv (fst (adopt_handle C hid lps st))"
proof -
  obtain st' res where a: "adopt_handle C hid lps st = (st', res)" by fastforce
  have g: "get_handle C hid st = (st1, g) \<Longrightarrow> lm_inv st1" for st1 g
    using get_handle_inv [OF assms, of C hid] by simp
  from a have "lm_inv st'"
  proof (cases rule: adopt_handle_cases)
    case (adopted st1 h)
    with g [OF adopted(1)] show ?thesis
      by (simp add: touches_inv [OF touches_mark] register_inv)
  qed (auto intro: g)
  with a show ?thesis by simp
qed

lemma touches_refresh: "touches r st (refresh_lock C r st)"
proof -
  obtain st1 res where e: "reconcile_handle C r st = (st1, res)" by fastforce
  note t1 = touches_reconcile [OF e]
  show ?thesis
  proof (cases res)
    case None
    with e t1 show ?thesis by (simp add: refresh_lock_def reconcile_eq)
  next
    case (Some cur)
    with e reconcile_result have cur: "cur = r" by auto
    obtain w result where f: "refresh (cfg_engine C) (lm_heap st1 r) (lm_world st1) = (w, result)"
      by fastforce
    let ?st2 = "put_handle r (fold remove_lock (lost_paths result) (lm_heap st1 r)) w st1"
    let ?st3 = "if refreshed_paths result \<noteq> [] then mark_handle_active r ?st2 else ?st2"
    have a: "touches r st1 ?st2" by (rule touches_put) (simp_all add: remove_fold fold_remove1)
    have b: "touches r ?st2 ?st3" by (simp add: touches_mark)
    have c: "touches r ?st3 (fst (reconcile_handle C r ?st3))"
      by (rule touches_reconcile [of C _ _ _ "snd (reconcile_handle C r ?st3)"])
        (rule prod.collapse [symmetric])
    have "refresh_lock C r st = fst (reconcile_handle C r ?st3)"
      unfolding refresh_lock_def reconcile_eq e Some cur f Let_def prod.case option.case ..
    then show ?thesis
      using touches_trans [OF touches_trans [OF touches_trans [OF t1 a] b] c] by (simp only:)
  qed
qed

text \<open>A fold of operations that each touch one handle keeps the invariant.\<close>

lemma fold_inv: "(\<And>r st. lm_inv st \<Longrightarrow> lm_inv (f r st)) \<Longrightarrow> lm_inv st \<Longrightarrow> lm_inv (fold f rs st)"
  by (induction rs arbitrary: st) auto

lemma release_inv: "lm_inv st \<Longrightarrow> lm_inv (lm_release C r st)"
  using touches_release touches_inv by blast

lemma release_locks_inv: "lm_inv st \<Longrightarrow> lm_inv (release_handle_locks C r st)"
proof -
  assume i: "lm_inv st"
  obtain w h where e: "release (cfg_engine C) (lm_heap st r) (lm_world st) = (w, h)" by fastforce
  then have "h_id h = h_id (lm_heap st r)" "distinct (h_locks (lm_heap st r)) \<Longrightarrow> distinct (h_locks h)"
    using release_loop_handle release_handle by (fastforce simp: release_def remove_fold)+
  then have "touches r st (put_handle r h w st)" by (auto intro: touches_put)
  with e i show ?thesis by (simp add: release_handle_locks_def touches_inv)
qed

lemma stop_inv: "lm_inv st \<Longrightarrow> lm_inv (stop C st)"
proof -
  assume i: "lm_inv st"
  have "lm_inv (fold (release_handle_locks C) rs (st\<lparr>lm_running := False\<rparr>))" for rs
    using i by (intro fold_inv release_locks_inv) (auto simp: lm_inv_def)
  then show ?thesis by (auto simp: stop_def Let_def lm_inv_def)
qed

lemma collect_stale_inv: "lm_inv st \<Longrightarrow> lm_inv (fst (collect_stale C t rs st))"
proof (induction rs arbitrary: st)
  case (Cons r rs)
  obtain st1 res where e: "reconcile_handle C r st = (st1, res)" by fastforce
  with Cons have "lm_inv (fst (collect_stale C t rs st1))"
    using touches_reconcile touches_inv by blast
  with e show ?case by (auto simp: reconcile_eq split: option.splits prod.splits)
qed simp

lemma cleanup_inv: "lm_inv st \<Longrightarrow> lm_inv (stale_cleanup C st)"
  using collect_stale_inv [of st C "now (lm_world st)" "map snd (lm_handles st)"]
    fold_inv [of "lm_release C", OF release_inv]
  by (auto simp: stale_cleanup_def split: prod.splits)

lemma active_inv: "lm_inv st \<Longrightarrow> lm_inv (fst (active_loop C rs acc st))"
proof (induction rs arbitrary: acc st)
  case (Cons r rs)
  obtain st1 res where e: "reconcile_handle C r st = (st1, res)" by fastforce
  with Cons.prems have "lm_inv st1" using touches_reconcile touches_inv by blast
  with e Cons.IH show ?case by (auto split: option.splits)
qed simp

section \<open>Runs of the manager\<close>

text \<open>Every call of the manager on a handle the caller has, in any order, and every change of the world
  by other processes.\<close>

inductive lm_step :: "'fs lm_config \<Rightarrow> 'fs lm_state \<Rightarrow> 'fs lm_state \<Rightarrow> bool" for C where
  create: "lm_step C st (fst (create_handle C st))"
| get: "lm_step C st (fst (get_handle C hid st))"
| active: "lm_step C st (fst (get_active_handles C st))"
| adopt: "lm_step C st (fst (adopt_handle C hid lps st))"
| exact: "lm_acquire_exact_path C r p t st = Some (st', ok) \<Longrightarrow> lm_step C st st'"
| tree: "lm_acquire_tree C r p t st = Some (st', ok) \<Longrightarrow> lm_step C st st'"
| exact_batch: "acquire_exact_path_batch C r ps t st = Some (st', ok) \<Longrightarrow> lm_step C st st'"
| tree_batch: "acquire_tree_batch C r ps t st = Some (st', ok) \<Longrightarrow> lm_step C st st'"
| mixed_batch: "acquire_exact_tree_batch C r es ts t st = Some (st', ok) \<Longrightarrow> lm_step C st st'"
| mv: "lm_acquire_mv C r src dst is_dir t st = Some (st', ok) \<Longrightarrow> lm_step C st st'"
| refresh: "lm_step C st (refresh_lock C r st)"
| release: "lm_step C st (lm_release C r st)"
| selected: "lm_step C st (lm_release_selected C r lps st)"
| cleanup: "lm_step C st (stale_cleanup C st)"
| stopped: "lm_step C st (stop C st)"
| others: "lm_step C st (st\<lparr>lm_world := w\<rparr>)"

inductive lm_reachable :: "'fs lm_config \<Rightarrow> 'fs lm_state \<Rightarrow> 'fs lm_state \<Rightarrow> bool" for C st0 where
  start: "lm_reachable C st0 st0"
| step: "lm_reachable C st0 st \<Longrightarrow> lm_step C st st' \<Longrightarrow> lm_reachable C st0 st'"

lemma touches_batch_calls:
  "acquire_exact_path_batch C r ps t st = Some (st', ok) \<Longrightarrow> touches r st st'"
  "acquire_tree_batch C r ps t st = Some (st', ok) \<Longrightarrow> touches r st st'"
  "acquire_exact_tree_batch C r es ts t st = Some (st', ok) \<Longrightarrow> touches r st st'"
  by (auto simp: acquire_exact_path_batch_def acquire_tree_batch_def acquire_exact_tree_batch_def Let_def
      touches_mark split: if_splits dest: touches_batch)

lemma touches_acquire_calls:
  "lm_acquire_exact_path C r p t st = Some (st', ok) \<Longrightarrow> touches r st st'"
  "lm_acquire_tree C r p t st = Some (st', ok) \<Longrightarrow> touches r st st'"
  unfolding lm_acquire_exact_path_def lm_acquire_tree_def
  by (erule touches_mark_if, erule touches_engine_acquire)+

lemma step_inv: "lm_step C st st' \<Longrightarrow> lm_inv st \<Longrightarrow> lm_inv st'"
proof (induction rule: lm_step.induct)
  case others
  then show ?case by (simp add: lm_inv_def)
next
  case refresh
  then show ?case using touches_inv [OF touches_refresh] by blast
next
  case selected
  then show ?case using touches_inv [OF touches_release_selected] by blast
qed (auto simp: get_active_handles_def intro: create_inv get_handle_inv active_inv adopt_inv release_inv
    cleanup_inv stop_inv touches_inv [OF touches_acquire_calls(1)] touches_inv [OF touches_acquire_calls(2)]
    touches_inv [OF touches_batch_calls(1)] touches_inv [OF touches_batch_calls(2)]
    touches_inv [OF touches_batch_calls(3)] touches_inv [OF touches_mv])

lemma reachable_inv: "lm_reachable C st0 st \<Longrightarrow> lm_inv st0 \<Longrightarrow> lm_inv st"
  by (induction rule: lm_reachable.induct) (auto intro: step_inv)

section \<open>Batches and scopes\<close>

lemma batch_False:
  assumes "batch_loop C r t acc targets st = Some (st', False)"
    and "h_locks (lm_heap st r) = L @ acc" "distinct (L @ acc)"
  shows "h_locks (lm_heap st' r) = L \<and> lm_handles st' = lm_handles st"
  using assms
proof (induction targets arbitrary: acc st)
  case (Cons target targets)
  then obtain st1 b where e: "engine_acquire C r target t st = Some (st1, b)"
    by (auto simp: Let_def split: option.splits)
  note h = engine_acquire_handle [OF e]
  show ?case
  proof (cases b)
    case True
    let ?new = "[lp \<leftarrow> h_locks (lm_heap st1 r). lp \<notin> set (h_locks (lm_heap st r))]"
    have "h_locks (lm_heap st1 r) = L @ acc @ ?new" "distinct (h_locks (lm_heap st1 r))"
      using engine_acquire_suffix [OF e] touches_engine_acquire [OF e] Cons.prems(2,3)
      by (auto simp: touches_def)
    moreover have "batch_loop C r t (acc @ ?new) targets st1 = Some (st', False)"
      using Cons.prems(1) e True by (simp add: Let_def)
    ultimately show ?thesis
      using Cons.IH [of "acc @ ?new" st1] h by auto
  next
    case False
    with e Cons.prems(1) have st': "st' = lm_release_selected C r acc st1" by simp
    have "lm_heap st1 r = lm_heap st r" using h False by simp
    then obtain w where
      "release_selected (cfg_engine C) (lm_heap st1 r) acc (lm_world st1) =
        (w, (lm_heap st r)\<lparr>h_locks := [l \<leftarrow> L @ acc. l \<notin> set acc]\<rparr>)"
      using release_selected_handle Cons.prems(2,3) by (metis surj_pair)
    moreover have "[l \<leftarrow> L @ acc. l \<notin> set acc] = L"
      using Cons.prems(3) by (auto simp: filter_empty_conv intro!: filter_True)
    ultimately show ?thesis using h by (simp add: st' lm_release_selected_def)
  qed
qed simp

lemma lock_order_inj [simp]: "lock_order p = lock_order q \<longleftrightarrow> p = q"
  by (auto simp: lock_order_def)

lemma mixed_paths:
  "set (map fst (mixed_batch_order es ts)) = set es \<union> set ts"
  "distinct (map fst (mixed_batch_order es ts))"
  "sorted (map lock_order (map fst (mixed_batch_order es ts)))"
proof -
  let ?all = "map (\<lambda>p. (p, False)) (filter (\<lambda>p. p \<notin> set (remdups ts)) (remdups es)) @
    map (\<lambda>p. (p, True)) (remdups ts)"
  have m: "mixed_batch_order es ts = sort_key (\<lambda>x. lock_order (fst x)) ?all"
    by (simp add: mixed_batch_order_def Let_def)
  have f: "map fst ?all = filter (\<lambda>p. p \<notin> set ts) (remdups es) @ remdups ts" by (simp add: comp_def)
  have "mset (map fst (mixed_batch_order es ts)) = mset (map fst ?all)"
    by (simp only: m mset_map mset_sort)
  then have "mset (map fst (mixed_batch_order es ts)) = mset (filter (\<lambda>p. p \<notin> set ts) (remdups es) @ remdups ts)"
    by (simp only: f)
  note eq = mset_eq_setD [OF this] mset_eq_imp_distinct_iff [OF this]
  show "set (map fst (mixed_batch_order es ts)) = set es \<union> set ts" using eq(1) by auto
  show "distinct (map fst (mixed_batch_order es ts))" using eq(2) by auto
  show "sorted (map lock_order (map fst (mixed_batch_order es ts)))"
    using sorted_sort_key [of "\<lambda>x. lock_order (fst x)" ?all] by (simp add: m comp_def)
qed

lemma lock_order_unique:
  assumes "sorted (map lock_order xs)" "sorted (map lock_order ys)" "distinct xs" "distinct ys" "set xs = set ys"
  shows "xs = ys"
proof -
  have "inj lock_order" by (simp add: inj_on_def)
  moreover have "map lock_order xs = map lock_order ys"
    using assms by (intro sorted_distinct_set_unique) (simp_all add: distinct_map inj_on_def)
  ultimately show ?thesis by (simp add: inj_map_eq_map)
qed

lemma release_selected_locks:
  assumes "distinct (h_locks (lm_heap st r))"
  shows "h_locks (lm_heap (lm_release_selected C r lps st) r) = [l \<leftarrow> h_locks (lm_heap st r). l \<notin> set lps]"
proof -
  obtain w h where e: "release_selected (cfg_engine C) (lm_heap st r) lps (lm_world st) = (w, h)" by fastforce
  with release_selected_handle [OF e assms] show ?thesis by (simp add: lm_release_selected_def)
qed

lemma mark_if_suffix:
  assumes "mark_if_acquired r (engine_acquire C r target t st) = Some (st', ok)"
  shows "\<exists>new. h_locks (lm_heap st' r) = h_locks (lm_heap st r) @ new"
  using assms engine_acquire_suffix
  by (fastforce simp: mark_if_acquired_def split: option.splits if_splits)

lemma tree_paths_suffix:
  "tree_paths_loop C r t s paths st = Some (st', ok) \<Longrightarrow>
   touches r st st' \<and> (\<exists>new. h_locks (lm_heap st' r) = h_locks (lm_heap st r) @ new)"
proof (induction paths arbitrary: s st)
  case (Cons p ps)
  then obtain st1 b where e: "lm_acquire_tree C r p t st = Some (st1, b)"
    by (auto split: option.splits)
  note t = touches_acquire_calls(2) [OF e]
  obtain new where n: "h_locks (lm_heap st1 r) = h_locks (lm_heap st r) @ new"
    using mark_if_suffix [OF e [unfolded lm_acquire_tree_def]] by blast
  show ?case
  proof (cases b)
    case True
    with e Cons.prems have "tree_paths_loop C r t True ps st1 = Some (st', ok)" by simp
    from Cons.IH [OF this] t n show ?thesis using touches_trans by fastforce
  next
    case False
    with e Cons.prems t n show ?thesis by auto
  qed
qed auto

lemma batch_suffix:
  "batch_loop C r t acc targets st = Some (st', True) \<Longrightarrow>
   \<exists>new. h_locks (lm_heap st' r) = h_locks (lm_heap st r) @ new"
proof (induction targets arbitrary: acc st)
  case (Cons target targets)
  then obtain st1 where e: "engine_acquire C r target t st = Some (st1, True)"
    by (auto simp: Let_def split: option.splits bool.splits)
  obtain n where n: "h_locks (lm_heap st1 r) = h_locks (lm_heap st r) @ n"
    using engine_acquire_suffix [OF e] by blast
  from e Cons.prems obtain acc' where "batch_loop C r t acc' targets st1 = Some (st', True)"
    by (auto simp: Let_def)
  from Cons.IH [OF this] n show ?case by auto
qed auto

lemma context_acquire_suffix:
  assumes "context_acquire C r ctx st = Some (st', Inr ok)" "lc_mode ctx \<noteq> ''mv''"
    and "distinct (h_locks (lm_heap st r))"
  shows "distinct (h_locks (lm_heap st' r)) \<and> (\<exists>new. h_locks (lm_heap st' r) = h_locks (lm_heap st r) @ new)"
proof (cases "lc_mode ctx = ''tree''")
  case True
  then have "tree_paths_loop C r (lc_timeout ctx) False (lc_paths ctx) st = Some (st', ok)"
    using assms(1) by (auto simp: context_acquire_def apsnd_def map_prod_def split: prod.splits)
  from tree_paths_suffix [OF this] assms(3) show ?thesis by (auto simp: touches_def)
next
  case False
  then have e: "acquire_exact_path_batch C r (lc_paths ctx) (lc_timeout ctx) st = Some (st', ok)"
    using assms(1,2)
    by (auto simp: context_acquire_def apsnd_def map_prod_def split: prod.splits if_splits)
  then have d: "distinct (h_locks (lm_heap st' r))"
    using touches_batch_calls(1) assms(3) by (force simp: touches_def)
  show ?thesis
  proof (cases ok)
    case True
    with e d batch_suffix show ?thesis
      by (fastforce simp: acquire_exact_path_batch_def split: if_splits)
  next
    case False
    with e have "batch_loop C r (resolve_timeout C (lc_timeout ctx)) []
        (exact_batch_order (lc_paths ctx)) st = Some (st', False)"
      by (auto simp: acquire_exact_path_batch_def split: if_splits)
    from batch_False [OF this, of "h_locks (lm_heap st r)"] d assms(3) show ?thesis by simp
  qed
qed

section \<open>Looking a handle up\<close>

lemma get_handle_None: "map_of (lm_handles st) hid = None \<Longrightarrow> get_handle C hid st = (st, None)"
  by (simp add: get_handle_def)

lemma get_handle_Some:
  assumes "get_handle C hid st = (st', Some r)" "lm_inv st"
  shows "map_of (lm_handles st) hid = Some r" "h_id (lm_heap st' r) = hid"
    "h_locks (lm_heap st' r) = kept_locks C st r" "kept_locks C st r \<noteq> []" "lm_world st' = lm_world st"
    "\<forall>lp \<in> set (h_locks (lm_heap st' r)). is_lock_owned_by (cfg_engine C) (lm_world st) lp hid"
    "distinct (h_locks (lm_heap st' r))"
proof -
  obtain q where q: "map_of (lm_handles st) hid = Some q"
    using assms(1) by (auto simp: get_handle_def split: option.splits)
  then have d: "distinct (h_locks (lm_heap st q))" "h_id (lm_heap st q) = hid"
    using assms(2) map_of_SomeD [OF q] by (auto simp: lm_inv_def)
  have "st' = put_handle q ((lm_heap st q)\<lparr>h_locks := kept_locks C st q\<rparr>) (lm_world st) st \<and> r = q \<and>
      kept_locks C st q \<noteq> []"
    using assms(1) q by (auto simp: get_handle_def reconcile_handle_spec [OF d(1)] Let_def split: if_splits)
  with q d show "map_of (lm_handles st) hid = Some r" "h_id (lm_heap st' r) = hid"
    "h_locks (lm_heap st' r) = kept_locks C st r" "kept_locks C st r \<noteq> []" "lm_world st' = lm_world st"
    "\<forall>lp \<in> set (h_locks (lm_heap st' r)). is_lock_owned_by (cfg_engine C) (lm_world st) lp hid"
    "distinct (h_locks (lm_heap st' r))"
    by (auto simp: kept_locks_def)
qed

lemma get_handle_frame:
  assumes "get_handle C (h_id (lm_heap st r)) st = (st1, g)" "lm_inv st" "r < lm_next st"
    and "map_of (lm_handles st) (h_id (lm_heap st r)) = None \<or>
      map_of (lm_handles st) (h_id (lm_heap st r)) = Some r"
  shows "lm_world st1 = lm_world st" "h_id (lm_heap st1 r) = h_id (lm_heap st r)" "g = None \<or> g = Some r"
    "set (kept_locks C st r) \<subseteq> set (h_locks (lm_heap st1 r))" "distinct (h_locks (lm_heap st1 r))"
    "lm_inv st1"
proof -
  have d: "distinct (h_locks (lm_heap st r))" using assms(2,3) by (simp add: lm_inv_def)
  have k: "set (kept_locks C st r) \<subseteq> set (h_locks (lm_heap st r))" "distinct (kept_locks C st r)"
    using d by (auto simp: kept_locks_def)
  show "lm_inv st1" using get_handle_inv [OF assms(2), of C "h_id (lm_heap st r)"] assms(1) by simp
  show "lm_world st1 = lm_world st" "h_id (lm_heap st1 r) = h_id (lm_heap st r)" "g = None \<or> g = Some r"
    "set (kept_locks C st r) \<subseteq> set (h_locks (lm_heap st1 r))" "distinct (h_locks (lm_heap st1 r))"
    using assms(1,4) k d
    by (auto simp: get_handle_def reconcile_handle_spec [OF d] Let_def split: if_splits)
qed

section \<open>The lock of a semantic message\<close>

lemma acquire_tree_nonempty:
  assumes "acquire_tree fuel depth E path h timeout w = Some (w', h', True)" "h_locks h = []"
  shows "h_locks h' \<noteq> []"
proof -
  have "\<not> has_owned_ancestor_tree E w path h" "owned_lock_type_for_lock_path E w (tree_lock_path E w path) h \<noteq> Some TREE"
    using assms(2) by (auto simp: has_owned_ancestor_tree_def owned_lock_type_def
        owned_lock_type_for_lock_path_def Let_def list_ex_iff)
  with acquire_tree_new [OF assms(1)] show ?thesis by auto
qed

lemma engine_tree_nonempty:
  assumes "engine_acquire C r (p, True) t st = Some (st', True)"
  shows "h_locks (lm_heap st' r) \<noteq> []"
proof (cases "h_locks (lm_heap st r) = []")
  case True
  with assms show ?thesis
    by (auto simp: engine_acquire_def split: option.splits dest: acquire_tree_nonempty)
next
  case False
  with engine_acquire_suffix [OF assms] show ?thesis by (metis append_is_Nil_conv)
qed

lemma lm_tree_nonempty:
  "lm_acquire_tree C r p t st = Some (st', True) \<Longrightarrow> h_locks (lm_heap st' r) \<noteq> []"
  by (auto simp: lm_acquire_tree_def mark_if_acquired_def split: option.splits if_splits
      dest: engine_tree_nonempty)

lemma tree_batch_nonempty:
  assumes "acquire_tree_batch C r paths t st = Some (st', True)" "paths \<noteq> []"
  shows "h_locks (lm_heap st' r) \<noteq> []"
proof -
  obtain p ps where o: "tree_batch_order paths = (p, True) # ps"
    using assms(2) by (cases "sort_key lock_order paths") (auto simp: tree_batch_order_def simp flip: set_empty)
  from assms have b: "batch_loop C r (resolve_timeout C t) [] ((p, True) # ps) st = Some (st', True)"
    by (simp add: acquire_tree_batch_def o)
  then obtain st1 acc where e: "engine_acquire C r (p, True) (resolve_timeout C t) st = Some (st1, True)"
    "batch_loop C r (resolve_timeout C t) acc ps st1 = Some (st', True)"
    by (auto simp: Let_def split: option.splits bool.splits)
  from batch_suffix [OF e(2)] engine_tree_nonempty [OF e(1)] show ?thesis by auto
qed

lemma from_handoff_live:
  assumes "from_handoff C ref st = (st', Inr l)" "lm_inv st"
  shows "\<exists>r. l = OwnedLockLease (Some r) True \<and> h_locks (lm_heap st' r) \<noteq> [] \<and>
    h_id (lm_heap st' r) = ref_handle_id ref"
proof -
  obtain st1 g where g: "get_handle C (ref_handle_id ref) st = (st1, g)" by fastforce
  show ?thesis
  proof (cases g)
    case (Some r)
    with g assms(1) have "st' = st1" "l = new_owned_lease r st1"
      by (auto simp: from_handoff_def get_handle_eq)
    with get_handle_Some [OF g [unfolded Some] assms(2)] show ?thesis by (auto simp: new_owned_lease_def)
  next
    case None
    have inv1: "lm_inv st1" using get_handle_inv [OF assms(2), of C "ref_handle_id ref"] g by simp
    obtain st2 res where a: "adopt_handle C (ref_handle_id ref) (ref_lock_paths ref) st1 = (st2, res)"
      by fastforce
    with g None assms(1) obtain r where r: "res = Some r" "st' = st2" "l = new_owned_lease r st2"
      by (auto simp: from_handoff_def get_handle_eq adopt_handle_eq split: option.splits)
    from a show ?thesis
    proof (cases rule: adopt_handle_cases)
      case (known q)
      with r get_handle_Some [OF known(1) inv1] show ?thesis by (auto simp: new_owned_lease_def)
    next
      case gone
      with r show ?thesis by simp
    next
      case (adopted st3 h)
      with r show ?thesis
        by (auto simp: new_owned_lease_def register_handle_def alloc_handle_def new_handle_def)
    qed
  qed
qed

lemma reacquire_live:
  assumes "reacquire_semantic C ref fb st = Some (st', Inr l)"
  shows "\<exists>r. l = OwnedLockLease (Some r) True \<and> h_locks (lm_heap st' r) \<noteq> []"
proof -
  let ?tps = "tree_paths_from_handoff (ref_lock_paths ref)"
  define tree_paths where "tree_paths = (if ?tps = [] then (case fb of Some p \<Rightarrow> [p] | None \<Rightarrow> []) else ?tps)"
  obtain st1 r where c: "create_handle C st = (st1, r)" by fastforce
  have ne: "tree_paths \<noteq> []" using assms by (auto simp: reacquire_semantic_def tree_paths_def Let_def)
  with assms c have "(if length tree_paths = 1 then lm_acquire_tree C r (hd tree_paths) LOCK_TIMEOUT_DEFAULT st1
      else acquire_tree_batch C r tree_paths LOCK_TIMEOUT_DEFAULT st1) = Some (st', True) \<and>
      l = new_owned_lease r st'"
    unfolding reacquire_semantic_def Let_def tree_paths_def [symmetric]
    by (auto split: option.splits bool.splits)
  moreover from this have "h_locks (lm_heap st' r) \<noteq> []"
    using ne tree_batch_nonempty lm_tree_nonempty by (metis (full_types))
  ultimately show ?thesis by (auto simp: new_owned_lease_def)
qed

lemma lease_active_inv: "lm_inv st \<Longrightarrow> lm_inv (fst (lease_active C l st))"
proof -
  assume i: "lm_inv st"
  have "lm_inv (fst (lease_handle C l st))"
    using i get_handle_inv by (auto simp: lease_handle_def split: lease.splits option.splits)
  then show ?thesis by (auto simp: lease_active_def split: prod.splits option.splits)
qed

lemma get_handle_None_stable:
  assumes "get_handle C hid st = (st1, None)" "lm_inv st"
  shows "snd (get_handle C hid st1) = None" "h_id (lm_heap st1 q) = h_id (lm_heap st q)"
proof -
  have "st1 = st \<or> (\<exists>r. touches r st st1)" using get_handle_touches [OF assms(1)] .
  then show "h_id (lm_heap st1 q) = h_id (lm_heap st q)" unfolding touches_def by metis
  show "snd (get_handle C hid st1) = None"
  proof (cases "map_of (lm_handles st) hid")
    case None
    with assms(1) show ?thesis by (auto simp: get_handle_def)
  next
    case (Some r)
    then have d: "distinct (h_locks (lm_heap st r))" "h_id (lm_heap st r) = hid"
      using assms(2) map_of_SomeD [OF Some] by (auto simp: lm_inv_def)
    show ?thesis
    proof (cases "h_locks (lm_heap st r) = []")
      case True
      then have "kept_locks C st r = []" by (simp add: kept_locks_def)
      then have "st1 = put_handle r ((lm_heap st r)\<lparr>h_locks := []\<rparr>) (lm_world st) st"
        using assms(1) Some True by (auto simp: get_handle_def reconcile_handle_spec [OF d(1)] Let_def)
      then show ?thesis using Some by (simp add: get_handle_def reconcile_handle_def Let_def
            collect_lost_owner_locks_def)
    next
      case False
      then have "map_of (lm_handles st1) hid = None"
        using assms(1) Some d
        by (auto simp: get_handle_def reconcile_handle_spec [OF d(1)] Let_def delete_conv' split: if_splits)
      then show ?thesis by (simp add: get_handle_def)
    qed
  qed
qed

lemma lease_inactive_stable:
  assumes "lease_active C l st = (st1, False)" "lm_inv st"
  shows "snd (lease_active C l st1) = False"
proof -
  have "\<exists>hid. \<forall>s. (\<forall>q. h_id (lm_heap s q) = h_id (lm_heap st q)) \<longrightarrow> lease_handle C l s = get_handle C hid s"
    if "lease_handle C l \<noteq> (\<lambda>s. (s, None))"
    using that by (cases l) (auto simp: lease_handle_def fun_eq_iff split: option.splits)
  then consider "lease_handle C l = (\<lambda>s. (s, None))"
    | hid where "\<And>s. (\<And>q. h_id (lm_heap s q) = h_id (lm_heap st q)) \<Longrightarrow> lease_handle C l s = get_handle C hid s"
    by blast
  then show ?thesis
  proof cases
    case 1
    then show ?thesis by (simp add: lease_active_def)
  next
    case (2 hid)
    obtain g where g: "get_handle C hid st = (st1, g)"
      using assms(1) 2 [of st] by (auto simp: lease_active_def split: prod.splits option.splits)
    have "g = None"
    proof (cases g)
      case (Some r)
      with g get_handle_Some [OF g [unfolded Some] assms(2)] assms(1) 2 [of st] show ?thesis
        by (simp add: lease_active_def)
    qed
    with get_handle_None_stable [OF g [unfolded \<open>g = None\<close>] assms(2)] 2 [of st1] show ?thesis
      by (auto simp: lease_active_def split: prod.splits option.splits)
  qed
qed

section \<open>Stale handles\<close>

text \<open>A handle is silent when it still owns locks and has not been active for the expiry time; it has
  lost all when no lock file it lists carries its token.\<close>

lemma heap_frame: "touches r st st' \<Longrightarrow> q \<noteq> r \<Longrightarrow> lm_heap st' q = lm_heap st q"
  by (simp add: touches_def)

lemma handle_refs_distinct:
  assumes "lm_inv st"
  shows "distinct (map snd (lm_handles st))"
proof -
  have "map fst (lm_handles st) = map (\<lambda>r. h_id (lm_heap st r)) (map snd (lm_handles st))"
    using assms by (auto simp: lm_inv_def)
  then show ?thesis using assms by (metis (no_types, lifting) distinct_map lm_inv_def)
qed

definition silent :: "'fs lm_config \<Rightarrow> 'fs lm_state \<Rightarrow> int \<Rightarrow> nat \<Rightarrow> bool" where
  "silent C st t r \<longleftrightarrow>
     kept_locks C st r \<noteq> [] \<and> eng_expire (cfg_engine C) < t - h_last_active_at (lm_heap st r)"

definition lost_all :: "'fs lm_config \<Rightarrow> 'fs lm_state \<Rightarrow> nat \<Rightarrow> bool" where
  "lost_all C st r \<longleftrightarrow> h_locks (lm_heap st r) \<noteq> [] \<and> kept_locks C st r = []"

lemma kept_cong:
  "lm_world st' = lm_world st \<Longrightarrow> lm_heap st' q = lm_heap st q \<Longrightarrow> kept_locks C st' q = kept_locks C st q"
  by (simp add: kept_locks_def)

lemma collect_stale_spec:
  assumes "collect_stale C t rs st = (st', stale)" "lm_inv st" "distinct rs" "set rs \<subseteq> {..<lm_next st}"
  shows "stale = filter (silent C st t) rs \<and>
    (\<forall>q. h_id (lm_heap st' q) = h_id (lm_heap st q)) \<and>
    lm_handles st' = [(k, q) \<leftarrow> lm_handles st. k \<notin> h_id ` lm_heap st ` {r \<in> set rs. lost_all C st r}]"
  using assms
proof (induction rs arbitrary: st st' stale)
  case Nil
  then show ?case by (simp add: case_prod_beta)
next
  case (Cons r rs)
  have d: "distinct (h_locks (lm_heap st r))" using Cons.prems(2,4) by (auto simp: lm_inv_def)
  obtain st1 g where g: "reconcile_handle C r st = (st1, g)" by fastforce
  obtain st2 stale2 where c: "collect_stale C t rs st1 = (st2, stale2)" by fastforce
  note tr = touches_reconcile [OF g]
  have w1: "lm_world st1 = lm_world st"
    using g by (auto simp: reconcile_handle_spec [OF d] Let_def split: if_splits)
  have h1: "lm_heap st1 r = (lm_heap st r)\<lparr>h_locks := kept_locks C st r\<rparr>"
    "lm_handles st1 = (if lost_all C st r then AList.delete (h_id (lm_heap st r)) (lm_handles st) else lm_handles st)"
    "g = (if lost_all C st r then None else Some r)"
    using g by (auto simp: reconcile_handle_spec [OF d] Let_def lost_all_def split: if_splits)
  have heap: "lm_heap st1 q = lm_heap st q" if "q \<in> set rs" for q
    using heap_frame [OF tr, of q] Cons.prems(3) that by (cases "q = r") auto
  have same: "silent C st1 t q = silent C st t q" "lost_all C st1 q = lost_all C st q"
    if "q \<in> set rs" for q
    using kept_cong [OF w1 heap [OF that], of C] heap [OF that] by (simp_all add: silent_def lost_all_def)
  have ids: "h_id (lm_heap st1 q) = h_id (lm_heap st q)" for q
    using tr by (cases "q = r") (auto simp: touches_def)
  have distinct_rs: "distinct rs" and sub: "set rs \<subseteq> {..<lm_next st1}"
    using Cons.prems(3,4) tr by (simp_all add: touches_def)
  have IH: "stale2 = filter (silent C st1 t) rs" "\<forall>q. h_id (lm_heap st2 q) = h_id (lm_heap st1 q)"
    "lm_handles st2 = [(k, q) \<leftarrow> lm_handles st1. k \<notin> h_id ` lm_heap st1 ` {r \<in> set rs. lost_all C st1 r}]"
    using Cons.IH [OF c touches_inv [OF tr Cons.prems(2)] distinct_rs sub] by blast+
  have st': "st' = st2" "stale = (if silent C st t r then r # stale2 else stale2)"
  proof -
    have k: "kept_locks C st r \<noteq> []" if "silent C st t r" using that by (simp add: silent_def)
    have s: "is_handle_stale C (lm_heap st1 r) t = silent C st t r"
      by (simp add: h1(1) is_handle_stale_def silent_def)
    have "collect_stale C t (r # rs) st = (st2, if silent C st t r then r # stale2 else stale2)"
    proof (cases "lost_all C st r")
      case True
      with g c h1(3) k show ?thesis by (auto simp: reconcile_eq lost_all_def)
    next
      case False
      with g c h1(3) s show ?thesis by (simp add: reconcile_eq)
    qed
    with Cons.prems(1) show "st' = st2" "stale = (if silent C st t r then r # stale2 else stale2)"
      by simp_all
  qed
  have "stale = filter (silent C st t) (r # rs)"
    unfolding st'(2) IH(1) using same(1) by (simp cong: filter_cong)
  moreover have "lm_handles st' = [(k, q) \<leftarrow> lm_handles st.
      k \<notin> h_id ` lm_heap st ` {r' \<in> set (r # rs). lost_all C st r'}]"
  proof -
    have "h_id ` lm_heap st1 ` {r \<in> set rs. lost_all C st1 r} = h_id ` lm_heap st ` {r \<in> set rs. lost_all C st r}"
      using heap same(2) by (auto simp: image_iff)
    then have f: "lm_handles st' = [(k, q) \<leftarrow> lm_handles st1.
        k \<notin> h_id ` lm_heap st ` {r \<in> set rs. lost_all C st r}]"
      unfolding st'(1) IH(3) by simp
    show ?thesis
    proof (cases "lost_all C st r")
      case True
      then have "{r' \<in> set (r # rs). lost_all C st r'} = insert r {r \<in> set rs. lost_all C st r}" by auto
      then have i: "h_id ` lm_heap st ` {r' \<in> set (r # rs). lost_all C st r'} =
          insert (h_id (lm_heap st r)) (h_id ` lm_heap st ` {r \<in> set rs. lost_all C st r})"
        by (simp only: image_insert)
      have h: "lm_handles st1 = AList.delete (h_id (lm_heap st r)) (lm_handles st)" using h1(2) True by simp
      show ?thesis
        unfolding f h i AList.delete_eq filter_filter case_prod_unfold by (rule filter_cong) auto
    next
      case False
      then have "{r' \<in> set (r # rs). lost_all C st r'} = {r \<in> set rs. lost_all C st r}" by auto
      with f h1(2) False show ?thesis by simp
    qed
  qed
  ultimately show ?case using IH(2) ids st'(1) by simp
qed

lemma release_table:
  "lm_handles (lm_release C r st) = AList.delete (h_id (lm_heap st r)) (lm_handles st)"
  "h_id (lm_heap (lm_release C r st) q) = h_id (lm_heap st q)"
proof -
  obtain w h where e: "release (cfg_engine C) (lm_heap st r) (lm_world st) = (w, h)" by fastforce
  then have i: "h_id h = h_id (lm_heap st r)"
    using release_loop_handle by (fastforce simp: release_def remove_fold)
  with e show "lm_handles (lm_release C r st) = AList.delete (h_id (lm_heap st r)) (lm_handles st)"
    by (simp add: lm_release_def)
  show "h_id (lm_heap (lm_release C r st) q) = h_id (lm_heap st q)"
    using e i by (cases "q = r") (simp_all add: lm_release_def)
qed

lemma release_all_table:
  "lm_handles (fold (lm_release C) rs st) = [(k, q) \<leftarrow> lm_handles st. k \<notin> h_id ` lm_heap st ` set rs]"
proof (induction rs arbitrary: st)
  case (Cons r rs)
  have "h_id ` lm_heap (lm_release C r st) ` set rs = h_id ` lm_heap st ` set rs"
    by (simp add: image_image release_table)
  with Cons show ?case
    by (auto simp: release_table AList.delete_eq intro!: filter_cong)
qed (simp add: case_prod_beta)

end
