(* ===== verification/Path_Lock_Props.thy ===== *)
theory Path_Lock_Props
  imports Path_Lock_Facts
begin

text \<open>
  The properties of the path-lock engine, with the engine on the in-memory plugin where a law of the
  file service is needed, and their witnesses.
\<close>

section \<open>Concrete worlds\<close>

definition demo_engine :: "memfs engine" where
  "demo_engine = mem_engine 300000000000 (\<lambda>p. ''d1'')"

definition demo_world :: "memfs world" where
  "demo_world = \<lparr>fs = [(''/'', DirEntry), (''/a'', DirEntry)], now = 1000\<rparr>"

definition locked_world :: "memfs world" where
  "locked_world =
     \<lparr>fs = [(''/'', DirEntry), (''/a'', DirEntry), (''/a/.path.ovlock'', FileData ''o1:900:T'')],
      now = 1000\<rparr>"

definition demo_owner :: "string \<Rightarrow> lock_handle" where
  "demo_owner i = \<lparr>h_id = i, h_locks = [''/a/.path.ovlock''], h_created_at = 0, h_last_active_at = 0\<rparr>"

definition mv_world :: "memfs world" where
  "mv_world =
     \<lparr>fs = [(''/'', DirEntry), (''/a'', DirEntry), (''/x'', DirEntry),
            (''/a/.exact.ovlock.k.d1'', FileData ''o1:900:E''), (''/x/.path.ovlock'', FileData ''o9:900:T'')],
      now = 1000\<rparr>"

definition mv_owner :: lock_handle where
  "mv_owner = \<lparr>h_id = ''o1'', h_locks = [''/a/.exact.ovlock.k.d1''], h_created_at = 0, h_last_active_at = 0\<rparr>"

lemmas py_eval =
  py_rstrip_def py_startswith_def py_endswith_def py_rsplit1_def py_space_def py_strip_def
  digit_char_def is_digit_def digit_val_def int_str_def py_int_def nat_str.simps Let_def

lemmas mem_eval =
  mem_agfs_def mem_stat_def mem_read_def mem_write_def mem_mkdir_def mem_remove_def
  mem_read_dir_def list_entries_def file_name_def normalize_path_def parent_path_def check_parent_def
  mem_engine_def mem_sleep_def

lemmas token_eval =
  make_fencing_token_def parse_fencing_token_def known_types_def READ_ONLY_TREE_LOCK_TYPES_def
  lock_type_of_char_def token_owner_def token_time_def token_type_def LOCK_FILE_NAME_def
  EXACT_LOCK_FILE_PREFIX_def

lemmas lock_path_eval =
  strip_slash_def get_lock_path_def get_parent_path_def is_existing_directory_def
  is_existing_path_async_def safe_char_def strip_dots_def safe_name_def
  get_prefixed_exact_lock_path_def get_exact_lock_path_async_def get_exact_lock_paths_async_def
  get_exact_lock_path_def get_exact_lock_paths_def
  ancestors.simps ensure_directory_exists_async.simps async_twins

lemmas lock_read_eval =
  read_token_def read_owner_and_type_def read_owner_and_type_async_def is_lock_owned_by_def
  is_lock_owned_by_async_def is_lock_stale_def live_lock_def live_tree_lock_def is_locked_def
  is_locked_by_other_def foreign_lock_def foreign_tree_lock_def check_ancestors_for_tree_def
  check_path_lock_def check_exact_path_lock_def owned_lock_type_for_lock_path_def
  owned_lock_type_def has_owned_ancestor_tree_def

lemmas lock_write_eval =
  create_lock_file_def remove_lock_file_def conflict_wait_def wait_or_fail_def must_back_off_def
  exact_after_write_def exact_prepare_def exact_write_def exact_attempt_def resolve_deadline_def
  acquire_exact_path_def tree_after_write_def tree_write_def tree_attempt_def tree_lock_path_def
  acquire_tree_def release_def release_selected_def refresh_def acquire_mv_def new_handle_def
  add_lock_def remove_lock_def POLL_INTERVAL_def

lemmas lock_eval =
  py_eval mem_eval token_eval lock_path_eval lock_read_eval lock_write_eval
  demo_engine_def demo_world_def locked_world_def

lemma demo_acquire:
  "acquire_exact_path (Suc 0) demo_engine ''/a/b'' (new_handle ''o1'' 0) (Some 0) demo_world =
   Some (\<lparr>fs = [(''/'', DirEntry), (''/a'', DirEntry), (''/a/.exact.ovlock.b.d1'', FileData ''o1:1000:E'')],
          now = 1000\<rparr>,
         \<lparr>h_id = ''o1'', h_locks = [''/a/.exact.ovlock.b.d1''], h_created_at = 0, h_last_active_at = 0\<rparr>,
         True)"
  by (simp add: lock_eval)

lemma demo_tree:
  "acquire_tree (Suc 0) (Suc (Suc 0)) demo_engine ''/a'' (new_handle ''o1'' 0) (Some 0) demo_world =
   Some (\<lparr>fs = [(''/'', DirEntry), (''/a'', DirEntry), (''/a/.path.ovlock'', FileData ''o1:1000:T'')],
          now = 1000\<rparr>,
         \<lparr>h_id = ''o1'', h_locks = [''/a/.path.ovlock''], h_created_at = 0, h_last_active_at = 0\<rparr>,
         True)"
  by (simp add: lock_eval)

lemma demo_inv: "mem_inv (fs demo_world)" "mem_inv (fs locked_world)"
  by (simp_all add: mem_inv_def demo_world_def locked_world_def check_parent_def parent_path_def
      normalize_path_def py_startswith_def py_endswith_def)

section \<open>Fencing tokens\<close>

text \<open>A token printed for any owner id (colons included), any time stamp
  \<open>\<ge> 0\<close> and either lock type is parsed back to exactly these three.\<close>

lemma token_roundtrip:
  "0 \<le> ts \<Longrightarrow> parse_fencing_token (make_fencing_token ts owner_id ty) = (owner_id, ts, ty)"
  by (rule parse_make)

lemma token_roundtrip_example:
  "parse_fencing_token (make_fencing_token 1000 ''a:b'' TREE) = (''a:b'', 1000, TREE)"
  using token_roundtrip [of 1000 "''a:b''" TREE] by simp

section \<open>Exact locks\<close>



lemma acquire_exact_fresh:
  assumes "h_locks h = []"
  shows "acquire_exact_path n E path h timeout w =
    (let lp = get_exact_lock_path_async E w path
     in case exact_loop n E path lp (h_id h) (resolve_deadline E timeout w) w of
          None \<Rightarrow> None
        | Some (w1, True) \<Rightarrow> Some (w1, add_lock lp h, True)
        | Some (w1, False) \<Rightarrow> Some (w1, h, False))"
  using assms by (simp add: acquire_exact_path_def has_owned_ancestor_tree_def owned_lock_type_def
      owned_lock_type_for_lock_path_def Let_def list_ex_iff)

text \<open>Property C1 (equivalence): \<^verbatim>\<open>is_locked\<close> is the acquire flow's own verdict.  For an owner without
  a lock file, a call with timeout 0 on a path whose lock file can be written terminates, and it
  returns \<^verbatim>\<open>True\<close> exactly when \<^verbatim>\<open>is_locked(path)\<close> is \<^verbatim>\<open>False\<close>: stale locks never block it, live
  ones always do.\<close>

theorem exact_acquire_iff_not_locked:
  fixes path :: path and expire :: int and digest :: "path \<Rightarrow> string"
  defines "E \<equiv> mem_engine expire digest"
  assumes "mem_inv (fs w)" "0 < now w" "clean_path path" "CHR ''/'' \<notin> set (digest path)"
    and "plain_owner (h_id h)" "h_locks h = []" "lock_writable E w path"
    and "\<And>lp t. read_token E w lp = Some t \<Longrightarrow> token_owner t \<noteq> h_id h"
  shows "\<exists>N. \<forall>n \<ge> N. \<exists>w' h'. acquire_exact_path n E path h (Some 0) w =
    Some (w', h', \<not> is_locked E w path True)"
proof -
  let ?lp = "get_exact_lock_path_async E w path"
  let ?loop = "\<lambda>n. exact_loop n E path ?lp (h_id h) (now w) w"
  have own: "acquire_exact_path n E path h (Some 0) w =
      (case ?loop n of None \<Rightarrow> None | Some (w1, True) \<Rightarrow> Some (w1, add_lock ?lp h, True)
       | Some (w1, False) \<Rightarrow> Some (w1, h, False))" for n
    by (simp add: acquire_exact_fresh [OF assms(7)] resolve_deadline_def Let_def)
  have lp: "?lp \<in> set (get_exact_lock_paths_async E w path)"
    by (simp add: get_exact_lock_paths_async_def Let_def)
  have "\<exists>n w'. ?loop n = Some (w', \<not> is_locked E w path True)"
  proof (cases "is_locked E w path True")
    case False
    with assms(9) have "\<And>q. exact_conflict E w path (h_id h) q \<Longrightarrow> is_lock_stale E w q (eng_expire E)"
      by (auto simp: is_locked_iff [of E w "h_id h"])
    with assms False show ?thesis
      using mem_lock.exact_unblocked [where w = w and oid = "h_id h" and path = path
          and digest = digest and expire = expire and deadline = "now w"]
      by (auto simp: E_def mem_engine_def)
  next
    case True
    with assms(9) obtain q t where q: "exact_conflict E w path (h_id h) q"
      "read_token E w q = Some t" "token_time t \<noteq> 0" "now w - token_time t \<le> eng_expire E"
      by (auto simp: is_locked_iff [of E w "h_id h"] stale_iff)
    obtain n w' b where loop: "?loop n = Some (w', b)"
      using mem_lock.exact_loop_terminates [OF assms(2,4)] unfolding E_def by (metis surj_pair)
    have "\<not> b"
      using mem_lock.exact_blocked [OF loop [unfolded E_def] assms(2,4), of q t "now w"] lp q
      unfolding E_def by simp
    with loop True show ?thesis by auto
  qed
  then obtain n w' where "?loop n = Some (w', \<not> is_locked E w path True)" by blast
  then have "\<forall>m \<ge> n. ?loop m = Some (w', \<not> is_locked E w path True)" using exact_loop_mono by blast
  then show ?thesis by (intro exI [of _ n]) (auto simp: own split: bool.split)
qed

lemma demo_no_tokens: "read_token demo_engine demo_world lp = None"
  by (simp add: read_token_def demo_engine_def demo_world_def mem_engine_def mem_agfs_def mem_read_def
      Let_def)

lemma locked_tokens:
  "read_token demo_engine locked_world lp = Some t \<Longrightarrow>
   normalize_path lp = ''/a/.path.ovlock'' \<and> t = ''o1:900:T''"
  by (auto simp: read_token_def demo_engine_def locked_world_def mem_engine_def mem_agfs_def mem_read_def
      Let_def py_strip_def py_space_def split: if_splits)

lemma demo_writable: "lock_writable demo_engine demo_world ''/a/b''"
  by (simp add: lock_writable_def lock_eval)

lemma locked_writable: "lock_writable demo_engine locked_world ''/a/b''"
  by (simp add: lock_writable_def lock_eval)

lemma clean_demo: "clean_path ''/a''" "clean_path ''/a/b''"
  by (simp_all add: clean_path_def)

theorem exact_acquire_iff_not_locked_witness:
  "(\<exists>n w' h'. acquire_exact_path n demo_engine ''/a/b'' (new_handle ''o2'' 0) (Some 0) demo_world =
      Some (w', h', True)) \<and>
   (\<exists>n w' h'. acquire_exact_path n demo_engine ''/a/b'' (new_handle ''o2'' 0) (Some 0) locked_world =
      Some (w', h', False))"
proof -
  have h: "h_id (new_handle ''o2'' 0) = ''o2''" "h_locks (new_handle ''o2'' 0) = []"
    "plain_owner ''o2''" by (simp_all add: new_handle_def plain_owner_def py_space_def)
  have o1: "token_owner ''o1:900:T'' \<noteq> ''o2''" by (simp add: token_eval py_eval)
  have l1: "\<not> is_locked demo_engine demo_world ''/a/b'' True"
    and l2: "is_locked demo_engine locked_world ''/a/b'' True"
    by (simp_all add: lock_eval)
  have now: "0 < now demo_world" "0 < now locked_world" by (simp_all add: demo_world_def locked_world_def)
  have a: "\<exists>N. \<forall>n \<ge> N. \<exists>w' h'. acquire_exact_path n demo_engine ''/a/b'' (new_handle ''o2'' 0) (Some 0)
      demo_world = Some (w', h', \<not> is_locked demo_engine demo_world ''/a/b'' True)"
    unfolding demo_engine_def
    by (rule exact_acquire_iff_not_locked)
      (use h now demo_inv clean_demo demo_writable demo_no_tokens in \<open>auto simp: demo_engine_def\<close>)
  have b: "\<exists>N. \<forall>n \<ge> N. \<exists>w' h'. acquire_exact_path n demo_engine ''/a/b'' (new_handle ''o2'' 0) (Some 0)
      locked_world = Some (w', h', \<not> is_locked demo_engine locked_world ''/a/b'' True)"
    unfolding demo_engine_def
    by (rule exact_acquire_iff_not_locked)
      (use h now demo_inv clean_demo locked_writable locked_tokens o1 in \<open>auto simp: demo_engine_def\<close>)
  from a b l1 l2 show ?thesis by (metis order_refl)
qed

text \<open>Property C2 (safety): mutual exclusion over time.  While another owner's lock on the path, or its
  TREE lock on an ancestor, stays live for the whole waiting time, a waiting \<^verbatim>\<open>acquire_exact_path\<close>
  terminates, returns \<^verbatim>\<open>False\<close>, leaves the handle as it was and the other owner's token untouched.\<close>

theorem exact_acquire_excluded:
  fixes path :: path and expire T :: int and digest :: "path \<Rightarrow> string"
  defines "E \<equiv> mem_engine expire digest"
  assumes "mem_inv (fs w)" "clean_path path" "h_locks h = []" "0 \<le> T"
    and "exact_conflict E w path (h_id h) lp" "read_token E w lp = Some t" "token_time t \<noteq> 0"
    and "now w + T + POLL_INTERVAL - token_time t \<le> expire"
  shows "\<exists>N. \<forall>n \<ge> N. \<exists>w'. acquire_exact_path n E path h (Some T) w = Some (w', h, False) \<and>
    read_token E w' lp = Some t"
proof -
  let ?lp = "get_exact_lock_path_async E w path"
  let ?loop = "\<lambda>n. exact_loop n E path ?lp (h_id h) (now w + T) w"
  obtain n w' b where loop: "?loop n = Some (w', b)"
    using mem_lock.exact_loop_terminates [OF assms(2,3)] unfolding E_def by (metis surj_pair)
  have lp: "?lp \<in> set (get_exact_lock_paths_async E w path)"
    by (simp add: get_exact_lock_paths_async_def Let_def)
  have "\<not> b \<and> read_token E w' lp = Some t"
    using mem_lock.exact_blocked [OF loop [unfolded E_def] assms(2,3), of lp t "now w + T + POLL_INTERVAL"]
      lp assms(5-9) unfolding E_def by (simp add: mem_engine_def POLL_INTERVAL_def)
  moreover have "\<forall>m \<ge> n. ?loop m = Some (w', b)" using loop exact_loop_mono by blast
  ultimately show ?thesis
    by (intro exI [of _ n]) (simp add: acquire_exact_fresh [OF assms(4)] resolve_deadline_def Let_def)
qed

theorem exact_acquire_excluded_witness:
  "\<exists>n w'. acquire_exact_path n demo_engine ''/a/b'' (new_handle ''o2'' 0) (Some 250000000) locked_world =
     Some (w', new_handle ''o2'' 0, False) \<and>
     read_token demo_engine w' ''/a/.path.ovlock'' = Some ''o1:900:T''"
proof -
  have h: "h_id (new_handle ''o2'' 0) = ''o2''" "h_locks (new_handle ''o2'' 0) = []"
    by (simp_all add: new_handle_def)
  have c: "exact_conflict demo_engine locked_world ''/a/b'' ''o2'' ''/a/.path.ovlock''"
    "read_token demo_engine locked_world ''/a/.path.ovlock'' = Some ''o1:900:T''"
    "token_time ''o1:900:T'' = 900"
    by (simp_all add: exact_conflict_def lock_eval)
  show ?thesis
    using exact_acquire_excluded [of locked_world "''/a/b''" "new_handle ''o2'' 0" 250000000
        300000000000 "\<lambda>p. ''d1''" "''/a/.path.ovlock''" "''o1:900:T''"]
      demo_inv clean_demo h c
    unfolding demo_engine_def [symmetric] by (fastforce simp: locked_world_def POLL_INTERVAL_def)
qed



section \<open>Releasing\<close>

text \<open>\<^verbatim>\<open>release\<close> removes exactly the lock files of the handle that still carry
  the owner's token; a lock file another owner has meanwhile taken over is left alone, no other token
  changes, and the handle ends with no lock.\<close>

lemma release_exact:
  assumes "release (mem_engine expire digest) h w = (w', h')" "mem_inv (fs w)" "distinct (h_locks h)"
  shows "h_locks h' = [] \<and> h_id h' = h_id h \<and> mem_inv (fs w') \<and>
    read_token (mem_engine expire digest) w' q =
      (if (\<exists>lp \<in> set (h_locks h). normalize_path lp = normalize_path q) \<and>
          is_lock_owned_by (mem_engine expire digest) w q (h_id h) then None
       else read_token (mem_engine expire digest) w q)"
  using mem_lock.release_spec [OF assms] by simp

lemma release_exact_example:
  "\<exists>w' h'. release demo_engine (demo_owner ''o1'') locked_world = (w', h') \<and> h_locks h' = [] \<and>
     read_token demo_engine w' ''/a/.path.ovlock'' = None"
proof -
  obtain w' h' where r: "release demo_engine (demo_owner ''o1'') locked_world = (w', h')" by fastforce
  have "is_lock_owned_by demo_engine locked_world ''/a/.path.ovlock'' ''o1''" by (simp add: lock_eval)
  moreover have "distinct (h_locks (demo_owner ''o1''))" by (simp add: demo_owner_def)
  ultimately show ?thesis
    using r release_exact [OF r [unfolded demo_engine_def] demo_inv(2), of "''/a/.path.ovlock''"]
    unfolding demo_engine_def [symmetric] by (simp add: demo_owner_def)
qed

section \<open>TREE locks\<close>



section \<open>Moves\<close>

text \<open>A move whose destination lock is refused returns \<^verbatim>\<open>False\<close> having released
  the whole handle: also the locks it held before the call are gone, from the handle and from the file
  system.\<close>

lemma mv_failure_releases_all:
  fixes expire :: int and digest :: "path \<Rightarrow> string"
  defines "E \<equiv> mem_engine expire digest"
  assumes "acquire_exact_path n E src h timeout w = Some (w1, h1, True)"
    and "acquire_exact_path n E dst h1 timeout w1 = Some (w2, h2, False)"
    and "mem_inv (fs w)" "distinct (h_locks h)" "clean_path src" "clean_path dst"
  shows "\<exists>w' h'. acquire_mv n depth E src dst h timeout False w = Some (w', h', False) \<and>
    h_locks h' = [] \<and> (\<forall>lp \<in> set (h_locks h). \<not> is_lock_owned_by E w' lp (h_id h))"
proof -
  note i1 = mem_lock.acquire_exact_inv [OF assms(2) [unfolded E_def] assms(4,6,5)]
  note i2 = mem_lock.acquire_exact_inv [OF assms(3) [unfolded E_def] conjunct1 [OF i1] assms(7)]
  obtain w' h' where r: "release E h2 w2 = (w', h')" by fastforce
  have h2: "h2 = h1" "set (h_locks h) \<subseteq> set (h_locks h1)"
    using acquire_exact_handle [OF assms(2)] acquire_exact_handle [OF assms(3)] by auto
  have sp: "h_locks h' = []" "read_token E w' q =
      (if (\<exists>lp \<in> set (h_locks h2). normalize_path lp = normalize_path q) \<and> is_lock_owned_by E w2 q (h_id h2)
       then None else read_token E w2 q)" for q
    using mem_lock.release_spec [OF r [unfolded E_def]] i1 i2 unfolding E_def by auto
  have "\<not> is_lock_owned_by E w' lp (h_id h)" if "lp \<in> set (h_locks h)" for lp
    using sp(2) [of lp] h2 that i1 by (auto simp: owned_iff)
  with sp(1) r assms(2,3) show ?thesis by (auto simp: acquire_mv_def)
qed

lemma mv_failure_releases_all_example:
  "\<exists>w' h'. acquire_mv (Suc 0) 0 demo_engine ''/a/c'' ''/x/d'' mv_owner (Some 0) False mv_world =
     Some (w', h', False) \<and> h_locks h' = [] \<and>
     is_lock_owned_by demo_engine mv_world ''/a/.exact.ovlock.k.d1'' ''o1'' \<and>
     \<not> is_lock_owned_by demo_engine w' ''/a/.exact.ovlock.k.d1'' ''o1''"
proof -
  let ?w1 = "mv_world\<lparr>fs := fs mv_world @ [(''/a/.exact.ovlock.c.d1'', FileData ''o1:1000:E'')]\<rparr>"
  let ?h1 = "mv_owner\<lparr>h_locks := [''/a/.exact.ovlock.k.d1'', ''/a/.exact.ovlock.c.d1'']\<rparr>"
  have a: "acquire_exact_path (Suc 0) demo_engine ''/a/c'' mv_owner (Some 0) mv_world = Some (?w1, ?h1, True)"
    "acquire_exact_path (Suc 0) demo_engine ''/x/d'' ?h1 (Some 0) ?w1 = Some (?w1, ?h1, False)"
    "is_lock_owned_by demo_engine mv_world ''/a/.exact.ovlock.k.d1'' ''o1''"
    by (simp_all add: lock_eval mv_world_def mv_owner_def)
  have i: "mem_inv (fs mv_world)"
    by (simp add: mem_inv_def mv_world_def check_parent_def parent_path_def
      normalize_path_def py_startswith_def py_endswith_def)
  have "distinct (h_locks mv_owner)" "clean_path ''/a/c''" "clean_path ''/x/d''"
    "h_id mv_owner = ''o1''" "''/a/.exact.ovlock.k.d1'' \<in> set (h_locks mv_owner)"
    by (simp_all add: mv_owner_def clean_path_def)
  then show ?thesis
    using mv_failure_releases_all [OF a(1,2) [unfolded demo_engine_def] i, where depth = 0, folded demo_engine_def] a(3)
    by metis
qed

section \<open>Interleaved attempts\<close>

text \<open>The check and the write of an attempt are separate calls on the file service, and the
  write is unconditional.  If two owners both pass the checks before either writes, both attempts end
  with \<^verbatim>\<open>True\<close>, and the first owner's token has been overwritten by the second.\<close>

lemma exact_write_race:
  "(let E = demo_engine; p = ''/a/b''; lp = get_exact_lock_path_async E demo_world p;
        (w1, c1) = exact_write E p lp ''o1'' 1000 demo_world;
        (w2, c2) = exact_write E p lp ''o2'' 1000 w1
    in exact_attempt E p lp ''o1'' 1000 demo_world = (w1, c1) \<and>
       exact_attempt E p lp ''o2'' 1000 demo_world = exact_write E p lp ''o2'' 1000 demo_world \<and>
       c1 = Return True \<and> c2 = Return True \<and>
       is_lock_owned_by E w1 lp ''o1'' \<and> \<not> is_lock_owned_by E w2 lp ''o1'' \<and> is_lock_owned_by E w2 lp ''o2'')"
  by (simp add: lock_eval)

section \<open>Refreshing\<close>

text \<open>\<^verbatim>\<open>refresh\<close> reports as lost exactly the lock files that no longer carry the
  owner's token, tries to rewrite all the others, and a rewritten file holds the same owner and type
  with the current time; every other token is unchanged.\<close>

lemma refresh_renews:
  fixes expire :: int and digest :: "path \<Rightarrow> string"
  defines "E \<equiv> mem_engine expire digest"
  assumes "refresh E h w = (w', res)" "mem_inv (fs w)" "plain_owner (h_id h)" "0 \<le> now w"
  shows "lost_paths res = [lp \<leftarrow> h_locks h. \<not> is_lock_owned_by E w lp (h_id h)] \<and>
    mset (refreshed_paths res) + mset (failed_paths res) =
      mset [lp \<leftarrow> h_locks h. is_lock_owned_by E w lp (h_id h)] \<and>
    (\<forall>q. read_token E w' q = (if \<exists>lp \<in> set (refreshed_paths res). normalize_path q = normalize_path lp
       then map_option (\<lambda>t. make_fencing_token (now w) (h_id h) (token_type t)) (read_token E w q)
       else read_token E w q))"
  using mem_lock.refresh_loop_spec [OF assms(2) [unfolded refresh_def E_def] assms(3,4,5)]
  unfolding E_def by auto

lemma refresh_renews_example:
  "\<exists>w' res. refresh demo_engine (demo_owner ''o1'') locked_world = (w', res) \<and> lost_paths res = [] \<and>
     read_token demo_engine w' ''/a/.path.ovlock'' = Some ''o1:1000:T''"
proof -
  let ?w = "\<lparr>fs = [(''/'', DirEntry), (''/a'', DirEntry), (''/a/.path.ovlock'', FileData ''o1:1000:T'')], now = 1000\<rparr>"
  let ?r = "\<lparr>refreshed_paths = [''/a/.path.ovlock''], lost_paths = [], failed_paths = []\<rparr>"
  have r: "refresh demo_engine (demo_owner ''o1'') locked_world = (?w, ?r)"
    by (simp add: lock_eval demo_owner_def refresh_loop.simps)
  have o: "plain_owner (h_id (demo_owner ''o1''))" "0 \<le> now locked_world"
    by (simp_all add: demo_owner_def locked_world_def plain_owner_def py_space_def)
  have t: "read_token demo_engine locked_world ''/a/.path.ovlock'' = Some ''o1:900:T''"
    "make_fencing_token 1000 ''o1'' (token_type ''o1:900:T'') = ''o1:1000:T''"
    by (simp_all add: lock_eval)
  show ?thesis
    using r refresh_renews [OF r [unfolded demo_engine_def] demo_inv(2) o, folded demo_engine_def] t
    by (simp add: demo_owner_def locked_world_def)
qed

end
