(* ===== verification/Lock_Manager_Props.thy ===== *)
theory Lock_Manager_Props
  imports Lock_Manager_Facts Path_Lock_Props
begin

text \<open>
  The properties of the lock manager, of leases and hand-offs, of lock scopes and of the lock of a
  semantic message, with their witnesses.
\<close>

definition demo_config :: "memfs lm_config" where
  "demo_config =
     \<lparr>cfg_engine = demo_engine, cfg_lock_timeout = Some 0, cfg_uuid = (\<lambda>n. ''id'' @ nat_str n),
      cfg_fuel = Suc 0, cfg_depth = Suc (Suc 0)\<rparr>"

definition empty_manager :: "'fs world \<Rightarrow> 'fs lm_state" where
  "empty_manager w =
     \<lparr>lm_world = w, lm_heap = (\<lambda>_. new_handle [] 0), lm_next = 0, lm_handles = [], lm_running = True\<rparr>"

text \<open>A manager with one handle that holds the TREE lock of \<open>locked_world\<close>.\<close>

definition demo_manager :: "memfs lm_state" where
  "demo_manager =
     (empty_manager locked_world)
       \<lparr>lm_heap := (\<lambda>_. demo_owner ''o1''), lm_next := 1, lm_handles := [(''o1'', 0)]\<rparr>"

lemma empty_manager_inv: "lm_inv (empty_manager w)"
  by (simp add: lm_inv_def empty_manager_def)

lemma demo_manager_inv: "lm_inv demo_manager"
  by (simp add: lm_inv_def demo_manager_def empty_manager_def demo_owner_def)

section \<open>The table of handles\<close>

text \<open>Property C30 (invariant): in every state a manager reaches from its start by calls in any order, and
  by any changes of other processes to the file system, the table has one entry per handle id, each
  entry refers to an allocated object with that very id, and no handle lists a lock file twice.\<close>

theorem manager_invariant:
  assumes "lm_reachable C (empty_manager w) st"
  shows "distinct (map fst (lm_handles st)) \<and> distinct (map snd (lm_handles st)) \<and>
    (\<forall>(k, r) \<in> set (lm_handles st). r < lm_next st \<and> h_id (lm_heap st r) = k) \<and>
    (\<forall>r < lm_next st. distinct (h_locks (lm_heap st r)))"
proof -
  have inv: "lm_inv st" by (rule reachable_inv [OF assms empty_manager_inv])
  then have "map fst (lm_handles st) = map (\<lambda>r. h_id (lm_heap st r)) (map snd (lm_handles st))"
    by (auto simp: lm_inv_def)
  with inv have "distinct (map snd (lm_handles st))"
    by (metis (no_types, lifting) distinct_map lm_inv_def)
  with inv show ?thesis by (simp add: lm_inv_def)
qed

theorem manager_invariant_witness:
  "lm_reachable demo_config (empty_manager demo_world) (fst (create_handle demo_config (empty_manager demo_world))) \<and>
   distinct (map snd (lm_handles (fst (create_handle demo_config (empty_manager demo_world)))))"
proof -
  have "lm_reachable demo_config (empty_manager demo_world)
      (fst (create_handle demo_config (empty_manager demo_world)))"
    by (rule lm_reachable.step [OF lm_reachable.start lm_step.create])
  with manager_invariant [OF this] show ?thesis by simp
qed

section \<open>Batches\<close>

text \<open>Property C29 (error): the three batch calls are all-or-nothing.  When one of them returns
  \<^verbatim>\<open>False\<close>, whatever the file service and other tasks did meanwhile, the handle lists exactly the lock
  files it listed before the call, in the same order, and no other handle and no table entry changed.\<close>

theorem batch_all_or_nothing:
  assumes "acquire_tree_batch C r paths timeout st = Some (st', False) \<or>
    acquire_exact_path_batch C r paths timeout st = Some (st', False) \<or>
    acquire_exact_tree_batch C r paths tree_paths timeout st = Some (st', False)"
    and "distinct (h_locks (lm_heap st r))"
  shows "h_locks (lm_heap st' r) = h_locks (lm_heap st r) \<and> h_id (lm_heap st' r) = h_id (lm_heap st r) \<and>
    lm_handles st' = lm_handles st \<and> (\<forall>q. q \<noteq> r \<longrightarrow> lm_heap st' q = lm_heap st q)"
proof -
  obtain targets where b: "batch_loop C r (resolve_timeout C timeout) [] targets st = Some (st', False)"
    using assms(1) by (auto simp: acquire_tree_batch_def acquire_exact_path_batch_def
        acquire_exact_tree_batch_def Let_def split: if_splits)
  have "touches r st st'" using assms(1) by (blast dest: touches_batch_calls)
  then show ?thesis
    using batch_False [OF b, of "h_locks (lm_heap st r)"] assms(2) by (simp add: touches_def)
qed

theorem batch_all_or_nothing_witness:
  "\<exists>st'. acquire_exact_path_batch demo_config 1 [''/a/c'', ''/a/b''] LOCK_TIMEOUT_DEFAULT
      (fst (create_handle demo_config demo_manager)) = Some (st', False) \<and> h_locks (lm_heap st' 1) = []"
proof -
  let ?st = "fst (create_handle demo_config demo_manager)"
  have l: "h_locks (lm_heap ?st 1) = []" 
    by (simp add: create_handle_eq alloc_handle_def register_handle_def demo_manager_def new_handle_def)
  obtain st' where e: "acquire_exact_path_batch demo_config 1 [''/a/c'', ''/a/b''] LOCK_TIMEOUT_DEFAULT ?st =
      Some (st', False)"
    by (simp add: acquire_exact_path_batch_def exact_batch_order_def py_fromkeys_def lock_order_def
        create_handle_eq alloc_handle_def register_handle_def demo_manager_def empty_manager_def demo_config_def
        engine_acquire_def resolve_timeout_def lock_eval)
  with batch_all_or_nothing [of demo_config 1 "[''/a/c'', ''/a/b'']" LOCK_TIMEOUT_DEFAULT ?st st' "[]"] l
  show ?thesis by simp
qed

text \<open>All batches acquire in one global order.  Whatever two batch calls ask
  for, the paths they have in common are acquired in the same order by both, so that two batches never
  wait for each other in a cycle over these paths.\<close>

lemma batches_agree_on_order:
  "filter (\<lambda>p. p \<in> set es2 \<union> set ts2) (map fst (mixed_batch_order es1 ts1)) =
   filter (\<lambda>p. p \<in> set es1 \<union> set ts1) (map fst (mixed_batch_order es2 ts2))"
  by (rule lock_order_unique)
    (use mixed_paths in \<open>auto intro: sorted_filter simp del: list.set_map\<close>)

section \<open>Hand-offs\<close>

text \<open>A hand-off reference that was put into a queue message is read back
  unchanged.\<close>

lemma handoff_serialises:
  assumes "ref_handle_id ref \<noteq> []" "[] \<notin> set (ref_lock_paths ref)"
  shows "from_value rp (to_dict ref) = Inr (Some ref)"
proof -
  have "filter (py_truthy \<circ> PStr) (ref_lock_paths ref) = ref_lock_paths ref"
    using assms(2) by (auto simp: filter_id_conv)
  with assms(1) show ?thesis
    by (simp add: from_value_def to_dict_def filter_map comp_def)
qed

lemma handoff_serialises_example:
  "from_value (\<lambda>_. []) (to_dict \<lparr>ref_handle_id = ''o1'', ref_lock_paths = [''/a/.path.ovlock'']\<rparr>) =
   Inr (Some \<lparr>ref_handle_id = ''o1'', ref_lock_paths = [''/a/.path.ovlock'']\<rparr>)"
  using handoff_serialises [of "\<lparr>ref_handle_id = ''o1'', ref_lock_paths = [''/a/.path.ovlock'']\<rparr>"
      "\<lambda>_. []"] by simp

text \<open>A lease survives its hand-off to another process.  The reference an owned lease
  exports names exactly the lock files that carry the owner's token, and a manager of another process
  over the same file system turns it back into a live owned lease with the same id and lock files.\<close>

lemma handoff_to_other_process:
  assumes "to_handoff C lease st = (st1, Some ref)" "lm_inv st"
    and "cfg_engine C2 = cfg_engine C" "lm_world st2 = lm_world st1"
    and "map_of (lm_handles st2) (ref_handle_id ref) = None"
  shows "\<exists>st3 r. from_handoff C2 ref st2 = (st3, Inr (OwnedLockLease (Some r) True)) \<and>
    map_of (lm_handles st3) (ref_handle_id ref) = Some r \<and>
    h_id (lm_heap st3 r) = ref_handle_id ref \<and> h_locks (lm_heap st3 r) = ref_lock_paths ref \<and>
    (\<forall>lp \<in> set (ref_lock_paths ref). is_lock_owned_by (cfg_engine C) (lm_world st) lp (ref_handle_id ref))"
proof -
  obtain q b where l: "lease = OwnedLockLease (Some q) b"
    using assms(1) by (auto simp: to_handoff_def lease_handle_def split: lease.splits option.splits)
  obtain r where g: "get_handle C (h_id (lm_heap st q)) st = (st1, Some r)"
    and ref: "ref = \<lparr>ref_handle_id = h_id (lm_heap st1 r), ref_lock_paths = h_locks (lm_heap st1 r)\<rparr>"
    using assms(1) by (auto simp: to_handoff_def lease_handle_def l split: prod.splits option.splits)
  note s = get_handle_Some [OF g assms(2)]
  let ?id = "ref_handle_id ref" and ?lps = "ref_lock_paths ref"
  have id: "?id = h_id (lm_heap st q)" and lps: "?lps = kept_locks C st r" "distinct ?lps" "?lps \<noteq> []"
    and own: "\<forall>lp \<in> set ?lps. is_lock_owned_by (cfg_engine C) (lm_world st) lp ?id"
    using s by (simp_all add: ref)
  have "[lp \<leftarrow> py_fromkeys ?lps. is_lock_owned_by (cfg_engine C2) (lm_world st2) lp ?id] = ?lps"
    using own lps(2) s(5) assms(3,4) by (simp add: filter_id_conv)
  then have "adopt_handle C2 ?id ?lps st2 =
      (mark_handle_active (lm_next st2) (register_handle (lm_next st2)
         (fst (alloc_handle ((new_handle ?id (now (lm_world st2)))\<lparr>h_locks := ?lps\<rparr>) st2))),
       Some (lm_next st2))"
    using lps(2,3) get_handle_None [OF assms(5), of C2]
    by (simp add: adopt_handle_def fold_add_lock new_handle_def alloc_handle_def Let_def)
  then show ?thesis
    using own lps(3) get_handle_None [OF assms(5), of C2]
    by (simp add: from_handoff_def get_handle_eq adopt_handle_eq new_owned_lease_def register_handle_def
        alloc_handle_def new_handle_def)
qed

lemma handoff_to_other_process_example:
  "\<exists>st1 ref st3 r. to_handoff demo_config (OwnedLockLease (Some 0) True) demo_manager = (st1, Some ref) \<and>
     from_handoff demo_config ref (empty_manager locked_world) = (st3, Inr (OwnedLockLease (Some r) True)) \<and>
     h_locks (lm_heap st3 r) = [''/a/.path.ovlock'']"
proof -
  let ?ref = "\<lparr>ref_handle_id = ''o1'', ref_lock_paths = [''/a/.path.ovlock'']\<rparr>"
  have o: "is_lock_owned_by demo_engine locked_world ''/a/.path.ovlock'' ''o1''" by (simp add: lock_eval)
  have sel: "lm_handles demo_manager = [(''o1'', 0)]" "lm_heap demo_manager 0 = demo_owner ''o1''"
    "lm_world demo_manager = locked_world" "h_id (demo_owner ''o1'') = ''o1''"
    "h_locks (demo_owner ''o1'') = [''/a/.path.ovlock'']" "cfg_engine demo_config = demo_engine"
    by (simp_all add: demo_manager_def empty_manager_def demo_owner_def demo_config_def)
  let ?st1 = "put_handle 0 ((demo_owner ''o1'')\<lparr>h_locks := [''/a/.path.ovlock'']\<rparr>) locked_world demo_manager"
  have "kept_locks demo_config demo_manager 0 = [''/a/.path.ovlock'']"
    using o by (simp add: kept_locks_def sel)
  then have h: "to_handoff demo_config (OwnedLockLease (Some 0) True) demo_manager = (?st1, Some ?ref)"
    by (simp add: to_handoff_def lease_handle_def get_handle_def sel reconcile_handle_spec Let_def)
  have "\<exists>st3 r. from_handoff demo_config ?ref (empty_manager locked_world) = (st3, Inr (OwnedLockLease (Some r) True)) \<and>
      map_of (lm_handles st3) (ref_handle_id ?ref) = Some r \<and>
      h_id (lm_heap st3 r) = ref_handle_id ?ref \<and> h_locks (lm_heap st3 r) = ref_lock_paths ?ref \<and>
      (\<forall>lp \<in> set (ref_lock_paths ?ref).
         is_lock_owned_by (cfg_engine demo_config) (lm_world demo_manager) lp (ref_handle_id ?ref))"
    by (rule handoff_to_other_process [OF h demo_manager_inv]) (simp_all add: empty_manager_def)
  with h show ?thesis by fastforce
qed

section \<open>Closing a lease\<close>

lemma mem_release_tokens:
  assumes "cfg_engine C = mem_engine expire digest" "mem_inv (fs (lm_world st))"
    and "distinct (h_locks (lm_heap st r))"
  shows "h_locks (lm_heap (lm_release C r st) r) = []"
    "lm_handles (lm_release C r st) = AList.delete (h_id (lm_heap st r)) (lm_handles st)"
    "read_token (cfg_engine C) (lm_world (lm_release C r st)) q =
       (if (\<exists>lp \<in> set (h_locks (lm_heap st r)). normalize_path lp = normalize_path q) \<and>
           is_lock_owned_by (cfg_engine C) (lm_world st) q (h_id (lm_heap st r)) then None
        else read_token (cfg_engine C) (lm_world st) q)"
proof -
  obtain w h where e: "release (cfg_engine C) (lm_heap st r) (lm_world st) = (w, h)" by fastforce
  note s = mem_lock.release_spec [OF e [unfolded assms(1)] assms(2,3)]
  have st: "lm_release C r st = pop_handle (h_id h) (put_handle r h w st)"
    using e by (simp add: lm_release_def)
  show "h_locks (lm_heap (lm_release C r st) r) = []"
    "lm_handles (lm_release C r st) = AList.delete (h_id (lm_heap st r)) (lm_handles st)"
    "read_token (cfg_engine C) (lm_world (lm_release C r st)) q =
       (if (\<exists>lp \<in> set (h_locks (lm_heap st r)). normalize_path lp = normalize_path q) \<and>
           is_lock_owned_by (cfg_engine C) (lm_world st) q (h_id (lm_heap st r)) then None
        else read_token (cfg_engine C) (lm_world st) q)"
    using s by (simp_all add: st assms(1))
qed

text \<open>Closing an owned lease gives everything back: no lock file of its handle
  carries the owner's token any more, the handle lists none and is out of the table, and no other
  owner's token has changed.\<close>

lemma lease_close_releases:
  assumes "lease_close C (OwnedLockLease (Some r) b) st = (st', l')"
    and "cfg_engine C = mem_engine expire digest" "mem_inv (fs (lm_world st))"
    and "lm_inv st" "r < lm_next st"
    and "map_of (lm_handles st) (h_id (lm_heap st r)) = None \<or>
      map_of (lm_handles st) (h_id (lm_heap st r)) = Some r"
  shows "l' = OwnedLockLease None False \<and> map_of (lm_handles st') (h_id (lm_heap st r)) = None \<and>
    h_locks (lm_heap st' r) = [] \<and>
    (\<forall>lp \<in> set (h_locks (lm_heap st r)).
       \<not> is_lock_owned_by (cfg_engine C) (lm_world st') lp (h_id (lm_heap st r))) \<and>
    (\<forall>q t. read_token (cfg_engine C) (lm_world st) q = Some t \<longrightarrow> token_owner t \<noteq> h_id (lm_heap st r) \<longrightarrow>
       read_token (cfg_engine C) (lm_world st') q = Some t)"
proof -
  obtain st1 g where g: "get_handle C (h_id (lm_heap st r)) st = (st1, g)" by fastforce
  note f = get_handle_frame [OF g assms(4,5,6)]
  have st': "st' = lm_release C r st1" "l' = OwnedLockLease None False"
    using assms(1) g f(3) by (auto simp: lease_close_def lease_handle_def)
  note m = mem_release_tokens [OF assms(2) _ f(5), unfolded f(1,2), OF assms(3)]
  have "\<not> is_lock_owned_by (cfg_engine C) (lm_world st') lp (h_id (lm_heap st r))"
    if "lp \<in> set (h_locks (lm_heap st r))" for lp
  proof (cases "is_lock_owned_by (cfg_engine C) (lm_world st) lp (h_id (lm_heap st r))")
    case True
    with that f(4) have "lp \<in> set (h_locks (lm_heap st1 r))" by (auto simp: kept_locks_def)
    with True m(3) [of lp] show ?thesis by (auto simp: st' owned_iff)
  next
    case False
    with m(3) [of lp] show ?thesis by (auto simp: st' owned_iff)
  qed
  moreover have "read_token (cfg_engine C) (lm_world st') q = Some t"
    if "read_token (cfg_engine C) (lm_world st) q = Some t" "token_owner t \<noteq> h_id (lm_heap st r)" for q t
    using m(3) [of q] that by (simp add: st' owned_iff)
  ultimately show ?thesis using m(1,2) by (simp add: st' delete_conv')
qed

lemma lease_close_releases_example:
  "\<exists>st'. lease_close demo_config (OwnedLockLease (Some 0) True) demo_manager = (st', OwnedLockLease None False) \<and>
     \<not> is_lock_owned_by demo_engine (lm_world st') ''/a/.path.ovlock'' ''o1'' \<and> map_of (lm_handles st') ''o1'' = None"
proof -
  obtain st' l' where c: "lease_close demo_config (OwnedLockLease (Some 0) True) demo_manager = (st', l')"
    by fastforce
  have sel: "lm_handles demo_manager = [(''o1'', 0)]" "lm_heap demo_manager 0 = demo_owner ''o1''"
    "lm_world demo_manager = locked_world" "h_id (demo_owner ''o1'') = ''o1''" "0 < lm_next demo_manager"
    "h_locks (demo_owner ''o1'') = [''/a/.path.ovlock'']" "cfg_engine demo_config = demo_engine"
    by (simp_all add: demo_manager_def empty_manager_def demo_owner_def demo_config_def)
  have "cfg_engine demo_config = mem_engine 300000000000 (\<lambda>p. ''d1'')"
    by (simp add: demo_config_def demo_engine_def)
  from lease_close_releases [OF c this] show ?thesis
    using c demo_inv(2) demo_manager_inv by (simp add: sel)
qed

section \<open>Lock scopes\<close>

text \<open>A lock scope over a handle the caller lends leaves the handle as it was.  In
  the modes \<^verbatim>\<open>tree\<close> and \<^verbatim>\<open>exact\<close> entering either fails with \<^verbatim>\<open>LockAcquisitionError\<close> and the handle
  lists the lock files it listed before, or it succeeds and leaving the scope restores that list; this
  holds for every file service and whatever other tasks do.\<close>

lemma scope_restores_borrowed_handle:
  assumes "aenter C (new_lock_context paths mode dst is_dir (Some r) timeout) st = Some (st1, ctx1, res)"
    and "mode = ''tree'' \<or> mode = ''exact''" "distinct (h_locks (lm_heap st r))"
  shows "(case res of
      Inl e \<Rightarrow> e = LockAcquisitionError \<and> h_locks (lm_heap st1 r) = h_locks (lm_heap st r)
    | Inr q \<Rightarrow> q = r \<and> h_locks (lm_heap (aexit C ctx1 st1) r) = h_locks (lm_heap st r))"
proof -
  let ?ctx = "new_lock_context paths mode dst is_dir (Some r) timeout"
  have m: "lc_mode (?ctx\<lparr>lc_handle := Some r\<rparr>) = mode" "?ctx\<lparr>lc_handle := Some r\<rparr> = ?ctx"
    by (simp_all add: new_lock_context_def)
  have md: "lc_mode ?ctx = mode" "lc_owns_handle ?ctx = False" "lc_handle ?ctx = Some r"
    by (simp_all add: new_lock_context_def)
  obtain st0 c where a: "context_acquire C r ?ctx st = Some (st0, c)"
    using assms(1) md m by (auto simp: aenter_def Let_def split: option.splits)
  obtain ok where ok: "c = Inr ok"
    using a assms(2) md by (auto simp: context_acquire_def)
  obtain new where n: "h_locks (lm_heap st0 r) = h_locks (lm_heap st r) @ new" "distinct (h_locks (lm_heap st0 r))"
    using context_acquire_suffix [OF a [unfolded ok]] assms(2,3) md by auto
  let ?acq = "[lp \<leftarrow> h_locks (lm_heap st0 r). lp \<notin> set (h_locks (lm_heap st r))]"
  have undo: "h_locks (lm_heap (lm_release_selected C r ?acq st0) r) = h_locks (lm_heap st r)"
    using n by (simp add: release_selected_locks) (auto simp: filter_empty_conv filter_id_conv)
  show ?thesis
    using assms(1) a ok md m undo by (auto simp: aenter_def aexit_def Let_def split: if_splits)
qed

lemma scope_restores_borrowed_handle_example:
  "\<exists>st1 ctx1. aenter demo_config (new_lock_context [''/a/b''] ''exact'' None True (Some 0) LOCK_TIMEOUT_DEFAULT)
       (fst (create_handle demo_config (empty_manager demo_world))) = Some (st1, ctx1, Inr 0) \<and>
     h_locks (lm_heap st1 0) = [''/a/.exact.ovlock.b.d1''] \<and>
     h_locks (lm_heap (aexit demo_config ctx1 st1) 0) = []"
proof -
  let ?st = "fst (create_handle demo_config (empty_manager demo_world))"
  let ?ctx = "new_lock_context [''/a/b''] ''exact'' None True (Some 0) LOCK_TIMEOUT_DEFAULT"
  obtain st1 ctx1 where e: "aenter demo_config ?ctx ?st = Some (st1, ctx1, Inr 0)"
    "h_locks (lm_heap st1 0) = [''/a/.exact.ovlock.b.d1'']"
    by (simp add: aenter_def context_acquire_def new_lock_context_def acquire_exact_path_batch_def
        exact_batch_order_def py_fromkeys_def lock_order_def put_handle_def mark_handle_active_def
        create_handle_eq alloc_handle_def register_handle_def empty_manager_def demo_config_def
        engine_acquire_def resolve_timeout_def lock_eval)
  have l: "h_locks (lm_heap ?st 0) = []"
    by (simp add: create_handle_eq alloc_handle_def register_handle_def empty_manager_def new_handle_def)
  with scope_restores_borrowed_handle [OF e(1)] e show ?thesis by auto
qed

section \<open>Keeping a lease alive\<close>

lemma mem_rewrite_ok:
  assumes "is_lock_owned_by (mem_engine expire digest) w lp oid"
  shows "\<exists>w1. create_lock_file (mem_engine expire digest) lp oid' ty w = Inr w1"
  using assms
  by (auto simp: owned_iff read_token_def create_lock_file_def mem_engine_def mem_agfs_def mem_read_def mem_write_def
      Let_def split: sum.splits option.splits file_entry.splits)

lemma mem_refresh_no_failure:
  assumes "refresh_loop (mem_engine expire digest) oid lps w res = (w', res')" "mem_inv (fs w)"
    "plain_owner oid" "0 \<le> now w"
  shows "failed_paths res' = failed_paths res"
  using assms
proof (induction lps arbitrary: w res)
  case (Cons lp lps)
  let ?E = "mem_engine expire digest"
  show ?case
  proof (cases "is_lock_owned_by ?E w lp oid")
    case False
    with Cons.prems(1) have
      "refresh_loop ?E oid lps w (res\<lparr>lost_paths := lost_paths res @ [lp]\<rparr>) = (w', res')"
      by (simp add: refresh_Cons del: refresh_loop.simps)
    from Cons.IH [OF this Cons.prems(2-4)] show ?thesis by simp
  next
    case True
    then obtain w1 where c: "create_lock_file ?E lp oid (token_type (the (read_token ?E w lp))) w = Inr w1"
      using mem_rewrite_ok by blast
    with True Cons.prems(1) have
      "refresh_loop ?E oid lps w1 (res\<lparr>refreshed_paths := refreshed_paths res @ [lp]\<rparr>) = (w', res')"
      by (simp add: refresh_Cons del: refresh_loop.simps)
    with Cons.IH [OF this] mem_lock.rewrite_owned [OF c True Cons.prems(2-4)] Cons.prems(3,4)
    show ?thesis by simp
  qed
qed simp

lemma mem_refresh_all_owned:
  assumes "refresh (mem_engine expire digest) h w = (w', res)" "mem_inv (fs w)" "plain_owner (h_id h)" "0 \<le> now w"
    and "\<forall>lp \<in> set (h_locks h). is_lock_owned_by (mem_engine expire digest) w lp (h_id h)"
  shows "lost_paths res = []" "set (refreshed_paths res) = set (h_locks h)" "now w' = now w"
    "lp \<in> set (h_locks h) \<Longrightarrow>
       \<exists>ty. read_token (mem_engine expire digest) w' lp = Some (make_fencing_token (now w) (h_id h) ty)"
proof -
  let ?E = "mem_engine expire digest"
  have f: "failed_paths res = []"
    using mem_refresh_no_failure [OF assms(1) [unfolded refresh_def] assms(2-4)] by simp
  note s = mem_lock.refresh_loop_spec [OF assms(1) [unfolded refresh_def] assms(2-4)]
  have ow: "[lp \<leftarrow> h_locks h. is_lock_owned_by ?E w lp (h_id h)] = h_locks h"
    using assms(5) by (simp add: filter_id_conv)
  from s assms(5) show "lost_paths res = []" "now w' = now w" by (auto simp: filter_empty_conv)
  from s f ow have m: "mset (refreshed_paths res) = mset (h_locks h)" by auto
  then show r: "set (refreshed_paths res) = set (h_locks h)" by (rule mset_eq_setD)
  assume lp: "lp \<in> set (h_locks h)"
  with assms(5) obtain t where "read_token ?E w lp = Some t" by (auto simp: owned_iff)
  with s lp r show "\<exists>ty. read_token ?E w' lp = Some (make_fencing_token (now w) (h_id h) ty)" by auto
qed

lemma read_token_now [simp]: "read_token E (w\<lparr>now := ts\<rparr>) = read_token E w"
  by (simp add: read_token_def fun_eq_iff)

text \<open>Property C31 (liveness): refreshing in time keeps a lease alive.  After \<^verbatim>\<open>refresh_lock\<close> the handle lists
  exactly the lock files it still owned, and none of them counts as stale before the next round of the
  lease's refresh loop is due, so that no other owner may remove them in between.\<close>

theorem refresh_keeps_lease_alive:
  fixes C :: "memfs lm_config"
  defines "E \<equiv> cfg_engine C"
  assumes "cfg_engine C = mem_engine expire digest" "mem_inv (fs (lm_world st))" "0 < now (lm_world st)"
    and "lm_inv st" "r < lm_next st" "plain_owner (h_id (lm_heap st r))" "100000000 \<le> expire"
  shows "h_locks (lm_heap (refresh_lock C r st) r) = kept_locks C st r \<and>
    (\<forall>lp \<in> set (kept_locks C st r). \<forall>ts \<le> now (lm_world st) + refresh_interval C.
       is_lock_owned_by E (lm_world (refresh_lock C r st)) lp (h_id (lm_heap st r)) \<and>
       \<not> is_lock_stale E ((lm_world (refresh_lock C r st))\<lparr>now := ts\<rparr>) lp (eng_expire E))"
proof -
  have d: "distinct (h_locks (lm_heap st r))" using assms(5,6) by (simp add: lm_inv_def)
  let ?h1 = "(lm_heap st r)\<lparr>h_locks := kept_locks C st r\<rparr>"
  let ?st1 = "put_handle r ?h1 (lm_world st) st"
  show ?thesis
  proof (cases "h_locks (lm_heap st r) \<noteq> [] \<and> kept_locks C st r = []")
    case True
    then have "reconcile_handle C r st = (pop_handle (h_id (lm_heap st r)) ?st1, None)"
      by (simp add: reconcile_handle_spec [OF d] Let_def)
    with True show ?thesis by (simp add: refresh_lock_def reconcile_eq)
  next
    case False
    then have rc: "reconcile_handle C r st = (?st1, Some r)"
      by (simp add: reconcile_handle_spec [OF d] Let_def)
    obtain w res where f: "refresh E ?h1 (lm_world st) = (w, res)" by fastforce
    have own: "\<forall>lp \<in> set (h_locks ?h1). is_lock_owned_by (mem_engine expire digest) (lm_world st) lp (h_id ?h1)"
      using assms(2) by (simp add: kept_locks_def)
    note m = mem_refresh_all_owned [OF f [unfolded E_def assms(2)] assms(3) _ _ own]
    have m1: "lost_paths res = []" and m2: "now w = now (lm_world st)"
      using m(1,3) assms(4,7) by auto
    have tok: "\<exists>ty. read_token E w lp = Some (make_fencing_token (now (lm_world st)) (h_id (lm_heap st r)) ty)"
      if "lp \<in> set (kept_locks C st r)" for lp
      using m(4) [of lp] assms(2,4,7) that by (simp add: E_def)
    let ?st2 = "put_handle r ?h1 w ?st1"
    let ?st3 = "if refreshed_paths res \<noteq> [] then mark_handle_active r ?st2 else ?st2"
    have rl: "refresh_lock C r st = fst (reconcile_handle C r ?st3)"
      using f m1 unfolding refresh_lock_def reconcile_eq rc Let_def E_def by (simp cong: if_cong split del: if_split)
    have own3: "is_lock_owned_by E w lp (h_id (lm_heap st r))" if "lp \<in> set (kept_locks C st r)" for lp
      using tok [OF that] assms(4) by (auto simp: owned_iff)
    have l3: "h_locks (lm_heap ?st3 r) = kept_locks C st r" "h_id (lm_heap ?st3 r) = h_id (lm_heap st r)"
      "lm_world ?st3 = w" by auto
    have k3: "kept_locks C ?st3 r = kept_locks C st r"
      using own3 l3 unfolding kept_locks_def [of C ?st3] by (auto simp: E_def filter_id_conv simp del: if_split)
    have d3: "distinct (h_locks (lm_heap ?st3 r))" using d l3(1) by (simp add: kept_locks_def)
    have fin: "h_locks (lm_heap (refresh_lock C r st) r) = kept_locks C st r"
      "lm_world (refresh_lock C r st) = w"
      using l3 by (auto simp: rl reconcile_handle_spec [OF d3] k3 Let_def simp del: if_split split: if_split)
    have "\<not> is_lock_stale E (w\<lparr>now := ts\<rparr>) lp (eng_expire E)"
      if "lp \<in> set (kept_locks C st r)" "ts \<le> now (lm_world st) + refresh_interval C" for lp ts
    proof -
      have "eng_expire E = expire" by (simp add: E_def assms(2) mem_engine_def)
      moreover from this have "refresh_interval C \<le> expire"
        using assms(8) by (simp add: refresh_interval_def E_def)
      ultimately show ?thesis using tok [OF that(1)] that(2) assms(4) by (auto simp: stale_iff)
    qed
    with fin own3 show ?thesis by auto
  qed
qed

theorem refresh_keeps_lease_alive_witness:
  "h_locks (lm_heap (refresh_lock demo_config 0 demo_manager) 0) = [''/a/.path.ovlock''] \<and>
   \<not> is_lock_stale demo_engine ((lm_world (refresh_lock demo_config 0 demo_manager))\<lparr>now := 150000001000\<rparr>)
      ''/a/.path.ovlock'' (eng_expire demo_engine)"
proof -
  have sel: "lm_heap demo_manager 0 = demo_owner ''o1''" "lm_world demo_manager = locked_world"
    "h_id (demo_owner ''o1'') = ''o1''" "0 < lm_next demo_manager" "now locked_world = 1000"
    "h_locks (demo_owner ''o1'') = [''/a/.path.ovlock'']" "cfg_engine demo_config = demo_engine"
    "refresh_interval demo_config = 150000000000"
    by (simp_all add: demo_manager_def empty_manager_def demo_owner_def demo_config_def locked_world_def
        refresh_interval_def demo_engine_def mem_engine_def)
  have k: "kept_locks demo_config demo_manager 0 = [''/a/.path.ovlock'']"
    by (simp add: kept_locks_def sel) (simp add: lock_eval)
  have "cfg_engine demo_config = mem_engine 300000000000 (\<lambda>p. ''d1'')"
    by (simp add: demo_config_def demo_engine_def)
  from refresh_keeps_lease_alive [OF this, of demo_manager 0] show ?thesis
    using demo_inv(2) demo_manager_inv by (simp add: sel k plain_owner_def py_space_def)
qed

section \<open>The lock of a semantic message\<close>

text \<open>Property C32 (safety): a queue message that carries a lock hand-off never runs unlocked.  When
  \<^verbatim>\<open>SemanticLockScope.resolve\<close> returns for it, the caller brought no lock of its own and the scope is
  an owned lease with its refresh running, over a handle that lists at least one lock file: the one
  handed over, or one acquired anew.\<close>

theorem handoff_message_runs_locked:
  assumes "resolve C (Some ref) caller_lock fallback st = Some (st', Inr l)" "lm_inv st"
  shows "caller_lock = NO_LOCK \<and> (\<exists>r. l = OwnedLockLease (Some r) True \<and> h_locks (lm_heap st' r) \<noteq> [])"
proof -
  obtain st1 b where a: "lease_active C caller_lock st = (st1, b)" by fastforce
  show ?thesis
  proof (cases "caller_lock = NO_LOCK")
    case True
    then have n: "lease_active C caller_lock s = (s, False)" for s :: "'a lm_state"
      by (simp add: lease_active_def lease_handle_def)
    then have "(case from_handoff C ref st of (st4, Inr l) \<Rightarrow> Some (st4, Inr l)
        | (st4, Inl _) \<Rightarrow> reacquire_semantic C ref fallback st4) = Some (st', Inr l)"
      using assms(1) True by (simp add: resolve_def)
    then have "\<exists>r. l = OwnedLockLease (Some r) True \<and> h_locks (lm_heap st' r) \<noteq> []"
      using from_handoff_live [OF _ assms(2)] reacquire_live
      by (fastforce split: prod.splits sum.splits)
    with True show ?thesis by simp
  next
    case False
    have "\<not> b" using assms(1) a by (auto simp: resolve_def)
    then have "snd (lease_active C caller_lock st1) = False"
      using lease_inactive_stable [OF _ assms(2)] a by simp
    with assms(1) a False \<open>\<not> b\<close> show ?thesis by (auto simp: resolve_def split: prod.splits)
  qed
qed

theorem handoff_message_runs_locked_witness:
  "\<exists>st' l. resolve demo_config (Some \<lparr>ref_handle_id = ''o1'', ref_lock_paths = [''/a/.path.ovlock'']\<rparr>) NO_LOCK None
     (empty_manager locked_world) = Some (st', Inr l) \<and>
   (\<exists>r. l = OwnedLockLease (Some r) True \<and> h_locks (lm_heap st' r) \<noteq> [])"
proof -
  let ?ref = "\<lparr>ref_handle_id = ''o1'', ref_lock_paths = [''/a/.path.ovlock'']\<rparr>"
  have o: "is_lock_owned_by demo_engine locked_world ''/a/.path.ovlock'' ''o1''" by (simp add: lock_eval)
  then obtain st' l where r: "resolve demo_config (Some ?ref) NO_LOCK None (empty_manager locked_world) = Some (st', Inr l)"
    by (simp add: resolve_def lease_active_def lease_handle_def from_handoff_def get_handle_eq adopt_handle_eq
        get_handle_def adopt_handle_def empty_manager_def demo_config_def new_handle_def add_lock_def
        alloc_handle_def py_fromkeys_def)
  with handoff_message_runs_locked [OF r empty_manager_inv] show ?thesis by blast
qed

section \<open>Stale handles\<close>

text \<open>A round of the cleanup drops from the table exactly the handles that lost all
  their lock files and those that own some but have been silent for longer than the expiry time;
  handles without lock files and recently active ones stay.\<close>

lemma stale_cleanup_drops_silent_handles:
  assumes "lm_inv st"
  shows "lm_handles (stale_cleanup C st) =
    [(k, r) \<leftarrow> lm_handles st. h_locks (lm_heap st r) = [] \<or>
       (kept_locks C st r \<noteq> [] \<and>
        now (lm_world st) - h_last_active_at (lm_heap st r) \<le> eng_expire (cfg_engine C))]"
proof -
  let ?rs = "map snd (lm_handles st)"
  obtain st1 stale where c: "collect_stale C (now (lm_world st)) ?rs st = (st1, stale)" by fastforce
  have e: "h_id (lm_heap st r) = k" "r < lm_next st" if "(k, r) \<in> set (lm_handles st)" for k r
    using assms that by (auto simp: lm_inv_def)
  have d: "distinct ?rs" using assms by (rule handle_refs_distinct)
  have sub: "set ?rs \<subseteq> {..<lm_next st}" using e(2) by fastforce
  note s = collect_stale_spec [OF c assms d sub]
  have key: "k \<in> h_id ` lm_heap st ` {q \<in> set ?rs. P q} \<longleftrightarrow> P r" if kr: "(k, r) \<in> set (lm_handles st)" for k r P
  proof
    assume "k \<in> h_id ` lm_heap st ` {q \<in> set ?rs. P q}"
    then obtain k' q where q: "(k', q) \<in> set (lm_handles st)" "P q" "k = h_id (lm_heap st q)" by auto
    then have "(k, q) \<in> set (lm_handles st)" using e(1) [OF q(1)] by simp
    then have "q = r" using kr assms by (auto simp: lm_inv_def dest: eq_key_imp_eq_value)
    with q(2) show "P r" by simp
  next
    assume "P r"
    with kr e(1) [OF kr] show "k \<in> h_id ` lm_heap st ` {q \<in> set ?rs. P q}" by force
  qed
  have st: "stale = filter (silent C st (now (lm_world st))) ?rs"
    "\<forall>q. h_id (lm_heap st1 q) = h_id (lm_heap st q)"
    "lm_handles st1 = [(k, q) \<leftarrow> lm_handles st. k \<notin> h_id ` lm_heap st ` {r \<in> set ?rs. lost_all C st r}]"
    using s by blast+
  have "h_id ` lm_heap st1 ` set stale =
      h_id ` lm_heap st ` {r \<in> set ?rs. silent C st (now (lm_world st)) r}"
    unfolding st(1) using st(2) by (simp add: image_image)
  then have "lm_handles (stale_cleanup C st) = [(k, q) \<leftarrow> lm_handles st.
      k \<notin> h_id ` lm_heap st ` {r \<in> set ?rs. lost_all C st r} \<and>
      k \<notin> h_id ` lm_heap st ` {r \<in> set ?rs. silent C st (now (lm_world st)) r}]"
    by (simp add: stale_cleanup_def c release_all_table st(3) case_prod_unfold)
  also have "\<dots> = [(k, r) \<leftarrow> lm_handles st. \<not> lost_all C st r \<and> \<not> silent C st (now (lm_world st)) r]"
  proof (rule filter_cong [OF refl])
    fix x
    assume "x \<in> set (lm_handles st)"
    then have "(fst x, snd x) \<in> set (lm_handles st)" by simp
    then show "(case x of (k, q) \<Rightarrow> k \<notin> h_id ` lm_heap st ` {r \<in> set ?rs. lost_all C st r} \<and>
        k \<notin> h_id ` lm_heap st ` {r \<in> set ?rs. silent C st (now (lm_world st)) r}) =
      (case x of (k, r) \<Rightarrow> \<not> lost_all C st r \<and> \<not> silent C st (now (lm_world st)) r)"
      by (simp only: case_prod_unfold key)
  qed
  also have "\<dots> = [(k, r) \<leftarrow> lm_handles st. h_locks (lm_heap st r) = [] \<or> (kept_locks C st r \<noteq> [] \<and>
      now (lm_world st) - h_last_active_at (lm_heap st r) \<le> eng_expire (cfg_engine C))]"
    by (rule filter_cong) (auto simp: lost_all_def silent_def kept_locks_def)
  finally show ?thesis .
qed

lemma stale_cleanup_drops_silent_handles_example:
  "lm_handles (stale_cleanup demo_config demo_manager) = [(''o1'', 0)] \<and>
   lm_handles (stale_cleanup demo_config (demo_manager\<lparr>lm_world := locked_world\<lparr>now := 300000001000\<rparr>\<rparr>)) = []"
proof -
  have i: "lm_inv (demo_manager\<lparr>lm_world := locked_world\<lparr>now := 300000001000\<rparr>\<rparr>)"
    using demo_manager_inv by (simp add: lm_inv_def)
  have sel: "lm_handles demo_manager = [(''o1'', 0)]" "lm_heap demo_manager 0 = demo_owner ''o1''"
    "lm_world demo_manager = locked_world" "h_last_active_at (demo_owner ''o1'') = 0" "now locked_world = 1000"
    "h_id (demo_owner ''o1'') = ''o1''" "eng_expire demo_engine = 300000000000"
    "h_locks (demo_owner ''o1'') = [''/a/.path.ovlock'']" "cfg_engine demo_config = demo_engine"
    by (simp_all add: demo_manager_def empty_manager_def demo_owner_def demo_config_def locked_world_def
        demo_engine_def mem_engine_def)
  have k: "kept_locks demo_config demo_manager 0 = [''/a/.path.ovlock'']"
    by (simp add: kept_locks_def sel) (simp add: lock_eval)
  show ?thesis
    using stale_cleanup_drops_silent_handles [OF demo_manager_inv, of demo_config]
      stale_cleanup_drops_silent_handles [OF i, of demo_config]
    by (simp add: sel k)
qed

end
