(* ===== verification/Task_Store.thy ===== *)
theory Task_Store
  imports Agfs
begin

text \<open>
  The persistent task store (\<^verbatim>\<open>openviking/service/task_store.py\<close>) with the task record it writes
  (\<^verbatim>\<open>TaskRecord\<close> of \<^verbatim>\<open>task_tracker.py\<close>).

  A payload is the dictionary of \<^verbatim>\<open>_task_to_payload\<close>, as a record with its eleven keys.  The store
  writes it with \<^verbatim>\<open>json.dumps\<close> and reads it with \<^verbatim>\<open>json.loads\<close>; it never looks into the text, so the
  two are parameters (\<open>None\<close> where \<^verbatim>\<open>loads\<close> raises) and what the store relies on is the round trip of
  the payloads it writes.  An operation that raises still leaves behind the directories it has made,
  so a write returns the file system with an optional error.  Times are numbers of ticks.
\<close>

section \<open>Task records\<close>

datatype task_status = PENDING | RUNNING | COMPLETED | FAILED

definition status_value :: "task_status \<Rightarrow> string" where
  "status_value s =
     (case s of PENDING \<Rightarrow> ''pending'' | RUNNING \<Rightarrow> ''running'' | COMPLETED \<Rightarrow> ''completed'' | FAILED \<Rightarrow> ''failed'')"

text \<open>\<^verbatim>\<open>TaskStatus(value)\<close>; \<open>None\<close> where it raises.\<close>

definition status_of_value :: "string \<Rightarrow> task_status option" where
  "status_of_value v =
     (if v = ''pending'' then Some PENDING else if v = ''running'' then Some RUNNING
      else if v = ''completed'' then Some COMPLETED else if v = ''failed'' then Some FAILED else None)"

text \<open>A task result is any JSON value.\<close>

datatype json =
    JNull
  | JBool bool
  | JNum int
  | JStr string
  | JList "json list"
  | JObj "(string \<times> json) list"

record task_record =
  task_id :: string
  task_type :: string
  status :: task_status
  created_at :: int
  updated_at :: int
  resource_id :: "string option"
  account_id :: "string option"
  user_id :: "string option"
  stage :: "string option"
  result :: "json option"
  error :: "string option"

record task_payload =
  p_task_id :: string
  p_task_type :: string
  p_status :: string
  p_created_at :: int
  p_updated_at :: int
  p_resource_id :: "string option"
  p_account_id :: "string option"
  p_user_id :: "string option"
  p_stage :: "string option"
  p_result :: "json option"
  p_error :: "string option"

definition task_to_payload :: "task_record \<Rightarrow> task_payload" where
  "task_to_payload t =
     \<lparr>p_task_id = task_id t, p_task_type = task_type t, p_status = status_value (status t),
      p_created_at = created_at t, p_updated_at = updated_at t, p_resource_id = resource_id t,
      p_account_id = account_id t, p_user_id = user_id t, p_stage = stage t, p_result = result t,
      p_error = error t\<rparr>"

definition record_from_payload :: "task_payload \<Rightarrow> task_record option" where
  "record_from_payload p =
     (case status_of_value (p_status p) of
        None \<Rightarrow> None
      | Some s \<Rightarrow>
          Some \<lparr>task_id = p_task_id p, task_type = p_task_type p, status = s, created_at = p_created_at p,
                updated_at = p_updated_at p, resource_id = p_resource_id p, account_id = p_account_id p,
                user_id = p_user_id p, stage = p_stage p, result = p_result p, error = p_error p\<rparr>)"

section \<open>The store\<close>

datatype task_error =
    OwnerMissing
  | OtherOwner
  | StoreFailure agfs_error
  | BadJson
  | BadStatus

record 'fs pts =
  pts_agfs :: "'fs agfs"
  pts_dumps :: "task_payload \<Rightarrow> string"
  pts_loads :: "string \<Rightarrow> task_payload option"
  pts_err_text :: "agfs_error \<Rightarrow> string"

definition SYSTEM_TASK_ACCOUNT_ID :: string where
  "SYSTEM_TASK_ACCOUNT_ID = ''_system''"

definition account_dir :: "string \<Rightarrow> path" where
  "account_dir acc = ''/local/'' @ acc"

definition system_dir :: "string \<Rightarrow> path" where
  "system_dir acc =
     (if acc = SYSTEM_TASK_ACCOUNT_ID then account_dir acc else account_dir acc @ ''/_system'')"

definition task_root_dir :: "string \<Rightarrow> path" where
  "task_root_dir acc = system_dir acc @ ''/tasks''"

definition task_dir :: "string \<Rightarrow> string \<Rightarrow> path" where
  "task_dir acc usr = task_root_dir acc @ ''/'' @ usr"

definition task_file :: "string \<Rightarrow> string \<Rightarrow> string \<Rightarrow> path" where
  "task_file acc usr tid = task_dir acc usr @ ''/'' @ tid @ ''.json''"

text \<open>\<^verbatim>\<open>"already exists" in str(exc).lower()\<close>.\<close>

definition says_already_exists :: "string \<Rightarrow> bool" where
  "says_already_exists msg = py_contains (py_lower msg) ''already exists''"

definition mkdir_if_missing :: "'fs pts \<Rightarrow> path \<Rightarrow> 'fs \<Rightarrow> 'fs \<times> task_error option" where
  "mkdir_if_missing P path s =
     (case ag_mkdir (pts_agfs P) s path of
        Inr s' \<Rightarrow> (s', None)
      | Inl (AlreadyExists _) \<Rightarrow> (s, None)
      | Inl e \<Rightarrow> if says_already_exists (pts_err_text P e) then (s, None) else (s, Some (StoreFailure e)))"

fun mkdirs :: "'fs pts \<Rightarrow> path list \<Rightarrow> 'fs \<Rightarrow> 'fs \<times> task_error option" where
  "mkdirs P [] s = (s, None)"
| "mkdirs P (d # ds) s =
     (case mkdir_if_missing P d s of
        (s1, Some e) \<Rightarrow> (s1, Some e)
      | (s1, None) \<Rightarrow> mkdirs P ds s1)"

definition ensure_task_dir :: "'fs pts \<Rightarrow> string \<Rightarrow> string \<Rightarrow> 'fs \<Rightarrow> 'fs \<times> task_error option" where
  "ensure_task_dir P acc usr s =
     mkdirs P [account_dir acc, system_dir acc, task_root_dir acc, task_dir acc usr] s"

definition non_empty :: "string option \<Rightarrow> string option" where
  "non_empty v = (case v of Some (c # cs) \<Rightarrow> Some (c # cs) | _ \<Rightarrow> None)"

definition write_task :: "'fs pts \<Rightarrow> task_record \<Rightarrow> 'fs \<Rightarrow> 'fs \<times> task_error option" where
  "write_task P t s =
     (case (non_empty (account_id t), non_empty (user_id t)) of
        (Some acc, Some usr) \<Rightarrow>
          (case ensure_task_dir P acc usr s of
             (s1, Some e) \<Rightarrow> (s1, Some e)
           | (s1, None) \<Rightarrow>
               (case ag_write (pts_agfs P) s1 (task_file acc usr (task_id t)) (pts_dumps P (task_to_payload t)) of
                  Inr s2 \<Rightarrow> (s2, None)
                | Inl e \<Rightarrow> (s1, Some (StoreFailure e))))
      | _ \<Rightarrow> (s, Some OwnerMissing))"

definition read_payload :: "'fs pts \<Rightarrow> path \<Rightarrow> 'fs \<Rightarrow> task_error + task_payload option" where
  "read_payload P path s =
     (case ag_read (pts_agfs P) s path of
        Inl (NotFound _) \<Rightarrow> Inr None
      | Inl e \<Rightarrow> Inl (StoreFailure e)
      | Inr raw \<Rightarrow> (case pts_loads P raw of None \<Rightarrow> Inl BadJson | Some p \<Rightarrow> Inr (Some p)))"

definition store_get ::
    "'fs pts \<Rightarrow> string \<Rightarrow> string option \<Rightarrow> string option \<Rightarrow> 'fs \<Rightarrow> task_error + task_payload option" where
  "store_get P tid acc usr s =
     (case (non_empty acc, non_empty usr) of
        (Some a, Some u) \<Rightarrow> read_payload P (task_file a u tid) s
      | _ \<Rightarrow> Inr None)"

text \<open>The loop over the directory's entries.\<close>

fun list_loop :: "'fs pts \<Rightarrow> path \<Rightarrow> dir_entry list \<Rightarrow> 'fs \<Rightarrow> task_error + task_payload list" where
  "list_loop P directory [] s = Inr []"
| "list_loop P directory ((name, is_dir) # items) s =
     (let path = directory @ ''/'' @ name
      in if \<not> py_endswith path ''.json'' then list_loop P directory items s
         else (case read_payload P path s of
                 Inl e \<Rightarrow> Inl e
               | Inr r \<Rightarrow>
                   (case list_loop P directory items s of
                      Inl e \<Rightarrow> Inl e
                    | Inr ps \<Rightarrow> Inr (case r of None \<Rightarrow> ps | Some p \<Rightarrow> p # ps))))"

definition store_list :: "'fs pts \<Rightarrow> string \<Rightarrow> string option \<Rightarrow> 'fs \<Rightarrow> task_error + task_payload list" where
  "store_list P acc usr s =
     (case non_empty usr of
        None \<Rightarrow> Inr []
      | Some u \<Rightarrow>
          (case ag_ls (pts_agfs P) s (task_dir acc u) of
             Inl (NotFound _) \<Rightarrow> Inr []
           | Inl e \<Rightarrow> Inl (StoreFailure e)
           | Inr items \<Rightarrow> list_loop P (task_dir acc u) items s))"

text \<open>\<^verbatim>\<open>rm(path, force=True)\<close>: a missing file is no error.\<close>

definition store_delete :: "'fs pts \<Rightarrow> string \<Rightarrow> string \<Rightarrow> string option \<Rightarrow> 'fs \<Rightarrow> 'fs \<times> task_error option" where
  "store_delete P tid acc usr s =
     (case non_empty usr of
        None \<Rightarrow> (s, None)
      | Some u \<Rightarrow>
          (case ag_rm (pts_agfs P) s (task_file acc u tid) of
             Inr s' \<Rightarrow> (s', None)
           | Inl (NotFound _) \<Rightarrow> (s, None)
           | Inl e \<Rightarrow> (s, Some (StoreFailure e))))"

section \<open>Payloads\<close>

lemma status_round_trip [simp]: "status_of_value (status_value s) = Some s"
  by (cases s) (simp_all add: status_value_def status_of_value_def)

lemma payload_round_trip [simp]: "record_from_payload (task_to_payload t) = Some t"
  by (simp add: record_from_payload_def task_to_payload_def)

end
