(* ===== verification/Task_Tracker.thy ===== *)
theory Task_Tracker
  imports Task_Store
begin

text \<open>
  The task tracker (\<^verbatim>\<open>openviking/service/task_tracker.py\<close>): the registry of background tasks with a
  process-local cache over a task store.

  The tracker calls its store through the \<^verbatim>\<open>TaskStore\<close> protocol, here a record of operations on a
  store state; \<open>persistent_store\<close> is the one of \<^verbatim>\<open>task_store.py\<close>.  Every lifecycle operation holds
  \<^verbatim>\<open>_async_lock\<close>, so it is one step on the state.  A record taken from the cache is the cached object
  itself: its fields are assigned before the store is written, so the assignment stays in the cache
  when the write raises, and \<open>update_task\<close> models exactly that.  \<^verbatim>\<open>uuid4()\<close> is an argument.
\<close>

section \<open>The store interface\<close>

record 's task_store =
  ts_write :: "task_record \<Rightarrow> 's \<Rightarrow> 's \<times> task_error option"
  ts_get :: "string \<Rightarrow> string option \<Rightarrow> string option \<Rightarrow> 's \<Rightarrow> task_error + task_payload option"
  ts_list :: "string \<Rightarrow> string option \<Rightarrow> 's \<Rightarrow> task_error + task_payload list"

definition persistent_store :: "'fs pts \<Rightarrow> 'fs task_store" where
  "persistent_store P = \<lparr>ts_write = write_task P, ts_get = store_get P, ts_list = store_list P\<rparr>"

section \<open>Sanitising\<close>

definition token_char :: "char \<Rightarrow> bool" where
  "token_char c \<longleftrightarrow> ascii_alnum c \<or> c \<in> set ''._-''"

text \<open>The literal alternatives of \<^verbatim>\<open>_SENSITIVE_PATTERNS\<close> before \<^verbatim>\<open>Bearer\\s+\<close>, in their order.\<close>

definition secret_literals :: "string list" where
  "secret_literals =
     [''sk-'', ''cr_'', ''ghp_'', ''ntn_'', ''xoxb-'', ''xoxa-'', ''xoxp-'', ''xoxr-'', ''xoxs-'']"

text \<open>The length of the prefix an alternative matches, ignoring case; \<open>None\<close> if none matches.\<close>

definition secret_prefix :: "string \<Rightarrow> nat option" where
  "secret_prefix s =
     (case find (\<lambda>p. py_startswith (map lower_char s) p) secret_literals of
        Some p \<Rightarrow> Some (length p)
      | None \<Rightarrow>
          if py_startswith (map lower_char s) ''bearer''
          then (let ws = takeWhile py_space (drop 6 s) in if ws = [] then None else Some (6 + length ws))
          else None)"

text \<open>The length of the match of the whole pattern at the start of the text.\<close>

definition match_secret :: "string \<Rightarrow> nat option" where
  "match_secret s =
     (case secret_prefix s of
        None \<Rightarrow> None
      | Some n \<Rightarrow> (let tok = takeWhile token_char (drop n s) in if tok = [] then None else Some (n + length tok)))"

function redact :: "string \<Rightarrow> string" where
  "redact s =
     (case s of
        [] \<Rightarrow> []
      | c # cs \<Rightarrow>
          (case match_secret s of
             None \<Rightarrow> c # redact cs
           | Some n \<Rightarrow> ''[REDACTED]'' @ redact (drop (n - 1) cs)))"
  by pat_completeness auto
termination
  by (relation "measure length") (auto simp: less_Suc_eq_le)

declare redact.simps [simp del]

definition MAX_ERROR_LEN :: nat where
  "MAX_ERROR_LEN = 500"

definition sanitize_error :: "string \<Rightarrow> string" where
  "sanitize_error err =
     (let sanitized = redact err
      in if MAX_ERROR_LEN < length sanitized then take MAX_ERROR_LEN sanitized @ ''...[truncated]'' else sanitized)"

definition SENSITIVE_RESULT_KEYS :: "string list" where
  "SENSITIVE_RESULT_KEYS = [''user_key'']"

fun sanitize_task_result :: "json \<Rightarrow> json" where
  "sanitize_task_result (JObj kvs) =
     JObj (map (\<lambda>(k, v). (k, sanitize_task_result v))
       (filter (\<lambda>(k, v). k \<notin> set SENSITIVE_RESULT_KEYS) kvs))"
| "sanitize_task_result (JList vs) = JList (map sanitize_task_result vs)"
| "sanitize_task_result v = v"

definition copy_task :: "task_record \<Rightarrow> task_record" where
  "copy_task t = t\<lparr>result := map_option sanitize_task_result (result t)\<rparr>"

section \<open>State\<close>

record 's tracker =
  tk_store :: 's
  tk_tasks :: "(string, task_record) dict"
  tk_now :: int

definition MAX_TASKS :: nat where
  "MAX_TASKS = 10000"

definition TTL_COMPLETED :: int where
  "TTL_COMPLETED = 86400"

definition TTL_FAILED :: int where
  "TTL_FAILED = 604800"

definition terminal :: "task_status \<Rightarrow> bool" where
  "terminal s \<longleftrightarrow> s = COMPLETED \<or> s = FAILED"

definition cache_task :: "task_record \<Rightarrow> 's tracker \<Rightarrow> 's tracker" where
  "cache_task t st = st\<lparr>tk_tasks := AList.update (task_id t) t (tk_tasks st)\<rparr>"

text \<open>Ticks are seconds here: the lifetimes are compared with \<open>tk_now\<close> directly.\<close>

definition expired :: "int \<Rightarrow> task_record \<Rightarrow> bool" where
  "expired n t \<longleftrightarrow>
     status t = COMPLETED \<and> TTL_COMPLETED < n - updated_at t \<or> status t = FAILED \<and> TTL_FAILED < n - updated_at t"

definition evict_expired :: "'s tracker \<Rightarrow> 's tracker" where
  "evict_expired st =
     (let tasks = filter (\<lambda>(_, t). \<not> expired (tk_now st) t) (tk_tasks st);
          sorted_tasks = sort_key (\<lambda>(_, t). created_at t) tasks;
          excess = length tasks - MAX_TASKS;
          dropped = map fst (take excess sorted_tasks)
      in st\<lparr>tk_tasks := filter (\<lambda>(tid, _). tid \<notin> set dropped) tasks\<rparr>)"

definition matches_owner :: "task_record \<Rightarrow> string option \<Rightarrow> string option \<Rightarrow> bool" where
  "matches_owner t acc usr \<longleftrightarrow>
     \<not> (acc \<noteq> None \<and> account_id t \<noteq> acc) \<and> \<not> (usr \<noteq> None \<and> user_id t \<noteq> usr)"

definition new_task :: "string \<Rightarrow> string \<Rightarrow> string option \<Rightarrow> string \<Rightarrow> string \<Rightarrow> int \<Rightarrow> task_record" where
  "new_task tid ty res acc usr n =
     \<lparr>task_id = tid, task_type = ty, status = PENDING, created_at = n, updated_at = n, resource_id = res,
      account_id = Some acc, user_id = Some usr, stage = None, result = None, error = None\<rparr>"

section \<open>Loading\<close>

definition load_from_store ::
    "'s task_store \<Rightarrow> string \<Rightarrow> string option \<Rightarrow> string option \<Rightarrow> 's tracker \<Rightarrow>
     task_error + task_record option" where
  "load_from_store S tid acc usr st =
     (case ts_get S tid acc usr (tk_store st) of
        Inl e \<Rightarrow> Inl e
      | Inr None \<Rightarrow> Inr None
      | Inr (Some p) \<Rightarrow> (case record_from_payload p of None \<Rightarrow> Inl BadStatus | Some t \<Rightarrow> Inr (Some t)))"

fun records_from_payloads :: "task_payload list \<Rightarrow> task_record list option" where
  "records_from_payloads [] = Some []"
| "records_from_payloads (p # ps) =
     (case record_from_payload p of
        None \<Rightarrow> None
      | Some t \<Rightarrow> map_option ((#) t) (records_from_payloads ps))"

definition load_all_from_store ::
    "'s task_store \<Rightarrow> string \<Rightarrow> string option \<Rightarrow> 's tracker \<Rightarrow> task_error + task_record list" where
  "load_all_from_store S acc usr st =
     (case ts_list S acc usr (tk_store st) of
        Inl e \<Rightarrow> Inl e
      | Inr ps \<Rightarrow> (case records_from_payloads ps of None \<Rightarrow> Inl BadStatus | Some ts \<Rightarrow> Inr ts))"

text \<open>The record to update, and whether it is the cached object.\<close>

definition load_for_update ::
    "'s task_store \<Rightarrow> string \<Rightarrow> string option \<Rightarrow> string option \<Rightarrow> 's tracker \<Rightarrow>
     task_error + (task_record \<times> bool) option" where
  "load_for_update S tid acc usr st =
     (case map_of (tk_tasks st) tid of
        Some t \<Rightarrow> Inr (if matches_owner t acc usr then Some (t, True) else None)
      | None \<Rightarrow>
          if acc = None \<or> usr = None then Inr None
          else (case load_from_store S tid acc usr st of
                  Inl e \<Rightarrow> Inl e
                | Inr r \<Rightarrow> Inr (map_option (\<lambda>t. (t, False)) r)))"

section \<open>Operations\<close>

text \<open>An operation returns the state with an error or its result.\<close>

definition store_and_cache ::
    "'s task_store \<Rightarrow> task_record \<Rightarrow> 's tracker \<Rightarrow> 's tracker \<times> task_error option" where
  "store_and_cache S t st =
     (case ts_write S t (tk_store st) of
        (s, Some e) \<Rightarrow> (st\<lparr>tk_store := s\<rparr>, Some e)
      | (s, None) \<Rightarrow> (cache_task t (st\<lparr>tk_store := s\<rparr>), None))"

definition create_task ::
    "'s task_store \<Rightarrow> string \<Rightarrow> string \<Rightarrow> string option \<Rightarrow> string \<Rightarrow> string \<Rightarrow> string option \<Rightarrow> 's tracker \<Rightarrow>
     's tracker \<times> (task_error + task_record)" where
  "create_task S uuid ty res acc usr tid st =
     (if acc = [] \<or> usr = [] then (st, Inl OwnerMissing)
      else
        (let wanted = non_empty tid;
             t = new_task (case wanted of None \<Rightarrow> uuid | Some i \<Rightarrow> i) ty res acc usr (tk_now st);
             create = (case store_and_cache S t st of
                         (st1, Some e) \<Rightarrow> (st1, Inl e)
                       | (st1, None) \<Rightarrow> (st1, Inr (copy_task t)))
         in case wanted of
              None \<Rightarrow> create
            | Some i \<Rightarrow>
                (case map_of (tk_tasks st) i of
                   Some existing \<Rightarrow>
                     if \<not> matches_owner existing (Some acc) (Some usr) then (st, Inl OtherOwner)
                     else (st, Inr (copy_task existing))
                 | None \<Rightarrow>
                     (case load_from_store S i (Some acc) (Some usr) st of
                        Inl e \<Rightarrow> (st, Inl e)
                      | Inr (Some existing) \<Rightarrow>
                          (st\<lparr>tk_tasks := AList.update i existing (tk_tasks st)\<rparr>, Inr (copy_task existing))
                      | Inr None \<Rightarrow> create))))"

text \<open>Loading all of an owner's tasks into the cache.\<close>

definition cache_all :: "task_record list \<Rightarrow> 's tracker \<Rightarrow> 's tracker" where
  "cache_all ts st = fold cache_task ts st"

definition active_for :: "string \<Rightarrow> string option \<Rightarrow> string option \<Rightarrow> string option \<Rightarrow> task_record \<Rightarrow> bool" where
  "active_for ty res acc usr t \<longleftrightarrow>
     task_type t = ty \<and> resource_id t = res \<and> matches_owner t acc usr \<and>
     (status t = PENDING \<or> status t = RUNNING)"

definition create_if_no_running ::
    "'s task_store \<Rightarrow> string \<Rightarrow> string \<Rightarrow> string \<Rightarrow> string \<Rightarrow> string \<Rightarrow> 's tracker \<Rightarrow>
     's tracker \<times> (task_error + task_record option)" where
  "create_if_no_running S uuid ty res acc usr st =
     (if acc = [] \<or> usr = [] then (st, Inl OwnerMissing)
      else (case load_all_from_store S acc (Some usr) st of
              Inl e \<Rightarrow> (st, Inl e)
            | Inr loaded \<Rightarrow>
                (let st1 = cache_all loaded st
                 in if list_ex (\<lambda>(_, t). active_for ty (Some res) (Some acc) (Some usr) t) (tk_tasks st1)
                    then (st1, Inr None)
                    else (let t = new_task uuid ty (Some res) acc usr (tk_now st1)
                          in case store_and_cache S t st1 of
                               (st2, Some e) \<Rightarrow> (st2, Inl e)
                             | (st2, None) \<Rightarrow> (st2, Inr (Some (copy_task t)))))))"

text \<open>What \<^verbatim>\<open>start\<close>, \<^verbatim>\<open>update_stage\<close>, \<^verbatim>\<open>complete\<close> and \<^verbatim>\<open>fail\<close> share: \<open>f\<close> is the assignments to the record.\<close>

definition update_task ::
    "'s task_store \<Rightarrow> string \<Rightarrow> string option \<Rightarrow> string option \<Rightarrow> (task_record \<Rightarrow> task_record) \<Rightarrow> 's tracker \<Rightarrow>
     's tracker \<times> task_error option" where
  "update_task S tid acc usr f st =
     (case load_for_update S tid acc usr st of
        Inl e \<Rightarrow> (st, Some e)
      | Inr None \<Rightarrow> (st, None)
      | Inr (Some (t, cached)) \<Rightarrow>
          if terminal (status t) then (st, None)
          else (let t' = (f t)\<lparr>updated_at := tk_now st\<rparr>;
                    st1 = (if cached then st\<lparr>tk_tasks := AList.update tid t' (tk_tasks st)\<rparr> else st)
                in store_and_cache S t' st1))"

definition start_task ::
    "'s task_store \<Rightarrow> string \<Rightarrow> string option \<Rightarrow> string option \<Rightarrow> string option \<Rightarrow> 's tracker \<Rightarrow>
     's tracker \<times> task_error option" where
  "start_task S tid acc usr stg =
     update_task S tid acc usr
       (\<lambda>t. (case stg of None \<Rightarrow> t\<lparr>status := RUNNING\<rparr> | Some x \<Rightarrow> t\<lparr>status := RUNNING, stage := Some x\<rparr>))"

definition update_stage ::
    "'s task_store \<Rightarrow> string \<Rightarrow> string \<Rightarrow> string option \<Rightarrow> string option \<Rightarrow> 's tracker \<Rightarrow>
     's tracker \<times> task_error option" where
  "update_stage S tid stg acc usr = update_task S tid acc usr (\<lambda>t. t\<lparr>stage := Some stg\<rparr>)"

definition complete_task ::
    "'s task_store \<Rightarrow> string \<Rightarrow> json option \<Rightarrow> string option \<Rightarrow> string option \<Rightarrow> string option \<Rightarrow> 's tracker \<Rightarrow>
     's tracker \<times> task_error option" where
  "complete_task S tid res acc usr rid =
     update_task S tid acc usr
       (\<lambda>t. (let t1 = t\<lparr>status := COMPLETED, stage := Some ''completed'', result := res\<rparr>
             in case rid of None \<Rightarrow> t1 | Some r \<Rightarrow> t1\<lparr>resource_id := Some r\<rparr>))"

definition fail_task ::
    "'s task_store \<Rightarrow> string \<Rightarrow> string \<Rightarrow> string option \<Rightarrow> string option \<Rightarrow> 's tracker \<Rightarrow>
     's tracker \<times> task_error option" where
  "fail_task S tid err acc usr =
     update_task S tid acc usr
       (\<lambda>t. t\<lparr>status := FAILED, stage := Some ''failed'', error := Some (sanitize_error err)\<rparr>)"

definition get_task ::
    "'s task_store \<Rightarrow> string \<Rightarrow> string option \<Rightarrow> string option \<Rightarrow> 's tracker \<Rightarrow>
     's tracker \<times> (task_error + task_record option)" where
  "get_task S tid acc usr st =
     (let finish = (\<lambda>st' t. (st', Inr (if matches_owner t acc usr then Some (copy_task t) else None)))
      in case map_of (tk_tasks st) tid of
           Some t \<Rightarrow> finish st t
         | None \<Rightarrow>
             if acc = None then (st, Inr None)
             else (case load_from_store S tid acc usr st of
                     Inl e \<Rightarrow> (st, Inl e)
                   | Inr None \<Rightarrow> (st, Inr None)
                   | Inr (Some t) \<Rightarrow> finish (cache_task t st) t))"

text \<open>\<^verbatim>\<open>xs[:limit]\<close>, which counts from the end for a negative limit.\<close>

definition slice_to :: "int \<Rightarrow> 'a list \<Rightarrow> 'a list" where
  "slice_to limit xs =
     (if 0 \<le> limit then take (nat limit) xs else take (nat (int (length xs) + limit)) xs)"

definition refresh_owner ::
    "'s task_store \<Rightarrow> string option \<Rightarrow> string option \<Rightarrow> 's tracker \<Rightarrow> task_error + 's tracker" where
  "refresh_owner S acc usr st =
     (case acc of
        None \<Rightarrow> Inr st
      | Some a \<Rightarrow>
          (case load_all_from_store S a usr st of
             Inl e \<Rightarrow> Inl e
           | Inr loaded \<Rightarrow> Inr (cache_all loaded st)))"

text \<open>An empty filter string filters nothing.\<close>

definition filter_unless_empty :: "string option \<Rightarrow> (task_record \<Rightarrow> string option) \<Rightarrow> task_record list \<Rightarrow> task_record list" where
  "filter_unless_empty v g ts = (case non_empty v of None \<Rightarrow> ts | Some x \<Rightarrow> filter (\<lambda>t. g t = Some x) ts)"

definition list_tasks ::
    "'s task_store \<Rightarrow> string option \<Rightarrow> string option \<Rightarrow> string option \<Rightarrow> int \<Rightarrow> string option \<Rightarrow> string option \<Rightarrow>
     's tracker \<Rightarrow> 's tracker \<times> (task_error + task_record list)" where
  "list_tasks S ty sts res limit acc usr st =
     (case refresh_owner S acc usr st of
        Inl e \<Rightarrow> (st, Inl e)
      | Inr st1 \<Rightarrow>
          (let ts0 = map copy_task (filter (\<lambda>t. matches_owner t acc usr) (map snd (tk_tasks st1)));
               ts1 = filter_unless_empty ty (\<lambda>t. Some (task_type t)) ts0;
               ts2 = filter_unless_empty sts (\<lambda>t. Some (status_value (status t))) ts1;
               ts3 = filter_unless_empty res resource_id ts2
           in (st1, Inr (slice_to limit (sort_key (\<lambda>t. - created_at t) ts3)))))"

definition has_running ::
    "'s task_store \<Rightarrow> string \<Rightarrow> string \<Rightarrow> string option \<Rightarrow> string option \<Rightarrow> 's tracker \<Rightarrow>
     's tracker \<times> (task_error + bool)" where
  "has_running S ty res acc usr st =
     (case refresh_owner S acc usr st of
        Inl e \<Rightarrow> (st, Inl e)
      | Inr st1 \<Rightarrow> (st1, Inr (list_ex (\<lambda>(_, t). active_for ty (Some res) acc usr t) (tk_tasks st1))))"

definition task_count :: "'s tracker \<Rightarrow> nat" where
  "task_count st = length (tk_tasks st)"

text \<open>\<open>counts_by_type st ty s\<close> is the entry of \<^verbatim>\<open>snapshot_counts_by_type\<close> for a type and a status.\<close>

definition counts_by_type :: "'s tracker \<Rightarrow> string \<Rightarrow> task_status \<Rightarrow> nat" where
  "counts_by_type st ty s =
     length (filter (\<lambda>(_, t). task_type t = ty \<and> status t = s) (tk_tasks st))"

end
