(* ===== verification/Task_Store_Facts.thy ===== *)
theory Task_Store_Facts
  imports Task_Tracker "HOL-Library.Countable"
begin

text \<open>
  The contract of a task store (locale \<open>task_store_laws\<close>): a written record is what the next lookup
  of its key returns, and nothing else changes.  The store of \<^verbatim>\<open>task_store.py\<close> over the in-memory
  plugin satisfies it for every JSON codec that decodes what it encodes (locale \<open>json_codec\<close> and the
  sublocale below it).
\<close>

section \<open>The contract\<close>

locale task_store_laws =
  fixes S :: "'s task_store"
    and sinv :: "'s \<Rightarrow> bool"
    and key_ok :: "string \<Rightarrow> string option \<Rightarrow> string option \<Rightarrow> bool"
  assumes write_inv: "sinv s \<Longrightarrow> ts_write S t s = (s', r) \<Longrightarrow> sinv s'"
    and get_write:
      "sinv s \<Longrightarrow> ts_write S t s = (s', None) \<Longrightarrow> key_ok (task_id t) (account_id t) (user_id t) \<Longrightarrow>
       ts_get S (task_id t) (account_id t) (user_id t) s' = Inr (Some (task_to_payload t))"
    and get_other:
      "sinv s \<Longrightarrow> ts_write S t s = (s', r) \<Longrightarrow> key_ok (task_id t) (account_id t) (user_id t) \<Longrightarrow>
       key_ok tid acc usr \<Longrightarrow> (tid, acc, usr) \<noteq> (task_id t, account_id t, user_id t) \<or> r \<noteq> None \<Longrightarrow>
       ts_get S tid acc usr s' = ts_get S tid acc usr s"
    and list_sound:
      "sinv s \<Longrightarrow> key_ok tid0 (Some a) usr \<Longrightarrow> ts_list S a usr s = Inr ps \<Longrightarrow> p \<in> set ps \<Longrightarrow>
       \<exists>tid. key_ok tid (Some a) usr \<and> ts_get S tid (Some a) usr s = Inr (Some p)"
    and list_complete:
      "sinv s \<Longrightarrow> key_ok tid (Some a) usr \<Longrightarrow> ts_list S a usr s = Inr ps \<Longrightarrow>
       ts_get S tid (Some a) usr s = Inr (Some p) \<Longrightarrow> p \<in> set ps"

section \<open>Paths of the persistent store\<close>

definition task_key_ok :: "string \<Rightarrow> string option \<Rightarrow> string option \<Rightarrow> bool" where
  "task_key_ok tid acc usr \<longleftrightarrow>
     (case (acc, usr) of
        (Some a, Some u) \<Rightarrow> entry_name a \<and> entry_name u \<and> CHR ''/'' \<notin> set tid
      | _ \<Rightarrow> False)"

lemma split_local: "py_split CHR ''/'' ''/local'' = [[], ''local'']"
  by simp

lemma split_account:
  "CHR ''/'' \<notin> set a \<Longrightarrow> py_split CHR ''/'' (account_dir a) = [[], ''local'', a]"
  using split_snoc_sep [of "CHR ''/''" a "''/local''"] split_local by (simp add: account_dir_def)

definition system_segs :: "string \<Rightarrow> string list" where
  "system_segs a = (if a = ''_system'' then [[], ''local'', a] else [[], ''local'', a, ''_system''])"

lemma split_system:
  "CHR ''/'' \<notin> set a \<Longrightarrow> py_split CHR ''/'' (system_dir a) = system_segs a"
  using split_snoc_sep [of "CHR ''/''" "''_system''" "account_dir a"]
  by (simp add: system_dir_def SYSTEM_TASK_ACCOUNT_ID_def split_account system_segs_def)

lemma split_root:
  "CHR ''/'' \<notin> set a \<Longrightarrow> py_split CHR ''/'' (task_root_dir a) = system_segs a @ [''tasks'']"
  using split_snoc_sep [of "CHR ''/''" "''tasks''" "system_dir a"]
  by (simp add: task_root_dir_def split_system)

lemma split_dir:
  "CHR ''/'' \<notin> set a \<Longrightarrow> CHR ''/'' \<notin> set u \<Longrightarrow>
   py_split CHR ''/'' (task_dir a u) = system_segs a @ [''tasks'', u]"
  using split_snoc_sep [of "CHR ''/''" u "task_root_dir a"] by (simp add: task_dir_def split_root)

lemma split_file:
  "CHR ''/'' \<notin> set a \<Longrightarrow> CHR ''/'' \<notin> set u \<Longrightarrow> CHR ''/'' \<notin> set i \<Longrightarrow>
   py_split CHR ''/'' (task_file a u i) = system_segs a @ [''tasks'', u, i @ ''.json'']"
  using split_snoc_sep [of "CHR ''/''" "i @ ''.json''" "task_dir a u"] by (simp add: task_file_def split_dir)

lemma normalize_abs:
  "p \<noteq> [] \<Longrightarrow> hd p = CHR ''/'' \<Longrightarrow> last p \<noteq> CHR ''/'' \<Longrightarrow> normalize_path p = p"
  by (cases p) (auto simp: normalize_path_def py_startswith_def endswith_slash Let_def)

lemma normalize_dirs:
  assumes "entry_name a" "entry_name u"
  shows "d \<in> {account_dir a, system_dir a, task_root_dir a, task_dir a u} \<Longrightarrow> normalize_path d = d"
    "normalize_path (task_file a u i) = task_file a u i"
proof -
  have l: "last (account_dir a) \<noteq> CHR ''/''" "last (system_dir a) \<noteq> CHR ''/''"
    "last (task_root_dir a) \<noteq> CHR ''/''" "last (task_dir a u) \<noteq> CHR ''/''"
    "last (task_file a u i) \<noteq> CHR ''/''"
    using assms
    by (auto simp: account_dir_def system_dir_def task_root_dir_def task_dir_def task_file_def entry_name_def
        dest: last_in_set)
  have h: "hd (account_dir a) = CHR ''/''" "hd (system_dir a) = CHR ''/''"
    "hd (task_root_dir a) = CHR ''/''" "hd (task_dir a u) = CHR ''/''" "hd (task_file a u i) = CHR ''/''"
    by (simp_all add: account_dir_def system_dir_def task_root_dir_def task_dir_def task_file_def)
  have n: "account_dir a \<noteq> []" "system_dir a \<noteq> []" "task_root_dir a \<noteq> []" "task_dir a u \<noteq> []"
    "task_file a u i \<noteq> []"
    by (simp_all add: account_dir_def system_dir_def task_root_dir_def task_dir_def task_file_def)
  from l h n show "d \<in> {account_dir a, system_dir a, task_root_dir a, task_dir a u} \<Longrightarrow> normalize_path d = d"
    "normalize_path (task_file a u i) = task_file a u i"
    by (auto intro: normalize_abs)
qed

text \<open>A task file is never one of the directories, and different keys have different files.\<close>

lemma file_not_dir:
  assumes "entry_name a" "entry_name u" "entry_name b" "entry_name v" "CHR ''/'' \<notin> set i"
  shows "task_file b v i \<notin> {account_dir a, system_dir a, task_root_dir a, task_dir a u}"
proof -
  have f: "py_split CHR ''/'' (task_file b v i) = system_segs b @ [''tasks'', v, i @ ''.json'']"
    using assms by (simp add: split_file entry_name_def)
  have d: "py_split CHR ''/'' (account_dir a) = [[], ''local'', a]"
    "py_split CHR ''/'' (system_dir a) = system_segs a"
    "py_split CHR ''/'' (task_root_dir a) = system_segs a @ [''tasks'']"
    "py_split CHR ''/'' (task_dir a u) = system_segs a @ [''tasks'', u]"
    using assms by (simp_all add: split_account split_system split_root split_dir entry_name_def)
  have "system_segs b @ [''tasks'', v, i @ ''.json''] \<noteq> x"
    if "x \<in> {[[], ''local'', a], system_segs a, system_segs a @ [''tasks''], system_segs a @ [''tasks'', u]}" for x
    using that by (auto simp: system_segs_def split: if_splits)
  with f d show ?thesis by (metis (no_types, lifting) insert_iff singletonD)
qed

lemma file_inj:
  assumes "entry_name a" "entry_name u" "entry_name b" "entry_name v"
    and "CHR ''/'' \<notin> set i" "CHR ''/'' \<notin> set j" "task_file a u i = task_file b v j"
  shows "a = b \<and> u = v \<and> i = j"
proof -
  have "system_segs a @ [''tasks'', u, i @ ''.json''] = system_segs b @ [''tasks'', v, j @ ''.json'']"
    using split_file [of a u i] split_file [of b v j] assms by (simp add: entry_name_def)
  then show ?thesis by (auto simp: system_segs_def split: if_splits)
qed

section \<open>The store over the in-memory plugin\<close>

definition mem_pts :: "(task_payload \<Rightarrow> string) \<Rightarrow> (string \<Rightarrow> task_payload option) \<Rightarrow> (agfs_error \<Rightarrow> string) \<Rightarrow> memfs pts" where
  "mem_pts dumps loads err_text =
     \<lparr>pts_agfs = mem_agfs, pts_dumps = dumps, pts_loads = loads, pts_err_text = err_text\<rparr>"

lemma mem_read_mkdir:
  "mem_mkdir s p = Inr s' \<Longrightarrow> normalize_path q \<noteq> normalize_path p \<Longrightarrow> mem_read s' q = mem_read s q"
  by (auto simp: mem_mkdir_def mem_read_def Let_def split: if_splits option.splits)

lemma mkdir_missing_mem:
  assumes "mkdir_if_missing (mem_pts du lo et) d s = (s', r)" "mem_inv s"
  shows "mem_inv s'" "normalize_path q \<noteq> normalize_path d \<Longrightarrow> mem_read s' q = mem_read s q"
proof -
  have c: "s' = s \<or> mem_mkdir s d = Inr s'"
    using assms(1)
    by (auto simp: mkdir_if_missing_def mem_pts_def mem_agfs_def split: sum.splits agfs_error.splits if_splits)
  then show "mem_inv s'" using assms(2) mem.mkdir_inv [of s d s'] by (auto simp: mem_agfs_def)
  from c show "normalize_path q \<noteq> normalize_path d \<Longrightarrow> mem_read s' q = mem_read s q"
    using mem_read_mkdir by blast
qed

lemma mkdirs_mem:
  assumes "mkdirs (mem_pts du lo et) ds s = (s', r)" "mem_inv s"
  shows "mem_inv s' \<and> (normalize_path q \<notin> normalize_path ` set ds \<longrightarrow> mem_read s' q = mem_read s q)"
  using assms
proof (induction ds arbitrary: s)
  case (Cons d ds)
  obtain s1 r1 where m: "mkdir_if_missing (mem_pts du lo et) d s = (s1, r1)" by fastforce
  note k = mkdir_missing_mem [OF m Cons.prems(2)]
  show ?case
  proof (cases r1)
    case None
    with m Cons.prems(1) have "mkdirs (mem_pts du lo et) ds s1 = (s', r)" by simp
    from Cons.IH [OF this k(1)] k(2) show ?thesis by auto
  next
    case (Some e)
    with m Cons.prems(1) have "s' = s1" by simp
    with k show ?thesis by auto
  qed
qed simp

lemma ensure_dir_mem:
  assumes "ensure_task_dir (mem_pts du lo et) a u s = (s', r)" "mem_inv s"
    and "entry_name a" "entry_name u" "entry_name b" "entry_name v" "CHR ''/'' \<notin> set i"
  shows "mem_inv s'" "mem_read s' (task_file b v i) = mem_read s (task_file b v i)"
proof -
  let ?ds = "[account_dir a, system_dir a, task_root_dir a, task_dir a u]"
  have n: "normalize_path ` set ?ds = set ?ds"
    using normalize_dirs(1) [OF assms(3,4)] by (auto simp: image_iff)
  have "normalize_path (task_file b v i) \<notin> normalize_path ` set ?ds"
    using file_not_dir [OF assms(3-7)] unfolding n normalize_dirs(2) [OF assms(5,6)] by simp
  with mkdirs_mem [OF assms(1) [unfolded ensure_task_dir_def] assms(2)]
  show "mem_inv s'" "mem_read s' (task_file b v i) = mem_read s (task_file b v i)" by auto
qed

text \<open>The write of one task: what it leaves in every other task file.\<close>

lemma write_task_mem:
  assumes "write_task (mem_pts du lo et) t s = (s', r)" "mem_inv s"
    and "account_id t = Some a" "user_id t = Some u" "entry_name a" "entry_name u" "CHR ''/'' \<notin> set (task_id t)"
    and "entry_name b" "entry_name v" "CHR ''/'' \<notin> set i"
  shows "mem_read s' (task_file b v i) =
    (if (b, v, i) = (a, u, task_id t) \<and> r = None then Inr (du (task_to_payload t))
     else mem_read s (task_file b v i))"
proof -
  have ne: "non_empty (Some a) = Some a" "non_empty (Some u) = Some u"
    using assms(5,6) by (auto simp: non_empty_def entry_name_def split: list.splits)
  obtain s1 r1 where e: "ensure_task_dir (mem_pts du lo et) a u s = (s1, r1)" by fastforce
  note k = ensure_dir_mem [OF e assms(2,5,6)]
  let ?f = "task_file a u (task_id t)"
  have nf: "normalize_path ?f = ?f" using normalize_dirs(2) [OF assms(5,6)] .
  have ng: "normalize_path (task_file b v i) = task_file b v i" using normalize_dirs(2) [OF assms(8,9)] .
  have same: "task_file b v i = ?f \<longleftrightarrow> (b, v, i) = (a, u, task_id t)"
    using file_inj [OF assms(8,9,5,6,10,7)] by auto
  show ?thesis
  proof (cases r1)
    case (Some err)
    with e ne assms(1,3,4) have "s' = s1" "r \<noteq> None" by (auto simp: write_task_def)
    with k(2) [OF assms(8-10)] show ?thesis by auto
  next
    case None
    show ?thesis
    proof (cases "mem_write s1 ?f (du (task_to_payload t))")
      case (Inl err)
      with None e ne assms(1,3,4) have "s' = s1" "r \<noteq> None"
        by (auto simp: write_task_def mem_pts_def mem_agfs_def)
      with k(2) [OF assms(8-10)] show ?thesis by auto
    next
      case (Inr s2)
      with None e ne assms(1,3,4) have s': "s' = s2" "r = None"
        by (auto simp: write_task_def mem_pts_def mem_agfs_def)
      have "mem_read s2 (task_file b v i) =
          (if task_file b v i = ?f then Inr (du (task_to_payload t)) else mem_read s1 (task_file b v i))"
        using mem.read_write [of s1 ?f "du (task_to_payload t)" s2 "task_file b v i"] Inr
          k(1) [OF assms(8-10)] nf ng by (simp add: mem_agfs_def)
      with k(2) [OF assms(8-10)] same s' show ?thesis by simp
    qed
  qed
qed

lemma write_task_inv:
  assumes "write_task (mem_pts du lo et) t s = (s', r)" "mem_inv s"
  shows "mem_inv s'"
proof -
  have w: "mem_inv s1 \<Longrightarrow> mem_write s1 f d = Inr s2 \<Longrightarrow> mem_inv s2" for s1 f d s2
    using mem.write_inv [of s1 f d s2] by (simp add: mem_agfs_def)
  have e: "ensure_task_dir (mem_pts du lo et) a u s = (s1, r1) \<Longrightarrow> mem_inv s1" for a u s1 r1
    unfolding ensure_task_dir_def using mkdirs_mem [OF _ assms(2)] by blast
  show ?thesis
    using assms
    by (auto simp: write_task_def mem_pts_def mem_agfs_def split: option.splits prod.splits sum.splits
        dest: w e [unfolded mem_pts_def mem_agfs_def])
qed

text \<open>Listing a directory reads every \<^verbatim>\<open>.json\<close> entry.\<close>

lemma list_loop_iff:
  "list_loop P d items s = Inr ps \<Longrightarrow>
   p \<in> set ps \<longleftrightarrow> (\<exists>n b. (n, b) \<in> set items \<and> py_endswith (d @ ''/'' @ n) ''.json'' \<and>
     read_payload P (d @ ''/'' @ n) s = Inr (Some p))"
proof (induction items arbitrary: ps)
  case (Cons e items)
  obtain n b where e: "e = (n, b)" by fastforce
  show ?case
  proof (cases "py_endswith (d @ ''/'' @ n) ''.json''")
    case False
    with Cons e show ?thesis by (auto simp: Let_def)
  next
    case True
    with Cons.prems e obtain r qs where "read_payload P (d @ ''/'' @ n) s = Inr r"
      "list_loop P d items s = Inr qs" "ps = (case r of None \<Rightarrow> qs | Some p \<Rightarrow> p # qs)"
      by (auto simp: Let_def split: sum.splits)
    with True e Cons.IH [of qs] show ?thesis by (cases r) auto
  qed
qed simp

lemma json_name:
  assumes "py_endswith (d @ ''/'' @ n) ''.json''"
  shows "\<exists>i. n = i @ ''.json''"
proof -
  obtain x where x: "d @ CHR ''/'' # n = x @ ''.json''" using assms by (auto simp: endswith_iff)
  show ?thesis
  proof (cases "length n < 5")
    case True
    then have "CHR ''/'' \<in> set (drop (length x) (d @ CHR ''/'' # n))"
      using arg_cong [OF x, of length] by (auto simp: drop_Cons')
    with x show ?thesis by simp
  next
    case False
    then have "n = drop (Suc (length d)) x @ ''.json''"
      using arg_cong [OF x, of "drop (Suc (length d))"] arg_cong [OF x, of length] by simp
    then show ?thesis by blast
  qed
qed

lemma mem_ls_names:
  assumes "mem_read_dir s p = Inr es" "(n, b) \<in> set es"
  shows "n = ''/'' \<or> CHR ''/'' \<notin> set n"
proof -
  obtain c where "n = file_name c"
    using assms by (auto simp: mem_read_dir_def Let_def split: option.splits file_entry.splits)
  then show ?thesis
    using split_segments [OF last_in_set [OF split_nonempty], of "CHR ''/''" "normalize_path c"]
    by (simp add: file_name_def)
qed

lemma non_empty_entry: "entry_name u \<Longrightarrow> non_empty (Some u) = Some u"
  by (cases u) (auto simp: non_empty_def entry_name_def)

lemma store_get_payload:
  "entry_name a \<Longrightarrow> entry_name u \<Longrightarrow> store_get P i (Some a) (Some u) s = read_payload P (task_file a u i) s"
  by (simp add: store_get_def non_empty_entry)

lemma mem_list_sound:
  assumes "store_list (mem_pts du lo et) a (Some u) s = Inr ps" "p \<in> set ps" "entry_name a" "entry_name u"
  shows "\<exists>i. CHR ''/'' \<notin> set i \<and> store_get (mem_pts du lo et) i (Some a) (Some u) s = Inr (Some p)"
proof -
  obtain es where es: "mem_read_dir s (task_dir a u) = Inr es"
    "list_loop (mem_pts du lo et) (task_dir a u) es s = Inr ps"
    using assms(1,2)
    by (auto simp: store_list_def non_empty_entry [OF assms(4)] mem_pts_def mem_agfs_def
        split: sum.splits agfs_error.splits)
  with list_loop_iff [OF es(2), of p] assms(2) obtain n b where n: "(n, b) \<in> set es"
    "py_endswith (task_dir a u @ ''/'' @ n) ''.json''"
    "read_payload (mem_pts du lo et) (task_dir a u @ ''/'' @ n) s = Inr (Some p)" by blast
  obtain i where i: "n = i @ ''.json''" using json_name [OF n(2)] by blast
  then have "CHR ''/'' \<notin> set i" using mem_ls_names [OF es(1) n(1)] by auto
  with n(3) i assms(3,4) show ?thesis by (auto simp: store_get_payload task_file_def)
qed

text \<open>The directory of an existing file is a directory.\<close>

lemma parent_in_dir:
  assumes "mem_inv s" "map_of s f = Some e" "clean_path d" "f = child_path d n" "entry_name n"
  shows "map_of s d = Some DirEntry"
proof -
  have "f \<noteq> ''/''" using assms(4,5) child_not_root by simp
  moreover have "f \<in> fst ` set s" using assms(2) by (force dest: map_of_SomeD)
  ultimately have "check_parent s f = None" using assms(1) by (auto simp: mem_inv_def)
  then show ?thesis
    using parent_child [OF assms(3,5)] assms(4)
    by (auto simp: check_parent_def split: option.splits file_entry.splits)
qed

lemma mem_list_complete:
  assumes "store_list (mem_pts du lo et) a (Some u) s = Inr ps" "entry_name a" "entry_name u" "CHR ''/'' \<notin> set i"
    and "store_get (mem_pts du lo et) i (Some a) (Some u) s = Inr (Some p)" "mem_inv s"
  shows "p \<in> set ps"
proof -
  let ?f = "task_file a u i" and ?n = "i @ ''.json''"
  have rd: "read_payload (mem_pts du lo et) ?f s = Inr (Some p)"
    using assms(2,3,5) by (simp add: store_get_payload)
  then obtain c where c: "mem_read s ?f = Inr c"
    by (auto simp: read_payload_def mem_pts_def mem_agfs_def split: sum.splits agfs_error.splits)
  have nf: "normalize_path ?f = ?f" "normalize_path (task_dir a u) = task_dir a u"
    using normalize_dirs [OF assms(2,3)] by auto
  have st: "map_of s ?f = Some (FileData c)"
    using c nf(1) by (auto simp: mem_read_def Let_def split: option.splits file_entry.splits)
  have "task_dir a u \<noteq> ''/''" by (simp add: task_dir_def task_root_dir_def)
  have cd: "clean_path (task_dir a u)"
    using assms(2,3) split_dir [of a u]
    by (auto simp: clean_path_def entry_name_def task_dir_def task_root_dir_def system_dir_def account_dir_def
        system_segs_def split: if_splits list.splits)
  have ch: "child_path (task_dir a u) ?n = ?f"
    using \<open>task_dir a u \<noteq> ''/''\<close> by (simp add: child_path_def task_file_def)
  obtain es where es: "mem_read_dir s (task_dir a u) = Inr es"
    "list_loop (mem_pts du lo et) (task_dir a u) es s = Inr ps"
    using assms(1,6) parent_in_dir [OF assms(6) st cd ch [symmetric]] nf(2) assms(4)
    by (auto simp: store_list_def non_empty_entry [OF assms(3)] mem_pts_def mem_agfs_def mem_read_dir_def Let_def
        entry_name_def)
  have "(?n, False) \<in> set es"
    using mem.ls_child [of s "task_dir a u" ?n es False] assms(4,6) cd es(1) ch st nf(1)
    by (simp add: entry_name_def mem_agfs_def mem_stat_def Let_def)
  moreover have "?f = task_dir a u @ ''/'' @ ?n" by (simp add: task_file_def)
  moreover have "py_endswith ?f ''.json''" by (metis append_assoc calculation(2) endswith_append)
  ultimately show ?thesis using list_loop_iff [OF es(2), of p] rd by metis
qed

section \<open>The store satisfies its contract\<close>

locale json_codec =
  fixes dumps :: "task_payload \<Rightarrow> string"
    and loads :: "string \<Rightarrow> task_payload option"
    and err_text :: "agfs_error \<Rightarrow> string"
  assumes loads_dumps: "loads (dumps p) = Some p"

lemma get_read:
  "entry_name a \<Longrightarrow> entry_name u \<Longrightarrow>
   store_get (mem_pts du lo et) i (Some a) (Some u) s =
     (case mem_read s (task_file a u i) of
        Inl (NotFound _) \<Rightarrow> Inr None
      | Inl e \<Rightarrow> Inl (StoreFailure e)
      | Inr raw \<Rightarrow> (case lo raw of None \<Rightarrow> Inl BadJson | Some p \<Rightarrow> Inr (Some p)))"
  by (cases a; cases u)
    (auto simp: store_get_def read_payload_def mem_pts_def mem_agfs_def non_empty_def entry_name_def
      split: sum.split agfs_error.split)

sublocale json_codec < tasks: task_store_laws "persistent_store (mem_pts dumps loads err_text)" mem_inv task_key_ok
proof
  fix s s' :: memfs and t r
  assume "mem_inv s" "ts_write (persistent_store (mem_pts dumps loads err_text)) t s = (s', r)"
  then show "mem_inv s'" by (simp add: persistent_store_def write_task_inv)
next
  fix s s' :: memfs and t
  assume a: "mem_inv s" "ts_write (persistent_store (mem_pts dumps loads err_text)) t s = (s', None)"
    "task_key_ok (task_id t) (account_id t) (user_id t)"
  then obtain a u where k: "account_id t = Some a" "user_id t = Some u" "entry_name a" "entry_name u"
    "CHR ''/'' \<notin> set (task_id t)"
    by (auto simp: task_key_ok_def split: option.splits)
  from a(2) have w: "write_task (mem_pts dumps loads err_text) t s = (s', None)"
    by (simp add: persistent_store_def)
  show "ts_get (persistent_store (mem_pts dumps loads err_text)) (task_id t) (account_id t) (user_id t) s' =
      Inr (Some (task_to_payload t))"
    using write_task_mem [OF w a(1) k k(3-5)] k
    by (simp add: persistent_store_def get_read loads_dumps)
next
  fix s s' :: memfs and t r tid acc usr
  assume a: "mem_inv s" "ts_write (persistent_store (mem_pts dumps loads err_text)) t s = (s', r)"
    "task_key_ok (task_id t) (account_id t) (user_id t)" "task_key_ok tid acc usr"
    "(tid, acc, usr) \<noteq> (task_id t, account_id t, user_id t) \<or> r \<noteq> None"
  then obtain a u b v where k: "account_id t = Some a" "user_id t = Some u" "entry_name a" "entry_name u"
    "CHR ''/'' \<notin> set (task_id t)" and l: "acc = Some b" "usr = Some v" "entry_name b" "entry_name v"
    "CHR ''/'' \<notin> set tid"
    by (auto simp: task_key_ok_def split: option.splits)
  from a(2) have w: "write_task (mem_pts dumps loads err_text) t s = (s', r)"
    by (simp add: persistent_store_def)
  have "mem_read s' (task_file b v tid) = mem_read s (task_file b v tid)"
    using write_task_mem [OF w a(1) k l(3-5)] a(5) k l by auto
  then show "ts_get (persistent_store (mem_pts dumps loads err_text)) tid acc usr s' =
      ts_get (persistent_store (mem_pts dumps loads err_text)) tid acc usr s"
    using l by (simp add: persistent_store_def get_read)
next
  fix s :: memfs and tid0 a usr ps p
  assume a: "mem_inv s" "task_key_ok tid0 (Some a) usr"
    "ts_list (persistent_store (mem_pts dumps loads err_text)) a usr s = Inr ps" "p \<in> set ps"
  then obtain u where u: "usr = Some u" "entry_name a" "entry_name u"
    by (auto simp: task_key_ok_def split: option.splits)
  with a(3) have "store_list (mem_pts dumps loads err_text) a (Some u) s = Inr ps"
    by (simp add: persistent_store_def)
  from mem_list_sound [OF this a(4) u(2,3)]
  show "\<exists>tid. task_key_ok tid (Some a) usr \<and>
      ts_get (persistent_store (mem_pts dumps loads err_text)) tid (Some a) usr s = Inr (Some p)"
    using u by (auto simp: task_key_ok_def persistent_store_def)
next
  fix s :: memfs and tid a usr ps p
  assume a: "mem_inv s" "task_key_ok tid (Some a) usr"
    "ts_list (persistent_store (mem_pts dumps loads err_text)) a usr s = Inr ps"
    "ts_get (persistent_store (mem_pts dumps loads err_text)) tid (Some a) usr s = Inr (Some p)"
  then obtain u where u: "usr = Some u" "entry_name a" "entry_name u" "CHR ''/'' \<notin> set tid"
    by (auto simp: task_key_ok_def split: option.splits)
  with a mem_list_complete show "p \<in> set ps" by (simp add: persistent_store_def)
qed

text \<open>A codec: the position of a payload in an enumeration of all payloads, written in unary.\<close>

instance json :: countable
  by countable_datatype

type_synonym payload_fields =
  "string \<times> string \<times> string \<times> int \<times> int \<times> string option \<times> string option \<times> string option \<times>
   string option \<times> json option \<times> string option"

definition payload_fields :: "task_payload \<Rightarrow> payload_fields" where
  "payload_fields p =
     (p_task_id p, p_task_type p, p_status p, p_created_at p, p_updated_at p, p_resource_id p, p_account_id p,
      p_user_id p, p_stage p, p_result p, p_error p)"

definition payload_of_fields :: "payload_fields \<Rightarrow> task_payload" where
  "payload_of_fields f =
     (case f of (i, ty, sts, c, m, res, a, u, g, r, e) \<Rightarrow>
        \<lparr>p_task_id = i, p_task_type = ty, p_status = sts, p_created_at = c, p_updated_at = m,
         p_resource_id = res, p_account_id = a, p_user_id = u, p_stage = g, p_result = r, p_error = e\<rparr>)"

definition unary_dumps :: "task_payload \<Rightarrow> string" where
  "unary_dumps p = replicate (to_nat (payload_fields p)) CHR ''1''"

definition unary_loads :: "string \<Rightarrow> task_payload option" where
  "unary_loads s = Some (payload_of_fields (from_nat (length s)))"

interpretation unary: json_codec unary_dumps unary_loads "\<lambda>e. []"
  by unfold_locales (simp add: unary_dumps_def unary_loads_def payload_of_fields_def payload_fields_def)

end
