(* ===== verification/Task_Tracker_Facts.thy ===== *)
theory Task_Tracker_Facts
  imports Task_Store_Facts "HOL-Library.Multiset"
begin

text \<open>
  What the task tracker guarantees over any store that keeps the contract \<open>task_store_laws\<close>: the
  agreement of cache and store, the fate of finished tasks, eviction, and what the sanitisers remove.
\<close>

section \<open>Agreement of cache and store\<close>

definition terminal_payload :: "task_payload \<Rightarrow> bool" where
  "terminal_payload p \<longleftrightarrow> p_status p = ''completed'' \<or> p_status p = ''failed''"

definition task_at :: "'s task_store \<Rightarrow> 's tracker \<Rightarrow> task_record \<Rightarrow> task_error + task_payload option" where
  "task_at S st t = ts_get S (task_id t) (account_id t) (user_id t) (tk_store st)"

text \<open>Every stored payload carries its own key, and every cached record is stored under its key, as it is
  or in a version that is not finished.\<close>

definition tracker_ok ::
    "'s task_store \<Rightarrow> ('s \<Rightarrow> bool) \<Rightarrow> (string \<Rightarrow> string option \<Rightarrow> string option \<Rightarrow> bool) \<Rightarrow> 's tracker \<Rightarrow> bool" where
  "tracker_ok S sinv key_ok st \<longleftrightarrow>
     sinv (tk_store st) \<and> distinct (map fst (tk_tasks st)) \<and>
     (\<forall>tid acc usr p. key_ok tid acc usr \<longrightarrow> ts_get S tid acc usr (tk_store st) = Inr (Some p) \<longrightarrow>
        p_task_id p = tid \<and> p_account_id p = acc \<and> p_user_id p = usr) \<and>
     (\<forall>k t. map_of (tk_tasks st) k = Some t \<longrightarrow>
        task_id t = k \<and> key_ok k (account_id t) (user_id t) \<and>
        (\<exists>p. task_at S st t = Inr (Some p) \<and> (p = task_to_payload t \<or> \<not> terminal_payload p)))"

definition coherent :: "'s task_store \<Rightarrow> 's tracker \<Rightarrow> bool" where
  "coherent S st \<longleftrightarrow> (\<forall>k t. map_of (tk_tasks st) k = Some t \<longrightarrow> task_at S st t = Inr (Some (task_to_payload t)))"

lemma terminal_payload_iff [simp]: "terminal_payload (task_to_payload t) = terminal (status t)"
  by (cases "status t") (simp_all add: terminal_payload_def task_to_payload_def terminal_def status_value_def)

lemma payload_sel [simp]:
  "p_task_id (task_to_payload t) = task_id t" "p_account_id (task_to_payload t) = account_id t"
  "p_user_id (task_to_payload t) = user_id t"
  by (simp_all add: task_to_payload_def)

lemma status_of_value_Some: "status_of_value v = Some s \<Longrightarrow> status_value s = v"
  by (auto simp: status_of_value_def status_value_def split: if_splits)

lemma record_from_payload_Some:
  assumes "record_from_payload p = Some t"
  shows "task_to_payload t = p"
proof -
  obtain s where s: "status_of_value (p_status p) = Some s"
    using assms by (auto simp: record_from_payload_def split: option.splits)
  then have "status_value s = p_status p" by (rule status_of_value_Some)
  with s assms show ?thesis by (auto simp: record_from_payload_def task_to_payload_def)
qed

lemma records_from_payloads_Some:
  "records_from_payloads ps = Some ts \<Longrightarrow> map task_to_payload ts = ps"
  by (induction ps arbitrary: ts) (auto simp: record_from_payload_Some split: option.splits)

lemma load_from_store_Some:
  "load_from_store S tid acc usr st = Inr (Some t) \<Longrightarrow>
   ts_get S tid acc usr (tk_store st) = Inr (Some (task_to_payload t))"
  by (auto simp: load_from_store_def record_from_payload_Some split: sum.splits option.splits)

lemma load_from_store_None:
  "load_from_store S tid acc usr st = Inr None \<longleftrightarrow> ts_get S tid acc usr (tk_store st) = Inr None"
  by (auto simp: load_from_store_def split: sum.splits option.splits)

lemma task_at_cong: "tk_store st' = tk_store st \<Longrightarrow> task_at S st' = task_at S st"
  by (simp add: task_at_def fun_eq_iff)

lemma cache_task_sel [simp]:
  "tk_store (cache_task t st) = tk_store st" "tk_now (cache_task t st) = tk_now st"
  "map_of (tk_tasks (cache_task t st)) k = (if k = task_id t then Some t else map_of (tk_tasks st) k)"
  "distinct (map fst (tk_tasks st)) \<Longrightarrow> distinct (map fst (tk_tasks (cache_task t st)))"
  by (simp_all add: cache_task_def distinct_update)

lemma stored_key:
  "tracker_ok S sinv key_ok st \<Longrightarrow> key_ok tid acc usr \<Longrightarrow> ts_get S tid acc usr (tk_store st) = Inr (Some p) \<Longrightarrow>
   p_task_id p = tid \<and> p_account_id p = acc \<and> p_user_id p = usr"
  by (simp add: tracker_ok_def)

lemma cached_stored:
  assumes "tracker_ok S sinv key_ok st" "map_of (tk_tasks st) k = Some t"
  obtains p where "task_id t = k" "key_ok k (account_id t) (user_id t)" "task_at S st t = Inr (Some p)"
    "p = task_to_payload t \<or> \<not> terminal_payload p"
  using assms unfolding tracker_ok_def by blast

lemma tracker_ok_tick [simp]: "tracker_ok S sinv key_ok (st\<lparr>tk_now := n\<rparr>) = tracker_ok S sinv key_ok st"
  by (simp add: tracker_ok_def task_at_def)

text \<open>Putting a record in the cache.\<close>

lemma cache_ok:
  assumes "tracker_ok S sinv key_ok st" "key_ok (task_id t) (account_id t) (user_id t)"
    and "task_at S st t = Inr (Some p)" "p = task_to_payload t \<or> \<not> terminal_payload p"
  shows "tracker_ok S sinv key_ok (cache_task t st)"
  using assms by (simp add: tracker_ok_def task_at_cong [of "cache_task t st" st])

lemma cache_all_ok:
  assumes "tracker_ok S sinv key_ok st"
    and "\<forall>t \<in> set ts. key_ok (task_id t) (account_id t) (user_id t) \<and>
      task_at S st t = Inr (Some (task_to_payload t))"
  shows "tracker_ok S sinv key_ok (cache_all ts st)" "tk_store (cache_all ts st) = tk_store st"
    "tk_now (cache_all ts st) = tk_now st"
proof -
  have "tracker_ok S sinv key_ok (cache_all ts st) \<and> tk_store (cache_all ts st) = tk_store st \<and>
      tk_now (cache_all ts st) = tk_now st"
    using assms
  proof (induction ts arbitrary: st)
    case (Cons t ts)
    then have "tracker_ok S sinv key_ok (cache_task t st)" by (auto intro: cache_ok)
    with Cons.IH [of "cache_task t st"] Cons.prems(2) show ?case
      by (simp add: cache_all_def task_at_cong [of "cache_task t st" st])
  qed (simp add: cache_all_def)
  then show "tracker_ok S sinv key_ok (cache_all ts st)" "tk_store (cache_all ts st) = tk_store st"
    "tk_now (cache_all ts st) = tk_now st" by auto
qed

lemma cache_all_mem:
  "map_of (tk_tasks (cache_all ts st)) k =
     (case find (\<lambda>t. task_id t = k) (rev ts) of Some t \<Rightarrow> Some t | None \<Rightarrow> map_of (tk_tasks st) k)"
proof (induction ts arbitrary: st)
  case (Cons t ts)
  then show ?case
    by (auto simp: cache_all_def find_append split: option.splits)
qed (simp add: cache_all_def)

context task_store_laws
begin

text \<open>Writing a record whose stored version, if any, is not finished.\<close>

lemma store_and_cache_ok:
  assumes "store_and_cache S t st = (st', r)" "tracker_ok S sinv key_ok st"
    and "key_ok (task_id t) (account_id t) (user_id t)"
    and "\<And>p. task_at S st t = Inr (Some p) \<Longrightarrow> \<not> terminal_payload p"
    and "\<And>t'. map_of (tk_tasks st) (task_id t) = Some t' \<Longrightarrow>
      account_id t' = account_id t \<and> user_id t' = user_id t"
  shows "tracker_ok S sinv key_ok st'"
    "key_ok tid acc usr \<Longrightarrow> ts_get S tid acc usr (tk_store st) = Inr (Some p) \<Longrightarrow> terminal_payload p \<Longrightarrow>
     ts_get S tid acc usr (tk_store st') = Inr (Some p)"
    "r = None \<Longrightarrow> task_at S st' t = Inr (Some (task_to_payload t)) \<and> map_of (tk_tasks st') (task_id t) = Some t"
proof -
  obtain s' where w: "ts_write S t (tk_store st) = (s', r)"
    and st': "st' = (if r = None then cache_task t (st\<lparr>tk_store := s'\<rparr>) else st\<lparr>tk_store := s'\<rparr>)"
    using assms(1) by (auto simp: store_and_cache_def split: prod.splits option.splits)
  have inv: "sinv (tk_store st)" using assms(2) by (simp add: tracker_ok_def)
  note inv' = write_inv [OF inv w]
  have stored: "tk_store st' = s'" by (simp add: st')
  have other: "key_ok i a u \<Longrightarrow> (i, a, u) \<noteq> (task_id t, account_id t, user_id t) \<or> r \<noteq> None \<Longrightarrow>
      ts_get S i a u s' = ts_get S i a u (tk_store st)" for i a u
    using get_other [OF inv w assms(3)] by blast
  have same: "r = None \<Longrightarrow> ts_get S (task_id t) (account_id t) (user_id t) s' = Inr (Some (task_to_payload t))"
    using get_write [OF inv _ assms(3)] w by simp
  show fin: "ts_get S tid acc usr (tk_store st') = Inr (Some p)"
    if "key_ok tid acc usr" "ts_get S tid acc usr (tk_store st) = Inr (Some p)" "terminal_payload p" for tid acc usr p
    using other [OF that(1)] assms(4) that(2,3) stored by (force simp: task_at_def)
  show "r = None \<Longrightarrow> task_at S st' t = Inr (Some (task_to_payload t)) \<and> map_of (tk_tasks st') (task_id t) = Some t"
    using same by (simp add: st' task_at_def)
  have key: "p_task_id p = i \<and> p_account_id p = a \<and> p_user_id p = u"
    if "key_ok i a u" "ts_get S i a u s' = Inr (Some p)" for i a u p
  proof (cases "(i, a, u) = (task_id t, account_id t, user_id t) \<and> r = None")
    case True
    with same that(2) show ?thesis by auto
  next
    case False
    with other [OF that(1)] that assms(2) show ?thesis by (auto simp: tracker_ok_def)
  qed
  have cached: "task_id t1 = k \<and> key_ok k (account_id t1) (user_id t1) \<and>
      (\<exists>p. task_at S st' t1 = Inr (Some p) \<and> (p = task_to_payload t1 \<or> \<not> terminal_payload p))"
    if "map_of (tk_tasks st') k = Some t1" for k t1
  proof (cases "r = None \<and> k = task_id t")
    case True
    with that have "t1 = t" by (simp add: st')
    with True same assms(3) show ?thesis by (auto simp: task_at_def stored)
  next
    case False
    with that have old: "map_of (tk_tasks st) k = Some t1" by (auto simp: st' split: if_splits)
    with assms(2) obtain p where p: "task_id t1 = k" "key_ok k (account_id t1) (user_id t1)"
      "task_at S st t1 = Inr (Some p)" "p = task_to_payload t1 \<or> \<not> terminal_payload p"
      unfolding tracker_ok_def by blast
    have "task_at S st' t1 = task_at S st t1"
      using False other [OF p(2)] p(1) by (auto simp: task_at_def stored)
    with p show ?thesis by auto
  qed
  have "distinct (map fst (tk_tasks st'))" using assms(2) by (auto simp: tracker_ok_def st')
  then show "tracker_ok S sinv key_ok st'"
    using inv' key cached unfolding tracker_ok_def stored by blast
qed

lemma load_all_ok:
  assumes "load_all_from_store S a usr st = Inr ts" "tracker_ok S sinv key_ok st" "key_ok tid0 (Some a) usr"
  shows "\<forall>t \<in> set ts. key_ok (task_id t) (account_id t) (user_id t) \<and> account_id t = Some a \<and> user_id t = usr \<and>
      task_at S st t = Inr (Some (task_to_payload t))"
proof
  fix t
  assume t: "t \<in> set ts"
  have inv: "sinv (tk_store st)" using assms(2) by (simp add: tracker_ok_def)
  obtain ps where ps: "ts_list S a usr (tk_store st) = Inr ps" "records_from_payloads ps = Some ts"
    using assms(1) by (auto simp: load_all_from_store_def split: sum.splits option.splits)
  then have "task_to_payload t \<in> set ps" using t records_from_payloads_Some by (metis image_eqI list.set_map)
  from list_sound [OF inv assms(3) ps(1) this] obtain tid where
    g: "key_ok tid (Some a) usr" "ts_get S tid (Some a) usr (tk_store st) = Inr (Some (task_to_payload t))"
    by blast
  have k: "task_id t = tid" "account_id t = Some a" "user_id t = usr"
    using stored_key [OF assms(2) g] by simp_all
  with g show "key_ok (task_id t) (account_id t) (user_id t) \<and> account_id t = Some a \<and> user_id t = usr \<and>
      task_at S st t = Inr (Some (task_to_payload t))"
    by (simp add: task_at_def)
qed

lemma load_all_complete:
  assumes "load_all_from_store S a usr st = Inr ts" "tracker_ok S sinv key_ok st" "key_ok tid (Some a) usr"
    and "ts_get S tid (Some a) usr (tk_store st) = Inr (Some (task_to_payload t))"
  shows "t \<in> set ts"
proof -
  have inv: "sinv (tk_store st)" using assms(2) by (simp add: tracker_ok_def)
  obtain ps where ps: "ts_list S a usr (tk_store st) = Inr ps" "records_from_payloads ps = Some ts"
    using assms(1) by (auto simp: load_all_from_store_def split: sum.splits option.splits)
  have "task_to_payload t \<in> set ps" by (rule list_complete [OF inv assms(3) ps(1) assms(4)])
  then obtain t' where "t' \<in> set ts" "task_to_payload t' = task_to_payload t"
    using records_from_payloads_Some [OF ps(2)] by auto
  then show ?thesis by (metis option.inject payload_round_trip)
qed

text \<open>The four lifecycle operations change neither the key of a record nor a finished record.\<close>

lemma update_task_ok:
  assumes "update_task S tid acc usr f st = (st', r)" "tracker_ok S sinv key_ok st"
    and "\<And>t. task_id (f t) = task_id t \<and> account_id (f t) = account_id t \<and> user_id (f t) = user_id t"
    and "acc \<noteq> None \<Longrightarrow> usr \<noteq> None \<Longrightarrow> key_ok tid acc usr"
  shows "tracker_ok S sinv key_ok st' \<and>
    (\<forall>i a u p. key_ok i a u \<longrightarrow> ts_get S i a u (tk_store st) = Inr (Some p) \<longrightarrow> terminal_payload p \<longrightarrow>
      ts_get S i a u (tk_store st') = Inr (Some p))"
proof (cases "\<exists>t c. load_for_update S tid acc usr st = Inr (Some (t, c)) \<and> \<not> terminal (status t)")
  case False
  with assms(1) have "st' = st"
    by (auto simp: update_task_def split: sum.splits option.splits if_splits)
  with assms(2) show ?thesis by simp
next
  case True
  then obtain t c where l: "load_for_update S tid acc usr st = Inr (Some (t, c))" and nt: "\<not> terminal (status t)"
    by blast
  let ?t = "(f t)\<lparr>updated_at := tk_now st\<rparr>"
  have ids: "task_id ?t = task_id t" "account_id ?t = account_id t" "user_id ?t = user_id t"
    using assms(3) by simp_all
  show ?thesis
  proof (cases c)
    case True
    with l have m: "map_of (tk_tasks st) tid = Some t"
      by (auto simp: load_for_update_def split: option.splits if_splits sum.splits)
    with assms(2) obtain p where p: "task_id t = tid" "key_ok tid (account_id t) (user_id t)"
      "task_at S st t = Inr (Some p)" "\<not> terminal_payload p"
      using cached_stored [OF assms(2) m] nt by (metis terminal_payload_iff)
    let ?st1 = "st\<lparr>tk_tasks := AList.update tid ?t (tk_tasks st)\<rparr>"
    have st1: "?st1 = cache_task ?t st" using p(1) ids by (simp add: cache_task_def)
    have at: "task_at S st ?t = Inr (Some p)" using p(3) ids by (simp add: task_at_def)
    have ok1: "tracker_ok S sinv key_ok ?st1"
      unfolding st1 using assms(2) by (rule cache_ok) (use p ids at in auto)
    have sc: "store_and_cache S ?t ?st1 = (st', r)"
      using assms(1) l nt True by (simp add: update_task_def Let_def)
    note k = store_and_cache_ok [OF sc ok1]
    have "tk_store ?st1 = tk_store st" by simp
    with k p ids at show ?thesis by (auto simp: task_at_def)
  next
    case False
    with l have n: "map_of (tk_tasks st) tid = None" "acc \<noteq> None" "usr \<noteq> None"
      and ld: "load_from_store S tid acc usr st = Inr (Some t)"
      by (auto simp: load_for_update_def split: option.splits if_splits sum.splits)
    note g = load_from_store_Some [OF ld]
    note ko = assms(4) [OF n(2,3)]
    have k: "task_id t = tid" "account_id t = acc" "user_id t = usr"
      using stored_key [OF assms(2) ko g] by simp_all
    have at: "task_at S st ?t = Inr (Some (task_to_payload t))" using g k ids by (simp add: task_at_def)
    have sc: "store_and_cache S ?t st = (st', r)"
      using assms(1) l nt False by (simp add: update_task_def Let_def)
    from store_and_cache_ok [OF sc assms(2)] k ids at n(1) ko nt show ?thesis by auto
  qed
qed

lemma create_task_named:
  assumes "create_task S uuid ty res acc usr tid st = (st', r)" "non_empty tid = Some i" "\<not> (acc = [] \<or> usr = [])"
  shows "st' = st \<or>
    (\<exists>t. load_from_store S i (Some acc) (Some usr) st = Inr (Some t) \<and>
       st' = st\<lparr>tk_tasks := AList.update i t (tk_tasks st)\<rparr>) \<or>
    (\<exists>e. load_from_store S i (Some acc) (Some usr) st = Inr None \<and> map_of (tk_tasks st) i = None \<and>
       store_and_cache S (new_task i ty res acc usr (tk_now st)) st = (st', e))"
proof -
  let ?new = "store_and_cache S (new_task i ty res acc usr (tk_now st)) st"
  have "fst (create_task S uuid ty res acc usr tid st) = (case map_of (tk_tasks st) i of
      Some _ \<Rightarrow> st
    | None \<Rightarrow> (case load_from_store S i (Some acc) (Some usr) st of
        Inl _ \<Rightarrow> st
      | Inr (Some t) \<Rightarrow> st\<lparr>tk_tasks := AList.update i t (tk_tasks st)\<rparr>
      | Inr None \<Rightarrow> fst ?new))"
    using assms(2,3) by (simp add: create_task_def Let_def split: option.split sum.split prod.split)
  then have "st' = (case map_of (tk_tasks st) i of
      Some _ \<Rightarrow> st
    | None \<Rightarrow> (case load_from_store S i (Some acc) (Some usr) st of
        Inl _ \<Rightarrow> st
      | Inr (Some t) \<Rightarrow> st\<lparr>tk_tasks := AList.update i t (tk_tasks st)\<rparr>
      | Inr None \<Rightarrow> fst ?new))"
    using assms(1) by simp
  then show ?thesis by (cases ?new) (simp split: option.splits sum.splits)
qed

lemma create_task_ok:
  assumes "create_task S uuid ty res acc usr tid st = (st', r)" "tracker_ok S sinv key_ok st"
    and "key_ok uuid (Some acc) (Some usr)" "ts_get S uuid (Some acc) (Some usr) (tk_store st) = Inr None"
    and "map_of (tk_tasks st) uuid = None"
    and "\<And>i. non_empty tid = Some i \<Longrightarrow> key_ok i (Some acc) (Some usr)"
  shows "tracker_ok S sinv key_ok st' \<and>
    (\<forall>i a u p. key_ok i a u \<longrightarrow> ts_get S i a u (tk_store st) = Inr (Some p) \<longrightarrow> terminal_payload p \<longrightarrow>
      ts_get S i a u (tk_store st') = Inr (Some p))"
proof -
  have fresh: "tracker_ok S sinv key_ok st1 \<and>
    (\<forall>i a u p. key_ok i a u \<longrightarrow> ts_get S i a u (tk_store st) = Inr (Some p) \<longrightarrow> terminal_payload p \<longrightarrow>
      ts_get S i a u (tk_store st1) = Inr (Some p))"
    if "store_and_cache S (new_task i ty res acc usr (tk_now st)) st = (st1, e)"
      "key_ok i (Some acc) (Some usr)" "ts_get S i (Some acc) (Some usr) (tk_store st) = Inr None"
      "map_of (tk_tasks st) i = None" for i st1 e
    using store_and_cache_ok [OF that(1) assms(2)] that(2-4) by (auto simp: task_at_def new_task_def)
  show ?thesis
  proof (cases "acc = [] \<or> usr = []")
    case True
    with assms(1,2) show ?thesis by (auto simp: create_task_def)
  next
    case False
    show ?thesis
    proof (cases "non_empty tid")
      case None
      with False assms(1) obtain e where
        "store_and_cache S (new_task uuid ty res acc usr (tk_now st)) st = (st', e)"
        by (auto simp: create_task_def Let_def split: prod.splits option.splits)
      from fresh [OF this assms(3,4,5)] show ?thesis .
    next
      case (Some i)
      note ko = assms(6) [OF Some]
      consider (cached) "st' = st"
        | (stored) t where "load_from_store S i (Some acc) (Some usr) st = Inr (Some t)"
            "st' = st\<lparr>tk_tasks := AList.update i t (tk_tasks st)\<rparr>"
        | (new) e where "load_from_store S i (Some acc) (Some usr) st = Inr None" "map_of (tk_tasks st) i = None"
            "store_and_cache S (new_task i ty res acc usr (tk_now st)) st = (st', e)"
        using create_task_named [OF assms(1) Some] False by blast
      then show ?thesis
      proof cases
        case cached
        with assms(2) show ?thesis by simp
      next
        case stored
        note g = load_from_store_Some [OF stored(1)]
        have "task_id t = i" "account_id t = Some acc" "user_id t = Some usr"
          using stored_key [OF assms(2) ko g] by simp_all
        with cache_ok [OF assms(2), of t "task_to_payload t"] g ko stored(2) show ?thesis
          by (simp add: task_at_def cache_task_def)
      next
        case new
        from fresh [OF new(3) ko _ new(2)] new(1) show ?thesis by (simp add: load_from_store_None)
      qed
    qed
  qed
qed

lemma cache_loaded_ok:
  assumes "load_all_from_store S a usr st = Inr ts" "tracker_ok S sinv key_ok st" "key_ok tid0 (Some a) usr"
  shows "tracker_ok S sinv key_ok (cache_all ts st)" "tk_store (cache_all ts st) = tk_store st"
    "tk_now (cache_all ts st) = tk_now st"
  using cache_all_ok [OF assms(2), of ts] load_all_ok [OF assms] by blast+

text \<open>After an owner's tasks are loaded, the cache has every one of the stored tasks.\<close>

lemma loaded_cached:
  assumes "load_all_from_store S a usr st = Inr ts" "tracker_ok S sinv key_ok st" "key_ok tid (Some a) usr"
    and "ts_get S tid (Some a) usr (tk_store st) = Inr (Some (task_to_payload t))"
  shows "map_of (tk_tasks (cache_all ts st)) tid = Some t"
proof -
  have t: "t \<in> set ts" by (rule load_all_complete [OF assms])
  have tid: "task_id t = tid"
    using stored_key [OF assms(2-4)] by simp
  have "t' = t" if "t' \<in> set ts" "task_id t' = tid" for t'
  proof -
    have "ts_get S tid (Some a) usr (tk_store st) = Inr (Some (task_to_payload t'))"
      using load_all_ok [OF assms(1-3)] that by (auto simp: task_at_def)
    with assms(4) have "record_from_payload (task_to_payload t') = record_from_payload (task_to_payload t)" by simp
    then show ?thesis by simp
  qed
  moreover obtain x where "find (\<lambda>x. task_id x = tid) (rev ts) = Some x"
    using t tid by (cases "find (\<lambda>x. task_id x = tid) (rev ts)") (auto simp: find_None_iff)
  ultimately have "find (\<lambda>x. task_id x = tid) (rev ts) = Some t" by (auto dest: find_SomeD)
  then show ?thesis by (simp add: cache_all_mem)
qed

lemma create_if_no_running_ok:
  assumes "create_if_no_running S uuid ty res acc usr st = (st', r)" "tracker_ok S sinv key_ok st"
    and "key_ok uuid (Some acc) (Some usr)" "ts_get S uuid (Some acc) (Some usr) (tk_store st) = Inr None"
    and "map_of (tk_tasks st) uuid = None"
  shows "tracker_ok S sinv key_ok st' \<and>
    (\<forall>i a u p. key_ok i a u \<longrightarrow> ts_get S i a u (tk_store st) = Inr (Some p) \<longrightarrow> terminal_payload p \<longrightarrow>
      ts_get S i a u (tk_store st') = Inr (Some p))"
proof (cases "acc = [] \<or> usr = [] \<or> (\<exists>e. load_all_from_store S acc (Some usr) st = Inl e)")
  case True
  then have "st' = st" using assms(1) by (auto simp: create_if_no_running_def split: if_splits)
  with assms(2) show ?thesis by simp
next
  case False
  then obtain ts where ld: "load_all_from_store S acc (Some usr) st = Inr ts" by (metis sum.exhaust)
  let ?st1 = "cache_all ts st"
  note c = cache_loaded_ok [OF ld assms(2,3)]
  have fresh: "map_of (tk_tasks ?st1) uuid = None"
  proof -
    have "task_id t \<noteq> uuid" if "t \<in> set ts" for t
      using load_all_ok [OF ld assms(2,3)] that assms(4) by (auto simp: task_at_def)
    then have "find (\<lambda>t. task_id t = uuid) (rev ts) = None" by (auto simp: find_None_iff)
    with assms(5) show ?thesis by (simp add: cache_all_mem)
  qed
  show ?thesis
  proof (cases "list_ex (\<lambda>(_, t). active_for ty (Some res) (Some acc) (Some usr) t) (tk_tasks ?st1)")
    case True
    with False ld assms(1) have "st' = ?st1" by (simp add: create_if_no_running_def Let_def)
    with c show ?thesis by simp
  next
    case noact: False
    obtain e where "store_and_cache S (new_task uuid ty (Some res) acc usr (tk_now ?st1)) ?st1 = (st', e)"
      using False noact ld assms(1)
      by (auto simp: create_if_no_running_def Let_def split: prod.splits option.splits)
    from store_and_cache_ok [OF this c(1)] assms(3,4) fresh c(2) show ?thesis
      by (auto simp: new_task_def task_at_def)
  qed
qed

lemma get_task_ok:
  assumes "get_task S tid acc usr st = (st', r)" "tracker_ok S sinv key_ok st"
    and "acc \<noteq> None \<Longrightarrow> key_ok tid acc usr"
  shows "tracker_ok S sinv key_ok st' \<and> tk_store st' = tk_store st"
proof (cases "map_of (tk_tasks st) tid = None \<and> acc \<noteq> None \<and>
    (\<exists>t. load_from_store S tid acc usr st = Inr (Some t))")
  case True
  then obtain t where t: "load_from_store S tid acc usr st = Inr (Some t)" by blast
  note g = load_from_store_Some [OF t]
  have k: "task_id t = tid" "account_id t = acc" "user_id t = usr"
    using stored_key [OF assms(2) _ g] assms(3) True by simp_all
  have "st' = cache_task t st" using assms(1) True t by (auto simp: get_task_def)
  with cache_ok [OF assms(2), of t "task_to_payload t"] k g assms(3) True show ?thesis
    by (simp add: task_at_def)
next
  case False
  with assms(1) have "st' = st"
    by (auto simp: get_task_def split: option.splits if_splits sum.splits)
  with assms(2) show ?thesis by simp
qed

lemma refresh_owner_ok:
  assumes "refresh_owner S acc usr st = Inr st'" "tracker_ok S sinv key_ok st"
    and "acc \<noteq> None \<Longrightarrow> \<exists>tid. key_ok tid acc usr"
  shows "tracker_ok S sinv key_ok st' \<and> tk_store st' = tk_store st"
proof (cases acc)
  case None
  with assms(1,2) show ?thesis by (simp add: refresh_owner_def)
next
  case (Some a)
  with assms(1) obtain ts where "load_all_from_store S a usr st = Inr ts" "st' = cache_all ts st"
    by (auto simp: refresh_owner_def split: sum.splits)
  with assms(2,3) Some cache_loaded_ok show ?thesis by blast
qed

end

text \<open>Restricting the cache, and the passing of time.\<close>

lemma map_of_filter_keys:
  "distinct (map fst xs) \<Longrightarrow> map_of (filter P xs) k = Some v \<Longrightarrow> map_of xs k = Some v"
  by (induction xs) (force split: if_splits dest: map_of_SomeD)+

lemma restrict_ok:
  assumes "tracker_ok S sinv key_ok st"
  shows "tracker_ok S sinv key_ok (st\<lparr>tk_tasks := filter P (tk_tasks st)\<rparr>)"
proof -
  let ?st = "st\<lparr>tk_tasks := filter P (tk_tasks st)\<rparr>"
  have d: "distinct (map fst (tk_tasks st))" using assms by (simp add: tracker_ok_def)
  have "task_id t = k \<and> key_ok k (account_id t) (user_id t) \<and>
      (\<exists>p. task_at S ?st t = Inr (Some p) \<and> (p = task_to_payload t \<or> \<not> terminal_payload p))"
    if "map_of (tk_tasks ?st) k = Some t" for k t
  proof -
    have "map_of (tk_tasks st) k = Some t" using map_of_filter_keys [OF d, of P k t] that by simp
    from cached_stored [OF assms this] obtain p where "task_id t = k" "key_ok k (account_id t) (user_id t)"
      "task_at S st t = Inr (Some p)" "p = task_to_payload t \<or> \<not> terminal_payload p" by blast
    then show ?thesis by (auto simp: task_at_def)
  qed
  moreover have "distinct (map fst (tk_tasks ?st))" using d by (simp add: distinct_map_filter)
  ultimately show ?thesis using assms unfolding tracker_ok_def by simp
qed

lemma evict_filter: "\<exists>P. evict_expired st = st\<lparr>tk_tasks := filter P (tk_tasks st)\<rparr>"
  by (auto simp: evict_expired_def Let_def)

lemma evict_ok: "tracker_ok S sinv key_ok st \<Longrightarrow> tracker_ok S sinv key_ok (evict_expired st)"
  using evict_filter [of st] restrict_ok by metis

section \<open>Runs of the tracker\<close>

text \<open>Every operation, on well-formed keys and with an id from \<^verbatim>\<open>uuid4\<close> that no task of the owner has,
  a round of the cleanup loop and the passing of time.\<close>

inductive tk_step ::
    "'s task_store \<Rightarrow> (string \<Rightarrow> string option \<Rightarrow> string option \<Rightarrow> bool) \<Rightarrow> 's tracker \<Rightarrow> 's tracker \<Rightarrow> bool"
  for S key_ok where
  create: "key_ok uuid (Some acc) (Some usr) \<Longrightarrow> ts_get S uuid (Some acc) (Some usr) (tk_store st) = Inr None \<Longrightarrow>
    map_of (tk_tasks st) uuid = None \<Longrightarrow> (\<And>i. non_empty tid = Some i \<Longrightarrow> key_ok i (Some acc) (Some usr)) \<Longrightarrow>
    tk_step S key_ok st (fst (create_task S uuid ty res acc usr tid st))"
| create_if: "key_ok uuid (Some acc) (Some usr) \<Longrightarrow> ts_get S uuid (Some acc) (Some usr) (tk_store st) = Inr None \<Longrightarrow>
    map_of (tk_tasks st) uuid = None \<Longrightarrow>
    tk_step S key_ok st (fst (create_if_no_running S uuid ty rid acc usr st))"
| start: "(a \<noteq> None \<Longrightarrow> u \<noteq> None \<Longrightarrow> key_ok tid a u) \<Longrightarrow> tk_step S key_ok st (fst (start_task S tid a u stg st))"
| stage: "(a \<noteq> None \<Longrightarrow> u \<noteq> None \<Longrightarrow> key_ok tid a u) \<Longrightarrow> tk_step S key_ok st (fst (update_stage S tid g a u st))"
| complete: "(a \<noteq> None \<Longrightarrow> u \<noteq> None \<Longrightarrow> key_ok tid a u) \<Longrightarrow>
    tk_step S key_ok st (fst (complete_task S tid out a u orid st))"
| fail: "(a \<noteq> None \<Longrightarrow> u \<noteq> None \<Longrightarrow> key_ok tid a u) \<Longrightarrow> tk_step S key_ok st (fst (fail_task S tid err a u st))"
| get: "(a \<noteq> None \<Longrightarrow> key_ok tid a u) \<Longrightarrow> tk_step S key_ok st (fst (get_task S tid a u st))"
| listing: "(a \<noteq> None \<Longrightarrow> \<exists>tid. key_ok tid a u) \<Longrightarrow> tk_step S key_ok st (fst (list_tasks S oty osts orid lim a u st))"
| running: "(a \<noteq> None \<Longrightarrow> \<exists>tid. key_ok tid a u) \<Longrightarrow> tk_step S key_ok st (fst (has_running S ty rid a u st))"
| evict: "tk_step S key_ok st (evict_expired st)"
| tick: "tk_step S key_ok st (st\<lparr>tk_now := n\<rparr>)"

inductive tk_run ::
    "'s task_store \<Rightarrow> (string \<Rightarrow> string option \<Rightarrow> string option \<Rightarrow> bool) \<Rightarrow> 's tracker \<Rightarrow> 's tracker \<Rightarrow> bool"
  for S key_ok st0 where
  start: "tk_run S key_ok st0 st0"
| step: "tk_run S key_ok st0 st \<Longrightarrow> tk_step S key_ok st st' \<Longrightarrow> tk_run S key_ok st0 st'"

text \<open>The state a listing leaves, whether or not the store could be read.\<close>

definition refreshed :: "'s task_store \<Rightarrow> string option \<Rightarrow> string option \<Rightarrow> 's tracker \<Rightarrow> 's tracker" where
  "refreshed S acc usr st = (case refresh_owner S acc usr st of Inl _ \<Rightarrow> st | Inr st1 \<Rightarrow> st1)"

context task_store_laws
begin

lemma refreshed_ok:
  assumes "tracker_ok S sinv key_ok st" and "acc \<noteq> None \<Longrightarrow> \<exists>tid. key_ok tid acc usr"
  shows "tracker_ok S sinv key_ok (refreshed S acc usr st) \<and> tk_store (refreshed S acc usr st) = tk_store st"
proof (cases "refresh_owner S acc usr st")
  case (Inl e)
  then show ?thesis using assms(1) by (simp add: refreshed_def)
next
  case (Inr st1)
  then have "refreshed S acc usr st = st1" by (simp add: refreshed_def)
  then show ?thesis using refresh_owner_ok [OF Inr assms(1)] assms(2) by simp
qed

lemma step_ok:
  assumes "tk_step S key_ok st st'" "tracker_ok S sinv key_ok st"
  shows "tracker_ok S sinv key_ok st' \<and>
    (\<forall>i a u p. key_ok i a u \<longrightarrow> ts_get S i a u (tk_store st) = Inr (Some p) \<longrightarrow> terminal_payload p \<longrightarrow>
      ts_get S i a u (tk_store st') = Inr (Some p))"
  using assms
proof (induction rule: tk_step.induct)
  case (create uuid acc usr st tid ty res)
  show ?case
    by (rule create_task_ok [OF prod.collapse [symmetric] create.prems create.hyps(1-3)]) (rule create.hyps(4))
next
  case (create_if uuid acc usr st ty rid)
  show ?case
    by (rule create_if_no_running_ok [OF prod.collapse [symmetric] create_if.prems create_if.hyps])
next
  case (start a u tid st stg)
  show ?case
    unfolding start_task_def
    by (rule update_task_ok [OF prod.collapse [symmetric] start.prems])
      (simp split: option.split, rule start.hyps)
next
  case (stage a u tid st g)
  show ?case
    unfolding update_stage_def
    by (rule update_task_ok [OF prod.collapse [symmetric] stage.prems]) (simp, rule stage.hyps)
next
  case (complete a u tid st out orid)
  show ?case
    unfolding complete_task_def
    by (rule update_task_ok [OF prod.collapse [symmetric] complete.prems])
      (simp add: Let_def split: option.split, rule complete.hyps)
next
  case (fail a u tid st err)
  show ?case
    unfolding fail_task_def
    by (rule update_task_ok [OF prod.collapse [symmetric] fail.prems]) (simp, rule fail.hyps)
next
  case (get a tid u st)
  have "tracker_ok S sinv key_ok (fst (get_task S tid a u st)) \<and>
      tk_store (fst (get_task S tid a u st)) = tk_store st"
    by (rule get_task_ok [OF prod.collapse [symmetric] get.prems get.hyps])
  then show ?case by simp
next
  case (listing a u st oty osts orid lim)
  have "fst (list_tasks S oty osts orid lim a u st) = refreshed S a u st"
    by (simp add: list_tasks_def refreshed_def Let_def split: sum.split)
  then show ?case using refreshed_ok [OF listing.prems listing.hyps] by simp
next
  case (running a u st ty rid)
  have "fst (has_running S ty rid a u st) = refreshed S a u st"
    by (simp add: has_running_def refreshed_def split: sum.split)
  then show ?case using refreshed_ok [OF running.prems running.hyps] by simp
next
  case (evict st)
  have "tk_store (evict_expired st) = tk_store st" by (simp add: evict_expired_def Let_def)
  with evict_ok [OF evict] show ?case by simp
next
  case (tick st n)
  then show ?case by simp
qed

lemma run_ok:
  assumes "tk_run S key_ok st0 st" "tracker_ok S sinv key_ok st0"
  shows "tracker_ok S sinv key_ok st \<and>
    (\<forall>i a u p. key_ok i a u \<longrightarrow> ts_get S i a u (tk_store st0) = Inr (Some p) \<longrightarrow> terminal_payload p \<longrightarrow>
      ts_get S i a u (tk_store st) = Inr (Some p))"
  using assms by (induction rule: tk_run.induct) (use step_ok in blast)+

end

end
