(* ===== verification/Sanitize_Facts.thy ===== *)
theory Sanitize_Facts
  imports Task_Tracker
begin

text \<open>
  What the sanitisers of the task tracker remove: \<open>redact\<close> leaves no match of the secret pattern, and the
  copies handed out carry no sensitive key at any depth.
\<close>

section \<open>Secrets in error messages\<close>

text \<open>The texts an alternative of the pattern matches before the token.\<close>

definition secret_start :: "string \<Rightarrow> bool" where
  "secret_start q \<longleftrightarrow>
     map lower_char q \<in> set secret_literals \<or>
     (map lower_char (take 6 q) = ''bearer'' \<and> drop 6 q \<noteq> [] \<and> list_all py_space (drop 6 q))"

lemma token_not_space: "token_char c \<Longrightarrow> \<not> py_space c"
  by (auto simp: token_char_def ascii_alnum_def py_space_def Let_def)

lemma lower_bracket: "lower_char c = CHR ''['' \<longleftrightarrow> c = CHR ''[''"
  by (auto simp: lower_char_def less_eq_char_def dest!: arg_cong [where f = "of_char :: char \<Rightarrow> nat"])

lemma lower_bracket_mem: "CHR ''['' \<in> set q \<Longrightarrow> CHR ''['' \<in> set (map lower_char q)"
  by (metis image_eqI list.set_map lower_bracket)

lemma secret_prefix_start:
  assumes "secret_prefix s = Some n" "n \<le> length s"
  shows "secret_start (take n s)"
proof (cases "find (\<lambda>p. py_startswith (map lower_char s) p) secret_literals")
  case (Some p)
  with assms(1) have "n = length p" by (simp add: secret_prefix_def)
  with find_SomeD [OF Some] show ?thesis
    by (simp add: secret_start_def py_startswith_def take_map)
next
  case None
  let ?ws = "takeWhile py_space (drop 6 s)"
  from None assms(1) have b: "py_startswith (map lower_char s) ''bearer''" "?ws \<noteq> []" "n = 6 + length ?ws"
    by (auto simp: secret_prefix_def Let_def split: if_splits)
  from b(3) have "drop 6 (take n s) = ?ws"
    by (simp add: drop_take takeWhile_eq_take [symmetric])
  moreover have "list_all py_space ?ws" by (auto simp: list_all_iff dest: set_takeWhileD)
  moreover have "map lower_char (take 6 (take n s)) = ''bearer''"
    using b(1,3) by (simp add: py_startswith_def take_map min_def eval_nat_numeral)
  ultimately show ?thesis using b(2) by (simp add: secret_start_def)
qed

lemma find_literal:
  "l \<in> set secret_literals \<Longrightarrow> find (\<lambda>p. py_startswith (l @ r) p) secret_literals = Some l"
  unfolding secret_literals_def
  by (simp only: list.set insert_iff empty_iff simp_thms) (elim disjE, simp_all add: py_startswith_def)

lemma literal_bracket: "l \<in> set secret_literals \<Longrightarrow> CHR ''['' \<notin> set l"
  unfolding secret_literals_def
  by (simp only: list.set insert_iff empty_iff simp_thms) (elim disjE, simp_all)

lemma secret_start_prefix:
  assumes "secret_start q" "token_char x"
  shows "secret_prefix (q @ x # ys) = Some (length q)"
proof (cases "map lower_char q \<in> set secret_literals")
  case True
  then have "find (\<lambda>p. py_startswith (map lower_char (q @ x # ys)) p) secret_literals = Some (map lower_char q)"
    by (simp only: map_append find_literal)
  then show ?thesis by (simp add: secret_prefix_def)
next
  case False
  with assms(1) have b: "map lower_char (take 6 q) = ''bearer''" "drop 6 q \<noteq> []" "list_all py_space (drop 6 q)"
    by (auto simp: secret_start_def)
  have q: "q = take 6 q @ drop 6 q" "6 \<le> length q" using b(2) by auto
  have s: "map lower_char (q @ x # ys) = ''bearer'' @ map lower_char (drop 6 q @ x # ys)"
    using b(1) by (metis append.assoc append_take_drop_id map_append)
  have "find (\<lambda>p. py_startswith (map lower_char (q @ x # ys)) p) secret_literals = None"
    unfolding s by (simp add: secret_literals_def py_startswith_def)
  moreover have "takeWhile py_space (drop 6 (q @ x # ys)) = drop 6 q"
    using b(3) q(2) token_not_space [OF assms(2)] by (simp add: list_all_iff takeWhile_tail)
  moreover have "py_startswith (map lower_char (q @ x # ys)) ''bearer''"
    unfolding s by (rule startswith_append)
  ultimately show ?thesis using b(2) q(2) by (simp add: secret_prefix_def)
qed

lemma match_secret_iff:
  "match_secret s \<noteq> None \<longleftrightarrow> (\<exists>q x ys. s = q @ x # ys \<and> secret_start q \<and> token_char x)"
proof
  assume "match_secret s \<noteq> None"
  then obtain n where n: "secret_prefix s = Some n" "takeWhile token_char (drop n s) \<noteq> []"
    by (auto simp: match_secret_def Let_def split: option.splits if_splits)
  then have l: "n < length s" by (metis drop_all linorder_not_less takeWhile.simps(1))
  have "token_char (s ! n)"
    using n(2) l by (simp add: Cons_nth_drop_Suc [symmetric] split: if_splits)
  with secret_prefix_start [OF n(1)] l id_take_nth_drop [OF l]
  show "\<exists>q x ys. s = q @ x # ys \<and> secret_start q \<and> token_char x" by (metis less_imp_le)
next
  assume "\<exists>q x ys. s = q @ x # ys \<and> secret_start q \<and> token_char x"
  then show "match_secret s \<noteq> None"
    by (auto simp: match_secret_def secret_start_prefix)
qed

lemma secret_start_bracket: "secret_start q \<Longrightarrow> CHR ''['' \<notin> set q"
proof
  assume a: "secret_start q" "CHR ''['' \<in> set q"
  show False
  proof (cases "map lower_char q \<in> set secret_literals")
    case True
    have "CHR ''['' \<in> set (map lower_char q)" using a(2) by (rule lower_bracket_mem)
    with True literal_bracket show False by blast
  next
    case False
    with a(1) have b: "map lower_char (take 6 q) = ''bearer''" "list_all py_space (drop 6 q)"
      by (auto simp: secret_start_def)
    from a(2) have "CHR ''['' \<in> set (take 6 q) \<or> CHR ''['' \<in> set (drop 6 q)"
      by (metis Un_iff append_take_drop_id set_append)
    then show False
    proof
      assume "CHR ''['' \<in> set (take 6 q)"
      then have "CHR ''['' \<in> set (map lower_char (take 6 q))" by (rule lower_bracket_mem)
      with b(1) show False by (simp only:) simp
    next
      assume "CHR ''['' \<in> set (drop 6 q)"
      with b(2) show False by (auto simp: list_all_iff py_space_def)
    qed
  qed
qed

lemma match_secret_mono: "match_secret (a @ b) = None \<Longrightarrow> match_secret a = None"
  using match_secret_iff [of a] match_secret_iff [of "a @ b"] by (metis append.assoc append_Cons)

lemma match_secret_cut: "match_secret a = None \<Longrightarrow> match_secret (a @ CHR ''['' # r) = None"
proof (rule ccontr)
  assume a: "match_secret a = None" "match_secret (a @ CHR ''['' # r) \<noteq> None"
  then obtain q x ys where q: "a @ CHR ''['' # r = q @ x # ys" "secret_start q" "token_char x"
    using match_secret_iff by metis
  have n: "CHR ''['' \<notin> set (q @ [x])"
    using secret_start_bracket [OF q(2)] q(3) by (auto simp: token_char_def ascii_alnum_def)
  have "a @ CHR ''['' # r = (q @ [x]) @ ys" using q(1) by simp
  then obtain us where "a = (q @ [x]) @ us"
    using n by (auto simp only: append_eq_append_conv2 Cons_eq_append_conv set_append) (auto simp: append_eq_Cons_conv)
  with q(2,3) have "match_secret a \<noteq> None" using match_secret_iff by (metis append.assoc append_Cons append_Nil)
  with a(1) show False by simp
qed

lemma redact_Nil [simp]: "redact [] = []"
  by (simp add: redact.simps)

lemma redact_keep: "match_secret (c # cs) = None \<Longrightarrow> redact (c # cs) = c # redact cs"
  by (subst redact.simps) simp

lemma redact_drop: "match_secret (c # cs) = Some n \<Longrightarrow> redact (c # cs) = ''[REDACTED]'' @ redact (drop (n - 1) cs)"
  by (subst redact.simps) simp

text \<open>Up to its first replacement the result is the text itself.\<close>

lemma redact_shape: "\<exists>a b. s = a @ b \<and> (redact s = a \<or> (\<exists>r. redact s = a @ CHR ''['' # r))"
proof (induction s rule: redact.induct)
  case (1 s)
  show ?case
  proof (cases s)
    case (Cons c cs)
    show ?thesis
    proof (cases "match_secret s")
      case None
      with 1(1) [OF Cons] Cons obtain a b where "cs = a @ b" "redact cs = a \<or> (\<exists>r. redact cs = a @ CHR ''['' # r)"
        by blast
      with None Cons have "s = (c # a) @ b \<and> (redact s = c # a \<or> (\<exists>r. redact s = (c # a) @ CHR ''['' # r))"
        by (auto simp: redact_keep)
      then show ?thesis by blast
    next
      case (Some n)
      then have "s = [] @ s" "redact s = [] @ CHR ''['' # (''REDACTED]'' @ redact (drop (n - 1) cs))"
        using Cons by (simp_all add: redact_drop)
      then show ?thesis by blast
    qed
  qed simp
qed

lemma lower_redacted: "map lower_char ''[REDACTED]'' = ''[redacted]''"
  by code_simp

lemma redacted_text_clean:
  assumes "i < 10"
  shows "match_secret (drop i ''[REDACTED]'' @ r) = None"
proof -
  have e: "map lower_char (drop i ''[REDACTED]'' @ r) = drop i ''[redacted]'' @ map lower_char r"
    by (simp only: map_append drop_map [symmetric] lower_redacted)
  have "i = 0 \<or> i = 1 \<or> i = 2 \<or> i = 3 \<or> i = 4 \<or> i = 5 \<or> i = 6 \<or> i = 7 \<or> i = 8 \<or> i = 9"
    using assms by arith
  then have "secret_prefix (drop i ''[REDACTED]'' @ r) = None"
    unfolding secret_prefix_def e by (elim disjE) (simp_all add: secret_literals_def py_startswith_def)
  then show ?thesis by (simp add: match_secret_def)
qed

lemma redact_clean: "match_secret (drop i (redact s)) = None"
proof (induction s arbitrary: i rule: redact.induct)
  case (1 s)
  show ?case
  proof (cases s)
    case Nil
    then show ?thesis by (simp add: match_secret_def secret_prefix_def secret_literals_def py_startswith_def)
  next
    case (Cons c cs)
    show ?thesis
    proof (cases "match_secret s")
      case None
      have "match_secret (c # redact cs) = None"
      proof -
        obtain a b where a: "cs = a @ b" "redact cs = a \<or> (\<exists>r. redact cs = a @ CHR ''['' # r)"
          using redact_shape [of cs] by blast
        have "match_secret (c # a) = None"
          using match_secret_mono [of "c # a" b] None Cons a(1) by simp
        with a(2) match_secret_cut [of "c # a"] show ?thesis by auto
      qed
      with 1(1) [OF Cons None] Cons None show ?thesis by (cases i) (auto simp: redact_keep)
    next
      case (Some n)
      with Cons have r: "redact s = ''[REDACTED]'' @ redact (drop (n - 1) cs)" by (simp add: redact_drop)
      show ?thesis
      proof (cases "i < 10")
        case True
        with redacted_text_clean [OF True] show ?thesis unfolding r by (simp only: drop_append)
      next
        case False
        then have "drop i (redact s) = drop (i - 10) (redact (drop (n - 1) cs))" unfolding r drop_append by (simp add: eval_nat_numeral)
        with 1(2) [OF Cons Some] show ?thesis by simp
      qed
    qed
  qed
qed

section \<open>Sensitive keys in results\<close>

fun mentions_key :: "string \<Rightarrow> json \<Rightarrow> bool" where
  "mentions_key k (JObj kvs) \<longleftrightarrow> list_ex (\<lambda>(k', v). k' = k \<or> mentions_key k v) kvs"
| "mentions_key k (JList vs) \<longleftrightarrow> list_ex (mentions_key k) vs"
| "mentions_key k v \<longleftrightarrow> False"

lemma sanitize_task_result_clean: "k \<in> set SENSITIVE_RESULT_KEYS \<Longrightarrow> \<not> mentions_key k (sanitize_task_result v)"
  by (induction v rule: sanitize_task_result.induct) (auto simp: list_ex_iff)

lemma sanitize_task_result_idem [simp]:
  "sanitize_task_result (sanitize_task_result v) = sanitize_task_result v"
  by (induction v rule: sanitize_task_result.induct) (force simp: filter_map comp_def case_prod_unfold)+

lemma sanitize_task_result_same:
  "\<forall>k \<in> set SENSITIVE_RESULT_KEYS. \<not> mentions_key k v \<Longrightarrow> sanitize_task_result v = v"
proof (induction v rule: sanitize_task_result.induct)
  case (1 kvs)
  then have "filter (\<lambda>(k, v). k \<notin> set SENSITIVE_RESULT_KEYS) kvs = kvs"
    by (fastforce simp: list_ex_iff filter_id_conv)
  moreover have "map (\<lambda>(k, v). (k, sanitize_task_result v)) kvs = kvs"
    using 1 calculation by (intro map_idI) (fastforce simp: list_ex_iff)
  ultimately show ?case by simp
next
  case (2 vs)
  then show ?case by (auto simp: list_ex_iff intro: map_idI)
qed simp_all

end
