(* ===== verification/Task_Tracker_Props.thy ===== *)
theory Task_Tracker_Props
  imports Task_Tracker_Facts Sanitize_Facts
begin

text \<open>
  The properties of the task tracker over the persistent task store, with their witnesses.
\<close>

section \<open>Consequences of the agreement of cache and store\<close>

text \<open>A new store: the directory \<^verbatim>\<open>/local\<close> (the mount point) and nothing in it.\<close>

definition mem_local :: memfs where
  "mem_local = [(''/'', DirEntry), (''/local'', DirEntry)]"

definition empty_tracker :: "int \<Rightarrow> memfs tracker" where
  "empty_tracker n = \<lparr>tk_store = mem_local, tk_tasks = [], tk_now = n\<rparr>"

abbreviation mem_store ::
    "(task_payload \<Rightarrow> string) \<Rightarrow> (string \<Rightarrow> task_payload option) \<Rightarrow> (agfs_error \<Rightarrow> string) \<Rightarrow> memfs task_store" where
  "mem_store dumps loads et \<equiv> persistent_store (mem_pts dumps loads et)"

lemma mem_local_inv: "mem_inv mem_local"
  by (auto simp: mem_inv_def mem_local_def check_parent_def parent_path_def normalize_path_def py_startswith_def
      py_endswith_def)

lemma empty_store_get: "task_key_ok i a u \<Longrightarrow> ts_get (mem_store du lo et) i a u mem_local = Inr None"
proof -
  assume "task_key_ok i a u"
  then obtain b v where k: "a = Some b" "u = Some v" "entry_name b" "entry_name v" "CHR ''/'' \<notin> set i"
    by (auto simp: task_key_ok_def split: option.splits)
  have "length (py_split CHR ''/'' (task_file b v i)) > 2"
    using split_file [of b v i] k(3-5) by (auto simp: entry_name_def system_segs_def)
  then have "task_file b v i \<noteq> ''/''" "task_file b v i \<noteq> ''/local''" by auto
  moreover have "normalize_path (task_file b v i) = task_file b v i" using normalize_dirs [OF k(3,4)] by auto
  ultimately have "mem_read mem_local (task_file b v i) = Inl (NotFound (task_file b v i))"
    by (simp add: mem_read_def mem_local_def Let_def)
  with k show ?thesis by (simp add: persistent_store_def get_read)
qed

lemma empty_tracker_ok: "tracker_ok (mem_store du lo et) mem_inv task_key_ok (empty_tracker n)"
  by (auto simp: tracker_ok_def empty_tracker_def empty_store_get mem_local_inv)

lemma terminal_payload_record: "terminal_payload p \<Longrightarrow> \<exists>t. p = task_to_payload t"
proof -
  assume "terminal_payload p"
  then obtain t where "record_from_payload p = Some t"
    by (auto simp: terminal_payload_def record_from_payload_def status_of_value_def)
  then show ?thesis using record_from_payload_Some by metis
qed

text \<open>What a lookup answers about a finished task.\<close>

lemma get_finished:
  assumes "tracker_ok S sinv key_ok st" "ts_get S tid (Some a) (Some u) (tk_store st) = Inr (Some (task_to_payload t))"
    and "key_ok tid (Some a) (Some u)" "terminal (status t)"
    and "\<forall>t'. map_of (tk_tasks st) tid = Some t' \<longrightarrow> account_id t' = Some a \<and> user_id t' = Some u"
  shows "snd (get_task S tid (Some a) (Some u) st) = Inr (Some (copy_task t))"
proof (cases "map_of (tk_tasks st) tid")
  case None
  have "load_from_store S tid (Some a) (Some u) st = Inr (Some t)" using assms(2) by (simp add: load_from_store_def)
  moreover have "account_id t = Some a" "user_id t = Some u" using stored_key [OF assms(1,3,2)] by simp_all
  ultimately show ?thesis using None by (simp add: get_task_def matches_owner_def)
next
  case (Some t')
  from cached_stored [OF assms(1) Some] obtain p where "task_id t' = tid" "task_at S st t' = Inr (Some p)"
    "p = task_to_payload t' \<or> \<not> terminal_payload p" by blast
  moreover have o: "account_id t' = Some a" "user_id t' = Some u" using assms(5) Some by auto
  ultimately have "task_to_payload t = task_to_payload t'" using assms(2,4) by (auto simp: task_at_def)
  then have "t' = t" by (metis option.inject payload_round_trip)
  with Some o show ?thesis by (simp add: get_task_def matches_owner_def)
qed

context json_codec
begin

lemma persistent_laws: "task_store_laws (mem_store dumps loads err_text) mem_inv task_key_ok"
  by (rule tasks.task_store_laws_axioms)

end

lemma codec_run:
  assumes "\<forall>p. loads (dumps p) = Some p" "tk_run (mem_store dumps loads et) task_key_ok st0 st"
    and "tracker_ok (mem_store dumps loads et) mem_inv task_key_ok st0"
  shows "tracker_ok (mem_store dumps loads et) mem_inv task_key_ok st"
    "task_key_ok i a u \<Longrightarrow> ts_get (mem_store dumps loads et) i a u (tk_store st0) = Inr (Some p) \<Longrightarrow>
     terminal_payload p \<Longrightarrow> ts_get (mem_store dumps loads et) i a u (tk_store st) = Inr (Some p)"
proof -
  have c: "json_codec dumps loads" using assms(1) by unfold_locales blast
  from task_store_laws.run_ok [OF json_codec.persistent_laws [OF c] assms(2,3)] show
    "tracker_ok (mem_store dumps loads et) mem_inv task_key_ok st"
    "task_key_ok i a u \<Longrightarrow> ts_get (mem_store dumps loads et) i a u (tk_store st0) = Inr (Some p) \<Longrightarrow>
     terminal_payload p \<Longrightarrow> ts_get (mem_store dumps loads et) i a u (tk_store st) = Inr (Some p)"
    by blast+
qed

section \<open>Finished tasks\<close>

text \<open>Property C33 (safety): a task that has finished stays finished, with the same result or error, for
  good.  Over the persistent store on the in-memory plugin, from any state the tracker reaches from an
  empty store and through any further calls, failed writes and evictions from the cache included, the
  stored payload never changes, and its owner's \<^verbatim>\<open>get\<close> returns it (unless the cache, keyed by the task
  id alone, holds a task of the same id of another owner).  The one assumption on JSON is that
  \<^verbatim>\<open>loads\<close> reads back what \<^verbatim>\<open>dumps\<close> wrote.\<close>

theorem finished_task_final:
  assumes "\<forall>p. loads (dumps p) = Some p"
    and "tk_run (mem_store dumps loads et) task_key_ok (empty_tracker n) st"
    and "task_key_ok tid (Some a) (Some u)"
    and "ts_get (mem_store dumps loads et) tid (Some a) (Some u) (tk_store st) = Inr (Some p)"
    and "p_status p = ''completed'' \<or> p_status p = ''failed''"
    and "tk_run (mem_store dumps loads et) task_key_ok st st'"
  shows "ts_get (mem_store dumps loads et) tid (Some a) (Some u) (tk_store st') = Inr (Some p) \<and>
    (\<exists>t. p = task_to_payload t \<and>
      ((\<forall>t'. map_of (tk_tasks st') tid = Some t' \<longrightarrow> account_id t' = Some a \<and> user_id t' = Some u) \<longrightarrow>
       snd (get_task (mem_store dumps loads et) tid (Some a) (Some u) st') = Inr (Some (copy_task t))))"
proof -
  have fin: "terminal_payload p" using assms(5) by (simp add: terminal_payload_def)
  then obtain t where t: "p = task_to_payload t" using terminal_payload_record by blast
  note ok = codec_run(1) [OF assms(1,2) empty_tracker_ok]
  note ok' = codec_run(1) [OF assms(1,6) ok]
  have g: "ts_get (mem_store dumps loads et) tid (Some a) (Some u) (tk_store st') = Inr (Some p)"
    by (rule codec_run(2) [OF assms(1,6) ok assms(3,4) fin])
  from get_finished [OF ok' g [unfolded t] assms(3)] fin t g show ?thesis by auto
qed

text \<open>A store on which the tracker can be run by simplification, with the encoding kept symbolic.\<close>

definition demo_store :: "memfs task_store" where
  "demo_store = mem_store unary_dumps unary_loads (\<lambda>e. [])"

definition demo_task :: "int \<Rightarrow> task_record" where
  "demo_task n = new_task ''t1'' ''commit'' (Some ''s1'') ''acc'' ''usr'' n"

definition demo_finished :: task_record where
  "demo_finished = (demo_task 0)\<lparr>status := COMPLETED, stage := Some ''completed'', result := Some JNull\<rparr>"

definition demo_fs :: "task_record \<Rightarrow> memfs" where
  "demo_fs t =
     [(''/'', DirEntry), (''/local'', DirEntry), (''/local/acc'', DirEntry), (''/local/acc/_system'', DirEntry),
      (''/local/acc/_system/tasks'', DirEntry), (''/local/acc/_system/tasks/usr'', DirEntry),
      (''/local/acc/_system/tasks/usr/t1.json'', FileData (unary_dumps (task_to_payload t)))]"

definition demo_tracker :: "task_record \<Rightarrow> memfs tracker" where
  "demo_tracker t = \<lparr>tk_store = demo_fs t, tk_tasks = [(''t1'', t)], tk_now = 0\<rparr>"

lemmas task_eval =
  demo_store_def empty_tracker_def create_task_def store_and_cache_def persistent_store_def write_task_def
  non_empty_def ensure_task_dir_def mkdir_if_missing_def mem_pts_def mem_agfs_def mem_mkdir_def mem_local_def
  Let_def normalize_path_def account_dir_def system_dir_def task_root_dir_def task_dir_def task_file_def
  SYSTEM_TASK_ACCOUNT_ID_def py_startswith_def py_endswith_def check_parent_def parent_path_def mem_write_def
  mem_read_def cache_task_def demo_fs_def demo_tracker_def store_get_def read_payload_def

lemma demo_create:
  "create_task demo_store ''t1'' ''commit'' (Some ''s1'') ''acc'' ''usr'' None (empty_tracker 0) =
     (demo_tracker (demo_task 0), Inr (copy_task (demo_task 0)))"
  by (simp add: task_eval demo_task_def new_task_def)

lemma demo_complete:
  "complete_task demo_store ''t1'' (Some JNull) (Some ''acc'') (Some ''usr'') None (demo_tracker (demo_task 0)) =
     (demo_tracker demo_finished, None)"
  by (simp add: task_eval complete_task_def update_task_def load_for_update_def demo_task_def new_task_def
      demo_finished_def matches_owner_def terminal_def)

lemma demo_get:
  "ts_get demo_store ''t1'' (Some ''acc'') (Some ''usr'') (demo_fs t) = Inr (Some (task_to_payload t))"
  using unary.loads_dumps by (simp add: task_eval)

lemma demo_key: "task_key_ok ''t1'' (Some ''acc'') (Some ''usr'')"
  by (simp add: task_key_ok_def entry_name_def)

lemma demo_run:
  "tk_run demo_store task_key_ok (empty_tracker 0) (demo_tracker (demo_task 0))"
  "tk_run demo_store task_key_ok (empty_tracker 0) (demo_tracker demo_finished)"
proof -
  have "tk_step demo_store task_key_ok (empty_tracker 0)
      (fst (create_task demo_store ''t1'' ''commit'' (Some ''s1'') ''acc'' ''usr'' None (empty_tracker 0)))"
    by (rule tk_step.create)
      (use demo_key empty_store_get [OF demo_key] in \<open>auto simp: demo_store_def empty_tracker_def non_empty_def\<close>)
  then show one: "tk_run demo_store task_key_ok (empty_tracker 0) (demo_tracker (demo_task 0))"
    using tk_run.step [OF tk_run.start] demo_create by (metis fst_conv)
  have "tk_step demo_store task_key_ok (demo_tracker (demo_task 0))
      (fst (complete_task demo_store ''t1'' (Some JNull) (Some ''acc'') (Some ''usr'') None
        (demo_tracker (demo_task 0))))"
    by (rule tk_step.complete) (rule demo_key)
  then show "tk_run demo_store task_key_ok (empty_tracker 0) (demo_tracker demo_finished)"
    using tk_run.step [OF one] demo_complete by (metis fst_conv)
qed

theorem finished_task_final_witness:
  "tk_run demo_store task_key_ok (empty_tracker 0) (demo_tracker demo_finished) \<and>
   snd (get_task demo_store ''t1'' (Some ''acc'') (Some ''usr'') ((demo_tracker demo_finished)\<lparr>tk_tasks := []\<rparr>)) =
     Inr (Some (copy_task demo_finished))"
proof -
  let ?st = "demo_tracker demo_finished"
  have "evict_expired (?st\<lparr>tk_now := 100000\<rparr>) = ?st\<lparr>tk_now := 100000, tk_tasks := []\<rparr>"
    by (simp add: evict_expired_def demo_tracker_def expired_def demo_finished_def demo_task_def new_task_def
        TTL_COMPLETED_def)
  then have "tk_run demo_store task_key_ok ?st (?st\<lparr>tk_now := 100000, tk_tasks := []\<rparr>)"
    by (metis tk_run.start tk_run.step tk_step.tick tk_step.evict)
  moreover have "?st\<lparr>tk_tasks := []\<rparr> = (?st\<lparr>tk_now := 100000, tk_tasks := []\<rparr>)\<lparr>tk_now := 0\<rparr>"
    by (simp add: demo_tracker_def)
  ultimately have run: "tk_run demo_store task_key_ok ?st (?st\<lparr>tk_tasks := []\<rparr>)"
    by (metis tk_run.step tk_step.tick)
  have c: "\<forall>p. unary_loads (unary_dumps p) = Some p" using unary.loads_dumps by blast
  have g: "ts_get demo_store ''t1'' (Some ''acc'') (Some ''usr'') (tk_store ?st) =
      Inr (Some (task_to_payload demo_finished))"
    using demo_get by (simp add: demo_tracker_def)
  have "p_status (task_to_payload demo_finished) = ''completed''"
    by (simp add: task_to_payload_def demo_finished_def status_value_def)
  with finished_task_final [OF c demo_run(2) [unfolded demo_store_def] demo_key g [unfolded demo_store_def] _
      run [unfolded demo_store_def]]
  obtain t where t: "task_to_payload demo_finished = task_to_payload t"
    "snd (get_task demo_store ''t1'' (Some ''acc'') (Some ''usr'') (?st\<lparr>tk_tasks := []\<rparr>)) = Inr (Some (copy_task t))"
    by (auto simp: demo_store_def)
  from t(1) have "t = demo_finished" by (metis option.inject payload_round_trip)
  with t(2) demo_run(2) show ?thesis by simp
qed

section \<open>At most one active task per resource\<close>

lemma list_loaded_payload:
  assumes "load_all_from_store S a usr st = Inr ts" "ts_list S a usr (tk_store st) = Inr ps" "p \<in> set ps"
  shows "\<exists>t \<in> set ts. p = task_to_payload t"
proof -
  have "records_from_payloads ps = Some ts"
    using assms(1,2) by (simp add: load_all_from_store_def split: option.splits)
  with records_from_payloads_Some [OF this] assms(3) show ?thesis by auto
qed

lemma create_if_no_running_Some:
  assumes "create_if_no_running S uuid ty res acc usr st = (st', Inr (Some t))"
  obtains ts st1 where "load_all_from_store S acc (Some usr) st = Inr ts" "st1 = cache_all ts st"
    "\<forall>(k, x) \<in> set (tk_tasks st1). \<not> active_for ty (Some res) (Some acc) (Some usr) x"
    "store_and_cache S (new_task uuid ty (Some res) acc usr (tk_now st1)) st1 = (st', None)"
    "t = copy_task (new_task uuid ty (Some res) acc usr (tk_now st1))" "acc \<noteq> []" "usr \<noteq> []"
proof -
  obtain ts where "load_all_from_store S acc (Some usr) st = Inr ts" "acc \<noteq> []" "usr \<noteq> []"
    using assms by (auto simp: create_if_no_running_def split: if_splits sum.splits)
  moreover from this have "\<not> list_ex (\<lambda>(_, t). active_for ty (Some res) (Some acc) (Some usr) t) (tk_tasks (cache_all ts st))"
    using assms by (auto simp: create_if_no_running_def Let_def split: if_splits)
  moreover from this calculation have
    "store_and_cache S (new_task uuid ty (Some res) acc usr (tk_now (cache_all ts st))) (cache_all ts st) = (st', None)"
    "t = copy_task (new_task uuid ty (Some res) acc usr (tk_now (cache_all ts st)))"
    using assms by (auto simp: create_if_no_running_def Let_def split: if_splits prod.splits option.splits)
  ultimately show thesis using that by (simp add: list_ex_iff case_prod_unfold)
qed

lemma create_if_blocked:
  assumes "task_store_laws S sinv key_ok" "tracker_ok S sinv key_ok st" "key_ok i (Some a) (Some u)"
    and "ts_get S i (Some a) (Some u) (tk_store st) = Inr (Some (task_to_payload t))"
    and "task_type t = ty" "resource_id t = Some res" "status t = PENDING" "a \<noteq> []" "u \<noteq> []"
    and "snd (create_if_no_running S uuid ty res a u st) = Inr r"
  shows "r = None"
proof -
  obtain ts where ts: "load_all_from_store S a (Some u) st = Inr ts"
    using assms(8-10) by (auto simp: create_if_no_running_def split: sum.splits)
  have "map_of (tk_tasks (cache_all ts st)) i = Some t"
    by (rule task_store_laws.loaded_cached [OF assms(1) ts assms(2-4)])
  moreover have "active_for ty (Some res) (Some a) (Some u) t"
    using stored_key [OF assms(2-4)] assms(5-7) by (simp add: active_for_def matches_owner_def)
  ultimately have "list_ex (\<lambda>(_, t). active_for ty (Some res) (Some a) (Some u) t) (tk_tasks (cache_all ts st))"
    by (auto simp: list_ex_iff dest: map_of_SomeD)
  with ts assms(8-10) show ?thesis by (simp add: create_if_no_running_def Let_def)
qed

text \<open>Property C34 (functional): when \<^verbatim>\<open>create_if_no_running\<close> returns a task, its owner had no task of that
  type on that resource pending or running in the store, whatever the cache held, and the new pending
  task is stored; a second call for the same type, resource and owner then creates nothing.  The id that
  \<^verbatim>\<open>uuid4\<close> gave is assumed to be new.\<close>

theorem create_if_no_running_exclusive:
  assumes "\<forall>p. loads (dumps p) = Some p"
    and "tk_run (mem_store dumps loads et) task_key_ok (empty_tracker n) st"
    and "task_key_ok uuid (Some a) (Some u)"
    and "create_if_no_running (mem_store dumps loads et) uuid ty res a u st = (st', Inr (Some t))"
    and "ts_get (mem_store dumps loads et) uuid (Some a) (Some u) (tk_store st) = Inr None"
    and "map_of (tk_tasks st) uuid = None"
  shows "(\<forall>i p. task_key_ok i (Some a) (Some u) \<longrightarrow>
      ts_get (mem_store dumps loads et) i (Some a) (Some u) (tk_store st) = Inr (Some p) \<longrightarrow>
      p_task_type p = ty \<longrightarrow> p_resource_id p = Some res \<longrightarrow> p_status p \<noteq> ''pending'' \<and> p_status p \<noteq> ''running'') \<and>
    ts_get (mem_store dumps loads et) uuid (Some a) (Some u) (tk_store st') = Inr (Some (task_to_payload t)) \<and>
    status t = PENDING \<and>
    (\<forall>uuid' r. snd (create_if_no_running (mem_store dumps loads et) uuid' ty res a u st') = Inr r \<longrightarrow> r = None)"
proof -
  let ?S = "mem_store dumps loads et"
  have c: "json_codec dumps loads" using assms(1) by unfold_locales blast
  note laws = json_codec.persistent_laws [OF c, of et]
  have ok: "tracker_ok ?S mem_inv task_key_ok st" by (rule codec_run(1) [OF assms(1,2) empty_tracker_ok])
  from create_if_no_running_Some [OF assms(4)] obtain ts st1 where
    ld: "load_all_from_store ?S a (Some u) st = Inr ts" "st1 = cache_all ts st"
    and idle: "\<forall>(k, x) \<in> set (tk_tasks st1). \<not> active_for ty (Some res) (Some a) (Some u) x"
    and w: "store_and_cache ?S (new_task uuid ty (Some res) a u (tk_now st1)) st1 = (st', None)"
    and t: "t = copy_task (new_task uuid ty (Some res) a u (tk_now st1))" and ne: "a \<noteq> []" "u \<noteq> []" by blast
  have t': "t = new_task uuid ty (Some res) a u (tk_now st1)" using t by (simp add: copy_task_def new_task_def)
  have one: "p_status p \<noteq> ''pending'' \<and> p_status p \<noteq> ''running''"
    if h: "task_key_ok i (Some a) (Some u)" "ts_get ?S i (Some a) (Some u) (tk_store st) = Inr (Some p)"
      "p_task_type p = ty" "p_resource_id p = Some res" for i p
  proof -
    obtain ps where ps: "ts_list ?S a (Some u) (tk_store st) = Inr ps"
      using ld(1) by (auto simp: load_all_from_store_def split: sum.splits)
    have "p \<in> set ps"
      using task_store_laws.list_complete [OF laws _ h(1) ps h(2)] ok by (simp add: tracker_ok_def)
    with list_loaded_payload [OF ld(1) ps] obtain x where x: "p = task_to_payload x" by blast
    have "map_of (tk_tasks st1) i = Some x"
      using task_store_laws.loaded_cached [OF laws ld(1) ok h(1)] h(2) x ld(2) by simp
    then have "\<not> active_for ty (Some res) (Some a) (Some u) x" using idle by (auto dest: map_of_SomeD)
    moreover have "matches_owner x (Some a) (Some u)"
      using stored_key [OF ok h(1,2)] x by (simp add: matches_owner_def)
    moreover have "task_type x = ty" "resource_id x = Some res"
      using h(3,4) x by (simp_all add: task_to_payload_def)
    ultimately have "status x \<noteq> PENDING" "status x \<noteq> RUNNING" by (simp_all add: active_for_def)
    with x show ?thesis by (cases "status x") (simp_all add: task_to_payload_def status_value_def)
  qed
  have stored: "ts_get ?S uuid (Some a) (Some u) (tk_store st') = Inr (Some (task_to_payload t))"
  proof -
    obtain s' where "ts_write ?S t (tk_store st1) = (s', None)" "tk_store st' = s'"
      using w t' by (auto simp: store_and_cache_def split: prod.splits option.splits)
    moreover have "mem_inv (tk_store st1)"
      using task_store_laws.cache_loaded_ok(1) [OF laws ld(1) ok assms(3)] ld(2) by (simp add: tracker_ok_def)
    ultimately show ?thesis
      using task_store_laws.get_write [OF laws, of "tk_store st1" t s'] assms(3) t' by (simp add: new_task_def)
  qed
  have "tracker_ok ?S mem_inv task_key_ok st'"
    using task_store_laws.create_if_no_running_ok [OF laws assms(4) ok assms(3,5,6)] by blast
  then have "\<forall>uuid' r. snd (create_if_no_running ?S uuid' ty res a u st') = Inr r \<longrightarrow> r = None"
    using create_if_blocked [OF laws _ assms(3) stored] ne t' by (auto simp: new_task_def)
  with one stored t' show ?thesis by (simp add: new_task_def)
qed

lemma demo_create_if:
  "create_if_no_running demo_store ''t1'' ''commit'' ''s1'' ''acc'' ''usr'' (empty_tracker 0) =
     (demo_tracker (demo_task 0), Inr (Some (demo_task 0)))"
  by (simp add: task_eval create_if_no_running_def load_all_from_store_def store_list_def mem_read_dir_def cache_all_def
      demo_task_def new_task_def copy_task_def)

lemma demo_load:
  "load_all_from_store demo_store ''acc'' (Some ''usr'') (demo_tracker t) = Inr [t]"
  using unary.loads_dumps
  by (simp add: task_eval load_all_from_store_def store_list_def mem_read_dir_def list_entries_def file_name_def)

theorem create_if_no_running_exclusive_witness:
  "create_if_no_running demo_store ''t1'' ''commit'' ''s1'' ''acc'' ''usr'' (empty_tracker 0) =
     (demo_tracker (demo_task 0), Inr (Some (demo_task 0))) \<and>
   snd (create_if_no_running demo_store ''t2'' ''commit'' ''s1'' ''acc'' ''usr'' (demo_tracker (demo_task 0))) = Inr None"
proof -
  have c: "\<forall>p. unary_loads (unary_dumps p) = Some p" using unary.loads_dumps by blast
  have "ts_get (mem_store unary_dumps unary_loads (\<lambda>e. [])) ''t1'' (Some ''acc'') (Some ''usr'')
      (tk_store (empty_tracker 0)) = Inr None" "map_of (tk_tasks (empty_tracker 0)) ''t1'' = None"
    using empty_store_get [OF demo_key] by (simp_all add: empty_tracker_def)
  from create_if_no_running_exclusive [OF c tk_run.start demo_key demo_create_if [unfolded demo_store_def] this]
  have "\<forall>r. snd (create_if_no_running demo_store ''t2'' ''commit'' ''s1'' ''acc'' ''usr'' (demo_tracker (demo_task 0))) = Inr r \<longrightarrow>
      r = None"
    unfolding demo_store_def by blast
  moreover have "\<exists>r. snd (create_if_no_running demo_store ''t2'' ''commit'' ''s1'' ''acc'' ''usr'' (demo_tracker (demo_task 0))) = Inr r"
    unfolding create_if_no_running_def demo_load
    by (simp add: cache_all_def cache_task_def demo_tracker_def active_for_def matches_owner_def demo_task_def new_task_def)
  ultimately show ?thesis using demo_create_if by blast
qed

section \<open>Eviction\<close>

text \<open>Dropping the first \<open>e\<close> entries of the sorted list from the list itself.\<close>

lemma drop_oldest:
  fixes f :: "'k \<times> 'v \<Rightarrow> int" and e :: nat
  assumes "distinct (map fst xs)"
  defines "D \<equiv> set (map fst (take e (sort_key f xs)))"
  shows "length (filter (\<lambda>(k, _). k \<notin> D) xs) = length xs - e"
    "x \<in> set xs \<Longrightarrow> fst x \<in> D \<Longrightarrow> y \<in> set xs \<Longrightarrow> fst y \<notin> D \<Longrightarrow> f x \<le> f y"
proof -
  let ?s = "sort_key f xs"
  have d: "distinct (map fst ?s)"
    using assms(1) by (metis (no_types, lifting) distinct_map distinct_sort set_sort)
  have split: "?s = take e ?s @ drop e ?s" by simp
  have disj: "set (map fst (take e ?s)) \<inter> set (map fst (drop e ?s)) = {}"
    using d by (metis append_take_drop_id distinct_append map_append)
  have "filter (\<lambda>(k, _). k \<notin> D) (take e ?s) = []" by (force simp: D_def filter_empty_conv)
  moreover have "filter (\<lambda>(k, _). k \<notin> D) (drop e ?s) = drop e ?s"
    using disj unfolding filter_id_conv D_def disjoint_iff
    by (metis (no_types, lifting) case_prod_unfold image_eqI list.set_map)
  ultimately have "filter (\<lambda>(k, _). k \<notin> D) ?s = drop e ?s"
    by (metis append_Nil filter_append split)
  moreover have "length (filter (\<lambda>(k, _). k \<notin> D) xs) = length (filter (\<lambda>(k, _). k \<notin> D) ?s)"
    by (metis mset_filter mset_sort size_mset)
  ultimately show "length (filter (\<lambda>(k, _). k \<notin> D) xs) = length xs - e" by simp
  show "f x \<le> f y" if h: "x \<in> set xs" "fst x \<in> D" "y \<in> set xs" "fst y \<notin> D"
  proof -
    have "x \<in> set (take e ?s)"
    proof -
      obtain x' where x': "x' \<in> set (take e ?s)" "fst x' = fst x" using h(2) by (auto simp: D_def)
      then have "x' \<in> set xs" by (metis in_set_takeD set_sort)
      with x' h(1) assms(1) show ?thesis by (metis distinct_map inj_onD)
    qed
    moreover have "y \<in> set (drop e ?s)"
      using h(3,4) split by (metis D_def Un_iff image_eqI list.set_map set_append set_sort)
    moreover have "sorted (map f (take e ?s) @ map f (drop e ?s))"
      by (simp only: map_append [symmetric] split [symmetric] sorted_sort_key)
    ultimately show ?thesis unfolding sorted_append by simp
  qed
qed

text \<open>A round of eviction leaves every task that is not past its lifetime in the
  cache, up to \<^verbatim>\<open>MAX_TASKS\<close> of them, and when there are more it drops exactly the surplus: no dropped
  task was created after one that stays.\<close>

lemma eviction_bounded:
  assumes "distinct (map fst (tk_tasks st))"
  shows "task_count (evict_expired st) =
      min MAX_TASKS (length (filter (\<lambda>(_, t). \<not> expired (tk_now st) t) (tk_tasks st))) \<and>
    (\<forall>k t k' t'. (k, t) \<in> set (tk_tasks st) - set (tk_tasks (evict_expired st)) \<longrightarrow> \<not> expired (tk_now st) t \<longrightarrow>
       (k', t') \<in> set (tk_tasks (evict_expired st)) \<longrightarrow> created_at t \<le> created_at t')"
proof -
  let ?ts = "filter (\<lambda>(_, t). \<not> expired (tk_now st) t) (tk_tasks st)"
  let ?f = "\<lambda>(_, t). created_at t" and ?e = "length ?ts - MAX_TASKS"
  let ?D = "set (map fst (take ?e (sort_key ?f ?ts)))"
  have d: "distinct (map fst ?ts)" using assms by (rule distinct_map_filter)
  have ev: "tk_tasks (evict_expired st) = filter (\<lambda>(k, _). k \<notin> ?D) ?ts"
    by (simp add: evict_expired_def Let_def)
  have "task_count (evict_expired st) = length ?ts - ?e"
    using drop_oldest(1) [OF d, of ?e ?f] unfolding task_count_def ev by simp
  moreover have "created_at t \<le> created_at t'"
    if "(k, t) \<in> set (tk_tasks st) - set (tk_tasks (evict_expired st))" "\<not> expired (tk_now st) t"
      "(k', t') \<in> set (tk_tasks (evict_expired st))" for k t k' t'
    using drop_oldest(2) [OF d, of "(k, t)" ?e ?f "(k', t')"] that unfolding ev by auto
  ultimately show ?thesis by auto
qed

lemma eviction_bounded_example:
  "distinct (map fst (tk_tasks (demo_tracker demo_finished))) \<and>
   task_count (evict_expired ((demo_tracker demo_finished)\<lparr>tk_now := 86401\<rparr>)) = 0 \<and>
   task_count (evict_expired ((demo_tracker demo_finished)\<lparr>tk_now := 86400\<rparr>)) = 1"
proof -
  have d: "distinct (map fst (tk_tasks ((demo_tracker demo_finished)\<lparr>tk_now := n\<rparr>)))" for n
    by (simp add: demo_tracker_def)
  show ?thesis
    using eviction_bounded [OF d [of 86401]] eviction_bounded [OF d [of 86400]] d
    by (simp add: demo_tracker_def expired_def demo_finished_def demo_task_def new_task_def TTL_COMPLETED_def
        TTL_FAILED_def MAX_TASKS_def)
qed

section \<open>What callers see\<close>

text \<open>A stored error message has at most 500 characters and the truncation mark, and no
  position of its first 500 characters starts a match of the secret pattern, neither one that was in the
  text nor one that a replacement or the truncation put together.\<close>

lemma sanitize_error_safe:
  "length (sanitize_error err) \<le> MAX_ERROR_LEN + length ''...[truncated]'' \<and>
   match_secret (drop i (take MAX_ERROR_LEN (sanitize_error err))) = None"
proof -
  have "take MAX_ERROR_LEN (sanitize_error err) = take MAX_ERROR_LEN (redact err)"
    by (simp add: sanitize_error_def Let_def)
  moreover have "match_secret (drop i (take MAX_ERROR_LEN (redact err))) = None"
    using match_secret_mono [of "drop i (take MAX_ERROR_LEN (redact err))"
        "drop (i - length (take MAX_ERROR_LEN (redact err))) (drop MAX_ERROR_LEN (redact err))"]
      redact_clean [of i err]
    by (metis append_take_drop_id drop_append)
  moreover have "length (sanitize_error err) \<le> MAX_ERROR_LEN + length ''...[truncated]''"
    by (simp add: sanitize_error_def Let_def)
  ultimately show ?thesis by simp
qed

lemma copied_result: "result (copy_task t) = Some v \<Longrightarrow> \<exists>w. v = sanitize_task_result w"
  by (auto simp: copy_task_def)

lemma set_slice: "x \<in> set (slice_to lim xs) \<Longrightarrow> x \<in> set xs"
  by (auto simp: slice_to_def dest: in_set_takeD split: if_splits)

lemma sorted_slice: "sorted (map f xs) \<Longrightarrow> sorted (map f (slice_to lim xs))"
  by (auto simp: slice_to_def take_map [symmetric] sorted_wrt_take)

lemma set_filter_unless: "x \<in> set (filter_unless_empty v g xs) \<Longrightarrow> x \<in> set xs"
  by (auto simp: filter_unless_empty_def split: option.splits)

text \<open>What \<^verbatim>\<open>list_tasks\<close> returns to an owner are copies of that owner's tasks only,
  newest first, at most \<^verbatim>\<open>limit\<close> of them when the limit is not negative, and no result in them has the
  key \<^verbatim>\<open>user_key\<close> at any depth.\<close>

lemma list_tasks_for_owner:
  assumes "snd (list_tasks S ty sts res limit (Some a) (Some u) st) = Inr ts"
  shows "(\<forall>t \<in> set ts. account_id t = Some a \<and> user_id t = Some u \<and>
      (\<forall>v. result t = Some v \<longrightarrow> \<not> mentions_key ''user_key'' v)) \<and>
    sorted (rev (map created_at ts)) \<and> (0 \<le> limit \<longrightarrow> length ts \<le> nat limit)"
proof -
  obtain st1 where "refresh_owner S (Some a) (Some u) st = Inr st1"
    using assms by (auto simp: list_tasks_def split: sum.splits)
  moreover define xs where "xs = filter_unless_empty res resource_id
    (filter_unless_empty sts (\<lambda>t. Some (status_value (status t))) (filter_unless_empty ty (\<lambda>t. Some (task_type t))
      (map copy_task (filter (\<lambda>t. matches_owner t (Some a) (Some u)) (map snd (tk_tasks st1))))))"
  ultimately have ts: "ts = slice_to limit (sort_key (\<lambda>t. - created_at t) xs)"
    using assms by (simp add: list_tasks_def Let_def)
  have xs: "set xs \<subseteq> copy_task ` {t. matches_owner t (Some a) (Some u)}"
    by (auto simp: xs_def dest!: set_filter_unless)
  have "t \<in> copy_task ` {t. matches_owner t (Some a) (Some u)}" if "t \<in> set ts" for t
    using that set_slice [of t limit] xs unfolding ts by (metis set_sort subsetD)
  then have "\<forall>t \<in> set ts. account_id t = Some a \<and> user_id t = Some u \<and>
      (\<forall>v. result t = Some v \<longrightarrow> \<not> mentions_key ''user_key'' v)"
    using sanitize_task_result_clean [of "''user_key''"] copied_result
    by (fastforce simp: copy_task_def matches_owner_def SENSITIVE_RESULT_KEYS_def)
  moreover have "sorted (map (\<lambda>t. - created_at t) ts)"
    unfolding ts by (rule sorted_slice) simp
  then have "sorted (rev (map created_at ts))"
    by (simp add: sorted_wrt_map sorted_wrt_rev rev_map)
  moreover have "0 \<le> limit \<longrightarrow> length ts \<le> nat limit" by (simp add: ts slice_to_def)
  ultimately show ?thesis by blast
qed

lemma demo_refresh:
  "refresh_owner demo_store (Some ''acc'') (Some ''usr'') (demo_tracker t) = Inr (cache_all [t] (demo_tracker t))"
  by (simp add: refresh_owner_def demo_load)

lemma demo_list:
  "snd (list_tasks demo_store None None None 50 (Some ''acc'') (Some ''usr'') (demo_tracker demo_finished)) =
     Inr [demo_finished]"
  unfolding list_tasks_def demo_refresh
  by (simp add: cache_all_def cache_task_def demo_tracker_def demo_finished_def demo_task_def new_task_def
      filter_unless_empty_def non_empty_def slice_to_def copy_task_def matches_owner_def)

lemma list_tasks_for_owner_example:
  "snd (list_tasks demo_store None None None 50 (Some ''acc'') (Some ''usr'') (demo_tracker demo_finished)) =
     Inr [demo_finished] \<and> user_id demo_finished = Some ''usr''"
  using list_tasks_for_owner [OF demo_list] demo_list by simp

section \<open>A failed write\<close>

text \<open>When writing the completed record fails, \<^verbatim>\<open>complete\<close> raises, but it has already
  changed the cached object: the store still has the unfinished task while \<^verbatim>\<open>get\<close> reports it completed,
  and calling \<^verbatim>\<open>complete\<close> or \<^verbatim>\<open>fail\<close> again returns without an error and without writing anything.\<close>

lemma failed_completion_sticks_in_cache:
  assumes "map_of (tk_tasks st) tid = Some t" "task_id t = tid" "\<not> terminal (status t)"
    and "account_id t = Some a" "user_id t = Some u"
    and "complete_task S tid res (Some a) (Some u) None st = (st', Some e)"
    and "\<And>t'. snd (ts_write S t' (tk_store st)) \<noteq> None \<Longrightarrow> fst (ts_write S t' (tk_store st)) = tk_store st"
  shows "tk_store st' = tk_store st \<and>
    (\<exists>t'. snd (get_task S tid (Some a) (Some u) st') = Inr (Some t') \<and> status t' = COMPLETED) \<and>
    complete_task S tid res (Some a) (Some u) None st' = (st', None) \<and>
    fail_task S tid err (Some a) (Some u) st' = (st', None)"
proof -
  define t1 where "t1 = t\<lparr>status := COMPLETED, stage := Some ''completed'', result := res, updated_at := tk_now st\<rparr>"
  have own: "matches_owner t (Some a) (Some u)" "matches_owner t1 (Some a) (Some u)"
    using assms(4,5) by (simp_all add: matches_owner_def t1_def)
  obtain s' where w: "ts_write S t1 (tk_store st) = (s', Some e)"
    and st': "st' = st\<lparr>tk_tasks := AList.update tid t1 (tk_tasks st), tk_store := s'\<rparr>"
    using assms(1,3,6) own
    by (auto simp: complete_task_def update_task_def load_for_update_def store_and_cache_def t1_def Let_def
        split: prod.splits option.splits)
  have "s' = tk_store st" using assms(7) [of t1] w by simp
  moreover have m: "map_of (tk_tasks st') tid = Some t1" by (simp add: st')
  moreover have "status t1 = COMPLETED" by (simp add: t1_def)
  ultimately show ?thesis using own(2)
    by (simp add: st' get_task_def complete_task_def fail_task_def update_task_def load_for_update_def terminal_def
        copy_task_def)
qed

text \<open>A store that is full: reads work and every write fails.\<close>

definition full_store :: "memfs task_store" where
  "full_store = demo_store\<lparr>ts_write := (\<lambda>t s. (s, Some (StoreFailure (OtherError ''disk full''))))\<rparr>"

lemma failed_completion_sticks_in_cache_example:
  "snd (complete_task full_store ''t1'' None (Some ''acc'') (Some ''usr'') None (demo_tracker (demo_task 0))) =
     Some (StoreFailure (OtherError ''disk full'')) \<and>
   (\<exists>t'. snd (get_task full_store ''t1'' (Some ''acc'') (Some ''usr'')
      (fst (complete_task full_store ''t1'' None (Some ''acc'') (Some ''usr'') None (demo_tracker (demo_task 0))))) =
      Inr (Some t') \<and> status t' = COMPLETED)"
proof -
  let ?r = "complete_task full_store ''t1'' None (Some ''acc'') (Some ''usr'') None (demo_tracker (demo_task 0))"
  have r: "?r = (fst ?r, Some (StoreFailure (OtherError ''disk full'')))"
    by (simp add: prod_eq_iff complete_task_def update_task_def load_for_update_def demo_tracker_def demo_task_def
        new_task_def matches_owner_def terminal_def store_and_cache_def full_store_def Let_def)
  have "map_of (tk_tasks (demo_tracker (demo_task 0))) ''t1'' = Some (demo_task 0)" by (simp add: demo_tracker_def)
  from failed_completion_sticks_in_cache [OF this _ _ _ _ r] show ?thesis
    using r by (simp add: demo_task_def new_task_def terminal_def full_store_def) (metis snd_conv)
qed

end
