(* ===== verification/Model_Retry.thy ===== *)
theory Model_Retry
  imports Py_Prelude Complex_Main
begin

text \<open>
  Classification of API errors and retries (\<^verbatim>\<open>openviking/utils/model_retry.py\<close>).

  An exception is what the classifier reads of it: its text, whether it is one of the permanent I/O
  errors, and the same of its cause.  The regular expressions are written out as matchers; the two
  Chinese content-safety patterns lie outside the 256 code points of the model, where no text has them.
  Floating-point delays are real numbers, and what \<^verbatim>\<open>random.uniform\<close> returned is an argument.
\<close>

section \<open>Characters\<close>

text \<open>\<^verbatim>\<open>\\w\<close> on the first 256 code points.\<close>

definition word_char :: "char \<Rightarrow> bool" where
  "word_char c \<longleftrightarrow>
     ascii_alnum c \<or> c = CHR ''_'' \<or>
     (of_char c :: nat) \<in> {170, 178, 179, 181, 185, 186, 188, 189, 190} \<or>
     192 \<le> (of_char c :: nat) \<and> (of_char c :: nat) \<noteq> 215 \<and> (of_char c :: nat) \<noteq> 247"

section \<open>Error classes\<close>

datatype error_class =
    ERROR_CLASS_PERMANENT
  | ERROR_CLASS_AUTH
  | ERROR_CLASS_CONTENT_SAFETY
  | ERROR_CLASS_INPUT_TOO_LARGE
  | ERROR_CLASS_QUOTA_EXCEEDED
  | ERROR_CLASS_TRANSIENT
  | ERROR_CLASS_UNKNOWN

definition INPUT_TOO_LARGE_PATTERNS :: "string list" where
  "INPUT_TOO_LARGE_PATTERNS =
     [''413'', ''payload too large'', ''request entity too large'', ''content too large'', ''contextwindowexceeded'',
      ''context window exceeded'', ''maximum context length'', ''max input tokens'', ''too many input tokens'',
      ''input length exceeds'', ''exceeds the context length'', ''exceeds the max input length'',
      ''is too large to process'', ''expected maxlength'']"

definition PERMANENT_API_ERROR_PATTERNS :: "string list" where
  "PERMANENT_API_ERROR_PATTERNS = [''400'']"

definition AUTH_API_ERROR_PATTERNS :: "string list" where
  "AUTH_API_ERROR_PATTERNS = [''401'', ''403'', ''forbidden'', ''unauthorized'', ''accountoverdue'']"

definition CONTENT_SAFETY_PATTERNS :: "string list" where
  "CONTENT_SAFETY_PATTERNS =
     [''content policy'', ''content_filter'', ''contentfilter'', ''moderation'', ''sensitive content'']"

definition QUOTA_EXCEEDED_PATTERNS :: "string list" where
  "QUOTA_EXCEEDED_PATTERNS = [''quotaexceeded'', ''quota limit'', ''quota exceed'', ''usage quota'']"

definition TRANSIENT_API_ERROR_PATTERNS :: "string list" where
  "TRANSIENT_API_ERROR_PATTERNS =
     [''429'', ''500'', ''502'', ''503'', ''504'', ''toomanyrequests'', ''ratelimit'', ''requestbursttoofast'',
      ''timeout'', ''connectionerror'', ''connection refused'', ''connection reset'']"

section \<open>Status codes in a text\<close>

text \<open>The texts that may follow the literal \<open>p\<close> at the start of \<open>s\<close>.\<close>

definition after_literal :: "string \<Rightarrow> string \<Rightarrow> string list" where
  "after_literal p s = (if py_startswith s p then [drop (length p) s] else [])"

definition skip_space :: "string \<Rightarrow> string" where
  "skip_space s = dropWhile py_space s"

text \<open>What may follow \<^verbatim>\<open>(?:error\\s*code|status(?:\\s*code)?|http(?:\\s*status)?|code)\<close>.\<close>

definition after_keyword :: "string \<Rightarrow> string list" where
  "after_keyword s =
     concat (map (\<lambda>r. after_literal ''code'' (skip_space r)) (after_literal ''error'' s)) @
     concat (map (\<lambda>r. after_literal ''code'' (skip_space r) @ [r]) (after_literal ''status'' s)) @
     concat (map (\<lambda>r. after_literal ''status'' (skip_space r) @ [r]) (after_literal ''http'' s)) @
     after_literal ''code'' s"

definition next_is :: "(char \<Rightarrow> bool) \<Rightarrow> string \<Rightarrow> bool" where
  "next_is P s = (case s of [] \<Rightarrow> False | c # _ \<Rightarrow> P c)"

text \<open>\<^verbatim>\<open>\\s*[:=]?\\s*NNN(?!\\w)\<close> at the start of \<open>r\<close>.\<close>

definition status_tail :: "string \<Rightarrow> string \<Rightarrow> bool" where
  "status_tail pat r =
     (let r1 = skip_space r;
          r2 = (if next_is (\<lambda>c. c = CHR '':'' \<or> c = CHR ''='') r1 then skip_space (tl r1) else r1)
      in py_startswith r2 pat \<and> \<not> next_is word_char (drop (length pat) r2))"

definition word_or_dash :: "char \<Rightarrow> bool" where
  "word_or_dash c \<longleftrightarrow> word_char c \<or> c = CHR ''-''"

text \<open>A match of the whole expression at the start of \<open>r\<close>, with the text before it as \<open>before\<close> (reversed).\<close>

definition numeric_match_at :: "string \<Rightarrow> string \<Rightarrow> string \<Rightarrow> bool" where
  "numeric_match_at pat before r \<longleftrightarrow>
     (\<not> next_is word_char before \<and> list_ex (status_tail pat) (after_keyword r)) \<or>
     (\<not> next_is word_or_dash before \<and> py_startswith r pat \<and> \<not> next_is word_or_dash (drop (length pat) r))"

fun numeric_search :: "string \<Rightarrow> string \<Rightarrow> string \<Rightarrow> bool" where
  "numeric_search pat before [] = numeric_match_at pat before []"
| "numeric_search pat before (c # cs) =
     (numeric_match_at pat before (c # cs) \<or> numeric_search pat (c # before) cs)"

definition is_digits :: "string \<Rightarrow> bool" where
  "is_digits p \<longleftrightarrow> p \<noteq> [] \<and> list_all is_digit p"

definition pattern_matches :: "string \<Rightarrow> string \<Rightarrow> string \<Rightarrow> bool" where
  "pattern_matches text_lower text_compact p =
     (if is_digits p then numeric_search p [] text_lower \<or> numeric_search p [] text_compact
      else py_contains text_lower p \<or> py_contains text_compact p)"

section \<open>Classification\<close>

record exc_info =
  exc_text :: string
  exc_io :: bool

text \<open>An exception with its cause, or the aggregate of the failures of all credentials (id, class, exception
  and index of each).\<close>

datatype api_error =
    ApiError exc_info "exc_info option"
  | AllCredentialsFailed "(string \<times> error_class \<times> api_error \<times> nat) list"

definition no_spaces :: "string \<Rightarrow> string" where
  "no_spaces s = filter (\<lambda>c. c \<noteq> CHR '' '') s"

definition any_pattern :: "string list \<Rightarrow> string list \<Rightarrow> bool" where
  "any_pattern pats texts \<longleftrightarrow>
     list_ex (\<lambda>text. let low = py_lower text in list_ex (pattern_matches low (no_spaces low)) pats) texts"

definition any_quota :: "string list \<Rightarrow> bool" where
  "any_quota texts \<longleftrightarrow>
     list_ex (\<lambda>text. let low = py_lower text in list_ex (py_contains low) QUOTA_EXCEEDED_PATTERNS) texts"

definition classify_texts :: "string list \<Rightarrow> error_class" where
  "classify_texts texts =
     (if any_pattern INPUT_TOO_LARGE_PATTERNS texts then ERROR_CLASS_INPUT_TOO_LARGE
      else if any_pattern CONTENT_SAFETY_PATTERNS texts then ERROR_CLASS_CONTENT_SAFETY
      else if any_pattern PERMANENT_API_ERROR_PATTERNS texts then ERROR_CLASS_PERMANENT
      else if any_pattern AUTH_API_ERROR_PATTERNS texts then ERROR_CLASS_AUTH
      else if any_quota texts then ERROR_CLASS_QUOTA_EXCEEDED
      else if any_pattern TRANSIENT_API_ERROR_PATTERNS texts then ERROR_CLASS_TRANSIENT
      else ERROR_CLASS_UNKNOWN)"

definition classify_aggregate :: "error_class list \<Rightarrow> error_class" where
  "classify_aggregate classes =
     (if ERROR_CLASS_TRANSIENT \<in> set classes then ERROR_CLASS_TRANSIENT
      else if ERROR_CLASS_QUOTA_EXCEEDED \<in> set classes then ERROR_CLASS_QUOTA_EXCEEDED
      else if classes \<noteq> [] \<and> list_all (\<lambda>ec. ec = ERROR_CLASS_AUTH) classes then ERROR_CLASS_AUTH
      else ERROR_CLASS_UNKNOWN)"

definition classify_api_error :: "api_error \<Rightarrow> error_class" where
  "classify_api_error e =
     (case e of
        AllCredentialsFailed errs \<Rightarrow> classify_aggregate (map (\<lambda>(_, ec, _, _). ec) errs)
      | ApiError x cause \<Rightarrow>
          if exc_io x \<or> (case cause of None \<Rightarrow> False | Some y \<Rightarrow> exc_io y) then ERROR_CLASS_PERMANENT
          else classify_texts (exc_text x # (case cause of None \<Rightarrow> [] | Some y \<Rightarrow> [exc_text y])))"

definition is_retryable_api_error :: "api_error \<Rightarrow> bool" where
  "is_retryable_api_error e \<longleftrightarrow> classify_api_error e = ERROR_CLASS_TRANSIENT"

section \<open>Rate limits\<close>

definition RATE_LIMIT_RETRY_BASE_DELAY_SECONDS :: real where
  "RATE_LIMIT_RETRY_BASE_DELAY_SECONDS = 5"

definition RATE_LIMIT_RETRY_MAX_DELAY_SECONDS :: real where
  "RATE_LIMIT_RETRY_MAX_DELAY_SECONDS = 120"

text \<open>\<open>u\<close> is what \<^verbatim>\<open>random.uniform(0.8, 1.2)\<close> returned.\<close>

definition rate_limit_retry_delay :: "real \<Rightarrow> int \<Rightarrow> real" where
  "rate_limit_retry_delay u attempt =
     min RATE_LIMIT_RETRY_MAX_DELAY_SECONDS (RATE_LIMIT_RETRY_BASE_DELAY_SECONDS * 2 ^ nat (max 0 (attempt - 1))) * u"

text \<open>The chain of an exception's causes.  Exceptions are objects in a heap, each with its \<^verbatim>\<open>__cause__\<close> and
  \<^verbatim>\<open>__context__\<close>, and a chain may run into itself.\<close>

record exc_links =
  exc_cause :: "nat option"
  exc_context :: "nat option"

function iter_exception_chain :: "(nat, exc_links) dict \<Rightarrow> nat list \<Rightarrow> nat option \<Rightarrow> nat list" where
  "iter_exception_chain h seen cur =
     (case cur of
        None \<Rightarrow> []
      | Some i \<Rightarrow>
          if i \<in> set seen then []
          else (case map_of h i of
                  None \<Rightarrow> [i]
                | Some x \<Rightarrow>
                    i # iter_exception_chain h (i # seen)
                      (case exc_cause x of None \<Rightarrow> exc_context x | Some c \<Rightarrow> Some c)))"
  by pat_completeness auto
termination
proof (relation "measure (\<lambda>(h, seen, _). card (fst ` set h - set seen))", goal_cases)
  case (2 h seen cur i x)
  then have "i \<in> fst ` set h - set seen" by (force dest: map_of_SomeD)
  moreover from this have "fst ` set h - set (i # seen) \<subset> fst ` set h - set seen" by auto
  ultimately show ?case by (simp add: psubset_card_mono del: card_Diff_insert)
qed simp

declare iter_exception_chain.simps [simp del]

section \<open>Retries\<close>

text \<open>\<open>u\<close> is what \<^verbatim>\<open>random.uniform(0.0, min(base_delay, delay))\<close> returned.\<close>

definition compute_delay :: "nat \<Rightarrow> real \<Rightarrow> real \<Rightarrow> bool \<Rightarrow> real \<Rightarrow> real" where
  "compute_delay attempt base_delay max_delay jitter u =
     (let delay = min (base_delay * 2 ^ attempt) max_delay in if jitter then delay + u else delay)"

text \<open>\<open>calls k\<close> is the outcome of the call number \<open>k\<close>; the loop returns the outcome it ends with and the
  delays it slept, in order.  Both variants, synchronous and asynchronous, are this loop.\<close>

function retry_loop ::
    "(nat \<Rightarrow> 'e + 'r) \<Rightarrow> ('e \<Rightarrow> bool) \<Rightarrow> (nat \<Rightarrow> real) \<Rightarrow> int \<Rightarrow> nat \<Rightarrow> ('e + 'r) \<times> real list" where
  "retry_loop calls is_retryable delay max_retries attempt =
     (case calls attempt of
        Inr r \<Rightarrow> (Inr r, [])
      | Inl e \<Rightarrow>
          if max_retries \<le> 0 \<or> max_retries \<le> int attempt \<or> \<not> is_retryable e then (Inl e, [])
          else (case retry_loop calls is_retryable delay max_retries (attempt + 1) of
                  (out, ds) \<Rightarrow> (out, delay attempt # ds)))"
  by pat_completeness auto
termination
  by (relation "measure (\<lambda>(_, _, _, m, a). nat (m - int a))") auto

declare retry_loop.simps [simp del]

definition retry_sync ::
    "(nat \<Rightarrow> 'e + 'r) \<Rightarrow> ('e \<Rightarrow> bool) \<Rightarrow> int \<Rightarrow> real \<Rightarrow> real \<Rightarrow> bool \<Rightarrow> (nat \<Rightarrow> real) \<Rightarrow> ('e + 'r) \<times> real list" where
  "retry_sync calls is_retryable max_retries base_delay max_delay jitter us =
     retry_loop calls is_retryable (\<lambda>k. compute_delay k base_delay max_delay jitter (us k)) max_retries 0"

end
