(* ===== verification/Failover.thy ===== *)
theory Failover
  imports Model_Retry
begin

text \<open>
  Switching between a primary and a backup model and between ordered credentials: the two switchers of
  \<^verbatim>\<open>openviking/utils/model_retry.py\<close> and the request loops that drive them in
  \<^verbatim>\<open>openviking/models/vlm/base.py\<close> and \<^verbatim>\<open>openviking/models/embedder/base.py\<close>.

  A switcher is changed under its lock only, so each of its methods is one step on its state.  What the
  models answer to one request is a function from the credential to an outcome: a request calls each
  credential at most once.  The readings of \<^verbatim>\<open>time.monotonic()\<close> are arguments; the two readings of one
  method are one instant.  Annotating an exception with the model's name does not change its text.
\<close>

section \<open>Primary and backup\<close>

record pb_switcher =
  pb_failback_timeout :: real
  pb_failback_request_count :: int
  pb_using_backup :: bool
  pb_switch_time :: real
  pb_backup_count :: int

definition new_pb_switcher :: "real \<Rightarrow> int \<Rightarrow> pb_switcher" where
  "new_pb_switcher timeout count =
     \<lparr>pb_failback_timeout = timeout, pb_failback_request_count = count, pb_using_backup = False,
      pb_switch_time = 0, pb_backup_count = 0\<rparr>"

definition should_try_primary :: "real \<Rightarrow> pb_switcher \<Rightarrow> bool" where
  "should_try_primary t sw \<longleftrightarrow>
     \<not> pb_using_backup sw \<or> pb_failback_timeout sw \<le> t - pb_switch_time sw \<or>
     pb_failback_request_count sw \<le> pb_backup_count sw"

definition record_primary_success :: "pb_switcher \<Rightarrow> pb_switcher" where
  "record_primary_success sw =
     (if pb_using_backup sw then sw\<lparr>pb_using_backup := False, pb_backup_count := 0\<rparr> else sw)"

definition switches_to_backup :: "error_class \<Rightarrow> bool" where
  "switches_to_backup ec \<longleftrightarrow>
     ec = ERROR_CLASS_PERMANENT \<or> ec = ERROR_CLASS_AUTH \<or> ec = ERROR_CLASS_QUOTA_EXCEEDED"

definition record_primary_failure :: "real \<Rightarrow> api_error \<Rightarrow> pb_switcher \<Rightarrow> pb_switcher \<times> bool" where
  "record_primary_failure t e sw =
     (if switches_to_backup (classify_api_error e)
      then (sw\<lparr>pb_using_backup := True, pb_switch_time := t, pb_backup_count := 0\<rparr>, True)
      else (sw, False))"

definition record_backup_request :: "pb_switcher \<Rightarrow> pb_switcher" where
  "record_backup_request sw =
     (if pb_using_backup sw then sw\<lparr>pb_backup_count := pb_backup_count sw + 1\<rparr> else sw)"

text \<open>One request: \<open>primary\<close> and \<open>backup\<close> are the outcomes of the two calls, \<open>t\<close> is the time of the check and
  \<open>t'\<close> the time at which the primary's failure is recorded.\<close>

definition try_backup :: "api_error + 'r \<Rightarrow> pb_switcher \<Rightarrow> pb_switcher \<times> (api_error + 'r)" where
  "try_backup backup sw = (record_backup_request sw, backup)"

definition get_completion_primary_backup ::
    "real \<Rightarrow> real \<Rightarrow> api_error + 'r \<Rightarrow> api_error + 'r \<Rightarrow> pb_switcher \<Rightarrow> pb_switcher \<times> (api_error + 'r)" where
  "get_completion_primary_backup t t' primary backup sw =
     (if should_try_primary t sw
      then (case primary of
              Inr r \<Rightarrow> (record_primary_success sw, Inr r)
            | Inl e \<Rightarrow>
                (case record_primary_failure t' e sw of
                   (sw1, True) \<Rightarrow> try_backup backup sw1
                 | (sw1, False) \<Rightarrow> (sw1, Inl e)))
      else try_backup backup sw)"

section \<open>Ordered credentials\<close>

record cred_switcher =
  cs_n :: nat
  cs_failback_timeout :: real
  cs_failback_request_count :: int
  cs_active_idx :: nat
  cs_last_switch_time :: real
  cs_active_request_count :: int

text \<open>\<open>None\<close> where the constructor raises.\<close>

definition new_cred_switcher :: "int \<Rightarrow> real \<Rightarrow> int \<Rightarrow> cred_switcher option" where
  "new_cred_switcher n timeout count =
     (if n < 1 then None
      else Some \<lparr>cs_n = nat n, cs_failback_timeout = timeout, cs_failback_request_count = count,
                 cs_active_idx = 0, cs_last_switch_time = 0, cs_active_request_count = 0\<rparr>)"

definition maybe_failback :: "real \<Rightarrow> cred_switcher \<Rightarrow> cred_switcher" where
  "maybe_failback t sw =
     (if 0 < cs_active_idx sw \<and>
         (cs_failback_timeout sw \<le> t - cs_last_switch_time sw \<or>
          cs_failback_request_count sw \<le> cs_active_request_count sw)
      then sw\<lparr>cs_active_idx := cs_active_idx sw - 1, cs_last_switch_time := t, cs_active_request_count := 0\<rparr>
      else sw)"

definition on_success :: "nat \<Rightarrow> cred_switcher \<Rightarrow> cred_switcher" where
  "on_success idx sw =
     (if idx = cs_active_idx sw \<and> 0 < cs_active_idx sw
      then sw\<lparr>cs_active_request_count := cs_active_request_count sw + 1\<rparr> else sw)"

definition is_fail_fast :: "error_class \<Rightarrow> bool" where
  "is_fail_fast ec \<longleftrightarrow>
     ec = ERROR_CLASS_PERMANENT \<or> ec = ERROR_CLASS_INPUT_TOO_LARGE \<or> ec = ERROR_CLASS_CONTENT_SAFETY"

definition commit_success :: "real \<Rightarrow> nat \<Rightarrow> cred_switcher \<Rightarrow> cred_switcher" where
  "commit_success t idx sw =
     (if idx = cs_active_idx sw
      then (if 0 < cs_active_idx sw then sw\<lparr>cs_active_request_count := cs_active_request_count sw + 1\<rparr> else sw)
      else sw\<lparr>cs_active_idx := idx, cs_last_switch_time := t, cs_active_request_count := 0\<rparr>)"

text \<open>The loop over the ring of credentials, with the failures so far.\<close>

fun ring_loop ::
    "(nat \<Rightarrow> api_error + 'r) \<Rightarrow> string list \<Rightarrow> real \<Rightarrow> nat list \<Rightarrow>
     (string \<times> error_class \<times> api_error \<times> nat) list \<Rightarrow> cred_switcher \<Rightarrow> cred_switcher \<times> (api_error + 'r)" where
  "ring_loop calls ids t [] errs sw = (sw, Inl (AllCredentialsFailed errs))"
| "ring_loop calls ids t (idx # rest) errs sw =
     (case calls idx of
        Inr r \<Rightarrow> (commit_success t idx sw, Inr r)
      | Inl e \<Rightarrow>
          (let ec = classify_api_error e; errs' = errs @ [(ids ! idx, ec, e, idx)]
           in if is_fail_fast ec then (sw, Inl e) else ring_loop calls ids t rest errs' sw))"

definition ring_order :: "nat \<Rightarrow> nat \<Rightarrow> nat list" where
  "ring_order start n = map (\<lambda>offset. (start + offset) mod n) [0..<n]"

text \<open>One request at time \<open>t\<close>, whose call succeeds, if it does, at time \<open>t'\<close>.  The embedder and the VLM
  wrapper each have a synchronous and an asynchronous copy of it.\<close>

definition embed_with_failover ::
    "real \<Rightarrow> real \<Rightarrow> (nat \<Rightarrow> api_error + 'r) \<Rightarrow> string list \<Rightarrow> cred_switcher \<Rightarrow> cred_switcher \<times> (api_error + 'r)" where
  "embed_with_failover t t' calls ids sw =
     (let sw1 = maybe_failback t sw in ring_loop calls ids t' (ring_order (cs_active_idx sw1) (cs_n sw1)) [] sw1)"

definition get_completion_with_failover ::
    "real \<Rightarrow> real \<Rightarrow> (nat \<Rightarrow> api_error + 'r) \<Rightarrow> string list \<Rightarrow> cred_switcher \<Rightarrow> cred_switcher \<times> (api_error + 'r)" where
  "get_completion_with_failover t t' calls ids sw =
     (let sw1 = maybe_failback t sw in ring_loop calls ids t' (ring_order (cs_active_idx sw1) (cs_n sw1)) [] sw1)"

text \<open>The credential lists of a wrapper are not empty and of one length.\<close>

definition new_failover :: "'m list \<Rightarrow> string list \<Rightarrow> real \<Rightarrow> int \<Rightarrow> cred_switcher option" where
  "new_failover models ids timeout count =
     (if models = [] \<or> length models \<noteq> length ids then None
      else new_cred_switcher (int (length models)) timeout count)"

end
