(* ===== verification/Circuit_Breaker.thy ===== *)
theory Circuit_Breaker
  imports Model_Retry
begin

text \<open>
  The circuit breaker (\<^verbatim>\<open>openviking/utils/circuit_breaker.py\<close>).  Its methods hold its lock, so each is one
  step on its state; a reading of \<^verbatim>\<open>time.monotonic()\<close> is an argument.  Times are real numbers of seconds.
\<close>

section \<open>State and operations\<close>

datatype breaker_state = STATE_CLOSED | STATE_OPEN | STATE_HALF_OPEN

record circuit_breaker =
  cb_failure_threshold :: int
  cb_base_reset_timeout :: real
  cb_max_reset_timeout :: real
  cb_current_reset_timeout :: real
  cb_state :: breaker_state
  cb_failure_count :: int
  cb_last_failure_time :: real

definition new_circuit_breaker :: "int \<Rightarrow> real \<Rightarrow> real option \<Rightarrow> circuit_breaker" where
  "new_circuit_breaker failure_threshold reset_timeout max_reset_timeout =
     \<lparr>cb_failure_threshold = failure_threshold, cb_base_reset_timeout = reset_timeout,
      cb_max_reset_timeout = (case max_reset_timeout of None \<Rightarrow> reset_timeout | Some m \<Rightarrow> m),
      cb_current_reset_timeout = reset_timeout, cb_state = STATE_CLOSED, cb_failure_count = 0,
      cb_last_failure_time = 0\<rparr>"

text \<open>\<^verbatim>\<open>check\<close>: the state with whether the request may go on; \<open>False\<close> stands for \<^verbatim>\<open>CircuitBreakerOpen\<close>.\<close>

definition cb_check :: "real \<Rightarrow> circuit_breaker \<Rightarrow> circuit_breaker \<times> bool" where
  "cb_check t cb =
     (case cb_state cb of
        STATE_CLOSED \<Rightarrow> (cb, True)
      | STATE_HALF_OPEN \<Rightarrow> (cb, True)
      | STATE_OPEN \<Rightarrow>
          if cb_current_reset_timeout cb \<le> t - cb_last_failure_time cb
          then (cb\<lparr>cb_state := STATE_HALF_OPEN\<rparr>, True)
          else (cb, False))"

definition retry_after :: "real \<Rightarrow> circuit_breaker \<Rightarrow> real" where
  "retry_after t cb =
     (if cb_state cb \<noteq> STATE_OPEN then 0
      else min (max (cb_current_reset_timeout cb - (t - cb_last_failure_time cb)) 0) 30)"

definition record_success :: "circuit_breaker \<Rightarrow> circuit_breaker" where
  "record_success cb =
     cb\<lparr>cb_failure_count := 0, cb_state := STATE_CLOSED, cb_current_reset_timeout := cb_base_reset_timeout cb\<rparr>"

definition trips_at_once :: "error_class \<Rightarrow> bool" where
  "trips_at_once ec \<longleftrightarrow> ec = ERROR_CLASS_PERMANENT \<or> ec = ERROR_CLASS_AUTH \<or> ec = ERROR_CLASS_QUOTA_EXCEEDED"

definition record_failure :: "real \<Rightarrow> api_error \<Rightarrow> circuit_breaker \<Rightarrow> circuit_breaker" where
  "record_failure t e cb =
     (let ec = classify_api_error e
      in if ec = ERROR_CLASS_INPUT_TOO_LARGE then cb
         else (let cb1 = cb\<lparr>cb_failure_count := cb_failure_count cb + 1, cb_last_failure_time := t\<rparr>
               in if cb_state cb1 = STATE_HALF_OPEN
                  then cb1\<lparr>cb_state := STATE_OPEN,
                           cb_current_reset_timeout := min (cb_current_reset_timeout cb1 * 2) (cb_max_reset_timeout cb1)\<rparr>
                  else if trips_at_once ec
                  then cb1\<lparr>cb_state := STATE_OPEN, cb_current_reset_timeout := cb_base_reset_timeout cb1\<rparr>
                  else if cb_failure_threshold cb1 \<le> cb_failure_count cb1
                  then cb1\<lparr>cb_state := STATE_OPEN, cb_current_reset_timeout := cb_base_reset_timeout cb1\<rparr>
                  else cb1))"

section \<open>Events\<close>

text \<open>A breaker's life: checks, successes and failures with the times of the clock.\<close>

datatype breaker_event = Check real | Success | Failure real api_error

fun breaker_step :: "breaker_event \<Rightarrow> circuit_breaker \<Rightarrow> circuit_breaker" where
  "breaker_step (Check t) cb = fst (cb_check t cb)"
| "breaker_step Success cb = record_success cb"
| "breaker_step (Failure t e) cb = record_failure t e cb"

definition breaker_run :: "breaker_event list \<Rightarrow> circuit_breaker \<Rightarrow> circuit_breaker" where
  "breaker_run evs cb = fold breaker_step evs cb"

end
