(* ===== verification/Resilience_Props.thy ===== *)
theory Resilience_Props
  imports Failover Circuit_Breaker
begin

text \<open>
  The properties of retries, of the circuit breaker and of failover between models and credentials.
\<close>

section \<open>Retries\<close>

definition retry_ends :: "(nat \<Rightarrow> 'e + 'r) \<Rightarrow> ('e \<Rightarrow> bool) \<Rightarrow> int \<Rightarrow> nat \<Rightarrow> bool" where
  "retry_ends calls ok m k \<longleftrightarrow> m \<le> int k \<or> (case calls k of Inr _ \<Rightarrow> True | Inl e \<Rightarrow> \<not> ok e)"

lemma retry_loop_ends:
  "\<exists>k \<ge> a. retry_ends calls ok m k \<and> (\<forall>j. a \<le> j \<and> j < k \<longrightarrow> \<not> retry_ends calls ok m j) \<and>
     retry_loop calls ok d m a = (calls k, map d [a..<k])"
proof (induction calls ok d m a rule: retry_loop.induct)
  case (1 calls ok d m a)
  show ?case
  proof (cases "retry_ends calls ok m a")
    case True
    then have "retry_loop calls ok d m a = (calls a, [])"
      by (subst retry_loop.simps) (auto simp: retry_ends_def split: sum.splits)
    with True show ?thesis by (intro exI [of _ a]) auto
  next
    case False
    then obtain e where e: "calls a = Inl e" "int a < m" "ok e"
      by (auto simp: retry_ends_def split: sum.splits)
    with 1 obtain k where k: "a + 1 \<le> k" "retry_ends calls ok m k"
      "\<forall>j. a + 1 \<le> j \<and> j < k \<longrightarrow> \<not> retry_ends calls ok m j"
      "retry_loop calls ok d m (a + 1) = (calls k, map d [a + 1..<k])" by fastforce
    have "retry_loop calls ok d m a = (calls k, d a # map d [a + 1..<k])"
      using e k(4) by (subst retry_loop.simps) simp
    moreover have "d a # map d [a + 1..<k] = map d [a..<k]"
      using k(1) by (simp add: upt_conv_Cons)
    moreover have "\<forall>j. a \<le> j \<and> j < k \<longrightarrow> \<not> retry_ends calls ok m j"
      using k(3) False by (metis Suc_eq_plus1 le_antisym not_less_eq_eq)
    ultimately show ?thesis using k(1,2) by (intro exI [of _ k]) auto
  qed
qed

text \<open>Property C36 (equivalence): \<^verbatim>\<open>retry_sync\<close> returns the outcome of the first call that succeeds, fails with
  an error that is not retryable, or is the last one allowed; it makes at most \<^verbatim>\<open>max_retries + 1\<close> calls
  (one when \<^verbatim>\<open>max_retries\<close> is not positive), and before the call number \<open>k\<close> it has slept \<open>k\<close> times, each
  time at most \<^verbatim>\<open>max_delay + base_delay\<close>.\<close>

theorem retry_sync_spec:
  assumes "0 \<le> base" and "\<forall>i. 0 \<le> us i \<and> us i \<le> base"
  shows "\<exists>k. k \<le> nat m \<and> retry_ends calls ok m k \<and> (\<forall>j < k. \<not> retry_ends calls ok m j) \<and>
    fst (retry_sync calls ok m base mx jitter us) = calls k \<and>
    length (snd (retry_sync calls ok m base mx jitter us)) = k \<and>
    (\<forall>x \<in> set (snd (retry_sync calls ok m base mx jitter us)). x \<le> mx + base)"
proof -
  let ?d = "\<lambda>k. compute_delay k base mx jitter (us k)"
  obtain k where k: "retry_ends calls ok m k" "\<forall>j < k. \<not> retry_ends calls ok m j"
    "retry_loop calls ok ?d m 0 = (calls k, map ?d [0..<k])"
    using retry_loop_ends [of 0 calls ok m ?d] by auto
  have "k \<le> nat m"
  proof (rule ccontr)
    assume "\<not> k \<le> nat m"
    then have "\<not> retry_ends calls ok m (nat m)" using k(2) by simp
    then show False by (auto simp: retry_ends_def split: if_splits)
  qed
  moreover have "?d i \<le> mx + base" for i
    using assms by (auto simp: compute_delay_def Let_def min_def intro: add_mono order_trans [of _ mx])
  ultimately show ?thesis using k by (intro exI [of _ k]) (auto simp: retry_sync_def)
qed

definition flaky_calls :: "nat \<Rightarrow> string + nat" where
  "flaky_calls i = (if i < 2 then Inl ''timeout'' else Inr i)"

theorem retry_sync_spec_witness:
  "fst (retry_sync flaky_calls (\<lambda>e. True) 3 (1 / 2) 8 False (\<lambda>_. 0)) = Inr 2"
proof -
  obtain k where k: "retry_ends flaky_calls (\<lambda>e. True) 3 k" "\<forall>j < k. \<not> retry_ends flaky_calls (\<lambda>e. True) 3 j"
    "fst (retry_sync flaky_calls (\<lambda>e. True) 3 (1 / 2) 8 False (\<lambda>_. 0)) = flaky_calls k"
    using retry_sync_spec [of "1 / 2" "\<lambda>_. 0" 3 flaky_calls "\<lambda>e. True" 8 False] by auto
  have "2 \<le> k" using k(1) by (auto simp: retry_ends_def flaky_calls_def split: if_splits)
  moreover have "retry_ends flaky_calls (\<lambda>e. True) 3 2" by (simp add: retry_ends_def flaky_calls_def)
  with k(2) have "k \<le> 2" by (meson not_less)
  ultimately show ?thesis using k(3) by (simp add: flaky_calls_def)
qed

section \<open>The circuit breaker\<close>

definition counted_failure :: "breaker_event \<Rightarrow> bool" where
  "counted_failure ev = (case ev of Failure _ e \<Rightarrow> classify_api_error e \<noteq> ERROR_CLASS_INPUT_TOO_LARGE | _ \<Rightarrow> False)"

definition tripping_failure :: "breaker_event \<Rightarrow> bool" where
  "tripping_failure ev = (case ev of Failure _ e \<Rightarrow> trips_at_once (classify_api_error e) | _ \<Rightarrow> False)"

text \<open>The specification reads the history only: the failures that count since the last success.\<close>

definition recent_failures :: "breaker_event list \<Rightarrow> breaker_event list" where
  "recent_failures evs = filter counted_failure (takeWhile (\<lambda>ev. ev \<noteq> Success) (rev evs))"

lemma recent_failures_snoc:
  "recent_failures (evs @ [ev]) =
     (if ev = Success then [] else if counted_failure ev then ev # recent_failures evs else recent_failures evs)"
  by (simp add: recent_failures_def)

lemma breaker_run_snoc: "breaker_run (evs @ [ev]) cb = breaker_step ev (breaker_run evs cb)"
  by (simp add: breaker_run_def)

lemma breaker_step_config [simp]:
  "cb_failure_threshold (breaker_step ev cb) = cb_failure_threshold cb"
  "cb_base_reset_timeout (breaker_step ev cb) = cb_base_reset_timeout cb"
  "cb_max_reset_timeout (breaker_step ev cb) = cb_max_reset_timeout cb"
  by (cases ev; simp add: cb_check_def record_success_def record_failure_def Let_def split: breaker_state.split)+

lemma breaker_run_config [simp]:
  "cb_failure_threshold (breaker_run evs cb) = cb_failure_threshold cb"
  "cb_base_reset_timeout (breaker_run evs cb) = cb_base_reset_timeout cb"
  "cb_max_reset_timeout (breaker_run evs cb) = cb_max_reset_timeout cb"
  by (induction evs rule: rev_induct) (auto simp: breaker_run_snoc, simp_all add: breaker_run_def)

text \<open>The simulation: the counter is the number of recent failures, and the breaker is closed exactly when
  they are fewer than the threshold and none of them trips it at once.\<close>

definition breaker_calm :: "int \<Rightarrow> breaker_event list \<Rightarrow> bool" where
  "breaker_calm threshold evs \<longleftrightarrow>
     int (length (recent_failures evs)) < threshold \<and> \<not> list_ex tripping_failure (recent_failures evs)"

lemma trips_counted: "trips_at_once ec \<Longrightarrow> ec \<noteq> ERROR_CLASS_INPUT_TOO_LARGE"
  by (auto simp: trips_at_once_def)

lemma breaker_simulation:
  fixes base :: real and mx :: "real option"
  assumes "1 \<le> threshold"
  defines "cb \<equiv> \<lambda>evs. breaker_run evs (new_circuit_breaker threshold base mx)"
  shows "cb_failure_count (cb evs) = int (length (recent_failures evs)) \<and>
    (cb_state (cb evs) = STATE_CLOSED \<longleftrightarrow> breaker_calm threshold evs)"
proof (induction evs rule: rev_induct)
  case Nil
  then show ?case using assms(1)
    by (simp add: cb_def breaker_run_def new_circuit_breaker_def recent_failures_def breaker_calm_def)
next
  case (snoc ev evs)
  have th: "cb_failure_threshold (cb evs) = threshold" by (simp add: cb_def new_circuit_breaker_def)
  have st: "cb (evs @ [ev]) = breaker_step ev (cb evs)" by (simp add: cb_def breaker_run_snoc)
  show ?case
  proof (cases ev)
    case (Check t)
    with snoc st show ?thesis
      by (auto simp: recent_failures_snoc breaker_calm_def counted_failure_def cb_check_def split: breaker_state.splits)
  next
    case Success
    with st assms(1) show ?thesis by (simp add: recent_failures_snoc breaker_calm_def record_success_def)
  next
    case (Failure t e)
    show ?thesis
    proof (cases "classify_api_error e = ERROR_CLASS_INPUT_TOO_LARGE")
      case True
      with Failure snoc st show ?thesis
        by (simp add: recent_failures_snoc breaker_calm_def counted_failure_def record_failure_def)
    next
      case False
      then have r: "recent_failures (evs @ [ev]) = ev # recent_failures evs"
        using Failure by (simp add: recent_failures_snoc counted_failure_def)
      have n: "cb_failure_count (cb (evs @ [ev])) = int (length (recent_failures (evs @ [ev])))"
        using False Failure snoc st r by (simp add: record_failure_def Let_def)
      have "cb_state (cb (evs @ [ev])) = STATE_CLOSED \<longleftrightarrow> cb_state (cb evs) = STATE_CLOSED \<and>
          \<not> trips_at_once (classify_api_error e) \<and> int (length (recent_failures (evs @ [ev]))) < threshold"
        using False Failure st th n snoc r
        by (cases "cb_state (cb evs)") (auto simp: record_failure_def Let_def)
      with n snoc r Failure show ?thesis by (auto simp: breaker_calm_def tripping_failure_def)
    qed
  qed
qed

text \<open>Property C35 (refinement): the breaker implements its specification over histories.  After any sequence of
  checks, successes and failures it is closed exactly when, since the last success, fewer than
  \<^verbatim>\<open>failure_threshold\<close> failures were recorded (not counting inputs that are too large) and none of them was a
  permanent, authorisation or quota error; its counter is the number of those failures.\<close>

theorem breaker_refines_history:
  assumes "1 \<le> threshold"
  shows "cb_failure_count (breaker_run evs (new_circuit_breaker threshold base mx)) = int (length (recent_failures evs)) \<and>
    (cb_state (breaker_run evs (new_circuit_breaker threshold base mx)) = STATE_CLOSED \<longleftrightarrow> breaker_calm threshold evs)"
  by (rule breaker_simulation [OF assms])

theorem breaker_refines_history_witness:
  "cb_state (breaker_run [Failure 1 (AllCredentialsFailed []), Check 2, Failure 3 (AllCredentialsFailed [])]
      (new_circuit_breaker 2 300 None)) \<noteq> STATE_CLOSED"
  using breaker_refines_history [of 2 "[Failure 1 (AllCredentialsFailed []), Check 2, Failure 3 (AllCredentialsFailed [])]" 300 None]
  by (simp add: breaker_calm_def recent_failures_def counted_failure_def classify_api_error_def classify_aggregate_def)

lemma check_half_open: "cb_state cb = STATE_HALF_OPEN \<Longrightarrow> cb_check t cb = (cb, True)"
  by (simp add: cb_check_def)

lemma half_open_run:
  "cb_state cb = STATE_HALF_OPEN \<Longrightarrow> breaker_run (map Check ts) cb = cb"
  by (induction ts) (simp_all add: breaker_run_def check_half_open)

text \<open>An open breaker lets a request through exactly when its reset timeout has passed
  since the last failure, \<^verbatim>\<open>retry_after\<close> is zero exactly then and at most 30 otherwise, and whoever waits as long
  as it says while at most 30 seconds remain gets through.  From that first check on the breaker is half open and
  every further check, not just one probe, passes until an outcome is recorded.\<close>

lemma open_breaker_lets_through:
  assumes "cb_state cb = STATE_OPEN"
  shows "(snd (cb_check t cb) \<longleftrightarrow> cb_current_reset_timeout cb \<le> t - cb_last_failure_time cb) \<and>
    (retry_after t cb = 0 \<longleftrightarrow> snd (cb_check t cb)) \<and> 0 \<le> retry_after t cb \<and> retry_after t cb \<le> 30 \<and>
    (cb_last_failure_time cb + cb_current_reset_timeout cb - t \<le> 30 \<longrightarrow> snd (cb_check (t + retry_after t cb) cb)) \<and>
    (snd (cb_check t cb) \<longrightarrow>
       (\<forall>ts t'. snd (cb_check t' (breaker_run (map Check ts) (fst (cb_check t cb))))))"
proof -
  have "snd (cb_check t' (breaker_run (map Check ts) (fst (cb_check t cb))))" if "snd (cb_check t cb)" for ts t'
  proof -
    have "cb_state (fst (cb_check t cb)) = STATE_HALF_OPEN" using that assms by (simp add: cb_check_def split: if_splits)
    then show ?thesis by (simp add: half_open_run check_half_open)
  qed
  moreover have "snd (cb_check (t + retry_after t cb) cb)"
    if "cb_last_failure_time cb + cb_current_reset_timeout cb - t \<le> 30"
    using assms that by (simp add: cb_check_def retry_after_def min_def max_def)
  ultimately show ?thesis using assms by (auto simp: cb_check_def retry_after_def min_def max_def)
qed

definition demo_breaker :: circuit_breaker where
  "demo_breaker = (new_circuit_breaker 1 60 (Some 600))\<lparr>cb_state := STATE_OPEN, cb_last_failure_time := 100\<rparr>"

lemma open_breaker_lets_through_example:
  "\<not> snd (cb_check 159 demo_breaker) \<and> snd (cb_check 160 demo_breaker) \<and> retry_after 159 demo_breaker \<noteq> 0"
proof -
  have o: "cb_state demo_breaker = STATE_OPEN" by (simp add: demo_breaker_def)
  show ?thesis
    using open_breaker_lets_through [OF o, of 159] open_breaker_lets_through [OF o, of 160]
    by (simp add: demo_breaker_def new_circuit_breaker_def)
qed

text \<open>When the maximal reset timeout is at least the base one, the reset timeout always lies
  between the two, however often failed probes double it.\<close>

lemma reset_timeout_bounds:
  assumes "0 \<le> base" "base \<le> mx"
  shows "base \<le> cb_current_reset_timeout (breaker_run evs (new_circuit_breaker threshold base (Some mx))) \<and>
    cb_current_reset_timeout (breaker_run evs (new_circuit_breaker threshold base (Some mx))) \<le> mx"
proof (induction evs rule: rev_induct)
  case Nil
  with assms show ?case by (simp add: breaker_run_def new_circuit_breaker_def)
next
  case (snoc ev evs)
  let ?cb = "breaker_run evs (new_circuit_breaker threshold base (Some mx))"
  have c: "cb_base_reset_timeout ?cb = base" "cb_max_reset_timeout ?cb = mx"
    by (simp_all add: new_circuit_breaker_def)
  show ?case
    using snoc assms c
    by (cases ev; cases "cb_state ?cb")
      (auto simp: breaker_run_snoc cb_check_def record_success_def record_failure_def Let_def)
qed

lemma reset_timeout_bounds_example:
  "cb_current_reset_timeout (breaker_run
      [Failure 0 (AllCredentialsFailed []), Check 60, Failure 60 (AllCredentialsFailed []), Check 180,
       Failure 180 (AllCredentialsFailed [])] (new_circuit_breaker 1 60 (Some 200))) \<le> 200"
  using reset_timeout_bounds [of 60 200 "[Failure 0 (AllCredentialsFailed []), Check 60,
      Failure 60 (AllCredentialsFailed []), Check 180, Failure 180 (AllCredentialsFailed [])]" 1] by simp

text \<open>A failure that arrives while the breaker is open already, from a call that was under way, undoes the
  back-off: the timeout of 240 seconds is 60 again.\<close>

lemma late_failure_resets_backoff:
  "cb_current_reset_timeout (breaker_run
      [Failure 0 (AllCredentialsFailed []), Check 60, Failure 60 (AllCredentialsFailed []), Check 180,
       Failure 180 (AllCredentialsFailed [])] (new_circuit_breaker 1 60 (Some 600))) = 240 \<and>
   cb_current_reset_timeout (breaker_run
      [Failure 0 (AllCredentialsFailed []), Check 60, Failure 60 (AllCredentialsFailed []), Check 180,
       Failure 180 (AllCredentialsFailed []), Failure 181 (AllCredentialsFailed [])]
      (new_circuit_breaker 1 60 (Some 600))) = 60"
  by (simp add: breaker_run_def new_circuit_breaker_def record_failure_def cb_check_def Let_def
      classify_api_error_def classify_aggregate_def trips_at_once_def)

section \<open>Failover between credentials\<close>

lemma ring_order_distinct: "distinct (ring_order start n)"
proof -
  have "inj_on (\<lambda>o'. (start + o') mod n) {0..<n}"
  proof (rule linorder_inj_onI')
    fix i j
    assume a: "i \<in> {0..<n}" "j \<in> {0..<n}" "i < j"
    show "(start + i) mod n \<noteq> (start + j) mod n"
    proof
      assume "(start + i) mod n = (start + j) mod n"
      then have "n dvd (start + j) - (start + i)" using a(3) by (metis add_le_mono1 less_imp_le mod_eq_dvd_iff_nat nat_add_left_cancel_le)
      then have "n dvd j - i" by simp
      then show False using a by (meson dvd_imp_le less_imp_diff_less not_less zero_less_diff atLeastLessThan_iff)
    qed
  qed
  then show ?thesis by (simp add: ring_order_def distinct_map)
qed

lemma ring_order_set: "set (ring_order start n) = {..<n}"
proof (cases "n = 0")
  case False
  have "set (ring_order start n) \<subseteq> {..<n}" using False by (auto simp: ring_order_def)
  moreover have "card (set (ring_order start n)) = n"
    using distinct_card [OF ring_order_distinct [of start n]] by (simp add: ring_order_def)
  ultimately show ?thesis by (simp add: card_subset_eq)
qed (simp add: ring_order_def)

lemma ring_order_Cons: "start < n \<Longrightarrow> \<exists>rest. ring_order start n = start # rest"
  by (cases n) (simp_all add: ring_order_def upt_conv_Cons del: upt_Suc)

text \<open>The outcomes that end the loop: a result, or an error that fails fast.\<close>

definition decides :: "api_error + 'r \<Rightarrow> bool" where
  "decides out = (case out of Inr _ \<Rightarrow> True | Inl e \<Rightarrow> is_fail_fast (classify_api_error e))"

lemma ring_loop_outcome:
  "ring_loop calls ids t order errs sw =
     (case find (\<lambda>i. decides (calls i)) order of
        Some i \<Rightarrow> (case calls i of Inr r \<Rightarrow> (commit_success t i sw, Inr r) | Inl e \<Rightarrow> (sw, Inl e))
      | None \<Rightarrow> (sw, Inl (AllCredentialsFailed (errs @ map (\<lambda>i. (ids ! i, classify_api_error (projl (calls i)),
                   projl (calls i), i)) order))))"
  by (induction order arbitrary: errs) (auto simp: decides_def Let_def split: sum.splits option.splits)

text \<open>A request tries the credentials in the cyclic order that starts at the active one,
  each of the \<open>n\<close> once at most, and its outcome is that of the first one that answers or fails with an error of the
  request itself (bad parameter, input too large, content rejected), which is raised as it is; only a credential that
  answers changes the switcher, which makes it the active one.  When all fail otherwise the aggregate lists every
  credential with the class of its error, in that order.  The embedder and the VLM wrapper agree.\<close>

lemma failover_outcome:
  "let sw1 = maybe_failback t sw; order = ring_order (cs_active_idx sw1) (cs_n sw)
   in distinct order \<and> set order = {..<cs_n sw} \<and>
      embed_with_failover t t' calls ids sw =
        (case find (\<lambda>i. decides (calls i)) order of
           Some i \<Rightarrow> (case calls i of Inr r \<Rightarrow> (commit_success t' i sw1, Inr r) | Inl e \<Rightarrow> (sw1, Inl e))
         | None \<Rightarrow> (sw1, Inl (AllCredentialsFailed (map (\<lambda>i. (ids ! i, classify_api_error (projl (calls i)),
                      projl (calls i), i)) order)))) \<and>
      get_completion_with_failover t t' calls ids sw = embed_with_failover t t' calls ids sw"
proof -
  have "cs_n (maybe_failback t sw) = cs_n sw" by (simp add: maybe_failback_def)
  then show ?thesis
    by (simp add: ring_order_distinct ring_order_set embed_with_failover_def get_completion_with_failover_def
        ring_loop_outcome Let_def split: option.split sum.split)
qed

section \<open>Failing back\<close>

definition healthy_request :: "string list \<Rightarrow> (nat \<Rightarrow> api_error + 'r) \<Rightarrow> real \<Rightarrow> cred_switcher \<Rightarrow> cred_switcher" where
  "healthy_request ids calls t sw = fst (embed_with_failover t t calls ids sw)"

definition failback_distance :: "cred_switcher \<Rightarrow> nat" where
  "failback_distance sw =
     (if cs_active_idx sw = 0 then 0
      else nat (int (cs_active_idx sw) * cs_failback_request_count sw + 1 -
             min (cs_active_request_count sw) (cs_failback_request_count sw)))"

lemma failback_mult: "0 < a \<Longrightarrow> int a * (c :: int) = int (a - 1) * c + c"
  by (cases a) (simp_all add: algebra_simps)

lemma failback_distance_0:
  assumes "failback_distance sw = 0" "1 \<le> cs_failback_request_count sw"
  shows "cs_active_idx sw = 0"
proof (rule ccontr)
  let ?c = "cs_failback_request_count sw"
  assume a: "cs_active_idx sw \<noteq> 0"
  have "int (cs_active_idx sw) * ?c = int (cs_active_idx sw - 1) * ?c + ?c"
    using a by (intro failback_mult) simp
  moreover have "int (cs_active_idx sw) * ?c + 1 - min (cs_active_request_count sw) ?c \<le> 0"
    using a assms(1) unfolding failback_distance_def by (simp only: if_False nat_0_iff)
  moreover have "0 \<le> int (cs_active_idx sw - 1) * ?c" using assms(2) by simp
  ultimately show False by linarith
qed

lemma healthy_request_eq:
  assumes "cs_active_idx sw < cs_n sw" "\<forall>i < cs_n sw. \<exists>r. calls i = Inr r"
  shows "healthy_request ids calls t sw = commit_success t (cs_active_idx (maybe_failback t sw)) (maybe_failback t sw)"
proof -
  let ?sw = "maybe_failback t sw"
  have n: "cs_n ?sw = cs_n sw" "cs_active_idx ?sw < cs_n sw" using assms(1) by (auto simp: maybe_failback_def)
  then obtain rest where "ring_order (cs_active_idx ?sw) (cs_n ?sw) = cs_active_idx ?sw # rest"
    using ring_order_Cons [of "cs_active_idx ?sw" "cs_n sw"] by auto
  with n(2) assms(2) show ?thesis by (auto simp: healthy_request_def embed_with_failover_def Let_def split: sum.split)
qed

lemma healthy_request_step:
  fixes ids :: "string list" and t :: real
  assumes "cs_active_idx sw < cs_n sw" "\<forall>i < cs_n sw. \<exists>r. calls i = Inr r"
    and "1 \<le> cs_failback_request_count sw" "0 \<le> cs_active_request_count sw"
  defines "sw' \<equiv> healthy_request ids calls t sw"
  shows "cs_active_idx sw' < cs_n sw'" "cs_n sw' = cs_n sw"
    "cs_failback_request_count sw' = cs_failback_request_count sw" "0 \<le> cs_active_request_count sw'"
    "failback_distance sw' \<le> failback_distance sw - 1"
proof -
  note eq = healthy_request_eq [OF assms(1,2), of ids t]
  show "cs_active_idx sw' < cs_n sw'" "cs_n sw' = cs_n sw"
    "cs_failback_request_count sw' = cs_failback_request_count sw" "0 \<le> cs_active_request_count sw'"
    using assms(1,4) by (auto simp: sw'_def eq maybe_failback_def commit_success_def)
  show "failback_distance sw' \<le> failback_distance sw - 1"
  proof (cases "cs_active_idx sw = 0")
    case True
    then show ?thesis by (simp add: sw'_def eq maybe_failback_def commit_success_def failback_distance_def)
  next
    case False
    let ?c = "cs_failback_request_count sw"
    have m: "int (cs_active_idx sw) * ?c = int (cs_active_idx sw - 1) * ?c + ?c"
      using False by (intro failback_mult) simp
    have p: "0 \<le> int (cs_active_idx sw - 1) * ?c" using assms(3) by simp
    show ?thesis
      using False assms(3,4) m p
      by (auto simp: sw'_def eq maybe_failback_def commit_success_def failback_distance_def min_def)
  qed
qed

lemma healthy_run:
  assumes "cs_active_idx sw < cs_n sw" "\<forall>i < cs_n sw. \<exists>r. calls i = Inr r"
    and "1 \<le> cs_failback_request_count sw" "0 \<le> cs_active_request_count sw"
  shows "failback_distance (fold (healthy_request ids calls) ts sw) \<le> failback_distance sw - length ts \<and>
    cs_failback_request_count (fold (healthy_request ids calls) ts sw) = cs_failback_request_count sw"
  using assms
proof (induction ts arbitrary: sw)
  case (Cons t ts)
  note st = healthy_request_step [OF Cons.prems, of ids t]
  have "failback_distance (fold (healthy_request ids calls) ts (healthy_request ids calls t sw)) \<le>
      failback_distance (healthy_request ids calls t sw) - length ts \<and>
    cs_failback_request_count (fold (healthy_request ids calls) ts (healthy_request ids calls t sw)) =
      cs_failback_request_count (healthy_request ids calls t sw)"
    by (rule Cons.IH) (use st Cons.prems in auto)
  with st(3,5) show ?case by auto
qed simp

text \<open>While the credentials answer, requests find their way back to the first one.  From a
  switcher whose active credential is \<open>k\<close>, after \<open>k\<close> times the failback count plus one successful requests, at
  whatever times, the active credential is number 0 again, and it stays.\<close>

lemma failback_reaches_first:
  assumes "cs_active_idx sw < cs_n sw" "\<forall>i < cs_n sw. \<exists>r. calls i = Inr r"
    and "1 \<le> cs_failback_request_count sw" "0 \<le> cs_active_request_count sw"
    and "int (cs_active_idx sw) * cs_failback_request_count sw + 1 \<le> int (length ts)"
  shows "cs_active_idx (fold (healthy_request ids calls) ts sw) = 0"
proof -
  note run = healthy_run [OF assms(1-4), of ids ts]
  have "failback_distance sw \<le> length ts"
  proof (cases "cs_active_idx sw = 0")
    case False
    have "0 \<le> min (cs_active_request_count sw) (cs_failback_request_count sw)" using assms(3,4) by simp
    then show ?thesis using assms(5) False unfolding failback_distance_def by (auto simp: nat_le_iff)
  qed (simp add: failback_distance_def)
  with run have "failback_distance (fold (healthy_request ids calls) ts sw) = 0" by simp
  with run assms(3) show ?thesis using failback_distance_0 by simp
qed

definition demo_switcher :: cred_switcher where
  "demo_switcher =
     \<lparr>cs_n = 2, cs_failback_timeout = 600, cs_failback_request_count = 2, cs_active_idx = 1,
      cs_last_switch_time = 0, cs_active_request_count = 0\<rparr>"

lemma failback_reaches_first_example:
  "cs_active_idx (fold (healthy_request [''a'', ''b''] (\<lambda>i. Inr i)) [1, 2, 3] demo_switcher) = 0"
  using failback_reaches_first [of demo_switcher "\<lambda>i. Inr i" "[1, 2, 3]" "[''a'', ''b'']"]
  by (simp add: demo_switcher_def)

section \<open>Failover to a backup model\<close>

text \<open>While the backup is in use and neither the failback time nor the failback count is
  reached, requests go to the backup and the primary is not called.  After that, a primary that fails with a
  transient or unclassified error makes the request fail although the backup works, and since neither the timer nor the
  counter is reset, so does every later request until the primary answers or fails otherwise.\<close>

lemma failback_error_blocks_backup:
  assumes "pb_using_backup sw" and "\<not> switches_to_backup (classify_api_error e)"
  shows "(\<not> should_try_primary t sw \<longrightarrow>
      get_completion_primary_backup t t' primary backup sw = (record_backup_request sw, backup)) \<and>
    (should_try_primary t sw \<longrightarrow>
      (\<forall>u \<ge> t. \<forall>u'. get_completion_primary_backup u u' (Inl e) (Inr r) sw = (sw, Inl e)))"
proof -
  have "get_completion_primary_backup u u' (Inl e) (Inr r) sw = (sw, Inl e)"
    if "should_try_primary t sw" "t \<le> u" for u u'
  proof -
    have "should_try_primary u sw" using that by (auto simp: should_try_primary_def)
    then show ?thesis using assms(2) by (simp add: get_completion_primary_backup_def record_primary_failure_def)
  qed
  then show ?thesis by (simp add: get_completion_primary_backup_def try_backup_def)
qed

lemma failback_error_blocks_backup_example:
  "get_completion_primary_backup 700 700 (Inl (AllCredentialsFailed [])) (Inr ''answer'')
     ((new_pb_switcher 600 50)\<lparr>pb_using_backup := True\<rparr>) =
   ((new_pb_switcher 600 50)\<lparr>pb_using_backup := True\<rparr>, Inl (AllCredentialsFailed []))"
proof -
  have "\<not> switches_to_backup (classify_api_error (AllCredentialsFailed []))"
    by (simp add: classify_api_error_def classify_aggregate_def switches_to_backup_def)
  from failback_error_blocks_backup [OF _ this, of "(new_pb_switcher 600 50)\<lparr>pb_using_backup := True\<rparr>" 700
      _ _ _ "''answer''"]
  show ?thesis by (simp add: should_try_primary_def new_pb_switcher_def)
qed

section \<open>Classification\<close>

text \<open>A status code inside an identifier is not taken for one, but removing the spaces of a text can put one
  together.\<close>

lemma request_id_no_status: "\<not> any_pattern [''413''] [''request req-413-abcd failed'']"
  by code_simp

lemma spaces_removed_make_status:
  "classify_api_error (ApiError \<lparr>exc_text = ''bad rows (4 13)'', exc_io = False\<rparr> None) = ERROR_CLASS_INPUT_TOO_LARGE"
  by code_simp

lemma exception_chain:
  "distinct (iter_exception_chain h seen cur) \<and> set (iter_exception_chain h seen cur) \<inter> set seen = {} \<and>
   (\<forall>i. cur = Some i \<longrightarrow> i \<notin> set seen \<longrightarrow> (\<exists>rest. iter_exception_chain h seen cur = i # rest))"
proof (induction h seen cur rule: iter_exception_chain.induct)
  case (1 h seen cur)
  show ?case
  proof (cases "\<exists>i x. cur = Some i \<and> i \<notin> set seen \<and> map_of h i = Some x")
    case True
    then obtain i x where c: "cur = Some i" "i \<notin> set seen" "map_of h i = Some x" by blast
    then have "iter_exception_chain h seen cur = i # iter_exception_chain h (i # seen)
        (case exc_cause x of None \<Rightarrow> exc_context x | Some c \<Rightarrow> Some c)"
      by (subst iter_exception_chain.simps) simp
    with 1 [OF c] c show ?thesis by auto
  next
    case False
    then have "iter_exception_chain h seen cur = (case cur of None \<Rightarrow> [] | Some i \<Rightarrow> if i \<in> set seen then [] else [i])"
      by (subst iter_exception_chain.simps) (auto split: option.splits)
    then show ?thesis by (auto split: option.splits)
  qed
qed

text \<open>The chain of an exception's causes is finite and lists no exception twice, also when
  the causes run in a circle, and it begins with the exception itself.\<close>

lemma exception_chain_distinct:
  "distinct (iter_exception_chain h [] (Some i)) \<and> (\<exists>rest. iter_exception_chain h [] (Some i) = i # rest)"
  using exception_chain [of h "[]" "Some i"] by simp

end
