(* ===== verification/Queue_Trackers.thy ===== *)
theory Queue_Trackers
  imports Py_Prelude Complex_Main
begin

text \<open>
  Counting the queued work of a message and of a request: the embedding task tracker
  (\<^verbatim>\<open>openviking/storage/queuefs/embedding_tracker.py\<close>) and the request wait tracker
  (\<^verbatim>\<open>openviking/telemetry/request_wait_tracker.py\<close>).

  Both change their tables under a thread lock, so each method is one step on the table; the callback of
  the embedding tracker runs after the lock is released, and a step returns the record whose callback is
  to be run.  Event loops are numbers.  The metadata and creation times that both keep, and never read, are
  left out.
\<close>

section \<open>Embedding tasks\<close>

record 'cb embedding_record =
  er_remaining :: int
  er_total :: int
  er_on_complete :: "'cb option"
  er_owner_loop :: nat

type_synonym 'cb embedding_tasks = "(string, 'cb embedding_record) dict"

definition emb_register ::
    "nat \<Rightarrow> string \<Rightarrow> int \<Rightarrow> 'cb option \<Rightarrow> 'cb embedding_tasks \<Rightarrow> 'cb embedding_tasks \<times> 'cb embedding_record option" where
  "emb_register owner_loop semantic_msg_id total_count on_complete tasks =
     (let record = \<lparr>er_remaining = total_count, er_total = total_count, er_on_complete = on_complete,
                    er_owner_loop = owner_loop\<rparr>;
          tasks1 = AList.update semantic_msg_id record tasks
      in if total_count \<le> 0 then (AList.delete semantic_msg_id tasks1, Some record) else (tasks1, None))"

text \<open>The table, the record to finalise, and the returned count.\<close>

definition emb_decrement ::
    "string \<Rightarrow> 'cb embedding_tasks \<Rightarrow> 'cb embedding_tasks \<times> 'cb embedding_record option \<times> int option" where
  "emb_decrement semantic_msg_id tasks =
     (case map_of tasks semantic_msg_id of
        None \<Rightarrow> (tasks, None, None)
      | Some record \<Rightarrow>
          (let record1 = record\<lparr>er_remaining := er_remaining record - 1\<rparr>;
               remaining = er_remaining record1
           in if remaining \<le> 0 then (AList.delete semantic_msg_id tasks, Some record1, Some remaining)
              else (AList.update semantic_msg_id record1 tasks, None, Some remaining)))"

text \<open>Where the callback of a record runs: on its owner loop when that is another loop, runs, is not closed and
  takes the coroutine, and on the current loop otherwise; nowhere when there is no callback.\<close>

record loop_status =
  loop_running :: "nat \<Rightarrow> bool"
  loop_closed :: "nat \<Rightarrow> bool"
  loop_accepts :: "nat \<Rightarrow> bool"

definition run_on_complete :: "loop_status \<Rightarrow> nat \<Rightarrow> 'cb embedding_record \<Rightarrow> ('cb \<times> nat) option" where
  "run_on_complete L current_loop record =
     (case er_on_complete record of
        None \<Rightarrow> None
      | Some cb \<Rightarrow>
          (let owner_loop = er_owner_loop record;
               owner_loop_available = (\<not> loop_closed L owner_loop \<and> loop_running L owner_loop)
           in if owner_loop \<noteq> current_loop \<and> owner_loop_available \<and> loop_accepts L owner_loop
              then Some (cb, owner_loop)
              else Some (cb, current_loop)))"

text \<open>A history of calls, and the message ids whose callback it runs, in order.\<close>

datatype 'cb embedding_event = Register nat string int "'cb option" | Decrement string

fun emb_step :: "'cb embedding_event \<Rightarrow> 'cb embedding_tasks \<Rightarrow> 'cb embedding_tasks \<times> string list" where
  "emb_step (Register l i n cb) tasks =
     (case emb_register l i n cb tasks of (tasks1, r) \<Rightarrow> (tasks1, if r = None then [] else [i]))"
| "emb_step (Decrement i) tasks =
     (case emb_decrement i tasks of (tasks1, r, _) \<Rightarrow> (tasks1, if r = None then [] else [i]))"

fun emb_run :: "'cb embedding_event list \<Rightarrow> 'cb embedding_tasks \<Rightarrow> 'cb embedding_tasks \<times> string list" where
  "emb_run [] tasks = (tasks, [])"
| "emb_run (ev # evs) tasks =
     (case emb_step ev tasks of (tasks1, done1) \<Rightarrow>
        (case emb_run evs tasks1 of (tasks2, done2) \<Rightarrow> (tasks2, done1 @ done2)))"

section \<open>Requests\<close>

record request_wait_state =
  pending_semantic_roots :: "string set"
  pending_embedding_roots :: "string set"
  semantic_processed :: int
  semantic_requeue_count :: int
  semantic_error_count :: int
  semantic_errors :: "string list"
  embedding_processed :: int
  embedding_requeue_count :: int
  embedding_error_count :: int
  embedding_errors :: "string list"

definition new_wait_state :: request_wait_state where
  "new_wait_state =
     \<lparr>pending_semantic_roots = {}, pending_embedding_roots = {}, semantic_processed = 0,
      semantic_requeue_count = 0, semantic_error_count = 0, semantic_errors = [],
      embedding_processed = 0, embedding_requeue_count = 0, embedding_error_count = 0, embedding_errors = []\<rparr>"

type_synonym wait_states = "(string, request_wait_state) dict"

definition register_request :: "string \<Rightarrow> wait_states \<Rightarrow> wait_states" where
  "register_request tid sts =
     (if tid = [] then sts
      else (case map_of sts tid of Some _ \<Rightarrow> sts | None \<Rightarrow> AList.update tid new_wait_state sts))"

text \<open>The guard that the recording methods share: an empty or unknown request is ignored.\<close>

definition with_state :: "string \<Rightarrow> (request_wait_state \<Rightarrow> request_wait_state) \<Rightarrow> wait_states \<Rightarrow> wait_states" where
  "with_state tid f sts =
     (if tid = [] then sts
      else (case map_of sts tid of None \<Rightarrow> sts | Some s \<Rightarrow> AList.update tid (f s) sts))"

definition register_semantic_root :: "string \<Rightarrow> string \<Rightarrow> wait_states \<Rightarrow> wait_states" where
  "register_semantic_root tid i sts =
     (if i = [] then sts
      else with_state tid (\<lambda>s. s\<lparr>pending_semantic_roots := insert i (pending_semantic_roots s)\<rparr>) sts)"

definition register_embedding_root :: "string \<Rightarrow> string \<Rightarrow> wait_states \<Rightarrow> wait_states" where
  "register_embedding_root tid i sts =
     (if i = [] then sts
      else with_state tid (\<lambda>s. s\<lparr>pending_embedding_roots := insert i (pending_embedding_roots s)\<rparr>) sts)"

definition record_embedding_processed :: "string \<Rightarrow> int \<Rightarrow> wait_states \<Rightarrow> wait_states" where
  "record_embedding_processed tid delta =
     with_state tid (\<lambda>s. s\<lparr>embedding_processed := embedding_processed s + max delta 0\<rparr>)"

definition record_embedding_requeue :: "string \<Rightarrow> int \<Rightarrow> wait_states \<Rightarrow> wait_states" where
  "record_embedding_requeue tid delta =
     with_state tid (\<lambda>s. s\<lparr>embedding_requeue_count := embedding_requeue_count s + max delta 0\<rparr>)"

definition add_message :: "string \<Rightarrow> string list \<Rightarrow> string list" where
  "add_message m ms = (if m = [] then ms else ms @ [m])"

definition record_embedding_error :: "string \<Rightarrow> string \<Rightarrow> wait_states \<Rightarrow> wait_states" where
  "record_embedding_error tid msg =
     with_state tid (\<lambda>s. s\<lparr>embedding_error_count := embedding_error_count s + 1,
       embedding_errors := add_message msg (embedding_errors s)\<rparr>)"

definition mark_semantic_done :: "string \<Rightarrow> string \<Rightarrow> int \<Rightarrow> wait_states \<Rightarrow> wait_states" where
  "mark_semantic_done tid i delta =
     with_state tid (\<lambda>s. s\<lparr>pending_semantic_roots := pending_semantic_roots s - {i},
       semantic_processed := semantic_processed s + max delta 0\<rparr>)"

definition record_semantic_requeue :: "string \<Rightarrow> int \<Rightarrow> wait_states \<Rightarrow> wait_states" where
  "record_semantic_requeue tid delta =
     with_state tid (\<lambda>s. s\<lparr>semantic_requeue_count := semantic_requeue_count s + max delta 0\<rparr>)"

definition mark_semantic_failed :: "string \<Rightarrow> string \<Rightarrow> string \<Rightarrow> wait_states \<Rightarrow> wait_states" where
  "mark_semantic_failed tid i msg =
     with_state tid (\<lambda>s. s\<lparr>pending_semantic_roots := pending_semantic_roots s - {i},
       semantic_error_count := semantic_error_count s + 1,
       semantic_errors := add_message msg (semantic_errors s)\<rparr>)"

definition mark_embedding_done :: "string \<Rightarrow> string \<Rightarrow> int \<Rightarrow> wait_states \<Rightarrow> wait_states" where
  "mark_embedding_done tid i delta =
     with_state tid (\<lambda>s. s\<lparr>pending_embedding_roots := pending_embedding_roots s - {i},
       embedding_processed := embedding_processed s + max delta 0\<rparr>)"

definition mark_embedding_failed :: "string \<Rightarrow> string \<Rightarrow> string \<Rightarrow> wait_states \<Rightarrow> wait_states" where
  "mark_embedding_failed tid i msg =
     with_state tid (\<lambda>s. s\<lparr>pending_embedding_roots := pending_embedding_roots s - {i},
       embedding_error_count := embedding_error_count s + 1,
       embedding_errors := add_message msg (embedding_errors s)\<rparr>)"

definition is_complete :: "string \<Rightarrow> wait_states \<Rightarrow> bool" where
  "is_complete tid sts =
     (if tid = [] then True
      else (case map_of sts tid of
              None \<Rightarrow> True
            | Some s \<Rightarrow> pending_semantic_roots s = {} \<and> pending_embedding_roots s = {}))"

definition wt_cleanup :: "string \<Rightarrow> wait_states \<Rightarrow> wait_states" where
  "wt_cleanup tid sts = (if tid = [] then sts else AList.delete tid sts)"

text \<open>\<^verbatim>\<open>build_queue_status\<close>: processed, requeued, failed and the messages, of the two queues.\<close>

definition build_queue_status ::
    "string \<Rightarrow> wait_states \<Rightarrow> (int \<times> int \<times> int \<times> string list) \<times> (int \<times> int \<times> int \<times> string list)" where
  "build_queue_status tid sts =
     (let s = (case map_of sts tid of None \<Rightarrow> new_wait_state | Some s \<Rightarrow> s)
      in ((semantic_processed s, semantic_requeue_count s, semantic_error_count s, semantic_errors s),
          (embedding_processed s, embedding_requeue_count s, embedding_error_count s, embedding_errors s)))"

text \<open>The polling loop.  \<open>poll k\<close> is the table at the poll number \<open>k\<close> and \<open>clock k\<close> the time of the timeout check
  that follows; \<open>None\<close> when the fuel is used up, \<open>Some False\<close> for \<^verbatim>\<open>TimeoutError\<close>.\<close>

fun wait_loop :: "nat \<Rightarrow> string \<Rightarrow> real option \<Rightarrow> real \<Rightarrow> (nat \<Rightarrow> wait_states) \<Rightarrow> (nat \<Rightarrow> real) \<Rightarrow> nat \<Rightarrow> bool option" where
  "wait_loop 0 tid timeout start poll clock k = None"
| "wait_loop (Suc n) tid timeout start poll clock k =
     (if is_complete tid (poll k) then Some True
      else if (case timeout of None \<Rightarrow> False | Some d \<Rightarrow> d < clock k - start) then Some False
      else wait_loop n tid timeout start poll clock (k + 1))"

definition wait_for_request ::
    "nat \<Rightarrow> string \<Rightarrow> real option \<Rightarrow> real \<Rightarrow> (nat \<Rightarrow> wait_states) \<Rightarrow> (nat \<Rightarrow> real) \<Rightarrow> bool option" where
  "wait_for_request fuel tid timeout start poll clock =
     (if tid = [] then Some True else wait_loop fuel tid timeout start poll clock 0)"

section \<open>What the trackers guarantee\<close>

lemma emb_run_append:
  "emb_run (xs @ ys) tasks =
     (case emb_run xs tasks of (t1, d1) \<Rightarrow> (case emb_run ys t1 of (t2, d2) \<Rightarrow> (t2, d1 @ d2)))"
  by (induction xs arbitrary: tasks) (auto split: prod.splits)

definition decrements :: "string \<Rightarrow> 'cb embedding_event list \<Rightarrow> nat" where
  "decrements i evs = length (filter (\<lambda>ev. ev = Decrement i) evs)"

definition registers :: "string \<Rightarrow> 'cb embedding_event \<Rightarrow> bool" where
  "registers i ev = (case ev of Register _ j _ _ \<Rightarrow> j = i | Decrement _ \<Rightarrow> False)"

text \<open>Counting down one message while anything happens to the others.\<close>

lemma emb_countdown:
  assumes "list_all (\<lambda>ev. \<not> registers i ev) evs"
    and "case map_of tasks i of None \<Rightarrow> n = 0 | Some r \<Rightarrow> 0 < n \<and> er_remaining r = int n"
  shows "filter (\<lambda>j. j = i) (snd (emb_run evs tasks)) = (if 0 < n \<and> n \<le> decrements i evs then [i] else []) \<and>
    (case map_of (fst (emb_run evs tasks)) i of
       None \<Rightarrow> n \<le> decrements i evs
     | Some r \<Rightarrow> decrements i evs < n \<and> er_remaining r = int n - int (decrements i evs))"
  using assms
proof (induction evs arbitrary: tasks n)
  case Nil
  then show ?case by (auto simp: decrements_def split: option.splits)
next
  case (Cons ev evs)
  obtain t1 d1 where s: "emb_step ev tasks = (t1, d1)" by (cases "emb_step ev tasks")
  let ?m = "if ev = Decrement i then n - 1 else n"
  have st: "(case map_of t1 i of None \<Rightarrow> ?m = 0 | Some r \<Rightarrow> 0 < ?m \<and> er_remaining r = int ?m) \<and>
      filter (\<lambda>j. j = i) d1 = (if ev = Decrement i \<and> n = 1 then [i] else [])"
    using s Cons.prems
    by (cases ev) (auto simp: emb_register_def emb_decrement_def Let_def registers_def split: option.splits if_splits)
  have IH: "filter (\<lambda>j. j = i) (snd (emb_run evs t1)) = (if 0 < ?m \<and> ?m \<le> decrements i evs then [i] else []) \<and>
    (case map_of (fst (emb_run evs t1)) i of
       None \<Rightarrow> ?m \<le> decrements i evs
     | Some r \<Rightarrow> decrements i evs < ?m \<and> er_remaining r = int ?m - int (decrements i evs))"
    by (rule Cons.IH) (use st Cons.prems(1) in auto)
  have d: "decrements i (ev # evs) = (if ev = Decrement i then 1 else 0) + decrements i evs"
    by (simp add: decrements_def)
  have n: "emb_run (ev # evs) tasks = (fst (emb_run evs t1), d1 @ snd (emb_run evs t1))"
    using s by (simp split: prod.split)
  show ?case unfolding n d using IH st Cons.prems(2)
    by (cases "ev = Decrement i") (auto split: option.splits if_splits)
qed

text \<open>Property C37 (safety): after a message is registered with \<open>n\<close> embedding tasks, and until it is registered again,
  its completion callback is run exactly once, at the \<open>n\<close>-th decrement (at once when \<open>n\<close> is not positive), however the
  calls for other messages are interleaved; before that the tracker holds \<open>n\<close> minus the decrements, afterwards nothing.\<close>

theorem embedding_callback_once:
  assumes "list_all (\<lambda>ev. \<not> registers i ev) evs"
  shows "filter (\<lambda>j. j = i) (snd (emb_run (Register l i n cb # evs) tasks)) =
      (if n \<le> int (decrements i evs) then [i] else []) \<and>
    map_option er_remaining (map_of (fst (emb_run (Register l i n cb # evs) tasks)) i) =
      (if n \<le> int (decrements i evs) then None else Some (n - int (decrements i evs)))"
proof -
  obtain t1 r where s: "emb_register l i n cb tasks = (t1, r)" by (cases "emb_register l i n cb tasks")
  have "(case map_of t1 i of None \<Rightarrow> nat n = 0 | Some r \<Rightarrow> 0 < nat n \<and> er_remaining r = int (nat n)) \<and>
      (r = None \<longleftrightarrow> 0 < n)"
    using s by (auto simp: emb_register_def Let_def split: if_splits)
  then have a: "case map_of t1 i of None \<Rightarrow> nat n = 0 | Some r \<Rightarrow> 0 < nat n \<and> er_remaining r = int (nat n)"
    and r: "r = None \<longleftrightarrow> 0 < n" by blast+
  from emb_countdown [OF assms a] r s show ?thesis
    by (auto split: prod.splits option.splits if_splits)
qed

theorem embedding_callback_once_witness:
  "filter (\<lambda>j. j = ''m'') (snd (emb_run [Register 0 ''m'' 2 (Some ()), Decrement ''m'', Decrement ''x'', Decrement ''m'',
     Decrement ''m''] [])) = [''m'']"
  using embedding_callback_once [of "''m''" "[Decrement ''m'', Decrement ''x'', Decrement ''m'', Decrement ''m'']" 0 2 "Some ()" "[]"]
  by (simp add: registers_def decrements_def)

section \<open>Waiting for a request\<close>

datatype wait_event =
    RequestStart string
  | SemanticRoot string string
  | EmbeddingRoot string string
  | EmbeddingProcessed string int
  | EmbeddingRequeue string int
  | EmbeddingError string string
  | SemanticDone string string int
  | SemanticRequeue string int
  | SemanticFailed string string string
  | EmbeddingDone string string int
  | EmbeddingFailed string string string
  | RequestCleanup string

fun wt_step :: "wait_event \<Rightarrow> wait_states \<Rightarrow> wait_states" where
  "wt_step (RequestStart q) = register_request q"
| "wt_step (SemanticRoot q i) = register_semantic_root q i"
| "wt_step (EmbeddingRoot q i) = register_embedding_root q i"
| "wt_step (EmbeddingProcessed q d) = record_embedding_processed q d"
| "wt_step (EmbeddingRequeue q d) = record_embedding_requeue q d"
| "wt_step (EmbeddingError q m) = record_embedding_error q m"
| "wt_step (SemanticDone q i d) = mark_semantic_done q i d"
| "wt_step (SemanticRequeue q d) = record_semantic_requeue q d"
| "wt_step (SemanticFailed q i m) = mark_semantic_failed q i m"
| "wt_step (EmbeddingDone q i d) = mark_embedding_done q i d"
| "wt_step (EmbeddingFailed q i m) = mark_embedding_failed q i m"
| "wt_step (RequestCleanup q) = wt_cleanup q"

lemmas wt_ops =
  register_request_def with_state_def register_semantic_root_def register_embedding_root_def
  record_embedding_processed_def record_embedding_requeue_def record_embedding_error_def mark_semantic_done_def
  record_semantic_requeue_def mark_semantic_failed_def mark_embedding_done_def mark_embedding_failed_def wt_cleanup_def

text \<open>The semantic and embedding roots that an event finishes, and the events that add a root or drop the request.\<close>

definition semantic_marked :: "string \<Rightarrow> wait_event \<Rightarrow> string set" where
  "semantic_marked q ev =
     (case ev of SemanticDone q' i _ \<Rightarrow> if q' = q then {i} else {}
      | SemanticFailed q' i _ \<Rightarrow> if q' = q then {i} else {} | _ \<Rightarrow> {})"

definition embedding_marked :: "string \<Rightarrow> wait_event \<Rightarrow> string set" where
  "embedding_marked q ev =
     (case ev of EmbeddingDone q' i _ \<Rightarrow> if q' = q then {i} else {}
      | EmbeddingFailed q' i _ \<Rightarrow> if q' = q then {i} else {} | _ \<Rightarrow> {})"

definition adds_or_drops :: "string \<Rightarrow> wait_event \<Rightarrow> bool" where
  "adds_or_drops q ev =
     (case ev of SemanticRoot q' _ \<Rightarrow> q' = q | EmbeddingRoot q' _ \<Rightarrow> q' = q | RequestCleanup q' \<Rightarrow> q' = q | _ \<Rightarrow> False)"

lemma wt_step_pending:
  assumes "map_of sts q = Some s" "q \<noteq> []" "\<not> adds_or_drops q ev"
  shows "\<exists>s'. map_of (wt_step ev sts) q = Some s' \<and>
    pending_semantic_roots s' = pending_semantic_roots s - semantic_marked q ev \<and>
    pending_embedding_roots s' = pending_embedding_roots s - embedding_marked q ev"
  using assms
  by (cases ev) (auto simp: wt_ops semantic_marked_def embedding_marked_def adds_or_drops_def split: option.split)

lemma wt_run_pending:
  assumes "map_of sts q = Some s" "q \<noteq> []" "list_all (\<lambda>ev. \<not> adds_or_drops q ev) evs"
  shows "\<exists>s'. map_of (fold wt_step evs sts) q = Some s' \<and>
    pending_semantic_roots s' = pending_semantic_roots s - (\<Union>ev \<in> set evs. semantic_marked q ev) \<and>
    pending_embedding_roots s' = pending_embedding_roots s - (\<Union>ev \<in> set evs. embedding_marked q ev)"
  using assms
proof (induction evs arbitrary: sts s)
  case (Cons ev evs)
  then have na: "\<not> adds_or_drops q ev" by simp
  obtain s1 where s1: "map_of (wt_step ev sts) q = Some s1"
    "pending_semantic_roots s1 = pending_semantic_roots s - semantic_marked q ev"
    "pending_embedding_roots s1 = pending_embedding_roots s - embedding_marked q ev"
    using wt_step_pending [OF Cons.prems(1,2) na] by blast
  have "list_all (\<lambda>ev. \<not> adds_or_drops q ev) evs" using Cons.prems(3) by simp
  from Cons.IH [OF s1(1) Cons.prems(2) this] s1(2,3) show ?case by auto
qed simp

lemma wait_loop_first:
  assumes "is_complete q (poll k) \<or> (\<exists>d. timeout = Some d \<and> d < clock k - start)"
    and "\<forall>j. m \<le> j \<and> j < k \<longrightarrow> \<not> is_complete q (poll j) \<and> \<not> (\<exists>d. timeout = Some d \<and> d < clock j - start)"
    and "m \<le> k" "k - m < fuel"
  shows "wait_loop fuel q timeout start poll clock m = Some (is_complete q (poll k))"
  using assms(2-4)
proof (induction fuel arbitrary: m)
  case (Suc fuel)
  show ?case
  proof (cases "m = k")
    case True
    with assms(1) show ?thesis by (auto split: option.splits)
  next
    case False
    with Suc.prems have n: "\<not> is_complete q (poll m)" "\<not> (\<exists>d. timeout = Some d \<and> d < clock m - start)" "m < k" by auto
    then have "wait_loop (Suc fuel) q timeout start poll clock m = wait_loop fuel q timeout start poll clock (m + 1)"
      by (auto split: option.splits)
    also have "\<dots> = Some (is_complete q (poll k))"
      by (rule Suc.IH) (use Suc.prems n in auto)
    finally show ?thesis .
  qed
qed simp

text \<open>Property C38 (liveness): a caller that waits for a request returns as soon as its roots are done.  Let the events of
  \<open>evs\<close> happen one after the other, one poll after each; they belong to any requests but add no root to this one and
  do not drop it.  When they mark every pending root of the request, done or failed, the wait returns normally within
  \<open>length evs + 1\<close> polls, provided the timeout does not pass before; and whenever a wait returns normally, every root
  pending at its start has been marked.\<close>

theorem wait_returns_when_done:
  assumes "q \<noteq> []" "map_of sts q = Some s" "list_all (\<lambda>ev. \<not> adds_or_drops q ev) evs"
    and "\<forall>j d. timeout = Some d \<longrightarrow> clock j - start \<le> d"
  shows "(wait_for_request (Suc (length evs)) q timeout start (\<lambda>k. fold wt_step (take k evs) sts) clock = Some True) \<longleftrightarrow>
    pending_semantic_roots s \<subseteq> (\<Union>ev \<in> set evs. semantic_marked q ev) \<and>
    pending_embedding_roots s \<subseteq> (\<Union>ev \<in> set evs. embedding_marked q ev)"
proof -
  let ?poll = "\<lambda>k. fold wt_step (take k evs) sts"
  have c: "is_complete q (?poll k) \<longleftrightarrow>
      pending_semantic_roots s \<subseteq> (\<Union>ev \<in> set (take k evs). semantic_marked q ev) \<and>
      pending_embedding_roots s \<subseteq> (\<Union>ev \<in> set (take k evs). embedding_marked q ev)" for k
  proof -
    have "list_all (\<lambda>ev. \<not> adds_or_drops q ev) (take k evs)"
      using assms(3) by (auto simp: list_all_iff dest: in_set_takeD)
    from wt_run_pending [OF assms(2,1) this] assms(1) show ?thesis by (auto simp: is_complete_def)
  qed
  have late: "\<not> (\<exists>d. timeout = Some d \<and> d < clock j - start)" for j using assms(4) by (auto simp: linorder_not_less)
  show ?thesis
  proof (cases "is_complete q (?poll (length evs))")
    case True
    define k where "k = (LEAST k. is_complete q (?poll k))"
    have k: "is_complete q (?poll k)" "k \<le> length evs" "\<forall>j < k. \<not> is_complete q (?poll j)"
      using LeastI [of "\<lambda>k. is_complete q (?poll k)", OF True] Least_le [of "\<lambda>k. is_complete q (?poll k)", OF True]
        not_less_Least [of _ "\<lambda>k. is_complete q (?poll k)"] unfolding k_def by blast+
    have "wait_loop (Suc (length evs)) q timeout start ?poll clock 0 = Some (is_complete q (?poll k))"
      by (rule wait_loop_first) (use k late in auto)
    with k(1) True c [of "length evs"] assms(1) show ?thesis by (simp add: wait_for_request_def)
  next
    case False
    have n: "\<not> is_complete q (?poll j)" for j
    proof
      assume a: "is_complete q (?poll j)"
      have "set (take j evs) \<subseteq> set (take (length evs) evs)" by (auto dest: in_set_takeD)
      with a c [of j] c [of "length evs"] False show False by blast
    qed
    have "wait_loop fuel q timeout start ?poll clock m = None" for fuel m
      using n late by (induction fuel arbitrary: m) (auto split: option.splits)
    with False c [of "length evs"] assms(1) show ?thesis by (simp add: wait_for_request_def)
  qed
qed

theorem wait_returns_when_done_witness:
  "wait_for_request 4 ''q'' (Some 60) 0
     (\<lambda>k. fold wt_step (take k [SemanticDone ''q'' ''r'' 1, SemanticDone ''p'' ''r'' 1, EmbeddingFailed ''q'' ''e'' ''boom''])
       [(''q'', new_wait_state\<lparr>pending_semantic_roots := {''r''}, pending_embedding_roots := {''e''}\<rparr>)])
     (\<lambda>_. 1) = Some True"
proof -
  let ?evs = "[SemanticDone ''q'' ''r'' 1, SemanticDone ''p'' ''r'' 1, EmbeddingFailed ''q'' ''e'' ''boom'']"
  let ?s = "new_wait_state\<lparr>pending_semantic_roots := {''r''}, pending_embedding_roots := {''e''}\<rparr>"
  have "wait_for_request (Suc (length ?evs)) ''q'' (Some 60) 0 (\<lambda>k. fold wt_step (take k ?evs) [(''q'', ?s)]) (\<lambda>_. 1) = Some True \<longleftrightarrow>
    pending_semantic_roots ?s \<subseteq> (\<Union>ev \<in> set ?evs. semantic_marked ''q'' ev) \<and>
    pending_embedding_roots ?s \<subseteq> (\<Union>ev \<in> set ?evs. embedding_marked ''q'' ev)"
    by (rule wait_returns_when_done) (simp_all add: adds_or_drops_def)
  then show ?thesis by (simp add: semantic_marked_def embedding_marked_def eval_nat_numeral)
qed

end
