(* ===== verification/Streaming_Batcher.thy ===== *)
theory Streaming_Batcher
  imports Py_Prelude Complex_Main
begin

text \<open>
  The streaming batcher (\<^verbatim>\<open>openviking/session/memory/utils/streaming_batcher.py\<close>): items are buffered and handed to
  \<^verbatim>\<open>process_batch\<close> in batches, and every submitter waits for the future of its own item.

  The batcher runs on one event loop.  No code suspends while it holds \<^verbatim>\<open>_buffer_lock\<close>, so the parts of a method
  between two suspensions are atomic; a flush has two of them, before and after its \<^verbatim>\<open>process_batch\<close>, and holds
  \<^verbatim>\<open>_flush_lock\<close> in between (\<open>bt_flushing\<close>).  Three kinds of task flush: the timer, a background task started by
  \<^verbatim>\<open>submit\<close>, and \<^verbatim>\<open>close\<close>.  \<^verbatim>\<open>close\<close> cancels the timer task, also in the middle of its flush: the cancellation is
  no \<^verbatim>\<open>Exception\<close>, so the flush ends without touching its futures.  Tracing and result metadata are not modelled.
\<close>

section \<open>State\<close>

datatype ('r, 'e) future = Waiting | Result 'r | Raised 'e | Cancelled

record batcher_config =
  max_items_per_batch :: int
  max_wait_seconds :: real
  timer_check_interval_seconds :: real

definition valid_config :: "batcher_config \<Rightarrow> bool" where
  "valid_config C \<longleftrightarrow> 0 < max_items_per_batch C \<and> 0 < max_wait_seconds C \<and> 0 < timer_check_interval_seconds C"

record 'p pending_item =
  pi_payload :: 'p
  pi_submitted_at :: real
  pi_future :: nat

datatype flusher = TimerTask | BackgroundTask | CloseCall

record ('p, 'r, 'e) batcher =
  bt_buffer :: "'p pending_item list"
  bt_futures :: "nat \<Rightarrow> ('r, 'e) future"
  bt_next_future :: nat
  bt_flushing :: "(flusher \<times> 'p pending_item list) option"
  bt_timer_alive :: bool
  bt_timer_waiting :: bool
  bt_background :: nat
  bt_close_waiting :: bool
  bt_closed :: bool
  bt_last_result :: "'r option"

definition new_batcher :: "('p, 'r, 'e) batcher" where
  "new_batcher =
     \<lparr>bt_buffer = [], bt_futures = (\<lambda>_. Waiting), bt_next_future = 0, bt_flushing = None, bt_timer_alive = False,
      bt_timer_waiting = False, bt_background = 0, bt_close_waiting = False, bt_closed = False, bt_last_result = None\<rparr>"

section \<open>Operations\<close>

definition item_size :: "('p \<Rightarrow> int) option \<Rightarrow> 'p \<Rightarrow> int" where
  "item_size sz payload = (case sz of None \<Rightarrow> 1 | Some f \<Rightarrow> max 0 (f payload))"

definition buffered_size :: "('p \<Rightarrow> int) option \<Rightarrow> ('p, 'r, 'e) batcher \<Rightarrow> int" where
  "buffered_size sz st = sum_list (map (\<lambda>item. item_size sz (pi_payload item)) (bt_buffer st))"

definition get_buffered_item_count :: "('p, 'r, 'e) batcher \<Rightarrow> nat" where
  "get_buffered_item_count st = length (bt_buffer st)"

definition ensure_timer_task :: "('p, 'r, 'e) batcher \<Rightarrow> ('p, 'r, 'e) batcher" where
  "ensure_timer_task st = st\<lparr>bt_timer_alive := True\<rparr>"

text \<open>\<^verbatim>\<open>submit\<close> up to its \<^verbatim>\<open>await future\<close>; \<open>None\<close> where it raises because the batcher is closed.\<close>

definition submit ::
    "batcher_config \<Rightarrow> ('p \<Rightarrow> int) option \<Rightarrow> real \<Rightarrow> 'p \<Rightarrow> ('p, 'r, 'e) batcher \<Rightarrow> ('p, 'r, 'e) batcher option" where
  "submit C sz t payload st =
     (if bt_closed st then None
      else (let st1 = ensure_timer_task st;
                future = bt_next_future st1;
                item = \<lparr>pi_payload = payload, pi_submitted_at = t, pi_future = future\<rparr>;
                st2 = st1\<lparr>bt_buffer := bt_buffer st1 @ [item], bt_futures := (bt_futures st1)(future := Waiting),
                          bt_next_future := Suc future\<rparr>;
                should_flush = (max_items_per_batch C \<le> buffered_size sz st2)
            in Some (if should_flush then st2\<lparr>bt_background := Suc (bt_background st2)\<rparr> else st2)))"

definition should_flush_by_time_or_count ::
    "batcher_config \<Rightarrow> ('p \<Rightarrow> int) option \<Rightarrow> real \<Rightarrow> ('p, 'r, 'e) batcher \<Rightarrow> bool" where
  "should_flush_by_time_or_count C sz t st =
     (if bt_buffer st = [] then False
      else if max_items_per_batch C \<le> buffered_size sz st then True
      else max_wait_seconds C \<le> t - Min (set (map pi_submitted_at (bt_buffer st))))"

text \<open>The first part of \<^verbatim>\<open>flush\<close>, once it has \<^verbatim>\<open>_flush_lock\<close>: an empty buffer ends it.\<close>

definition flush_begin :: "flusher \<Rightarrow> ('p, 'r, 'e) batcher \<Rightarrow> ('p, 'r, 'e) batcher" where
  "flush_begin who st =
     (if bt_buffer st = [] then st else st\<lparr>bt_flushing := Some (who, bt_buffer st), bt_buffer := []\<rparr>)"

text \<open>Setting the outcome of the futures that are not done.\<close>

definition settle :: "('r, 'e) future \<Rightarrow> 'p pending_item list \<Rightarrow> (nat \<Rightarrow> ('r, 'e) future) \<Rightarrow> nat \<Rightarrow> ('r, 'e) future" where
  "settle outcome items fs = (\<lambda>f. if f \<in> pi_future ` set items \<and> fs f = Waiting then outcome else fs f)"

text \<open>The second part of \<^verbatim>\<open>flush\<close>, with what \<^verbatim>\<open>process_batch\<close> returned or raised.\<close>

definition flush_end :: "'e + 'r \<Rightarrow> ('p, 'r, 'e) batcher \<Rightarrow> ('p, 'r, 'e) batcher" where
  "flush_end out st =
     (case bt_flushing st of
        None \<Rightarrow> st
      | Some (_, items) \<Rightarrow>
          (case out of
             Inl exc \<Rightarrow> st\<lparr>bt_flushing := None, bt_futures := settle (Raised exc) items (bt_futures st)\<rparr>
           | Inr result \<Rightarrow>
               st\<lparr>bt_flushing := None, bt_last_result := Some result,
                  bt_futures := settle (Result result) items (bt_futures st)\<rparr>))"

text \<open>A timer iteration decides to flush; it then waits for the lock.\<close>

definition timer_iteration ::
    "batcher_config \<Rightarrow> ('p \<Rightarrow> int) option \<Rightarrow> real \<Rightarrow> ('p, 'r, 'e) batcher \<Rightarrow> ('p, 'r, 'e) batcher" where
  "timer_iteration C sz t st =
     (if bt_timer_alive st \<and> should_flush_by_time_or_count C sz t st then st\<lparr>bt_timer_waiting := True\<rparr> else st)"

definition stop_timer_task :: "('p, 'r, 'e) batcher \<Rightarrow> ('p, 'r, 'e) batcher" where
  "stop_timer_task st =
     (if bt_timer_alive st
      then st\<lparr>bt_timer_alive := False, bt_timer_waiting := False,
              bt_flushing := (case bt_flushing st of Some (TimerTask, _) \<Rightarrow> None | x \<Rightarrow> x)\<rparr>
      else st)"

text \<open>\<^verbatim>\<open>close\<close> up to its own flush, which waits for the lock.\<close>

definition close_begin :: "('p, 'r, 'e) batcher \<Rightarrow> ('p, 'r, 'e) batcher" where
  "close_begin st =
     (if bt_closed st then st else (stop_timer_task (st\<lparr>bt_closed := True\<rparr>))\<lparr>bt_close_waiting := True\<rparr>)"

section \<open>Steps of the event loop\<close>

text \<open>Each step is what one task does between two suspensions.  A task waiting for \<^verbatim>\<open>_flush_lock\<close> goes on when the
  lock is free; the caller of \<^verbatim>\<open>submit\<close> may be cancelled while it waits.\<close>

datatype ('p, 'r, 'e) bt_label =
    Quiet
  | Submitted "'p pending_item"
  | Started "'p pending_item list"
  | Finished "'p pending_item list" "'e + 'r"

definition begin_label :: "('p, 'r, 'e) batcher \<Rightarrow> ('p, 'r, 'e) bt_label" where
  "begin_label st = (if bt_buffer st = [] then Quiet else Started (bt_buffer st))"

inductive bt_step ::
    "batcher_config \<Rightarrow> ('p \<Rightarrow> int) option \<Rightarrow> ('p, 'r, 'e) batcher \<Rightarrow> ('p, 'r, 'e) bt_label \<Rightarrow> ('p, 'r, 'e) batcher \<Rightarrow> bool"
  for C sz where
  submit: "submit C sz t p st = Some st' \<Longrightarrow> bt_step C sz st (Submitted (last (bt_buffer st'))) st'"
| timer: "\<forall>items. bt_flushing st \<noteq> Some (TimerTask, items) \<Longrightarrow> bt_step C sz st Quiet (timer_iteration C sz t st)"
| timer_flush: "bt_timer_waiting st \<Longrightarrow> bt_flushing st = None \<Longrightarrow>
    bt_step C sz st (begin_label st) (flush_begin TimerTask (st\<lparr>bt_timer_waiting := False\<rparr>))"
| background_flush: "bt_background st = Suc n \<Longrightarrow> bt_flushing st = None \<Longrightarrow>
    bt_step C sz st (begin_label st) (flush_begin BackgroundTask (st\<lparr>bt_background := n\<rparr>))"
| close: "bt_step C sz st Quiet (close_begin st)"
| close_flush: "bt_close_waiting st \<Longrightarrow> bt_flushing st = None \<Longrightarrow>
    bt_step C sz st (begin_label st) (flush_begin CloseCall (st\<lparr>bt_close_waiting := False\<rparr>))"
| finish: "bt_flushing st = Some (who, items) \<Longrightarrow> bt_step C sz st (Finished items out) (flush_end out st)"
| cancel: "f < bt_next_future st \<Longrightarrow> bt_futures st f = Waiting \<Longrightarrow>
    bt_step C sz st Quiet (st\<lparr>bt_futures := (bt_futures st)(f := Cancelled)\<rparr>)"

inductive bt_run ::
    "batcher_config \<Rightarrow> ('p \<Rightarrow> int) option \<Rightarrow> ('p, 'r, 'e) bt_label list \<Rightarrow> ('p, 'r, 'e) batcher \<Rightarrow> bool"
  for C sz where
  init: "bt_run C sz [] new_batcher"
| step: "bt_run C sz tr st \<Longrightarrow> bt_step C sz st l st' \<Longrightarrow> bt_run C sz (tr @ [l]) st'"

section \<open>The invariant\<close>

definition submitted_of :: "('p, 'r, 'e) bt_label list \<Rightarrow> 'p pending_item list" where
  "submitted_of tr = concat (map (\<lambda>l. case l of Submitted x \<Rightarrow> [x] | _ \<Rightarrow> []) tr)"

definition started_of :: "('p, 'r, 'e) bt_label list \<Rightarrow> 'p pending_item list" where
  "started_of tr = concat (map (\<lambda>l. case l of Started xs \<Rightarrow> xs | _ \<Rightarrow> []) tr)"

definition flushing_items :: "('p, 'r, 'e) batcher \<Rightarrow> 'p pending_item list" where
  "flushing_items st = (case bt_flushing st of None \<Rightarrow> [] | Some (_, items) \<Rightarrow> items)"

definition as_future :: "'e + 'r \<Rightarrow> ('r, 'e) future" where
  "as_future out = (case out of Inl e \<Rightarrow> Raised e | Inr r \<Rightarrow> Result r)"

text \<open>The items are the started ones followed by the buffer, their futures are numbered in order, a future that is
  settled has the outcome of a finished batch with its item, and a finished batch leaves no future waiting.\<close>

definition bt_inv :: "('p, 'r, 'e) bt_label list \<Rightarrow> ('p, 'r, 'e) batcher \<Rightarrow> bool" where
  "bt_inv tr st \<longleftrightarrow>
     started_of tr @ bt_buffer st = submitted_of tr \<and>
     map pi_future (submitted_of tr) = [0..<bt_next_future st] \<and>
     set (flushing_items st) \<subseteq> set (started_of tr) \<and>
     (\<forall>x \<in> set (flushing_items st) \<union> set (bt_buffer st). bt_futures st (pi_future x) \<in> {Waiting, Cancelled}) \<and>
     (\<forall>items out. Finished items out \<in> set tr \<longrightarrow> set items \<subseteq> set (started_of tr) \<and>
        set items \<inter> set (flushing_items st) = {} \<and>
        (\<forall>x \<in> set items. bt_futures st (pi_future x) \<in> {as_future out, Cancelled}))"

lemma trace_snoc [simp]:
  "submitted_of (tr @ [Submitted x]) = submitted_of tr @ [x]" "started_of (tr @ [Started xs]) = started_of tr @ xs"
  "submitted_of (tr @ [Started xs]) = submitted_of tr" "started_of (tr @ [Submitted x]) = started_of tr"
  "submitted_of (tr @ [Quiet]) = submitted_of tr" "started_of (tr @ [Quiet]) = started_of tr"
  "submitted_of (tr @ [Finished ys out]) = submitted_of tr" "started_of (tr @ [Finished ys out]) = started_of tr"
  by (simp_all add: submitted_of_def started_of_def)

lemma trace_nil [simp]: "submitted_of [] = []" "started_of [] = []"
  by (simp_all add: submitted_of_def started_of_def)

lemma bt_invI:
  assumes "started_of tr @ bt_buffer st = submitted_of tr" "map pi_future (submitted_of tr) = [0..<bt_next_future st]"
    and "set (flushing_items st) \<subseteq> set (started_of tr)"
    and "\<And>x. x \<in> set (flushing_items st) \<or> x \<in> set (bt_buffer st) \<Longrightarrow> bt_futures st (pi_future x) \<in> {Waiting, Cancelled}"
    and "\<And>items out. Finished items out \<in> set tr \<Longrightarrow> set items \<subseteq> set (started_of tr)"
    and "\<And>items out. Finished items out \<in> set tr \<Longrightarrow> set items \<inter> set (flushing_items st) = {}"
    and "\<And>items out x. Finished items out \<in> set tr \<Longrightarrow> x \<in> set items \<Longrightarrow>
      bt_futures st (pi_future x) \<in> {as_future out, Cancelled}"
  shows "bt_inv tr st"
  using assms unfolding bt_inv_def by blast

lemma bt_inv_parts:
  assumes "bt_inv tr st"
  shows "started_of tr @ bt_buffer st = submitted_of tr" "map pi_future (submitted_of tr) = [0..<bt_next_future st]"
    "set (flushing_items st) \<subseteq> set (started_of tr)"
    "x \<in> set (flushing_items st) \<or> x \<in> set (bt_buffer st) \<Longrightarrow> bt_futures st (pi_future x) \<in> {Waiting, Cancelled}"
    "Finished items out \<in> set tr \<Longrightarrow> set items \<subseteq> set (started_of tr)"
    "Finished items out \<in> set tr \<Longrightarrow> set items \<inter> set (flushing_items st) = {}"
    "Finished items out \<in> set tr \<Longrightarrow> x \<in> set items \<Longrightarrow> bt_futures st (pi_future x) \<in> {as_future out, Cancelled}"
  using assms unfolding bt_inv_def by blast+

lemma bt_inv_D:
  assumes "bt_inv tr st"
  shows "distinct (map pi_future (started_of tr @ bt_buffer st))"
    "x \<in> set (started_of tr @ bt_buffer st) \<Longrightarrow> pi_future x < bt_next_future st"
    "x \<in> set (started_of tr) \<Longrightarrow> y \<in> set (bt_buffer st) \<Longrightarrow> pi_future x \<noteq> pi_future y"
    "x \<in> set (started_of tr) \<Longrightarrow> y \<in> set (started_of tr) \<Longrightarrow> pi_future x = pi_future y \<Longrightarrow> x = y"
proof -
  have m: "map pi_future (started_of tr @ bt_buffer st) = [0..<bt_next_future st]"
    using assms by (simp add: bt_inv_def)
  then show d: "distinct (map pi_future (started_of tr @ bt_buffer st))" by simp
  have "set (map pi_future (started_of tr @ bt_buffer st)) = {0..<bt_next_future st}" by (simp only: m set_upt)
  then show "x \<in> set (started_of tr @ bt_buffer st) \<Longrightarrow> pi_future x < bt_next_future st" by fastforce
  show "x \<in> set (started_of tr) \<Longrightarrow> y \<in> set (bt_buffer st) \<Longrightarrow> pi_future x \<noteq> pi_future y"
    using d by (metis (no_types, lifting) disjoint_iff distinct_append imageI list.set_map map_append)
  show "x \<in> set (started_of tr) \<Longrightarrow> y \<in> set (started_of tr) \<Longrightarrow> pi_future x = pi_future y \<Longrightarrow> x = y"
    using d by (metis (no_types, lifting) distinct_append distinct_map inj_onD map_append)
qed

text \<open>Steps that leave the buffer alone, at most cancel futures and at most end a flush.\<close>

lemma bt_inv_quiet:
  assumes "bt_inv tr st" "bt_buffer st' = bt_buffer st" "bt_next_future st' = bt_next_future st"
    and "\<forall>f. bt_futures st' f = bt_futures st f \<or> bt_futures st f = Waiting \<and> bt_futures st' f = Cancelled"
    and "flushing_items st' = flushing_items st \<or> flushing_items st' = []"
  shows "bt_inv (tr @ [Quiet]) st'"
proof -
  have k: "bt_futures st f \<in> {v, Cancelled} \<Longrightarrow> bt_futures st' f \<in> {v, Cancelled}" for f v
    using assms(4) [rule_format, of f] by auto
  have fl: "set (flushing_items st') \<subseteq> set (flushing_items st)" using assms(5) by auto
  note P = bt_inv_parts [OF assms(1)]
  show ?thesis
  proof (rule bt_invI)
    show "started_of (tr @ [Quiet]) @ bt_buffer st' = submitted_of (tr @ [Quiet])"
      "map pi_future (submitted_of (tr @ [Quiet])) = [0..<bt_next_future st']"
      using P(1,2) assms(2,3) by simp_all
    show "set (flushing_items st') \<subseteq> set (started_of (tr @ [Quiet]))" using P(3) fl by simp
    show "bt_futures st' (pi_future x) \<in> {Waiting, Cancelled}"
      if "x \<in> set (flushing_items st') \<or> x \<in> set (bt_buffer st')" for x
      by (rule k, rule P(4)) (use that fl assms(2) in auto)
  next
    fix items :: "'a pending_item list" and out
    assume "Finished items out \<in> set (tr @ [Quiet])"
    then have f: "Finished items out \<in> set tr" by simp
    show "set items \<subseteq> set (started_of (tr @ [Quiet]))" using P(5) [OF f] by simp
    show "set items \<inter> set (flushing_items st') = {}" using P(6) [OF f] fl by blast
    show "bt_futures st' (pi_future x) \<in> {as_future out, Cancelled}" if "x \<in> set items" for x
      by (rule k, rule P(7) [OF f that])
  qed
qed

lemma submit_effect:
  assumes "submit C sz t p st = Some st'"
  shows "bt_buffer st' = bt_buffer st @ [\<lparr>pi_payload = p, pi_submitted_at = t, pi_future = bt_next_future st\<rparr>]"
    "bt_next_future st' = Suc (bt_next_future st)" "bt_futures st' = (bt_futures st)(bt_next_future st := Waiting)"
    "flushing_items st' = flushing_items st"
  using assms by (auto simp: submit_def ensure_timer_task_def flushing_items_def Let_def split: if_splits)

lemma bt_inv_submit:
  assumes "bt_inv tr st" "submit C sz t p st = Some st'"
  shows "bt_inv (tr @ [Submitted (last (bt_buffer st'))]) st'"
proof -
  let ?x = "\<lparr>pi_payload = p, pi_submitted_at = t, pi_future = bt_next_future st\<rparr>"
  note b = submit_effect [OF assms(2)]
  have l: "last (bt_buffer st') = ?x" by (simp add: b(1))
  note P = bt_inv_parts [OF assms(1)]
  have same: "bt_futures st' (pi_future y) = bt_futures st (pi_future y)"
    if "y \<in> set (started_of tr) \<or> y \<in> set (bt_buffer st)" for y
    using bt_inv_D(2) [OF assms(1), of y] that by (auto simp: b(3))
  show ?thesis unfolding l
  proof (rule bt_invI)
    show "started_of (tr @ [Submitted ?x]) @ bt_buffer st' = submitted_of (tr @ [Submitted ?x])"
      "map pi_future (submitted_of (tr @ [Submitted ?x])) = [0..<bt_next_future st']"
      "set (flushing_items st') \<subseteq> set (started_of (tr @ [Submitted ?x]))"
      using P(1-3) b by (simp_all add: append_assoc [symmetric] del: append_assoc)
    show "bt_futures st' (pi_future y) \<in> {Waiting, Cancelled}"
      if "y \<in> set (flushing_items st') \<or> y \<in> set (bt_buffer st')" for y
    proof (cases "y = ?x")
      case True
      then show ?thesis by (simp add: b(3))
    next
      case False
      then have y: "y \<in> set (flushing_items st) \<or> y \<in> set (bt_buffer st)" using that b(1,4) by auto
      then have "y \<in> set (started_of tr) \<or> y \<in> set (bt_buffer st)" using P(3) by blast
      then show ?thesis using same [of y] P(4) [OF y] by simp
    qed
  next
    fix items :: "'a pending_item list" and out
    assume "Finished items out \<in> set (tr @ [Submitted ?x])"
    then have f: "Finished items out \<in> set tr" by simp
    show "set items \<subseteq> set (started_of (tr @ [Submitted ?x]))" using P(5) [OF f] by simp
    show "set items \<inter> set (flushing_items st') = {}" using P(6) [OF f] b(4) by simp
    show "bt_futures st' (pi_future y) \<in> {as_future out, Cancelled}" if "y \<in> set items" for y
      using P(5) [OF f] P(7) [OF f that] same [of y] that by auto
  qed
qed

lemma bt_inv_begin:
  assumes "bt_inv tr st" "bt_flushing st = None"
    and "bt_buffer st1 = bt_buffer st" "bt_next_future st1 = bt_next_future st" "bt_futures st1 = bt_futures st"
      "bt_flushing st1 = bt_flushing st"
  shows "bt_inv (tr @ [begin_label st]) (flush_begin who st1)"
proof (cases "bt_buffer st = []")
  case True
  then have "begin_label st = Quiet" "flush_begin who st1 = st1" using assms(3) by (simp_all add: begin_label_def flush_begin_def)
  with bt_inv_quiet [OF assms(1), of st1] assms show ?thesis by (simp add: flushing_items_def)
next
  case False
  let ?st = "flush_begin who st1"
  note P = bt_inv_parts [OF assms(1)]
  have b: "bt_buffer ?st = []" "bt_next_future ?st = bt_next_future st" "bt_futures ?st = bt_futures st"
    "flushing_items ?st = bt_buffer st"
    using False assms by (simp_all add: flush_begin_def flushing_items_def)
  have l: "begin_label st = Started (bt_buffer st)" using False by (simp add: begin_label_def)
  show ?thesis unfolding l
  proof (rule bt_invI)
    show "started_of (tr @ [Started (bt_buffer st)]) @ bt_buffer ?st = submitted_of (tr @ [Started (bt_buffer st)])"
      "map pi_future (submitted_of (tr @ [Started (bt_buffer st)])) = [0..<bt_next_future ?st]"
      unfolding b using P(1,2) by simp_all
    show "set (flushing_items ?st) \<subseteq> set (started_of (tr @ [Started (bt_buffer st)]))" by (simp add: b(4))
    show "bt_futures ?st (pi_future x) \<in> {Waiting, Cancelled}"
      if "x \<in> set (flushing_items ?st) \<or> x \<in> set (bt_buffer ?st)" for x
      using P(4) [of x] that unfolding b by simp
  next
    fix items :: "'a pending_item list" and out
    assume "Finished items out \<in> set (tr @ [Started (bt_buffer st)])"
    then have f: "Finished items out \<in> set tr" by simp
    show "set items \<subseteq> set (started_of (tr @ [Started (bt_buffer st)]))" using P(5) [OF f] by auto
    show "set items \<inter> set (flushing_items ?st) = {}"
      unfolding b using P(5) [OF f] bt_inv_D(3) [OF assms(1)] by blast
    show "bt_futures ?st (pi_future x) \<in> {as_future out, Cancelled}" if "x \<in> set items" for x
      unfolding b by (rule P(7) [OF f that])
  qed
qed

lemma bt_inv_end:
  assumes "bt_inv tr st" "bt_flushing st = Some (who, items)"
  shows "bt_inv (tr @ [Finished items out]) (flush_end out st)"
proof -
  let ?st = "flush_end out st"
  note P = bt_inv_parts [OF assms(1)]
  have b: "bt_buffer ?st = bt_buffer st" "bt_next_future ?st = bt_next_future st" "flushing_items ?st = []"
    "bt_futures ?st = settle (as_future out) items (bt_futures st)"
    using assms(2) by (auto simp: flush_end_def flushing_items_def as_future_def split: sum.splits)
  have fl: "flushing_items st = items" using assms(2) by (simp add: flushing_items_def)
  then have it: "set items \<subseteq> set (started_of tr)" using P(3) by simp
  have own: "bt_futures ?st (pi_future x) \<in> {as_future out, Cancelled}" if "x \<in> set items" for x
    using P(4) [of x] that fl unfolding b(4) settle_def by auto
  have other: "bt_futures ?st (pi_future x) = bt_futures st (pi_future x)"
    if h: "x \<in> set (bt_buffer st) \<or> x \<in> set (started_of tr) - set items" for x
  proof -
    have "pi_future x \<noteq> pi_future y" if y: "y \<in> set items" for y
    proof -
      have "y \<in> set (started_of tr)" using it y by blast
      then show ?thesis
        using bt_inv_D(3) [OF assms(1), of y x] bt_inv_D(4) [OF assms(1), of x y] y h by auto
    qed
    then show ?thesis by (auto simp: b(4) settle_def)
  qed
  show ?thesis
  proof (rule bt_invI)
    show "started_of (tr @ [Finished items out]) @ bt_buffer ?st = submitted_of (tr @ [Finished items out])"
      "map pi_future (submitted_of (tr @ [Finished items out])) = [0..<bt_next_future ?st]"
      "set (flushing_items ?st) \<subseteq> set (started_of (tr @ [Finished items out]))"
      using P(1,2) b by simp_all
    show "bt_futures ?st (pi_future x) \<in> {Waiting, Cancelled}"
      if "x \<in> set (flushing_items ?st) \<or> x \<in> set (bt_buffer ?st)" for x
      using P(4) [of x] other [of x] that unfolding b(1,3) by simp
  next
    fix ys :: "'a pending_item list" and out'
    assume "Finished ys out' \<in> set (tr @ [Finished items out])"
    then have f: "Finished ys out' \<in> set tr \<or> ys = items \<and> out' = out" by auto
    then show "set ys \<subseteq> set (started_of (tr @ [Finished items out]))" using P(5) it by auto
    show "set ys \<inter> set (flushing_items ?st) = {}" by (simp add: b(3))
    show "bt_futures ?st (pi_future x) \<in> {as_future out', Cancelled}" if x: "x \<in> set ys" for x
      using f
    proof
      assume g: "Finished ys out' \<in> set tr"
      then have "x \<in> set (started_of tr) - set items" using P(5,6) [OF g] fl x by blast
      then have "bt_futures ?st (pi_future x) = bt_futures st (pi_future x)" by (intro other) blast
      with P(7) [OF g x] show ?thesis by (simp only:)
    next
      assume "ys = items \<and> out' = out"
      with own x show ?thesis by (simp only:)
    qed
  qed
qed

lemma bt_run_inv:
  assumes "bt_run C sz tr st"
  shows "bt_inv tr st"
  using assms
proof (induction rule: bt_run.induct)
  case init
  then show ?case by (simp add: bt_inv_def new_batcher_def flushing_items_def)
next
  case (step tr st l st')
  note inv = step.IH
  from step.hyps(2) show ?case
  proof cases
    case (submit t p)
    with bt_inv_submit [OF inv] show ?thesis by simp
  next
    case (timer t)
    show ?thesis unfolding timer(1,2)
      by (rule bt_inv_quiet [OF inv]) (auto simp: timer_iteration_def flushing_items_def)
  next
    case timer_flush
    with bt_inv_begin [OF inv, of "st\<lparr>bt_timer_waiting := False\<rparr>"] show ?thesis by simp
  next
    case (background_flush n)
    with bt_inv_begin [OF inv, of "st\<lparr>bt_background := n\<rparr>"] show ?thesis by simp
  next
    case close
    show ?thesis unfolding close
      by (rule bt_inv_quiet [OF inv])
        (auto simp: close_begin_def stop_timer_task_def flushing_items_def split: option.splits flusher.splits)
  next
    case close_flush
    with bt_inv_begin [OF inv, of "st\<lparr>bt_close_waiting := False\<rparr>"] show ?thesis by simp
  next
    case (finish who items out)
    with bt_inv_end [OF inv] show ?thesis by simp
  next
    case (cancel f)
    show ?thesis unfolding cancel(1,2)
      by (rule bt_inv_quiet [OF inv]) (use cancel in \<open>auto simp: flushing_items_def\<close>)
  qed
qed

section \<open>Properties\<close>


definition demo_batcher_config :: batcher_config where
  "demo_batcher_config = \<lparr>max_items_per_batch = 2, max_wait_seconds = 10, timer_check_interval_seconds = 1\<rparr>"

definition demo_item :: "string pending_item" where
  "demo_item = \<lparr>pi_payload = ''p'', pi_submitted_at = 0, pi_future = 0\<rparr>"

text \<open>One item is submitted, the timer finds it ten seconds later and starts to flush it.\<close>

definition demo_flushing :: "(string, nat, string) batcher" where
  "demo_flushing =
     new_batcher\<lparr>bt_next_future := 1, bt_timer_alive := True, bt_flushing := Some (TimerTask, [demo_item]),
       bt_futures := (\<lambda>_. Waiting)(0 := Waiting)\<rparr>"

lemma demo_flushing_run:
  "bt_run demo_batcher_config None [Submitted demo_item, Quiet, Started [demo_item]] demo_flushing"
proof -
  define st1 :: "(string, nat, string) batcher" where
    "st1 = new_batcher\<lparr>bt_next_future := 1, bt_timer_alive := True, bt_buffer := [demo_item],
       bt_futures := (\<lambda>_. Waiting)(0 := Waiting)\<rparr>"
  have s: "submit demo_batcher_config None 0 ''p'' (new_batcher :: (string, nat, string) batcher) = Some st1"
    by (simp add: submit_def Let_def new_batcher_def ensure_timer_task_def buffered_size_def item_size_def
        demo_batcher_config_def demo_item_def st1_def)
  have t: "timer_iteration demo_batcher_config None 10 st1 = st1\<lparr>bt_timer_waiting := True\<rparr>"
    by (simp add: timer_iteration_def should_flush_by_time_or_count_def st1_def new_batcher_def buffered_size_def
        item_size_def demo_batcher_config_def demo_item_def)
  have "bt_run demo_batcher_config None ([] @ [Submitted (last (bt_buffer st1))]) st1"
    by (rule bt_run.step [OF bt_run.init bt_step.submit [OF s]])
  then have "bt_run demo_batcher_config None [Submitted demo_item] st1" by (simp add: st1_def)
  from bt_run.step [OF this bt_step.timer [of st1 _ _ 10]] t
  have "bt_run demo_batcher_config None ([Submitted demo_item] @ [Quiet]) (st1\<lparr>bt_timer_waiting := True\<rparr>)"
    by (simp add: st1_def new_batcher_def)
  from bt_run.step [OF this bt_step.timer_flush] show ?thesis
    by (simp add: begin_label_def flush_begin_def st1_def demo_flushing_def new_batcher_def)
qed


text \<open>An item that was handed out and is not in the batch under way is never settled any more.\<close>

definition abandoned :: "('p, 'r, 'e) bt_label list \<Rightarrow> 'p pending_item \<Rightarrow> ('p, 'r, 'e) batcher \<Rightarrow> bool" where
  "abandoned tr x st \<longleftrightarrow>
     bt_inv tr st \<and> x \<in> set (started_of tr) \<and> x \<notin> set (flushing_items st) \<and>
     bt_futures st (pi_future x) \<in> {Waiting, Cancelled}"

lemma abandoned_step:
  assumes "abandoned tr x st" "bt_step C sz st l st'" "bt_inv (tr @ [l]) st'"
  shows "abandoned (tr @ [l]) x st'"
proof -
  have inv: "bt_inv tr st" and x: "x \<in> set (started_of tr)" "x \<notin> set (flushing_items st)"
    and w: "bt_futures st (pi_future x) \<in> {Waiting, Cancelled}"
    using assms(1) by (auto simp: abandoned_def)
  have nb: "x \<notin> set (bt_buffer st)" using bt_inv_D(3) [OF inv x(1)] by blast
  have fresh: "pi_future x < bt_next_future st" using bt_inv_D(2) [OF inv] x(1) by simp
  have st: "x \<in> set (started_of (tr @ [l]))" using x(1) by (simp add: started_of_def)
  from assms(2) have "x \<notin> set (flushing_items st') \<and> bt_futures st' (pi_future x) \<in> {Waiting, Cancelled}"
  proof cases
    case (submit t p)
    from submit_effect [OF submit(2)] show ?thesis using x(2) w fresh by simp
  next
    case (finish who items out)
    have "set items = set (flushing_items st)" using finish by (simp add: flushing_items_def)
    then have "pi_future x \<noteq> pi_future y" if "y \<in> set items" for y
      using bt_inv_D(4) [OF inv x(1), of y] bt_inv_parts(3) [OF inv] x(2) that by auto
    then have n: "pi_future x \<notin> pi_future ` set items" by blast
    have "bt_futures (flush_end out st) (pi_future x) = bt_futures st (pi_future x)"
      using finish(3) n by (simp add: flush_end_def settle_def split: sum.splits)
    moreover have "flushing_items (flush_end out st) = []"
      using finish(3) by (simp add: flush_end_def flushing_items_def split: sum.splits)
    ultimately show ?thesis using finish(2) w by simp
  qed (use x(2) w nb in \<open>auto simp: timer_iteration_def flush_begin_def flushing_items_def close_begin_def
      stop_timer_task_def split: if_splits option.splits flusher.splits\<close>)
  with assms(3) st show ?thesis by (simp add: abandoned_def)
qed

lemma abandoned_for_good:
  assumes "(\<lambda>s s'. \<exists>l. bt_step C sz s l s')\<^sup>*\<^sup>* st st'" "bt_run C sz tr st" "abandoned tr x st"
  shows "\<exists>tr'. bt_run C sz tr' st' \<and> abandoned tr' x st'"
  using assms(1)
proof (induction rule: rtranclp_induct)
  case (step s1 s2)
  then obtain tr1 l where "bt_run C sz tr1 s1" "abandoned tr1 x s1" "bt_step C sz s1 l s2" by blast
  then have "bt_run C sz (tr1 @ [l]) s2" by (blast intro: bt_run.step)
  then show ?case
    using abandoned_step [OF \<open>abandoned tr1 x s1\<close> \<open>bt_step C sz s1 l s2\<close>] bt_run_inv by blast
qed (use assms in blast)

text \<open>\<^verbatim>\<open>close\<close> while the timer is flushing strands the submitters of that batch.  The cancelled
  flush has emptied the buffer and settles none of its futures, the flush of \<^verbatim>\<open>close\<close> itself finds nothing, and in no
  later state does any of them get a result or an exception.\<close>

lemma close_strands_timer_batch:
  assumes "bt_run C sz tr st" "bt_flushing st = Some (TimerTask, items)" "bt_timer_alive st" "\<not> bt_closed st"
    and "x \<in> set items"
    and "(\<lambda>s s'. \<exists>l. bt_step C sz s l s')\<^sup>*\<^sup>* (close_begin st) st'"
  shows "bt_futures st' (pi_future x) \<in> {Waiting, Cancelled}"
proof -
  have inv: "bt_inv tr st" by (rule bt_run_inv [OF assms(1)])
  have run: "bt_run C sz (tr @ [Quiet]) (close_begin st)" by (rule bt_run.step [OF assms(1) bt_step.close])
  have fl: "flushing_items st = items" using assms(2) by (simp add: flushing_items_def)
  have "flushing_items (close_begin st) = []" "bt_futures (close_begin st) = bt_futures st"
    using assms(2-4) by (simp_all add: close_begin_def stop_timer_task_def flushing_items_def)
  then have "abandoned (tr @ [Quiet]) x (close_begin st)"
    using bt_run_inv [OF run] bt_inv_parts(3,4) [OF inv] fl assms(5) by (auto simp: abandoned_def)
  from abandoned_for_good [OF assms(6) run this] show ?thesis by (auto simp: abandoned_def)
qed

lemma close_strands_timer_batch_example:
  "bt_futures (flush_begin CloseCall ((close_begin demo_flushing)\<lparr>bt_close_waiting := False\<rparr>)) (pi_future demo_item) \<in>
     {Waiting, Cancelled}"
proof -
  let ?st = "flush_begin CloseCall ((close_begin demo_flushing)\<lparr>bt_close_waiting := False\<rparr>)"
  have "bt_step demo_batcher_config None (close_begin demo_flushing) (begin_label (close_begin demo_flushing)) ?st"
    by (rule bt_step.close_flush)
      (simp_all add: close_begin_def stop_timer_task_def demo_flushing_def new_batcher_def)
  then have "(\<lambda>s s'. \<exists>l. bt_step demo_batcher_config None s l s')\<^sup>*\<^sup>* (close_begin demo_flushing) ?st" by blast
  from close_strands_timer_batch [OF demo_flushing_run _ _ _ _ this, of "[demo_item]" demo_item] show ?thesis
    by (simp add: demo_flushing_def new_batcher_def)
qed

end
