(* ===== verification/Bytes_Row.thy ===== *)
theory Bytes_Row
  imports Py_Prelude "HOL-Library.Word"
begin

text \<open>
  The row format of the vector store (\<^verbatim>\<open>openviking/storage/vectordb/store/bytes_row.py\<close>): a schema, the encoding of a
  row into bytes and the decoding of one field.

  A byte is an \<open>8 word\<close>.  \<^verbatim>\<open>struct.pack\<close> with the little-endian formats the code uses is \<open>pack_item\<close>, one item per
  format letter, \<open>None\<close> where it raises.  A \<^verbatim>\<open>float32\<close> value is its bit pattern, a number below $2^{32}$: the rounding of
  a double to it is not modelled.  Strings are code points below 256, encoded in UTF-8.
\<close>

type_synonym byte = "8 word"

section \<open>Numbers and text as bytes\<close>

fun le_bytes :: "nat \<Rightarrow> nat \<Rightarrow> byte list" where
  "le_bytes 0 n = []"
| "le_bytes (Suc k) n = word_of_nat n # le_bytes k (n div 256)"

fun le_nat :: "byte list \<Rightarrow> nat" where
  "le_nat [] = 0"
| "le_nat (b # bs) = unat b + 256 * le_nat bs"

definition utf8_char :: "char \<Rightarrow> byte list" where
  "utf8_char c =
     (let n = of_char c :: nat
      in if n < 128 then [word_of_nat n] else [word_of_nat (192 + n div 64), word_of_nat (128 + n mod 64)])"

definition utf8_encode :: "string \<Rightarrow> byte list" where
  "utf8_encode s = concat (map utf8_char s)"

text \<open>\<open>None\<close> where \<^verbatim>\<open>decode\<close> raises, or for a code point outside the model.\<close>

fun utf8_decode :: "byte list \<Rightarrow> string option" where
  "utf8_decode [] = Some []"
| "utf8_decode (b # bs) =
     (if unat b < 128 then map_option ((#) (char_of (unat b))) (utf8_decode bs)
      else (case bs of
              [] \<Rightarrow> None
            | b' # bs' \<Rightarrow>
                if (unat b = 194 \<or> unat b = 195) \<and> 128 \<le> unat b' \<and> unat b' < 192
                then map_option ((#) (char_of (64 * (unat b - 192) + (unat b' - 128)))) (utf8_decode bs')
                else None))"

section \<open>Packing\<close>

datatype pack_item = PackQ int | PackUQ int | PackF nat | PackB int | PackI nat | PackH nat | PackS "byte list"

definition pack_item :: "pack_item \<Rightarrow> byte list option" where
  "pack_item it =
     (case it of
        PackQ v \<Rightarrow> if - (2 ^ 63) \<le> v \<and> v < 2 ^ 63 then Some (le_bytes 8 (nat (v mod 2 ^ 64))) else None
      | PackUQ v \<Rightarrow> if 0 \<le> v \<and> v < 2 ^ 64 then Some (le_bytes 8 (nat v)) else None
      | PackF b \<Rightarrow> if b < 2 ^ 32 then Some (le_bytes 4 b) else None
      | PackB v \<Rightarrow> if 0 \<le> v \<and> v < 256 then Some (le_bytes 1 (nat v)) else None
      | PackI n \<Rightarrow> if n < 2 ^ 32 then Some (le_bytes 4 n) else None
      | PackH n \<Rightarrow> if n < 2 ^ 16 then Some (le_bytes 2 n) else None
      | PackS bs \<Rightarrow> Some bs)"

fun pack_all :: "pack_item list \<Rightarrow> byte list option" where
  "pack_all [] = Some []"
| "pack_all (it # its) =
     (case pack_item it of
        None \<Rightarrow> None
      | Some bs \<Rightarrow> map_option ((@) bs) (pack_all its))"

section \<open>Schemas\<close>

datatype field_type =
    int64 | uint64 | float32 | string_t | binary | boolean | list_int64 | list_string | list_float32

datatype field_value =
    VInt int
  | VFloat nat
  | VBool bool
  | VStr string
  | VBytes "byte list"
  | VInts "int list"
  | VStrs "string list"
  | VFloats "nat list"

record field_def =
  fd_name :: string
  fd_data_type :: field_type
  fd_id :: nat
  fd_default :: "field_value option"

record field_meta =
  fm_name :: string
  fm_data_type :: field_type
  fm_offset :: nat
  fm_id :: nat
  fm_default :: field_value

record schema =
  field_metas :: "(string, field_meta) dict"
  field_orders :: "field_meta option list"
  total_byte_length :: nat

text \<open>The size in the fixed region and the default value of each type.\<close>

definition TYPE_INFO :: "field_type \<Rightarrow> nat \<times> field_value" where
  "TYPE_INFO ty =
     (case ty of
        int64 \<Rightarrow> (8, VInt 0)
      | uint64 \<Rightarrow> (8, VInt 0)
      | float32 \<Rightarrow> (4, VFloat 0)
      | string_t \<Rightarrow> (4, VStr ''default'')
      | binary \<Rightarrow> (4, VBytes [])
      | boolean \<Rightarrow> (1, VBool False)
      | list_int64 \<Rightarrow> (4, VInts [0])
      | list_string \<Rightarrow> (4, VStrs [''default''])
      | list_float32 \<Rightarrow> (4, VFloats [0]))"

datatype row_error = IndexError | AttributeError | KeyError | ValueError | StructError | TypeError | DecodeError

fun schema_loop :: "field_def list \<Rightarrow> nat \<Rightarrow> schema \<Rightarrow> row_error + schema" where
  "schema_loop [] offset sc = Inr (sc\<lparr>total_byte_length := offset\<rparr>)"
| "schema_loop (f # fs) offset sc =
     (let (byte_len, default_value) = TYPE_INFO (fd_data_type f);
          meta = \<lparr>fm_name = fd_name f, fm_data_type = fd_data_type f, fm_offset = offset, fm_id = fd_id f,
                  fm_default = (case fd_default f of None \<Rightarrow> default_value | Some v \<Rightarrow> v)\<rparr>
      in if length (field_orders sc) \<le> fd_id f then Inl IndexError
         else schema_loop fs (offset + byte_len)
                (sc\<lparr>field_metas := AList.update (fd_name f) meta (field_metas sc),
                    field_orders := (field_orders sc)[fd_id f := Some meta]\<rparr>))"

definition new_schema :: "field_def list \<Rightarrow> row_error + schema" where
  "new_schema fds =
     schema_loop fds 1 \<lparr>field_metas = [], field_orders = replicate (length fds) None, total_byte_length = 0\<rparr>"

definition get_field_meta :: "schema \<Rightarrow> string \<Rightarrow> row_error + field_meta" where
  "get_field_meta sc name = (case map_of (field_metas sc) name of None \<Rightarrow> Inl KeyError | Some m \<Rightarrow> Inr m)"

section \<open>Serialising\<close>

definition as_int :: "field_value \<Rightarrow> int option" where
  "as_int v = (case v of VInt i \<Rightarrow> Some i | VBool b \<Rightarrow> Some (if b then 1 else 0) | _ \<Rightarrow> None)"

text \<open>One field: the item of the fixed region, the items of the variable region, and the growth of
  \<^verbatim>\<open>variable_region_offset\<close>.\<close>

definition serialize_field ::
    "field_meta \<Rightarrow> field_value \<Rightarrow> nat \<Rightarrow> row_error + (pack_item \<times> pack_item list \<times> nat)" where
  "serialize_field m v offset =
     (case fm_data_type m of
        int64 \<Rightarrow> (case as_int v of Some i \<Rightarrow> Inr (PackQ i, [], 0) | None \<Rightarrow> Inl StructError)
      | uint64 \<Rightarrow> (case as_int v of Some i \<Rightarrow> Inr (PackUQ i, [], 0) | None \<Rightarrow> Inl StructError)
      | float32 \<Rightarrow> (case v of VFloat b \<Rightarrow> Inr (PackF b, [], 0) | _ \<Rightarrow> Inl StructError)
      | boolean \<Rightarrow> (case as_int v of Some i \<Rightarrow> Inr (PackB i, [], 0) | None \<Rightarrow> Inl TypeError)
      | string_t \<Rightarrow>
          (case v of
             VStr s \<Rightarrow>
               (let bs = utf8_encode s
                in if 65535 < length bs then Inl ValueError
                   else Inr (PackI offset, [PackH (length bs), PackS bs], 2 + length bs))
           | _ \<Rightarrow> Inl AttributeError)
      | binary \<Rightarrow>
          (case v of
             VBytes bs \<Rightarrow> Inr (PackI offset, [PackI (length bs), PackS bs], 4 + length bs)
           | _ \<Rightarrow> Inl TypeError)
      | list_int64 \<Rightarrow>
          (case v of
             VInts is \<Rightarrow> Inr (PackI offset, PackH (length is) # map PackQ is, 2 + length is * 8)
           | _ \<Rightarrow> Inl TypeError)
      | list_float32 \<Rightarrow>
          (case v of
             VFloats bs \<Rightarrow> Inr (PackI offset, PackH (length bs) # map PackF bs, 2 + length bs * 4)
           | _ \<Rightarrow> Inl TypeError)
      | list_string \<Rightarrow>
          (case v of
             VStrs ss \<Rightarrow>
               Inr (PackI offset,
                 PackH (length ss) # concat (map (\<lambda>s. [PackH (length (utf8_encode s)), PackS (utf8_encode s)]) ss),
                 2 + sum_list (map (\<lambda>s. 2 + length (utf8_encode s)) ss))
           | _ \<Rightarrow> Inl TypeError))"

type_synonym row = "(string, field_value) dict"

definition row_value :: "row \<Rightarrow> field_meta \<Rightarrow> field_value" where
  "row_value row_data m = (case map_of row_data (fm_name m) of None \<Rightarrow> fm_default m | Some v \<Rightarrow> v)"

fun serialize_loop ::
    "row \<Rightarrow> field_meta option list \<Rightarrow> nat \<Rightarrow> row_error + (pack_item list \<times> pack_item list)" where
  "serialize_loop row_data [] offset = Inr ([], [])"
| "serialize_loop row_data (None # ms) offset = Inl AttributeError"
| "serialize_loop row_data (Some m # ms) offset =
     (case serialize_field m (row_value row_data m) offset of
        Inl e \<Rightarrow> Inl e
      | Inr (fix_item, var_items, growth) \<Rightarrow>
          (case serialize_loop row_data ms (offset + growth) of
             Inl e \<Rightarrow> Inl e
           | Inr (fs, vs) \<Rightarrow> Inr (fix_item # fs, var_items @ vs)))"

definition serialize :: "schema \<Rightarrow> row \<Rightarrow> row_error + byte list" where
  "serialize sc row_data =
     (case serialize_loop row_data (field_orders sc) (total_byte_length sc) of
        Inl e \<Rightarrow> Inl e
      | Inr (fs, vs) \<Rightarrow>
          if 255 < length (field_orders sc) then Inl ValueError
          else (case pack_all (fs @ vs) of
                  None \<Rightarrow> Inl StructError
                | Some bs \<Rightarrow> Inr (word_of_nat (length (field_orders sc)) # bs)))"

fun serialize_batch :: "schema \<Rightarrow> row list \<Rightarrow> row_error + byte list list" where
  "serialize_batch sc [] = Inr []"
| "serialize_batch sc (r # rs) =
     (case serialize sc r of
        Inl e \<Rightarrow> Inl e
      | Inr bs \<Rightarrow> (case serialize_batch sc rs of Inl e \<Rightarrow> Inl e | Inr bss \<Rightarrow> Inr (bs # bss)))"

section \<open>Deserialising\<close>

definition unpack :: "nat \<Rightarrow> byte list \<Rightarrow> nat \<Rightarrow> row_error + nat" where
  "unpack k d off = (if off + k \<le> length d then Inr (le_nat (take k (drop off d))) else Inl StructError)"

definition signed64 :: "nat \<Rightarrow> int" where
  "signed64 n = (if n < 2 ^ 63 then int n else int n - 2 ^ 64)"

definition slice_str :: "byte list \<Rightarrow> nat \<Rightarrow> nat \<Rightarrow> row_error + string" where
  "slice_str d off n = (case utf8_decode (take n (drop off d)) of None \<Rightarrow> Inl DecodeError | Some s \<Rightarrow> Inr s)"

text \<open>A run of \<open>n\<close> numbers of \<open>k\<close> bytes, and of \<open>n\<close> strings with their lengths.\<close>

fun unpack_many :: "nat \<Rightarrow> byte list \<Rightarrow> nat \<Rightarrow> nat \<Rightarrow> row_error + nat list" where
  "unpack_many k d off 0 = Inr []"
| "unpack_many k d off (Suc n) =
     (case unpack k d off of
        Inl e \<Rightarrow> Inl e
      | Inr x \<Rightarrow> (case unpack_many k d (off + k) n of Inl e \<Rightarrow> Inl e | Inr xs \<Rightarrow> Inr (x # xs)))"

fun unpack_strings :: "byte list \<Rightarrow> nat \<Rightarrow> nat \<Rightarrow> row_error + string list" where
  "unpack_strings d off 0 = Inr []"
| "unpack_strings d off (Suc n) =
     (case unpack 2 d off of
        Inl e \<Rightarrow> Inl e
      | Inr l \<Rightarrow>
          (case slice_str d (off + 2) l of
             Inl e \<Rightarrow> Inl e
           | Inr s \<Rightarrow> (case unpack_strings d (off + 2 + l) n of Inl e \<Rightarrow> Inl e | Inr ss \<Rightarrow> Inr (s # ss))))"

definition map_result :: "('a \<Rightarrow> 'b) \<Rightarrow> 'e + 'a \<Rightarrow> 'e + 'b" where
  "map_result f r = (case r of Inl e \<Rightarrow> Inl e | Inr x \<Rightarrow> Inr (f x))"

definition and_then :: "'e + 'a \<Rightarrow> ('a \<Rightarrow> 'e + 'b) \<Rightarrow> 'e + 'b" where
  "and_then r f = (case r of Inl e \<Rightarrow> Inl e | Inr x \<Rightarrow> f x)"

definition read_value :: "field_type \<Rightarrow> byte list \<Rightarrow> nat \<Rightarrow> row_error + field_value" where
  "read_value ty d off =
     (case ty of
        int64 \<Rightarrow> map_result (\<lambda>n. VInt (signed64 n)) (unpack 8 d off)
      | uint64 \<Rightarrow> map_result (\<lambda>n. VInt (int n)) (unpack 8 d off)
      | float32 \<Rightarrow> map_result VFloat (unpack 4 d off)
      | boolean \<Rightarrow> if off < length d then Inr (VBool (d ! off \<noteq> 0)) else Inl IndexError
      | string_t \<Rightarrow> and_then (unpack 4 d off) (\<lambda>p. and_then (unpack 2 d p) (\<lambda>n. map_result VStr (slice_str d (p + 2) n)))
      | binary \<Rightarrow> and_then (unpack 4 d off) (\<lambda>p. map_result (\<lambda>n. VBytes (take n (drop (p + 4) d))) (unpack 4 d p))
      | list_string \<Rightarrow> and_then (unpack 4 d off) (\<lambda>p. and_then (unpack 2 d p) (\<lambda>n. map_result VStrs (unpack_strings d (p + 2) n)))
      | list_int64 \<Rightarrow>
          and_then (unpack 4 d off) (\<lambda>p. and_then (unpack 2 d p)
            (\<lambda>n. map_result (\<lambda>xs. VInts (map signed64 xs)) (unpack_many 8 d (p + 2) n)))
      | list_float32 \<Rightarrow>
          and_then (unpack 4 d off) (\<lambda>p. and_then (unpack 2 d p) (\<lambda>n. map_result VFloats (unpack_many 4 d (p + 2) n))))"

definition deserialize_field :: "schema \<Rightarrow> byte list \<Rightarrow> string \<Rightarrow> row_error + field_value" where
  "deserialize_field sc d name =
     (case get_field_meta sc name of
        Inl e \<Rightarrow> Inl e
      | Inr m \<Rightarrow>
          (case d of
             [] \<Rightarrow> Inl IndexError
           | b # _ \<Rightarrow> if unat b \<le> fm_id m then Inr (fm_default m) else read_value (fm_data_type m) d (fm_offset m)))"

fun deserialize_loop :: "schema \<Rightarrow> byte list \<Rightarrow> field_meta option list \<Rightarrow> row \<Rightarrow> row_error + row" where
  "deserialize_loop sc d [] data_dict = Inr data_dict"
| "deserialize_loop sc d (None # ms) data_dict = Inl AttributeError"
| "deserialize_loop sc d (Some m # ms) data_dict =
     (case deserialize_field sc d (fm_name m) of
        Inl e \<Rightarrow> Inl e
      | Inr v \<Rightarrow> deserialize_loop sc d ms (AList.update (fm_name m) v data_dict))"

definition deserialize :: "schema \<Rightarrow> byte list \<Rightarrow> row_error + row" where
  "deserialize sc d = deserialize_loop sc d (field_orders sc) []"

end
