(* ===== verification/Bytes_Row_Props.thy ===== *)
theory Bytes_Row_Props
  imports Bytes_Row
begin

text \<open>
  Reading back what the row format wrote, also with a schema that has grown since.
\<close>

section \<open>Bytes\<close>

lemma le_bytes_length [simp]: "length (le_bytes k n) = k"
  by (induction k arbitrary: n) simp_all

lemma unat_byte [simp]: "unat (word_of_nat n :: byte) = n mod 256"
  by (simp add: unat_of_nat)

lemma le_nat_bytes [simp]: "n < 256 ^ k \<Longrightarrow> le_nat (le_bytes k n) = n"
proof (induction k arbitrary: n)
  case (Suc k)
  then have "n div 256 < 256 ^ k" by (simp add: less_mult_imp_div_less mult.commute)
  with Suc.IH show ?case by simp
qed simp

lemma utf8_decode_pair:
  "unat b = 194 \<or> unat b = 195 \<Longrightarrow> unat b' = 128 + m \<Longrightarrow> m < 64 \<Longrightarrow>
   utf8_decode (b # b' # bs) = map_option ((#) (char_of (64 * (unat b - 192) + m))) (utf8_decode bs)"
  by auto

lemma utf8_round_trip: "utf8_decode (utf8_encode s) = Some s"
proof (induction s)
  case (Cons c s)
  let ?n = "of_char c :: nat"
  have n: "?n < 256" by simp
  show ?case
  proof (cases "?n < 128")
    case True
    with Cons show ?thesis by (simp add: utf8_encode_def utf8_char_def)
  next
    case False
    define b b' :: byte where "b = word_of_nat (192 + ?n div 64)" and "b' = word_of_nat (128 + ?n mod 64)"
    have "?n div 64 = 2 \<or> ?n div 64 = 3" using n False by linarith
    then have "unat b = 192 + ?n div 64" "unat b = 194 \<or> unat b = 195" unfolding b_def unat_byte by auto
    moreover have "unat b' = 128 + ?n mod 64" unfolding b'_def unat_byte by auto
    moreover have "utf8_encode (c # s) = b # b' # utf8_encode s"
      using False by (simp add: utf8_encode_def utf8_char_def Let_def b_def b'_def)
    moreover have "64 * (?n div 64) + ?n mod 64 = ?n" by simp
    ultimately show ?thesis using utf8_decode_pair [of b b' "?n mod 64" "utf8_encode s"] Cons by simp
  qed
qed (simp add: utf8_encode_def)

section \<open>Where bytes lie\<close>

definition sits :: "byte list \<Rightarrow> nat \<Rightarrow> byte list \<Rightarrow> bool" where
  "sits d off bs \<longleftrightarrow> off + length bs \<le> length d \<and> take (length bs) (drop off d) = bs"

lemma sits_append: "sits d off (a @ b) \<longleftrightarrow> sits d off a \<and> sits d (off + length a) b"
proof -
  have "take (length a + length b) (drop off d) =
      take (length a) (drop off d) @ take (length b) (drop (off + length a) d)"
    by (simp add: take_add add.commute)
  then show ?thesis
    by (auto simp: sits_def)
qed

lemma sits_unpack: "sits d off (le_bytes k n) \<Longrightarrow> n < 256 ^ k \<Longrightarrow> unpack k d off = Inr n"
  by (simp add: sits_def unpack_def)

lemma sits_take: "sits d off bs \<Longrightarrow> take (length bs) (drop off d) = bs"
  by (simp add: sits_def)

lemma sits_str: "sits d off (utf8_encode s) \<Longrightarrow> slice_str d off (length (utf8_encode s)) = Inr s"
  by (simp add: sits_take slice_str_def utf8_round_trip)

lemma signed64_mod: "- (2 ^ 63) \<le> v \<Longrightarrow> v < 2 ^ 63 \<Longrightarrow> signed64 (nat (v mod 2 ^ 64)) = v"
proof -
  assume v: "- (2 ^ 63) \<le> v" "v < 2 ^ 63"
  show ?thesis
  proof (cases "0 \<le> v")
    case True
    with v show ?thesis by (simp add: signed64_def)
  next
    case False
    then have "v mod 2 ^ 64 = (v + 2 ^ 64) mod 2 ^ 64" by simp
    also have "\<dots> = v + 2 ^ 64" using v False by (intro mod_pos_pos_trivial) auto
    finally show ?thesis using v False by (simp add: signed64_def)
  qed
qed

lemma pack_all_append:
  "pack_all (xs @ ys) =
     (case pack_all xs of None \<Rightarrow> None | Some a \<Rightarrow> (case pack_all ys of None \<Rightarrow> None | Some b \<Rightarrow> Some (a @ b)))"
  by (induction xs) (auto split: option.splits)

section \<open>One field\<close>

fun has_type :: "field_type \<Rightarrow> field_value \<Rightarrow> bool" where
  "has_type int64 (VInt _) = True"
| "has_type uint64 (VInt _) = True"
| "has_type float32 (VFloat _) = True"
| "has_type boolean (VBool _) = True"
| "has_type string_t (VStr _) = True"
| "has_type binary (VBytes _) = True"
| "has_type list_int64 (VInts _) = True"
| "has_type list_string (VStrs _) = True"
| "has_type list_float32 (VFloats _) = True"
| "has_type _ _ = False"

lemma pack_Q:
  "pack_item (PackQ v) = Some bs \<Longrightarrow> length bs = 8 \<and> (sits d off bs \<longrightarrow> map_result signed64 (unpack 8 d off) = Inr v)"
  using sits_unpack [of d off 8 "nat (v mod 2 ^ 64)"] signed64_mod [of v]
  by (auto simp: pack_item_def map_result_def nat_less_iff split: if_splits)

lemma pack_many_Q:
  "pack_all (map PackQ is) = Some bs \<Longrightarrow>
   length bs = length is * 8 \<and> (sits d off bs \<longrightarrow> map_result (map signed64) (unpack_many 8 d off (length is)) = Inr is)"
proof (induction "is" arbitrary: bs off)
  case (Cons i "is")
  then obtain a b where ab: "pack_item (PackQ i) = Some a" "pack_all (map PackQ is) = Some b" "bs = a @ b"
    by (auto split: option.splits)
  have u: "unpack_many 8 d off (length (i # is)) = (case unpack 8 d off of Inl e \<Rightarrow> Inl e
      | Inr x \<Rightarrow> (case unpack_many 8 d (off + 8) (length is) of Inl e \<Rightarrow> Inl e | Inr xs \<Rightarrow> Inr (x # xs)))" by simp
  from Cons.IH [OF ab(2), of "off + 8"] pack_Q [OF ab(1), of d off] ab(3) show ?case
    unfolding u by (auto simp: sits_append map_result_def split: sum.splits)
qed (simp add: map_result_def)

lemma pack_many_F:
  "pack_all (map PackF is) = Some bs \<Longrightarrow>
   length bs = length is * 4 \<and> (sits d off bs \<longrightarrow> unpack_many 4 d off (length is) = Inr is)"
proof (induction "is" arbitrary: bs off)
  case (Cons i "is")
  then obtain b where ab: "i < 2 ^ 32" "pack_all (map PackF is) = Some b" "bs = le_bytes 4 i @ b"
    by (auto simp: pack_item_def split: option.splits if_splits)
  have u: "unpack_many 4 d off (length (i # is)) = (case unpack 4 d off of Inl e \<Rightarrow> Inl e
      | Inr x \<Rightarrow> (case unpack_many 4 d (off + 4) (length is) of Inl e \<Rightarrow> Inl e | Inr xs \<Rightarrow> Inr (x # xs)))" by simp
  from Cons.IH [OF ab(2), of "off + 4"] sits_unpack [of d off 4 i] ab(1,3) show ?case
    unfolding u by (auto simp: sits_append)
qed simp

lemma pack_many_S:
  "pack_all (concat (map (\<lambda>s. [PackH (length (utf8_encode s)), PackS (utf8_encode s)]) ss)) = Some bs \<Longrightarrow>
   length bs = sum_list (map (\<lambda>s. 2 + length (utf8_encode s)) ss) \<and>
   (sits d off bs \<longrightarrow> unpack_strings d off (length ss) = Inr ss)"
proof (induction ss arbitrary: bs off)
  case (Cons s ss)
  let ?u = "utf8_encode s"
  obtain b where b: "length ?u < 2 ^ 16"
    "pack_all (concat (map (\<lambda>s. [PackH (length (utf8_encode s)), PackS (utf8_encode s)]) ss)) = Some b"
    "bs = le_bytes 2 (length ?u) @ ?u @ b"
    using Cons.prems by (auto simp: pack_item_def split: option.splits if_splits)
  from Cons.IH [OF b(2), of "off + 2 + length ?u"] sits_unpack [of d off 2 "length ?u"] sits_str [of d "off + 2" s] b(1,3)
  show ?case by (auto simp: sits_append add.assoc)
qed simp

lemma pack_H: "pack_item (PackH n) = Some bs \<longleftrightarrow> n < 2 ^ 16 \<and> bs = le_bytes 2 n"
  by (auto simp: pack_item_def)

lemma pack_I: "pack_item (PackI n) = Some bs \<longleftrightarrow> n < 2 ^ 32 \<and> bs = le_bytes 4 n"
  by (auto simp: pack_item_def)

lemma pack_Cons: "pack_all (it # its) = Some bs \<longleftrightarrow> (\<exists>a b. pack_item it = Some a \<and> pack_all its = Some b \<and> bs = a @ b)"
  by (auto split: option.splits)

lemma read_pointer:
  assumes "pack_item (PackI p) = Some fb" "sits d off fb"
  shows "unpack 4 d off = Inr p"
  using assms sits_unpack [of d off 4 p] by (auto simp: pack_I)

lemma read_length:
  assumes "pack_item (PackH n) = Some a" "sits d off (a @ b)"
  shows "unpack 2 d off = Inr n" "sits d (off + 2) b" "length a = 2"
  using assms sits_unpack [of d off 2 n] by (auto simp: pack_H sits_append)

text \<open>The growth of the offset is the size of what was added, and the value is read back.\<close>

lemma field_round_trip:
  assumes "serialize_field m v p = Inr (it, vs, g)" "pack_item it = Some fb" "pack_all vs = Some vb"
  shows "length fb = fst (TYPE_INFO (fm_data_type m)) \<and> length vb = g \<and>
    (has_type (fm_data_type m) v \<longrightarrow> sits d off fb \<longrightarrow> sits d p vb \<longrightarrow> read_value (fm_data_type m) d off = Inr v)"
proof (cases "fm_data_type m")
  case int64
  with assms show ?thesis using pack_Q [of _ fb d off]
    by (auto simp: serialize_field_def TYPE_INFO_def as_int_def read_value_def map_result_def
        split: option.splits field_value.splits sum.splits)
next
  case uint64
  with assms obtain i where i: "as_int v = Some i" "0 \<le> i" "i < 2 ^ 64" "fb = le_bytes 8 (nat i)" "vs = []" "g = 0" "vb = []"
    by (auto simp: serialize_field_def pack_item_def split: option.splits if_splits)
  with uint64 sits_unpack [of d off 8 "nat i"] show ?thesis
    by (auto simp: TYPE_INFO_def read_value_def map_result_def as_int_def nat_less_iff split: field_value.splits)
next
  case float32
  with assms sits_unpack [of d off 4] show ?thesis
    by (auto simp: serialize_field_def TYPE_INFO_def pack_item_def read_value_def map_result_def
        split: field_value.splits if_splits)
next
  case boolean
  with assms obtain i where i: "as_int v = Some i" "0 \<le> i" "i < 256" "fb = [word_of_nat (nat i)]" "g = 0" "vb = []"
    by (auto simp: serialize_field_def pack_item_def split: option.splits if_splits)
  have "sits d off fb \<Longrightarrow> off < length d \<and> d ! off = word_of_nat (nat i)"
    using i(4) by (auto simp: sits_def take_Suc hd_drop_conv_nth split: if_splits)
  with boolean i show ?thesis
    by (auto simp: TYPE_INFO_def read_value_def as_int_def split: field_value.splits if_splits)
next
  case string_t
  with assms obtain s where s: "v = VStr s" "it = PackI p" "vs = [PackH (length (utf8_encode s)), PackS (utf8_encode s)]"
    "g = 2 + length (utf8_encode s)"
    by (auto simp: serialize_field_def Let_def split: field_value.splits if_splits)
  then obtain a where a: "pack_item (PackH (length (utf8_encode s))) = Some a" "vb = a @ utf8_encode s"
    using assms(3) by (auto simp: pack_Cons pack_item_def split: if_splits)
  from read_pointer [of p fb d off] read_length [OF a(1), of d p "utf8_encode s"] sits_str [of d "p + 2" s] assms(2) a s string_t
  show ?thesis by (auto simp: TYPE_INFO_def pack_I pack_H read_value_def and_then_def map_result_def)
next
  case binary
  with assms obtain bs where s: "v = VBytes bs" "it = PackI p" "vs = [PackI (length bs), PackS bs]" "g = 4 + length bs"
    by (auto simp: serialize_field_def split: field_value.splits)
  then have a: "vb = le_bytes 4 (length bs) @ bs" "length bs < 2 ^ 32"
    using assms(3) by (auto simp: pack_Cons pack_item_def split: if_splits)
  from read_pointer [of p fb d off] sits_unpack [of d p 4 "length bs"] sits_take [of d "p + 4" bs] assms(2) a s binary
  show ?thesis by (auto simp: TYPE_INFO_def pack_I sits_append read_value_def and_then_def map_result_def)
next
  case list_int64
  with assms obtain xs where s: "v = VInts xs" "it = PackI p" "vs = PackH (length xs) # map PackQ xs" "g = 2 + length xs * 8"
    by (auto simp: serialize_field_def split: field_value.splits)
  then obtain a b where a: "pack_item (PackH (length xs)) = Some a" "pack_all (map PackQ xs) = Some b" "vb = a @ b"
    using assms(3) by (auto simp: pack_Cons simp del: pack_all.simps)
  from read_pointer [of p fb d off] read_length [OF a(1), of d p b] pack_many_Q [OF a(2), of d "p + 2"] assms(2) a(1,3) s list_int64
  show ?thesis by (auto simp: TYPE_INFO_def pack_I pack_H read_value_def and_then_def map_result_def split: sum.splits)
next
  case list_float32
  with assms obtain xs where s: "v = VFloats xs" "it = PackI p" "vs = PackH (length xs) # map PackF xs" "g = 2 + length xs * 4"
    by (auto simp: serialize_field_def split: field_value.splits)
  then obtain a b where a: "pack_item (PackH (length xs)) = Some a" "pack_all (map PackF xs) = Some b" "vb = a @ b"
    using assms(3) by (auto simp: pack_Cons simp del: pack_all.simps)
  from read_pointer [of p fb d off] read_length [OF a(1), of d p b] pack_many_F [OF a(2), of d "p + 2"] assms(2) a(1,3) s list_float32
  show ?thesis by (auto simp: TYPE_INFO_def pack_I pack_H read_value_def and_then_def map_result_def)
next
  case list_string
  let ?its = "\<lambda>ss. concat (map (\<lambda>s. [PackH (length (utf8_encode s)), PackS (utf8_encode s)]) ss)"
  from list_string assms obtain ss where s: "v = VStrs ss" "it = PackI p" "vs = PackH (length ss) # ?its ss"
    "g = 2 + sum_list (map (\<lambda>s. 2 + length (utf8_encode s)) ss)"
    by (auto simp: serialize_field_def split: field_value.splits)
  then obtain a b where a: "pack_item (PackH (length ss)) = Some a" "pack_all (?its ss) = Some b" "vb = a @ b"
    using assms(3) by (auto simp: pack_Cons simp del: pack_all.simps)
  from read_pointer [of p fb d off] read_length [OF a(1), of d p b] pack_many_S [OF a(2), of d "p + 2"] assms(2) a(1,3) s list_string
  show ?thesis by (auto simp: TYPE_INFO_def pack_I pack_H read_value_def and_then_def map_result_def)
qed

section \<open>A row\<close>

definition field_size :: "field_meta \<Rightarrow> nat" where
  "field_size m = fst (TYPE_INFO (fm_data_type m))"

lemma row_round_trip:
  assumes "serialize_loop r (map Some ms) p = Inr (fs, vs)" "pack_all fs = Some fb" "pack_all vs = Some vb"
  shows "length fb = sum_list (map field_size ms) \<and>
    (sits d off fb \<longrightarrow> sits d p vb \<longrightarrow>
      (\<forall>k < length ms. has_type (fm_data_type (ms ! k)) (row_value r (ms ! k)) \<longrightarrow>
        read_value (fm_data_type (ms ! k)) d (off + sum_list (map field_size (take k ms))) = Inr (row_value r (ms ! k))))"
  using assms
proof (induction ms arbitrary: p fs vs fb vb off)
  case (Cons m ms)
  obtain it vs1 g fs2 vs2 where s: "serialize_field m (row_value r m) p = Inr (it, vs1, g)"
    "serialize_loop r (map Some ms) (p + g) = Inr (fs2, vs2)" "fs = it # fs2" "vs = vs1 @ vs2"
    using Cons.prems(1) by (auto split: sum.splits)
  obtain a fb2 where f: "pack_item it = Some a" "pack_all fs2 = Some fb2" "fb = a @ fb2"
    using Cons.prems(2) s(3) by (auto split: option.splits)
  obtain vb1 vb2 where v: "pack_all vs1 = Some vb1" "pack_all vs2 = Some vb2" "vb = vb1 @ vb2"
    using Cons.prems(3) s(4) by (auto simp: pack_all_append split: option.splits)
  note one = field_round_trip [OF s(1) f(1) v(1), of d off]
  note rest = Cons.IH [OF s(2) f(2) v(2), of "off + field_size m"]
  have l: "length a = field_size m" "length vb1 = g" using one by (simp_all add: field_size_def)
  show ?case
  proof (intro conjI impI allI)
    show "length fb = sum_list (map field_size (m # ms))" using rest f(3) l by simp
  next
    fix k
    assume h: "sits d off fb" "sits d p vb" "k < length (m # ms)"
      "has_type (fm_data_type ((m # ms) ! k)) (row_value r ((m # ms) ! k))"
    show "read_value (fm_data_type ((m # ms) ! k)) d (off + sum_list (map field_size (take k (m # ms)))) =
        Inr (row_value r ((m # ms) ! k))"
    proof (cases k)
      case 0
      with one h f(3) v(3) show ?thesis by (simp add: sits_append)
    next
      case (Suc j)
      with rest h f(3) v(3) l show ?thesis by (simp add: sits_append add.assoc)
    qed
  qed
qed simp

section \<open>Schemas\<close>

definition field_default :: "field_def \<Rightarrow> field_value" where
  "field_default f = (case fd_default f of None \<Rightarrow> snd (TYPE_INFO (fd_data_type f)) | Some v \<Rightarrow> v)"

fun metas_of :: "field_def list \<Rightarrow> nat \<Rightarrow> field_meta list" where
  "metas_of [] off = []"
| "metas_of (f # fs) off =
     \<lparr>fm_name = fd_name f, fm_data_type = fd_data_type f, fm_offset = off, fm_id = fd_id f,
      fm_default = field_default f\<rparr> # metas_of fs (off + fst (TYPE_INFO (fd_data_type f)))"

text \<open>Fields numbered by their position, with different names.\<close>

definition wf_fields :: "field_def list \<Rightarrow> bool" where
  "wf_fields fs \<longleftrightarrow> map fd_id fs = [0..<length fs] \<and> distinct (map fd_name fs)"

lemma metas_of_length [simp]: "length (metas_of fs off) = length fs"
  by (induction fs off rule: metas_of.induct) simp_all

lemma metas_of_append:
  "metas_of (fs @ gs) off = metas_of fs off @ metas_of gs (off + sum_list (map (\<lambda>f. fst (TYPE_INFO (fd_data_type f))) fs))"
  by (induction fs off rule: metas_of.induct) (simp_all add: add.assoc)

lemma metas_of_nth:
  "k < length fs \<Longrightarrow> metas_of fs off ! k =
     \<lparr>fm_name = fd_name (fs ! k), fm_data_type = fd_data_type (fs ! k),
      fm_offset = off + sum_list (map field_size (take k (metas_of fs off))), fm_id = fd_id (fs ! k),
      fm_default = field_default (fs ! k)\<rparr>"
proof (induction fs arbitrary: k off)
  case (Cons f fs)
  then show ?case by (cases k) (simp_all add: field_size_def add.assoc)
qed simp

lemma schema_loop_metas:
  assumes "schema_loop fs off sc = Inr sc'" "map fd_id fs = [j..<j + length fs]"
    and "length (field_orders sc) = j + length fs" "distinct (map fd_name fs)"
  shows "field_orders sc' = take j (field_orders sc) @ map Some (metas_of fs off)"
    "total_byte_length sc' = off + sum_list (map field_size (metas_of fs off))"
    "map_of (field_metas sc') x = (case find (\<lambda>m. fm_name m = x) (metas_of fs off) of
       Some m \<Rightarrow> Some m | None \<Rightarrow> map_of (field_metas sc) x)"
proof -
  have "field_orders sc' = take j (field_orders sc) @ map Some (metas_of fs off) \<and>
    total_byte_length sc' = off + sum_list (map field_size (metas_of fs off)) \<and>
    map_of (field_metas sc') x = (case find (\<lambda>m. fm_name m = x) (metas_of fs off) of
       Some m \<Rightarrow> Some m | None \<Rightarrow> map_of (field_metas sc) x)"
    using assms
  proof (induction fs arbitrary: off sc j)
    case (Cons f fs)
    let ?m = "hd (metas_of (f # fs) off)" and ?b = "fst (TYPE_INFO (fd_data_type f))"
    let ?sc = "sc\<lparr>field_metas := AList.update (fd_name f) ?m (field_metas sc), field_orders := (field_orders sc)[j := Some ?m]\<rparr>"
    have id: "fd_id f = j" and ids: "map fd_id fs = [Suc j..<Suc j + length fs]"
      using Cons.prems(2) upt_conv_Cons [of j "j + length (f # fs)"] by simp_all
    have st: "schema_loop fs (off + ?b) ?sc = Inr sc'"
      using Cons.prems(1,3) id by (auto simp: Let_def field_default_def case_prod_unfold split: if_splits)
    have len: "length (field_orders ?sc) = Suc j + length fs" using Cons.prems(3) by simp
    have dist: "distinct (map fd_name fs)" "fd_name f \<notin> fd_name ` set fs" using Cons.prems(4) by simp_all
    note IH = Cons.IH [OF st ids len dist(1)]
    have t: "take (Suc j) (field_orders ?sc) = take j (field_orders sc) @ [Some ?m]"
      using Cons.prems(3) by (simp add: take_Suc_conv_app_nth)
    have names: "fm_name ` set (metas_of fs o') = fd_name ` set fs" for o'
      by (induction fs o' rule: metas_of.induct) simp_all
    have "find (\<lambda>m. fm_name m = fd_name f) (metas_of fs (off + ?b)) = None"
      using dist(2) names [of "off + ?b"] by (metis (mono_tags, lifting) find_None_iff image_eqI)
    with IH t show ?case by (auto simp: field_size_def add.assoc split: option.splits)
  qed auto
  then show "field_orders sc' = take j (field_orders sc) @ map Some (metas_of fs off)"
    "total_byte_length sc' = off + sum_list (map field_size (metas_of fs off))"
    "map_of (field_metas sc') x = (case find (\<lambda>m. fm_name m = x) (metas_of fs off) of
       Some m \<Rightarrow> Some m | None \<Rightarrow> map_of (field_metas sc) x)" by blast+
qed

lemma find_meta:
  assumes "distinct (map fd_name fs)" "k < length fs"
  shows "find (\<lambda>m. fm_name m = fd_name (fs ! k)) (metas_of fs off) = Some (metas_of fs off ! k)"
proof -
  have "fm_name (metas_of fs off ! j) = fd_name (fs ! j)" if "j < length fs" for j
    using metas_of_nth [OF that] by simp
  then show ?thesis using assms by (auto simp: find_Some_iff distinct_conv_nth intro!: exI [of _ k])
qed

lemma wf_schema:
  assumes "new_schema fs = Inr sc" "wf_fields fs"
  shows "field_orders sc = map Some (metas_of fs 1)"
    "total_byte_length sc = 1 + sum_list (map field_size (metas_of fs 1))"
    "k < length fs \<Longrightarrow> get_field_meta sc (fd_name (fs ! k)) = Inr (metas_of fs 1 ! k)"
proof -
  have d: "map fd_id fs = [0..<0 + length fs]" "distinct (map fd_name fs)" using assms(2) by (simp_all add: wf_fields_def)
  note L = schema_loop_metas [OF assms(1) [unfolded new_schema_def] d(1) _ d(2)]
  show "field_orders sc = map Some (metas_of fs 1)"
    "total_byte_length sc = 1 + sum_list (map field_size (metas_of fs 1))" using L(1,2) by simp_all
  show "k < length fs \<Longrightarrow> get_field_meta sc (fd_name (fs ! k)) = Inr (metas_of fs 1 ! k)"
    using L(3) [of "fd_name (fs ! k)"] find_meta [OF d(2)] by (simp add: get_field_meta_def)
qed

section \<open>Property\<close>

definition field_value_of :: "row \<Rightarrow> field_def \<Rightarrow> field_value" where
  "field_value_of r f = (case map_of r (fd_name f) of None \<Rightarrow> field_default f | Some v \<Rightarrow> v)"


definition demo_fields :: "field_def list" where
  "demo_fields =
     [\<lparr>fd_name = ''id'', fd_data_type = int64, fd_id = 0, fd_default = None\<rparr>,
      \<lparr>fd_name = ''uri'', fd_data_type = string_t, fd_id = 1, fd_default = None\<rparr>]"

definition demo_new_fields :: "field_def list" where
  "demo_new_fields = [\<lparr>fd_name = ''done'', fd_data_type = boolean, fd_id = 2, fd_default = Some (VBool True)\<rparr>]"

definition demo_row :: row where
  "demo_row = [(''id'', VInt (-2)), (''uri'', VStr ''ab'')]"

lemma le_bytes_numeral [simp]: "le_bytes (numeral k) n = word_of_nat n # le_bytes (pred_numeral k) (n div 256)"
  by (metis le_bytes.simps(2) numeral_eq_Suc)

lemmas row_eval =
  new_schema_def TYPE_INFO_def Let_def serialize_def serialize_field_def row_value_def as_int_def pack_item_def
  utf8_encode_def utf8_char_def

lemma demo_serialized: "\<exists>sc d. new_schema demo_fields = Inr sc \<and> serialize sc demo_row = Inr d"
  by (simp add: demo_fields_def demo_row_def row_eval)


text \<open>With ids that do not follow the order of the definition, the offsets of the schema and the order in which a row is
  written disagree, and the row is read back wrong.\<close>

lemma permuted_ids_misread:
  "\<exists>sc d. new_schema [\<lparr>fd_name = ''n'', fd_data_type = int64, fd_id = 1, fd_default = None\<rparr>,
                    \<lparr>fd_name = ''b'', fd_data_type = boolean, fd_id = 0, fd_default = None\<rparr>] = Inr sc \<and>
     serialize sc [(''n'', VInt 7), (''b'', VBool True)] = Inr d \<and> deserialize_field sc d ''n'' = Inr (VInt 1793)"
  by (simp add: row_eval deserialize_field_def get_field_meta_def read_value_def map_result_def unpack_def signed64_def)

end
