(* ===== verification/Viking_Uri.thy ===== *)
theory Viking_Uri
  imports Py_Prelude
begin

text \<open>
  Identifiers and URIs: the validation of account, user and peer ids
  (\<^verbatim>\<open>openviking/core/identifiers.py\<close>, \<^verbatim>\<open>openviking/core/peer_id.py\<close>), the identity a request carries
  (\<^verbatim>\<open>openviking/server/identity.py\<close>) and the class \<^verbatim>\<open>VikingURI\<close> of \<^verbatim>\<open>openviking_cli/utils/uri.py\<close>.

  A method that may raise returns \<open>Inl\<close> of the exception; \<open>py_then\<close> chains such calls.  The lemmas
  at the end describe a URI by the list of its segments, which is what the namespace and the file
  system decide on.
\<close>

named_theorems raise_iff \<open>when a chain of calls returns or raises\<close>

datatype uri_error =
    UriValueError string
  | NamespaceShapeError string
  | RecursionError
  | InvalidURIError string string
  | InvalidArgumentError string
  | PermissionDeniedError string

definition py_then :: "'e + 'a \<Rightarrow> ('a \<Rightarrow> 'e + 'b) \<Rightarrow> 'e + 'b" where
  "py_then m f = (case m of Inl e \<Rightarrow> Inl e | Inr x \<Rightarrow> f x)"

text \<open>A text between single quotation marks, as the messages have it.\<close>

definition quoted :: "string \<Rightarrow> string" where
  "quoted s = CHR 0x27 # s @ [CHR 0x27]"

section \<open>Identifiers\<close>

text \<open>
  \<^verbatim>\<open>^[a-zA-Z0-9_.@-]+$\<close> under \<^verbatim>\<open>match\<close>: the dollar sign also matches before a line feed that ends the
  string.
\<close>

definition ident_char :: "char \<Rightarrow> bool" where
  "ident_char c \<longleftrightarrow> ascii_alnum c \<or> c \<in> {CHR ''_'', CHR ''.'', CHR ''@'', CHR ''-''}"

definition line_feed :: char where
  "line_feed = CHR 0x0A"

definition dollar_body :: "string \<Rightarrow> string" where
  "dollar_body s = (if s \<noteq> [] \<and> last s = line_feed then butlast s else s)"

definition VALIDATION_PATTERN :: "string \<Rightarrow> bool" where
  "VALIDATION_PATTERN s \<longleftrightarrow> dollar_body s \<noteq> [] \<and> list_all ident_char (dollar_body s)"

definition validate_identifier_part :: "string \<Rightarrow> string \<Rightarrow> string option" where
  "validate_identifier_part part part_name =
     (if part = [] then Some (part_name @ '' is empty'')
      else if part = ''.'' \<or> part = ''..'' then Some (part_name @ '' must not be '' @ quoted ''.'' @ '' or '' @ quoted ''..'')
      else if \<not> VALIDATION_PATTERN part then Some (part_name @ '' must be alpha_numeric string.'')
      else if 1 < count_list part (CHR ''@'') then Some (part_name @ '' must have at most one @.'')
      else None)"

definition normalize_identifier_part :: "string option \<Rightarrow> string \<Rightarrow> uri_error + string option" where
  "normalize_identifier_part part part_name =
     (case part of
        None \<Rightarrow> Inr None
      | Some p \<Rightarrow>
          (let normalized = py_strip p
           in if normalized = [] then Inr None
              else (case validate_identifier_part normalized part_name of
                      Some msg \<Rightarrow> Inl (UriValueError msg)
                    | None \<Rightarrow> Inr (Some normalized))))"

definition validate_account_id :: "string \<Rightarrow> string option" where
  "validate_account_id aid =
     (case validate_identifier_part aid ''account_id'' of
        Some msg \<Rightarrow> Some msg
      | None \<Rightarrow>
          if py_startswith aid ''_'' then Some ''account_id cannot start with underscore _.'' else None)"

definition validate_user_id :: "string \<Rightarrow> string option" where
  "validate_user_id uid = validate_identifier_part uid ''user_id''"

definition normalize_peer_id :: "string option \<Rightarrow> uri_error + string option" where
  "normalize_peer_id peer_id =
     (case normalize_identifier_part peer_id ''peer_id'' of
        Inl (UriValueError msg) \<Rightarrow> Inl (UriValueError (''Invalid peer_id: '' @ msg))
      | r \<Rightarrow> r)"

definition safe_peer_id :: "string option \<Rightarrow> string option" where
  "safe_peer_id peer_id = (case normalize_peer_id peer_id of Inl _ \<Rightarrow> None | Inr p \<Rightarrow> p)"

section \<open>The identity of a request\<close>

record user_identifier =
  ui_account_id :: string
  ui_user_id :: string

definition validate_error :: "string \<Rightarrow> string \<Rightarrow> string" where
  "validate_error aid uid =
     (case validate_account_id aid of
        Some msg \<Rightarrow> msg
      | None \<Rightarrow> (case validate_user_id uid of Some msg \<Rightarrow> msg | None \<Rightarrow> []))"

definition new_user_identifier :: "string \<Rightarrow> string \<Rightarrow> uri_error + user_identifier" where
  "new_user_identifier aid uid =
     (if validate_error aid uid \<noteq> [] then Inl (UriValueError (validate_error aid uid))
      else Inr \<lparr>ui_account_id = aid, ui_user_id = uid\<rparr>)"

text \<open>A role is its string, as \<^verbatim>\<open>Role.__eq__\<close> compares them; custom roles are allowed.\<close>

definition ROLE_ROOT :: string where "ROLE_ROOT = ''root''"

record request_context =
  rc_user :: user_identifier
  rc_role :: string
  rc_actor_peer_id :: "string option"

section \<open>The class VikingURI\<close>

definition SCHEME_PREFIX :: string where "SCHEME_PREFIX = ''viking://''"

definition PUBLIC_SCOPES :: "string list" where
  "PUBLIC_SCOPES = [''resources'', ''wiki'', ''user'', ''agent'']"

definition LEGACY_SCOPES :: "string list" where "LEGACY_SCOPES = [''session'']"

definition INTERNAL_SCOPES :: "string list" where
  "INTERNAL_SCOPES = [''temp'', ''queue'', ''upload'']"

definition VISITABLE_SCOPES :: "string list" where
  "VISITABLE_SCOPES = PUBLIC_SCOPES @ LEGACY_SCOPES @ INTERNAL_SCOPES"

record viking_uri =
  vu_uri :: string
  vu_scope :: string
  vu_full_path :: string

definition viking_normalize :: "string \<Rightarrow> string" where
  "viking_normalize u =
     (if py_startswith u SCHEME_PREFIX then u else SCHEME_PREFIX @ py_lstrip (CHR ''/'') u)"

text \<open>\<^verbatim>\<open>s.strip("/")\<close>.\<close>

definition strip_slashes :: "string \<Rightarrow> string" where
  "strip_slashes s = py_rstrip (CHR ''/'') (py_lstrip (CHR ''/'') s)"

definition viking_parse :: "string \<Rightarrow> uri_error + viking_uri" where
  "viking_parse u =
     (if \<not> py_startswith u SCHEME_PREFIX then Inl (UriValueError (''URI must start with '' @ quoted SCHEME_PREFIX))
      else
        let path = drop (length SCHEME_PREFIX) u
        in if strip_slashes path = [] then Inr \<lparr>vu_uri = u, vu_scope = [], vu_full_path = []\<rparr>
           else
             let scope = hd (py_split (CHR ''/'') path)
             in if scope \<notin> set VISITABLE_SCOPES
                then Inl (UriValueError (''Invalid scope '' @ quoted scope))
                else Inr \<lparr>vu_uri = u, vu_scope = scope, vu_full_path = path\<rparr>)"

definition new_viking_uri :: "string \<Rightarrow> uri_error + viking_uri" where
  "new_viking_uri u = viking_parse (viking_normalize u)"

definition resource_name :: "viking_uri \<Rightarrow> string option" where
  "resource_name v =
     (if vu_scope v \<noteq> ''resources'' then None
      else (case py_split (CHR ''/'') (vu_full_path v) of _ # name # _ \<Rightarrow> Some name | _ \<Rightarrow> None))"

definition matches_prefix :: "viking_uri \<Rightarrow> string \<Rightarrow> bool" where
  "matches_prefix v prefix = py_startswith (vu_uri v) prefix"

text \<open>\<^verbatim>\<open>s.find(p)\<close>; \<open>None\<close> stands for \<^verbatim>\<open>-1\<close>.\<close>

definition py_find :: "string \<Rightarrow> string \<Rightarrow> nat option" where
  "py_find s p = find (\<lambda>i. py_startswith (drop i s) p) [0..<Suc (length s)]"

definition vu_parent :: "viking_uri \<Rightarrow> uri_error + viking_uri option" where
  "vu_parent v =
     (let u = py_rstrip (CHR ''/'') (vu_uri v)
      in case py_find u ''://'' of
           None \<Rightarrow> Inr None
         | Some scheme_end \<Rightarrow>
             (let after_scheme = drop (scheme_end + 3) u
              in if CHR ''/'' \<notin> set after_scheme
                 then (if after_scheme \<noteq> [] then map_sum id Some (new_viking_uri SCHEME_PREFIX)
                       else Inr None)
                 else (case py_rsplit1 (CHR ''/'') u of
                         Some (u', _) \<Rightarrow> map_sum id Some (new_viking_uri u')
                       | None \<Rightarrow> Inr None)))"

definition is_valid :: "string \<Rightarrow> bool" where
  "is_valid u = (case new_viking_uri u of Inl _ \<Rightarrow> False | Inr _ \<Rightarrow> True)"

definition vu_join :: "viking_uri \<Rightarrow> string \<Rightarrow> uri_error + viking_uri" where
  "vu_join v part0 =
     (let part = strip_slashes part0
      in if part = [] then Inr v
         else
           let full = py_rstrip (CHR ''/'') (vu_full_path v)
           in if full \<noteq> [] then new_viking_uri (SCHEME_PREFIX @ full @ ''/'' @ part)
              else new_viking_uri (SCHEME_PREFIX @ part))"

definition vu_build :: "string \<Rightarrow> string list \<Rightarrow> uri_error + string" where
  "vu_build scope path_parts =
     (if scope \<notin> set VISITABLE_SCOPES then Inl (UriValueError (''Invalid scope '' @ quoted scope))
      else Inr (SCHEME_PREFIX @ py_join (CHR ''/'') (filter (\<lambda>p. p \<noteq> []) (scope # path_parts))))"

text \<open>
  \<^verbatim>\<open>sanitize_segment\<close>: of the code points below 256, the class of kept characters has the letters and
  digits of ASCII, \<^verbatim>\<open>_\<close>, \<^verbatim>\<open>-\<close>, \<^verbatim>\<open>.\<close> and everything from \<^verbatim>\<open>0x80\<close> up.
\<close>

definition segment_char :: "char \<Rightarrow> bool" where
  "segment_char c \<longleftrightarrow>
     ascii_alnum c \<or> c \<in> {CHR ''_'', CHR ''-'', CHR ''.''} \<or> 128 \<le> (of_char c :: nat)"

fun merge_underscores :: "string \<Rightarrow> string" where
  "merge_underscores (c # d # cs) =
     (if c = CHR ''_'' \<and> d = CHR ''_'' then merge_underscores (d # cs)
      else c # merge_underscores (d # cs))"
| "merge_underscores s = s"

definition strip_set :: "char set \<Rightarrow> string \<Rightarrow> string" where
  "strip_set A s = rev (dropWhile (\<lambda>c. c \<in> A) (rev (dropWhile (\<lambda>c. c \<in> A) s)))"

definition sanitize_segment :: "string \<Rightarrow> string" where
  "sanitize_segment txt =
     (let safe = map (\<lambda>c. if segment_char c then c else CHR ''_'') txt;
          safe = merge_underscores safe;
          safe = take 50 (strip_set {CHR ''_'', CHR ''.''} safe)
      in if safe = [] then ''unnamed'' else safe)"

definition build_semantic_uri :: "string \<Rightarrow> string \<Rightarrow> string option \<Rightarrow> bool \<Rightarrow> uri_error + string" where
  "build_semantic_uri parent_uri semantic_name node_id is_leaf =
     (let safe_name = sanitize_segment semantic_name
      in if \<not> is_leaf then Inr (parent_uri @ ''/'' @ safe_name)
         else (case node_id of
                 None \<Rightarrow> Inl (UriValueError ''Leaf node must have a node_id'')
               | Some n \<Rightarrow>
                   if n = [] then Inl (UriValueError ''Leaf node must have a node_id'')
                   else Inr (parent_uri @ ''/'' @ safe_name @ ''/'' @ n)))"

text \<open>\<^verbatim>\<open>create_temp_uri\<close>, at the time stamp and the random id the call draws.\<close>

definition create_temp_uri :: "string \<Rightarrow> string \<Rightarrow> string option \<Rightarrow> string" where
  "create_temp_uri stamp temp_id space =
     (let temp_leaf = stamp @ ''_'' @ temp_id
      in case space of
           Some s \<Rightarrow> if s \<noteq> [] then ''viking://temp/'' @ s @ ''/'' @ temp_leaf else ''viking://temp/'' @ temp_leaf
         | None \<Rightarrow> ''viking://temp/'' @ temp_leaf)"

text \<open>\<^verbatim>\<open>[p for p in s.split("/") if p]\<close>: the segments of a path.\<close>

definition segments :: "string \<Rightarrow> string list" where
  "segments s = filter (\<lambda>p. p \<noteq> []) (py_split (CHR ''/'') s)"

section \<open>Generic facts\<close>

lemma py_then_Inr [raise_iff]: "py_then m f = Inr y \<longleftrightarrow> (\<exists>x. m = Inr x \<and> f x = Inr y)"
  by (cases m) (auto simp: py_then_def)

lemma py_then_Inl [raise_iff]:
  "py_then m f = Inl e \<longleftrightarrow> m = Inl e \<or> (\<exists>x. m = Inr x \<and> f x = Inl e)"
  by (cases m) (auto simp: py_then_def)

lemma py_then_simps [simp]: "py_then (Inl e) f = Inl e" "py_then (Inr x) f = f x"
  by (simp_all add: py_then_def)

lemma map_sum_Inr [raise_iff]: "map_sum f g m = Inr y \<longleftrightarrow> (\<exists>x. m = Inr x \<and> y = g x)"
  by (cases m) auto

lemma split_append_sep: "py_split c (a @ c # b) = py_split c a @ py_split c b"
proof (induction a)
  case (Cons x xs)
  obtain seg rest where "py_split c xs = seg # rest" by (cases "py_split c xs") auto
  with Cons show ?case by auto
qed simp

lemma segments_Nil [simp]: "segments [] = []"
  by (simp add: segments_def)

lemma segments_append [simp]: "segments (a @ CHR ''/'' # b) = segments a @ segments b"
  by (simp add: segments_def split_append_sep)

lemma segments_Cons_slash [simp]: "segments (CHR ''/'' # b) = segments b"
  by (simp add: segments_def)

lemma segments_single [simp]: "CHR ''/'' \<notin> set s \<Longrightarrow> s \<noteq> [] \<Longrightarrow> segments s = [s]"
  by (simp add: segments_def split_single)

lemma segments_snoc_slash [simp]: "segments (a @ [CHR ''/'']) = segments a"
  using segments_append [of a "[]"] by simp

lemma segments_mem: "x \<in> set (segments s) \<Longrightarrow> x \<noteq> [] \<and> CHR ''/'' \<notin> set x"
  by (auto simp: segments_def dest: split_segments)

lemma segments_rstrip [simp]: "segments (py_rstrip (CHR ''/'') s) = segments s"
  by (induction s rule: rev_induct) (simp_all add: py_str_simps)

lemma segments_lstrip [simp]: "segments (py_lstrip (CHR ''/'') s) = segments s"
  by (induction s) (simp_all add: py_lstrip_def)

lemma segments_strip [simp]: "segments (strip_slashes s) = segments s"
  by (simp add: strip_slashes_def)

lemma segments_join:
  "\<forall>x \<in> set xs. x \<noteq> [] \<and> CHR ''/'' \<notin> set x \<Longrightarrow> segments (py_join (CHR ''/'') xs) = xs"
  by (induction "CHR ''/''" xs rule: py_join.induct) simp_all

lemma join_no_trailing:
  "xs \<noteq> [] \<Longrightarrow> \<forall>x \<in> set xs. x \<noteq> [] \<and> c \<notin> set x \<Longrightarrow>
     py_join c xs \<noteq> [] \<and> last (py_join c xs) \<noteq> c \<and> hd (py_join c xs) \<noteq> c"
proof (induction c xs rule: py_join.induct)
  case (3 c s t rest)
  then show ?case by (cases s) auto
qed auto

lemma join_append:
  "xs \<noteq> [] \<Longrightarrow> ys \<noteq> [] \<Longrightarrow> py_join c (xs @ ys) = py_join c xs @ c # py_join c ys"
proof (induction c xs rule: py_join.induct)
  case (2 c s)
  then show ?case by (cases ys) auto
qed auto

lemma segments_Nil_iff: "segments s = [] \<longleftrightarrow> strip_slashes s = []"
proof
  assume "segments s = []"
  then show "strip_slashes s = []"
  proof (induction s)
    case (Cons x xs)
    show ?case
    proof (cases "x = CHR ''/''")
      case True
      with Cons show ?thesis by (simp add: strip_slashes_def py_lstrip_def)
    next
      case False
      obtain seg rest where "py_split (CHR ''/'') xs = seg # rest"
        by (cases "py_split (CHR ''/'') xs") auto
      with False Cons.prems show ?thesis by (simp add: segments_def)
    qed
  qed (simp add: strip_slashes_def py_lstrip_def py_str_simps)
next
  assume "strip_slashes s = []"
  then show "segments s = []" by (metis segments_strip segments_Nil)
qed

lemma rstrip_append: "py_rstrip c b \<noteq> [] \<Longrightarrow> py_rstrip c (a @ b) = a @ py_rstrip c b"
proof (induction b rule: rev_induct)
  case (snoc x b)
  then show ?case
    using rstrip_simps(2) [of c "a @ b" x] by (cases "x = c") (simp_all add: py_str_simps)
qed (simp add: py_str_simps)

lemma rstrip_append_Nil: "py_rstrip c b = [] \<Longrightarrow> py_rstrip c (a @ b) = py_rstrip c a"
proof (induction b rule: rev_induct)
  case (snoc x b)
  then show ?case
    using rstrip_simps(2) [of c "a @ b" x] by (cases "x = c") (simp_all add: py_str_simps)
qed simp

lemma strip_Nil_iff: "strip_slashes s = [] \<longleftrightarrow> py_rstrip (CHR ''/'') s = []"
proof -
  have "\<And>P s. rev (dropWhile P (rev s)) = [] \<longleftrightarrow> (\<forall>x \<in> set s. P x)" by auto
  moreover have "(\<forall>x \<in> set (dropWhile P s). P x) \<longleftrightarrow> (\<forall>x \<in> set s. P x)" for P :: "char \<Rightarrow> bool"
    by (induction s) auto
  ultimately show ?thesis
    by (simp add: strip_slashes_def py_rstrip_def py_lstrip_def)
qed

end
