(* ===== verification/Namespace.thy ===== *)
theory Namespace
  imports Viking_Uri
begin

text \<open>
  The namespaces of \<^verbatim>\<open>openviking/core/namespace.py\<close>: a URI is split into segments, classified by
  them, brought into its canonical form for the user of the request, and its owner is what access
  is decided on.

  \<^verbatim>\<open>resolve_uri\<close> and \<^verbatim>\<open>_resolve_user_uri\<close> call each other; the recursion is bounded by Python's own
  limit, beyond which \<^verbatim>\<open>RecursionError\<close> is raised.  For a validated user id one recursive call is
  enough (theory \<^verbatim>\<open>Namespace_Facts\<close>).
\<close>

section \<open>Segments and classification\<close>

definition CONTENT_TYPES :: "(string, string) dict" where
  "CONTENT_TYPES = [(''memories'', ''memory''), (''resources'', ''resource''), (''skills'', ''skill'')]"

definition CONTENT_TYPES_BY_SCOPE :: "(string, (string, string) dict) dict" where
  "CONTENT_TYPES_BY_SCOPE = [(''user'', CONTENT_TYPES), (''agent'', CONTENT_TYPES)]"

definition PEER_CONTENT_SEGMENTS :: "string list" where
  "PEER_CONTENT_SEGMENTS = [''memories'', ''resources'']"

definition USER_RELATIVE_ROOT_SEGMENTS :: "string list" where
  "USER_RELATIVE_ROOT_SEGMENTS = [''peers'', ''privacy'', ''sessions'']"

record resolved_namespace =
  rn_uri :: string
  rn_scope :: string
  rn_owner_user_id :: "string option"
  rn_is_container :: bool

record uri_classification =
  uc_parts :: "string list"
  uc_scope :: string
  uc_content_index :: "nat option"
  uc_context_type :: string

text \<open>\<^verbatim>\<open>uri.split("?", 1)[0]\<close>.\<close>

definition before_query :: "string \<Rightarrow> string" where
  "before_query u = takeWhile (\<lambda>c. c \<noteq> CHR ''?'') u"

definition uri_parts :: "string \<Rightarrow> string list" where
  "uri_parts u =
     (let normalized = py_rstrip (CHR ''/'') (viking_normalize (before_query u));
          normalized = (if normalized = ''viking:'' then ''viking://'' else normalized)
      in if normalized = ''viking://'' then [] else segments (drop (length SCHEME_PREFIX) normalized))"

definition uri_depth :: "string \<Rightarrow> nat" where
  "uri_depth u = length (uri_parts u)"

definition uri_leaf_name :: "string \<Rightarrow> string" where
  "uri_leaf_name u = (let parts = uri_parts u in if parts \<noteq> [] then last parts else [])"

definition relative_uri_path :: "string \<Rightarrow> string \<Rightarrow> string" where
  "relative_uri_path root_uri u =
     (let root_parts = uri_parts root_uri; parts = uri_parts u
      in if parts = root_parts \<or> take (length root_parts) parts \<noteq> root_parts then []
         else py_join (CHR ''/'') (drop (length root_parts) parts))"

definition content_segment_index :: "string list \<Rightarrow> nat option" where
  "content_segment_index parts =
     (if 3 \<le> length parts \<and> parts ! 0 = ''agent'' \<and> parts ! 2 \<in> fst ` set CONTENT_TYPES then Some 2
      else if length parts < 2 \<or> parts ! 0 \<noteq> ''user'' then None
      else if parts ! 1 \<in> fst ` set CONTENT_TYPES then Some 1
      else if 4 \<le> length parts \<and> parts ! 1 = ''peers'' \<and> parts ! 3 \<in> set PEER_CONTENT_SEGMENTS then Some 3
      else if 5 \<le> length parts \<and> parts ! 2 = ''peers'' \<and> parts ! 4 \<in> set PEER_CONTENT_SEGMENTS then Some 4
      else if 3 \<le> length parts \<and> parts ! 2 \<in> fst ` set CONTENT_TYPES then Some 2
      else None)"

definition is_namespace_root_parts :: "string list \<Rightarrow> string \<Rightarrow> bool" where
  "is_namespace_root_parts parts scope \<longleftrightarrow>
     scope = ''user'' \<and> take 1 parts = [''user''] \<and> length parts = 2"

definition classify_uri :: "string \<Rightarrow> uri_classification" where
  "classify_uri u =
     (let parts = uri_parts u;
          content_index = content_segment_index parts;
          context_type =
            (case content_index of
               None \<Rightarrow> ''resource''
             | Some i \<Rightarrow>
                 (case map_of (case map_of CONTENT_TYPES_BY_SCOPE (parts ! 0) of None \<Rightarrow> [] | Some d \<Rightarrow> d)
                         (parts ! i) of
                    None \<Rightarrow> ''resource''
                  | Some t \<Rightarrow> t))
      in \<lparr>uc_parts = parts, uc_scope = (if parts \<noteq> [] then hd parts else []),
          uc_content_index = content_index, uc_context_type = context_type\<rparr>)"

definition is_memory :: "uri_classification \<Rightarrow> bool" where
  "is_memory c \<longleftrightarrow> uc_context_type c = ''memory''"

definition is_skill :: "uri_classification \<Rightarrow> bool" where
  "is_skill c \<longleftrightarrow> uc_context_type c = ''skill''"

definition is_user_namespace_root :: "uri_classification \<Rightarrow> bool" where
  "is_user_namespace_root c \<longleftrightarrow> is_namespace_root_parts (uc_parts c) ''user''"

definition is_agent_namespace_root :: "uri_classification \<Rightarrow> bool" where
  "is_agent_namespace_root c \<longleftrightarrow> uc_scope c = ''agent'' \<and> length (uc_parts c) = 2"

definition at_content_depth :: "uri_classification \<Rightarrow> nat \<Rightarrow> bool" where
  "at_content_depth c k =
     (case uc_content_index c of None \<Rightarrow> False | Some i \<Rightarrow> length (uc_parts c) = i + k)"

definition is_memory_root :: "uri_classification \<Rightarrow> bool" where
  "is_memory_root c \<longleftrightarrow> is_memory c \<and> at_content_depth c 1"

definition is_skill_namespace :: "uri_classification \<Rightarrow> bool" where
  "is_skill_namespace c \<longleftrightarrow> is_skill c \<and> at_content_depth c 1"

definition is_skill_root :: "uri_classification \<Rightarrow> bool" where
  "is_skill_root c \<longleftrightarrow> is_skill c \<and> at_content_depth c 2"

definition context_type_for_uri :: "string \<Rightarrow> string" where
  "context_type_for_uri u = uc_context_type (classify_uri u)"

section \<open>Canonical roots\<close>

definition user_space_fragment :: "request_context \<Rightarrow> string" where
  "user_space_fragment ctx = ui_user_id (rc_user ctx)"

definition canonical_user_root :: "request_context \<Rightarrow> string" where
  "canonical_user_root ctx = ''viking://user/'' @ user_space_fragment ctx"

definition canonical_session_root :: "request_context \<Rightarrow> string" where
  "canonical_session_root ctx = canonical_user_root ctx @ ''/sessions''"

definition canonical_session_uri :: "request_context \<Rightarrow> string option \<Rightarrow> string" where
  "canonical_session_uri ctx session_id =
     (let root = canonical_session_root ctx
      in case session_id of
           None \<Rightarrow> root
         | Some sid \<Rightarrow> if sid = [] then root else root @ ''/'' @ sid)"

definition is_session_uri :: "string \<Rightarrow> bool" where
  "is_session_uri u =
     (let parts = uri_parts u
      in if take 1 parts = [''session''] then True
         else if take 2 parts = [''user'', ''sessions''] then True
         else 3 \<le> length parts \<and> parts ! 0 = ''user'' \<and> parts ! 2 = ''sessions'')"

definition AGENT_SHARED_ROOTS :: "string list" where
  "AGENT_SHARED_ROOTS = [''viking://agent/skills'']"

definition visible_roots :: "request_context \<Rightarrow> string list" where
  "visible_roots ctx =
     [''viking://resources'', ''viking://wiki''] @ AGENT_SHARED_ROOTS @ [canonical_user_root ctx]"

section \<open>Resolution\<close>

definition is_user_relative_root_segment :: "string \<Rightarrow> bool" where
  "is_user_relative_root_segment s \<longleftrightarrow>
     s \<in> fst ` set CONTENT_TYPES \<or> s \<in> set USER_RELATIVE_ROOT_SEGMENTS"

definition is_current_user_relative_uri :: "string list \<Rightarrow> request_context option \<Rightarrow> bool" where
  "is_current_user_relative_uri parts ctx =
     (if length parts < 2 \<or> parts ! 0 \<noteq> ''user'' then False
      else if (case ctx of Some c \<Rightarrow> parts ! 1 = ui_user_id (rc_user c) | None \<Rightarrow> False) then False
      else is_user_relative_root_segment (parts ! 1))"

definition require_peer_id_segment :: "string \<Rightarrow> uri_error + unit" where
  "require_peer_id_segment peer_id =
     (case normalize_peer_id (Some peer_id) of
        Inr None \<Rightarrow> Inl (NamespaceShapeError ''peer_id must not be empty'')
      | Inl (UriValueError msg) \<Rightarrow> Inl (NamespaceShapeError msg)
      | Inl e \<Rightarrow> Inl e
      | Inr (Some _) \<Rightarrow> Inr ())"

definition validate_peer_id_segments :: "string list \<Rightarrow> uri_error + unit" where
  "validate_peer_id_segments parts =
     (if 3 \<le> length parts \<and> parts ! 0 = ''user'' \<and> parts ! 1 = ''peers''
      then require_peer_id_segment (parts ! 2)
      else if 4 \<le> length parts \<and> parts ! 0 = ''user'' \<and> parts ! 2 = ''peers''
      then require_peer_id_segment (parts ! 3)
      else Inr ())"

definition resolve_session_uri ::
  "string list \<Rightarrow> request_context option \<Rightarrow> bool \<Rightarrow> uri_error + resolved_namespace" where
  "resolve_session_uri parts ctx require_canonical =
     (let normalized = ''viking://'' @ py_join (CHR ''/'') parts
      in if require_canonical
         then Inl (NamespaceShapeError (''Legacy session URI is not allowed here: '' @ normalized))
         else case ctx of
           Some c \<Rightarrow>
             if length parts = 1
             then Inr \<lparr>rn_uri = canonical_session_uri c None, rn_scope = ''user'',
                       rn_owner_user_id = Some (ui_user_id (rc_user c)), rn_is_container = True\<rparr>
             else
               let session_id = parts ! 1;
                   suffix = drop 2 parts;
                   canonical = canonical_session_uri c (Some session_id);
                   canonical = (if suffix \<noteq> [] then canonical @ ''/'' @ py_join (CHR ''/'') suffix else canonical)
               in Inr \<lparr>rn_uri = canonical, rn_scope = ''user'',
                       rn_owner_user_id = Some (ui_user_id (rc_user c)), rn_is_container = False\<rparr>
         | None \<Rightarrow>
             if length parts = 1
             then Inr \<lparr>rn_uri = ''viking://session'', rn_scope = ''session'', rn_owner_user_id = None,
                       rn_is_container = True\<rparr>
             else
               let session_id = parts ! 1;
                   canonical = ''viking://session/'' @ session_id;
                   canonical = (if 2 < length parts then canonical @ ''/'' @ py_join (CHR ''/'') (drop 2 parts) else canonical)
               in Inr \<lparr>rn_uri = canonical, rn_scope = ''session'', rn_owner_user_id = None,
                       rn_is_container = False\<rparr>)"

text \<open>\<open>recur\<close> is the call of \<^verbatim>\<open>resolve_uri\<close> in the body.\<close>

definition resolve_user_uri ::
  "(string \<Rightarrow> request_context option \<Rightarrow> bool \<Rightarrow> uri_error + resolved_namespace) \<Rightarrow>
   string list \<Rightarrow> request_context option \<Rightarrow> bool \<Rightarrow> uri_error + resolved_namespace" where
  "resolve_user_uri recur parts ctx require_canonical =
     (let normalized = ''viking://'' @ py_join (CHR ''/'') parts
      in if length parts = 1
         then Inr \<lparr>rn_uri = ''viking://user'', rn_scope = ''user'', rn_owner_user_id = None,
                   rn_is_container = True\<rparr>
         else if is_current_user_relative_uri parts ctx
         then (if require_canonical
               then Inl (NamespaceShapeError (''Shorthand user URI is not allowed here: '' @ normalized))
               else case ctx of
                 None \<Rightarrow>
                   Inl (NamespaceShapeError (''User shorthand URI requires request context: '' @ normalized))
               | Some c \<Rightarrow>
                   (let suffix = drop 1 parts
                    in recur (py_join (CHR ''/'') (drop (length SCHEME_PREFIX) (canonical_user_root c) # suffix))
                         ctx False))
         else
           let uid = parts ! 1
           in case validate_user_id uid of
                Some msg \<Rightarrow> Inl (NamespaceShapeError (''Invalid user_id: '' @ msg))
              | None \<Rightarrow>
                  if length parts = 2
                  then Inr \<lparr>rn_uri = ''viking://user/'' @ uid, rn_scope = ''user'',
                            rn_owner_user_id = Some uid, rn_is_container = False\<rparr>
                  else
                    let suffix = drop 2 parts;
                        canonical = ''viking://user/'' @ uid;
                        canonical = (if suffix \<noteq> [] then canonical @ ''/'' @ py_join (CHR ''/'') suffix else canonical)
                    in py_then (validate_peer_id_segments parts)
                         (\<lambda>_. Inr \<lparr>rn_uri = canonical, rn_scope = ''user'', rn_owner_user_id = Some uid,
                                   rn_is_container = False\<rparr>))"

primrec resolve_uri_rec ::
  "nat \<Rightarrow> string \<Rightarrow> request_context option \<Rightarrow> bool \<Rightarrow> uri_error + resolved_namespace" where
  "resolve_uri_rec 0 u ctx require_canonical = Inl RecursionError"
| "resolve_uri_rec (Suc n) u ctx require_canonical =
     (let parts = uri_parts u
      in if parts = []
         then Inr \<lparr>rn_uri = ''viking://'', rn_scope = [], rn_owner_user_id = None, rn_is_container = True\<rparr>
         else
           let scope = hd parts;
               direct = \<lparr>rn_uri = py_rstrip (CHR ''/'') (viking_normalize u), rn_scope = scope,
                         rn_owner_user_id = None, rn_is_container = False\<rparr>
           in if scope = ''user'' then resolve_user_uri (resolve_uri_rec n) parts ctx require_canonical
              else if scope = ''agent'' then Inr direct
              else if scope = ''session'' then resolve_session_uri parts ctx require_canonical
              else if scope \<in> {''resources'', ''temp'', ''queue'', ''upload''} then Inr direct
              else Inr direct)"

definition RECURSION_LIMIT :: nat where "RECURSION_LIMIT = 500"

definition resolve_uri ::
  "string \<Rightarrow> request_context option \<Rightarrow> bool \<Rightarrow> uri_error + resolved_namespace" where
  "resolve_uri = resolve_uri_rec RECURSION_LIMIT"

definition canonicalize_uri :: "string \<Rightarrow> request_context option \<Rightarrow> uri_error + string" where
  "canonicalize_uri u ctx = map_sum id rn_uri (resolve_uri u ctx False)"

section \<open>Access\<close>

definition is_accessible :: "string \<Rightarrow> request_context \<Rightarrow> uri_error + bool" where
  "is_accessible u ctx =
     (if rc_role ctx = ''root'' then Inr True
      else case resolve_uri u (Some ctx) False of
        Inl (NamespaceShapeError _) \<Rightarrow> Inr False
      | Inl e \<Rightarrow> Inl e
      | Inr target \<Rightarrow>
          Inr (if rn_scope target \<in> {[], ''resources'', ''temp'', ''queue''} then True
               else if rn_scope target = ''upload'' then False
               else if rn_scope target = ''user''
               then (case rn_owner_user_id target of
                       Some owner \<Rightarrow> owner = [] \<or> owner = ui_user_id (rc_user ctx)
                     | None \<Rightarrow> True)
               else if rn_scope target = ''agent''
               then (case rc_actor_peer_id ctx of
                       Some actor \<Rightarrow>
                         (let parts = uri_parts (rn_uri target)
                          in \<not> (actor \<noteq> [] \<and> 2 \<le> length parts \<and> parts ! 1 \<noteq> actor))
                     | None \<Rightarrow> True)
               else True))"

definition is_content_root_uri :: "string \<Rightarrow> request_context \<Rightarrow> string \<Rightarrow> uri_error + bool" where
  "is_content_root_uri u ctx kind =
     (case canonicalize_uri u (Some ctx) of
        Inl (NamespaceShapeError _) \<Rightarrow> Inr False
      | Inl (UriValueError _) \<Rightarrow> Inr False
      | Inl e \<Rightarrow> Inl e
      | Inr canonical_uri \<Rightarrow>
          (let parts = uri_parts canonical_uri; classification = classify_uri canonical_uri
           in Inr (if kind = ''resource'' \<and> parts = [''resources''] then True
                   else uc_context_type classification = kind \<and>
                        (case uc_content_index classification of
                           None \<Rightarrow> False
                         | Some i \<Rightarrow> length parts = i + 1))))"

section \<open>The actor peer view\<close>

definition actor_peer_view_user_suffix :: "string \<Rightarrow> request_context \<Rightarrow> uri_error + string list option" where
  "actor_peer_view_user_suffix u ctx =
     (if rc_actor_peer_id ctx = None \<or> rc_actor_peer_id ctx = Some [] then Inr None
      else case canonicalize_uri u (Some ctx) of
        Inl (NamespaceShapeError _) \<Rightarrow> Inr None
      | Inl e \<Rightarrow> Inl e
      | Inr canonical_uri \<Rightarrow>
          (let parts = uri_parts canonical_uri;
               user_root_parts = [''user'', ui_user_id (rc_user ctx)]
           in if take (length user_root_parts) parts \<noteq> user_root_parts then Inr None
              else Inr (Some (drop (length user_root_parts) parts))))"

definition is_hidden_by_actor_peer_view :: "string \<Rightarrow> request_context \<Rightarrow> uri_error + bool" where
  "is_hidden_by_actor_peer_view u ctx =
     py_then (actor_peer_view_user_suffix u ctx) (\<lambda>suffix. Inr
       (case suffix of
          None \<Rightarrow> False
        | Some s \<Rightarrow> 2 \<le> length s \<and> s ! 0 = ''peers'' \<and> Some (s ! 1) \<noteq> rc_actor_peer_id ctx))"

definition may_include_hidden_actor_peers :: "string \<Rightarrow> request_context \<Rightarrow> uri_error + bool" where
  "may_include_hidden_actor_peers u ctx =
     py_then (actor_peer_view_user_suffix u ctx) (\<lambda>suffix. Inr
       (case suffix of None \<Rightarrow> False | Some s \<Rightarrow> s = [] \<or> s = [''peers'']))"

section \<open>Owners\<close>

definition owner_fields_for_uri ::
  "string \<Rightarrow> request_context option \<Rightarrow> user_identifier option \<Rightarrow> string option \<Rightarrow>
   uri_error + (string \<times> string option)" where
  "owner_fields_for_uri u ctx user acc_id =
     py_then
       (case ctx of
          Some c \<Rightarrow> Inr (Some c)
        | None \<Rightarrow>
            (case user of
               Some usr \<Rightarrow> Inr (Some \<lparr>rc_user = usr, rc_role = ROLE_ROOT, rc_actor_peer_id = None\<rparr>)
             | None \<Rightarrow>
                 (case acc_id of
                    None \<Rightarrow> Inr None
                  | Some aid \<Rightarrow>
                      if aid = [] then Inr None
                      else py_then (new_user_identifier aid ''default'') (\<lambda>usr.
                             Inr (Some \<lparr>rc_user = usr, rc_role = ROLE_ROOT, rc_actor_peer_id = None\<rparr>)))))
       (\<lambda>resolved_ctx.
          case resolve_uri u resolved_ctx False of
            Inl (NamespaceShapeError _) \<Rightarrow> Inr (py_rstrip (CHR ''/'') (viking_normalize u), None)
          | Inl e \<Rightarrow> Inl e
          | Inr resolved \<Rightarrow> Inr (rn_uri resolved, rn_owner_user_id resolved))"

definition owner_space_for_uri :: "string \<Rightarrow> request_context \<Rightarrow> string" where
  "owner_space_for_uri u ctx =
     (let parts = uri_parts u
      in if take 1 parts = [''user''] \<or> take 1 parts = [''session''] then user_space_fragment ctx else [])"

end
