(* ===== verification/Viking_Fs_Access.thy ===== *)
theory Viking_Fs_Access
  imports Namespace
begin

text \<open>
  The gate of \<^verbatim>\<open>VikingFS\<close> (\<^verbatim>\<open>openviking/storage/viking_fs.py\<close>) between URIs and files: the rejection
  of traversal forms, the checks before reading, writing and deleting, and the map from URIs to paths
  of the account's directory and back.  The digest that shortens long names (\<^verbatim>\<open>hashlib.sha256\<close>) is the
  parameter \<open>hexdigest\<close>; the context is the one of the request.
\<close>

section \<open>Normalised segments\<close>

definition fs_normalize_uri :: "string \<Rightarrow> string" where
  "fs_normalize_uri u = (if py_startswith u SCHEME_PREFIX then u else viking_normalize u)"

text \<open>\<^verbatim>\<open>str.isalpha\<close> on one of the first 256 code points.\<close>

definition py_isalpha :: "char \<Rightarrow> bool" where
  "py_isalpha c =
     (let n = of_char c :: nat
      in n \<in> {65..90} \<or> n \<in> {97..122} \<or> n \<in> {170, 181, 186} \<or> n \<in> {192..214} \<or> n \<in> {216..246} \<or>
         n \<in> {248..255})"

definition unsafe_part :: "string \<Rightarrow> bool" where
  "unsafe_part part \<longleftrightarrow>
     part = ''.'' \<or> part = ''..'' \<or> CHR 0x5C \<in> set part \<or>
     (2 \<le> length part \<and> part ! 1 = CHR '':'' \<and> py_isalpha (part ! 0))"

definition normalized_uri_parts :: "string \<Rightarrow> uri_error + (string \<times> string list)" where
  "normalized_uri_parts u =
     (let normalized = fs_normalize_uri u;
          parts = segments (strip_slashes (drop (length SCHEME_PREFIX) normalized))
      in if list_ex unsafe_part parts then Inl (PermissionDeniedError normalized)
         else Inr (normalized, parts))"

section \<open>Reading access\<close>

definition WATCH_TASK_CONTROL_URIS :: "string list" where
  "WATCH_TASK_CONTROL_URIS =
     [''viking://resources/.watch_tasks.json'', ''viking://resources/.watch_tasks.json.bak'',
      ''viking://resources/.watch_tasks.json.tmp'']"

definition is_watch_task_control_uri :: "string \<Rightarrow> bool" where
  "is_watch_task_control_uri u \<longleftrightarrow> py_rstrip (CHR ''/'') u \<in> set WATCH_TASK_CONTROL_URIS"

text \<open>\<^verbatim>\<open>^\d{8}_[0-9a-f]{6}$\<close>.\<close>

definition looks_like_legacy_temp_leaf :: "string \<Rightarrow> bool" where
  "looks_like_legacy_temp_leaf value =
     (let s = dollar_body value
      in length s = 15 \<and> list_all is_digit (take 8 s) \<and> s ! 8 = CHR ''_'' \<and>
         list_all (\<lambda>c. is_digit c \<or> c \<in> set ''abcdef'') (drop 9 s))"

definition is_legacy_temp_uri_parts :: "string list \<Rightarrow> bool" where
  "is_legacy_temp_uri_parts parts =
     (if length parts < 2 \<or> parts ! 0 \<noteq> ''temp'' \<or> \<not> looks_like_legacy_temp_leaf (parts ! 1) then False
      else if length parts = 2 then True
      else \<not> looks_like_legacy_temp_leaf (parts ! 2))"

definition AGENT_SEGMENTS :: "string list" where
  "AGENT_SEGMENTS = [''skills'', ''endpoints'', ''tools'', ''payments'']"

definition fs_is_accessible :: "string \<Rightarrow> request_context \<Rightarrow> uri_error + bool" where
  "fs_is_accessible u ctx =
     py_then (normalized_uri_parts u) (\<lambda>(normalized_uri, parts).
       if rc_role ctx = ROLE_ROOT then Inr True
       else py_then (is_hidden_by_actor_peer_view normalized_uri ctx) (\<lambda>hidden.
         if hidden then Inr False
         else if parts = [] then Inr True
         else if is_watch_task_control_uri normalized_uri then Inr False
         else
           let scope = hd parts
           in if scope = ''resources'' then Inr True
              else if scope = ''temp''
              then Inr (if length parts = 1 then True
                        else if parts ! 1 = ui_user_id (rc_user ctx) then True
                        else is_legacy_temp_uri_parts parts)
              else if scope = ''upload'' then Inr (rc_role ctx = ROLE_ROOT)
              else if scope = ''_system'' then Inr False
              else if scope = ''agent''
              then Inr (if 2 \<le> length parts \<and> parts ! 1 \<in> set AGENT_SEGMENTS then True
                        else case rc_actor_peer_id ctx of
                               None \<Rightarrow> True
                             | Some actor \<Rightarrow>
                                 if actor = [] \<or> length parts < 2 then True else parts ! 1 = actor)
              else is_accessible normalized_uri ctx))"

definition ensure_access :: "string \<Rightarrow> request_context \<Rightarrow> uri_error + unit" where
  "ensure_access u ctx =
     py_then (normalized_uri_parts u) (\<lambda>(normalized_uri, _).
       py_then (fs_is_accessible normalized_uri ctx) (\<lambda>ok.
         if \<not> ok then Inl (PermissionDeniedError normalized_uri) else Inr ()))"

section \<open>Writing and deleting\<close>

definition fs_parts :: "string \<Rightarrow> string list" where
  "fs_parts normalized_uri = segments (strip_slashes (drop (length SCHEME_PREFIX) normalized_uri))"

definition ensure_supported_delete_namespace :: "string \<Rightarrow> uri_error + unit" where
  "ensure_supported_delete_namespace normalized_uri =
     (let parts = fs_parts normalized_uri
      in if parts = [] then Inl (PermissionDeniedError normalized_uri)
         else if parts = [''user''] then Inl (PermissionDeniedError normalized_uri)
         else if parts = [''agent''] then Inl (PermissionDeniedError normalized_uri)
         else Inr ())"

definition ensure_supported_write_namespace :: "string \<Rightarrow> uri_error + unit" where
  "ensure_supported_write_namespace normalized_uri =
     (let parts = fs_parts normalized_uri
      in if parts = [''user''] then Inl (PermissionDeniedError normalized_uri)
         else if parts \<noteq> [] \<and> parts ! 0 = ''session'' then Inl (PermissionDeniedError normalized_uri)
         else if parts \<noteq> [] \<and> parts ! 0 = ''agent''
         then (if 2 \<le> length parts \<and> parts ! 1 \<notin> set AGENT_SEGMENTS
               then Inl (PermissionDeniedError normalized_uri)
               else if length parts < 2 then Inl (PermissionDeniedError normalized_uri)
               else Inr ())
         else Inr ())"

definition ensure_changeable ::
  "(string \<Rightarrow> uri_error + unit) \<Rightarrow> string \<Rightarrow> request_context \<Rightarrow> uri_error + unit" where
  "ensure_changeable supported u ctx =
     py_then (ensure_access u ctx) (\<lambda>_.
     py_then (normalized_uri_parts u) (\<lambda>(normalized_uri, _).
     py_then (is_hidden_by_actor_peer_view normalized_uri ctx) (\<lambda>hidden.
     py_then (if hidden then Inr True else may_include_hidden_actor_peers normalized_uri ctx) (\<lambda>denied.
       if denied then Inl (PermissionDeniedError normalized_uri)
       else py_then (supported normalized_uri) (\<lambda>_.
         if rc_role ctx \<noteq> ROLE_ROOT \<and> py_rstrip (CHR ''/'') normalized_uri = ''viking://temp''
         then Inl (PermissionDeniedError normalized_uri) else Inr ())))))"

definition ensure_mutable_access :: "string \<Rightarrow> request_context \<Rightarrow> uri_error + unit" where
  "ensure_mutable_access = ensure_changeable ensure_supported_write_namespace"

definition ensure_delete_access :: "string \<Rightarrow> request_context \<Rightarrow> uri_error + unit" where
  "ensure_delete_access = ensure_changeable ensure_supported_delete_namespace"

section \<open>Paths\<close>

definition utf8_len :: "string \<Rightarrow> nat" where
  "utf8_len s = sum_list (map (\<lambda>c. if (of_char c :: nat) < 128 then 1 else 2) s)"

function trim_prefix :: "nat \<Rightarrow> string \<Rightarrow> string" where
  "trim_prefix target prefix =
     (if target < utf8_len prefix \<and> prefix \<noteq> [] then trim_prefix target (butlast prefix) else prefix)"
  by auto
termination by (relation "measure (\<lambda>(_, p). length p)") auto

declare trim_prefix.simps [simp del]

definition MAX_FILENAME_BYTES :: nat where "MAX_FILENAME_BYTES = 255"

definition shorten_component :: "(string \<Rightarrow> string) \<Rightarrow> string \<Rightarrow> nat \<Rightarrow> string" where
  "shorten_component hexdigest component max_bytes =
     (if utf8_len component \<le> max_bytes then component
      else
        let hash_suffix = take 8 (hexdigest component);
            target = max_bytes - utf8_len (''_'' @ hash_suffix)
        in trim_prefix target component @ ''_'' @ hash_suffix)"

definition local_path :: "(string \<Rightarrow> string) \<Rightarrow> string \<Rightarrow> string list \<Rightarrow> path" where
  "local_path hexdigest aid parts =
     ''/local/'' @ aid @ ''/'' @
     py_join (CHR ''/'') (map (\<lambda>p. shorten_component hexdigest p MAX_FILENAME_BYTES) parts)"

definition is_legacy_agent_id_uri :: "string \<Rightarrow> uri_error + bool" where
  "is_legacy_agent_id_uri u =
     py_then (normalized_uri_parts u) (\<lambda>(_, parts).
       Inr (parts \<noteq> [] \<and> parts ! 0 = ''agent'' \<and> 2 \<le> length parts \<and> parts ! 1 \<notin> set AGENT_SEGMENTS))"

definition uri_to_path :: "(string \<Rightarrow> string) \<Rightarrow> string \<Rightarrow> request_context \<Rightarrow> uri_error + path" where
  "uri_to_path hexdigest u ctx =
     (let aid = ui_account_id (rc_user ctx)
      in py_then (normalized_uri_parts u) (\<lambda>(_, legacy_parts).
         py_then (if legacy_parts \<noteq> [] \<and> legacy_parts ! 0 = ''agent'' then is_legacy_agent_id_uri u
                  else Inr False) (\<lambda>legacy.
           if legacy then Inr (local_path hexdigest aid legacy_parts)
           else
             py_then (canonicalize_uri u (Some ctx)) (\<lambda>canonical_uri.
             py_then (normalized_uri_parts canonical_uri) (\<lambda>(_, parts).
               if parts = [] then Inr (''/local/'' @ aid)
               else Inr (local_path hexdigest aid parts))))))"

definition legacy_session_path :: "(string \<Rightarrow> string) \<Rightarrow> string \<Rightarrow> request_context \<Rightarrow> uri_error + path" where
  "legacy_session_path hexdigest u ctx =
     py_then (normalized_uri_parts u) (\<lambda>(_, parts).
       Inr (local_path hexdigest (ui_account_id (rc_user ctx)) parts))"

definition legacy_current_user_session_path ::
  "(string \<Rightarrow> string) \<Rightarrow> string \<Rightarrow> request_context \<Rightarrow> uri_error + path option" where
  "legacy_current_user_session_path hexdigest u ctx =
     py_then (normalized_uri_parts u) (\<lambda>(_, parts).
       if length parts \<le> 1 \<or> parts ! 0 \<noteq> ''session'' then Inr None
       else Inr (Some (local_path hexdigest (ui_account_id (rc_user ctx))
              ([''session'', ui_user_id (rc_user ctx)] @ drop 1 parts))))"

definition is_legacy_session_uri :: "string \<Rightarrow> uri_error + bool" where
  "is_legacy_session_uri u =
     py_then (normalized_uri_parts u) (\<lambda>(_, parts). Inr (parts \<noteq> [] \<and> parts ! 0 = ''session''))"

definition is_legacy_session_root_uri :: "string \<Rightarrow> uri_error + bool" where
  "is_legacy_session_root_uri u =
     py_then (normalized_uri_parts u) (\<lambda>(_, parts). Inr (parts = [''session'']))"

definition read_paths :: "(string \<Rightarrow> string) \<Rightarrow> string \<Rightarrow> request_context \<Rightarrow> uri_error + path list" where
  "read_paths hexdigest u ctx =
     py_then (uri_to_path hexdigest u ctx) (\<lambda>p0.
     py_then (is_legacy_session_uri u) (\<lambda>legacy.
       if \<not> legacy then Inr [p0]
       else
         py_then (legacy_session_path hexdigest u ctx) (\<lambda>p1.
         py_then (legacy_current_user_session_path hexdigest u ctx) (\<lambda>p2.
           let paths = (if p1 \<noteq> [] \<and> p1 \<notin> set [p0] then [p0, p1] else [p0])
           in Inr (case p2 of
                     Some p \<Rightarrow> if p \<noteq> [] \<and> p \<notin> set paths then paths @ [p] else paths
                   | None \<Rightarrow> paths)))))"

definition path_to_uri :: "path \<Rightarrow> request_context \<Rightarrow> string" where
  "path_to_uri p ctx =
     (if py_startswith p SCHEME_PREFIX then p
      else if py_startswith p ''/local/''
      then
        let inner = strip_slashes (drop 7 p)
        in if inner = [] then ''viking://''
           else
             let parts = segments inner;
                 parts = (if parts \<noteq> [] \<and> parts ! 0 = ui_account_id (rc_user ctx) then drop 1 parts else parts)
             in if parts = [] then ''viking://'' else ''viking://'' @ py_join (CHR ''/'') parts
      else if py_startswith p ''/'' then ''viking:/'' @ p
      else ''viking://'' @ p)"

end
