(* ===== verification/Namespace_Facts.thy ===== *)
theory Namespace_Facts
  imports Namespace
begin

text \<open>
  Facts on segments and on the resolution of URIs: what \<^verbatim>\<open>resolve_uri\<close> returns in each scope for a
  request whose ids were validated, stated over the segments of the URI.
\<close>

section \<open>Identifiers\<close>

text \<open>What holds of every context the server builds: its ids have passed the validation.\<close>

definition valid_ctx :: "request_context \<Rightarrow> bool" where
  "valid_ctx ctx \<longleftrightarrow>
     validate_account_id (ui_account_id (rc_user ctx)) = None \<and>
     validate_user_id (ui_user_id (rc_user ctx)) = None \<and>
     (case rc_actor_peer_id ctx of None \<Rightarrow> True | Some p \<Rightarrow> normalize_peer_id (Some p) = Inr (Some p))"

text \<open>A segment: not empty, without the characters that separate segments or begin a query.\<close>

definition segment :: "string \<Rightarrow> bool" where
  "segment s \<longleftrightarrow> s \<noteq> [] \<and> CHR ''/'' \<notin> set s \<and> CHR ''?'' \<notin> set s"

lemma ident_char_no_sep: "ident_char c \<Longrightarrow> c \<noteq> CHR ''/'' \<and> c \<noteq> CHR ''?''"
  by (auto simp: ident_char_def ascii_alnum_def)

lemma line_feed_no_sep: "line_feed \<noteq> CHR ''/''" "line_feed \<noteq> CHR ''?''"
  by (simp_all add: line_feed_def)

lemma identifier_segment:
  assumes "validate_identifier_part s n = None"
  shows "segment s" "s \<noteq> ''.''" "s \<noteq> ''..''"
proof -
  from assms have s: "s \<noteq> []" "VALIDATION_PATTERN s" and "s \<noteq> ''.''" "s \<noteq> ''..''"
    by (auto simp: validate_identifier_part_def split: if_splits)
  then show "s \<noteq> ''.''" "s \<noteq> ''..''" by auto
  have "set s \<subseteq> insert line_feed (set (dollar_body s))"
    by (cases s rule: rev_cases) (auto simp: dollar_body_def)
  moreover have "\<forall>x \<in> set (dollar_body s). ident_char x"
    using s(2) by (simp add: VALIDATION_PATTERN_def list_all_iff)
  ultimately have "x = line_feed \<or> ident_char x" if "x \<in> set s" for x
    using that by blast
  with s(1) show "segment s"
    unfolding segment_def using ident_char_no_sep line_feed_no_sep by metis
qed

lemma valid_user_segment: "validate_user_id s = None \<Longrightarrow> segment s"
  by (simp add: validate_user_id_def identifier_segment)

lemma valid_account_segment:
  "validate_account_id s = None \<Longrightarrow> segment s \<and> s \<noteq> ''.'' \<and> s \<noteq> ''..''"
  by (auto simp: validate_account_id_def split: option.splits dest: identifier_segment)

lemma valid_ctxD:
  assumes "valid_ctx ctx"
  shows "segment (ui_account_id (rc_user ctx))" "segment (ui_user_id (rc_user ctx))"
    "validate_user_id (ui_user_id (rc_user ctx)) = None"
  using assms by (auto simp: valid_ctx_def valid_account_segment valid_user_segment)

lemma normalize_peer_Some:
  "normalize_peer_id (Some p) = Inr (Some q) \<Longrightarrow> q = py_strip p \<and> validate_identifier_part q ''peer_id'' = None"
  by (auto simp: normalize_peer_id_def normalize_identifier_part_def Let_def
      split: if_splits option.splits sum.splits uri_error.splits)

lemma valid_ctx_actor:
  "valid_ctx ctx \<Longrightarrow> rc_actor_peer_id ctx = Some p \<Longrightarrow> segment p"
  by (auto simp: valid_ctx_def dest!: normalize_peer_Some intro: identifier_segment)

section \<open>The segments of a URI\<close>

definition uri_body :: "string \<Rightarrow> string" where
  "uri_body u = (if py_startswith u SCHEME_PREFIX then drop (length SCHEME_PREFIX) u else u)"

lemma normalize_startswith [simp]: "py_startswith (viking_normalize u) SCHEME_PREFIX"
  by (simp add: viking_normalize_def)

lemma normalize_idem [simp]: "viking_normalize (viking_normalize u) = viking_normalize u"
  by (simp add: viking_normalize_def)

lemma normalize_split:
  obtains b where "viking_normalize u = SCHEME_PREFIX @ b" "segments b = segments (uri_body u)"
proof (cases "py_startswith u SCHEME_PREFIX")
  case True
  then obtain b where "u = SCHEME_PREFIX @ b" by (auto simp: startswith_iff)
  then show thesis using that [of b] by (simp add: viking_normalize_def uri_body_def)
next
  case False
  then show thesis using that [of "py_lstrip (CHR ''/'') u"]
    by (simp add: viking_normalize_def uri_body_def)
qed

lemma rstrip_scheme:
  "py_rstrip (CHR ''/'') (SCHEME_PREFIX @ b) =
     (if segments b = [] then ''viking:'' else SCHEME_PREFIX @ py_rstrip (CHR ''/'') b)"
proof -
  have "py_rstrip (CHR ''/'') SCHEME_PREFIX = ''viking:''"
    by (simp add: py_rstrip_def SCHEME_PREFIX_def)
  moreover have "segments b = [] \<longleftrightarrow> py_rstrip (CHR ''/'') b = []"
    by (simp add: segments_Nil_iff strip_Nil_iff)
  ultimately show ?thesis
    by (simp add: rstrip_append rstrip_append_Nil)
qed

lemma uri_parts_body: "uri_parts u = segments (uri_body (before_query u))"
proof -
  obtain b where b: "viking_normalize (before_query u) = SCHEME_PREFIX @ b"
    and eq: "segments b = segments (uri_body (before_query u))"
    by (rule normalize_split)
  show ?thesis
  proof (cases "segments b = []")
    case True
    with b eq show ?thesis by (simp add: uri_parts_def rstrip_scheme)
  next
    case False
    then have "py_rstrip (CHR ''/'') b \<noteq> []"
      by (metis segments_Nil segments_rstrip)
    with False b eq show ?thesis
      by (simp add: uri_parts_def rstrip_scheme) (simp add: SCHEME_PREFIX_def)
  qed
qed

lemma split_chars: "p \<in> set (py_split c s) \<Longrightarrow> set p \<subseteq> set s"
proof (induction s arbitrary: p)
  case (Cons x xs)
  obtain seg rest where "py_split c xs = seg # rest" by (cases "py_split c xs") auto
  with Cons show ?case by (fastforce split: if_splits)
qed simp

lemma segments_chars: "x \<in> set (segments s) \<Longrightarrow> set x \<subseteq> set s"
  by (auto simp: segments_def dest: split_chars)

lemma uri_parts_segment:
  assumes "x \<in> set (uri_parts u)"
  shows "segment x"
proof -
  have "set x \<subseteq> set (uri_body (before_query u))"
    using assms by (simp add: uri_parts_body segments_chars)
  also have "\<dots> \<subseteq> set (before_query u)"
    by (auto simp: uri_body_def dest: in_set_dropD)
  finally have "CHR ''?'' \<notin> set x"
    by (auto simp: before_query_def dest: set_takeWhileD)
  with assms show ?thesis
    using segments_mem [of x] by (auto simp: segment_def uri_parts_body)
qed

lemma body_scheme [simp]: "uri_body (SCHEME_PREFIX @ b) = b"
  by (simp add: uri_body_def)

lemma body_viking [simp]: "uri_body (''viking://'' @ b) = b"
  using body_scheme [of b] by (simp add: SCHEME_PREFIX_def)

lemma join_no_query:
  "\<forall>x \<in> set xs. segment x \<Longrightarrow> CHR ''?'' \<notin> set (py_join (CHR ''/'') xs)"
  by (induction "CHR ''/''" xs rule: py_join.induct) (auto simp: segment_def)

lemma before_query_id: "CHR ''?'' \<notin> set u \<Longrightarrow> before_query u = u"
  by (simp add: before_query_def takeWhile_eq_all_conv) metis

lemma uri_parts_join:
  assumes "\<forall>x \<in> set xs. segment x"
  shows "uri_parts (''viking://'' @ py_join (CHR ''/'') xs) = xs"
proof -
  have "before_query (''viking://'' @ py_join (CHR ''/'') xs) = ''viking://'' @ py_join (CHR ''/'') xs"
    using join_no_query [OF assms] by (intro before_query_id) auto
  with assms show ?thesis
    by (simp only: uri_parts_body body_viking) (simp add: segments_join segment_def)
qed

section \<open>Resolution\<close>

text \<open>
  The URI with the given segments, and the two ways a URI is resolved: to a path of the user name
  space, after the checks of its ids, or to itself.
\<close>

definition uri_of :: "string list \<Rightarrow> string" where
  "uri_of parts = ''viking://'' @ py_join (CHR ''/'') parts"

lemma uri_parts_uri_of [simp]: "\<forall>x \<in> set xs. segment x \<Longrightarrow> uri_parts (uri_of xs) = xs"
  unfolding uri_of_def by (rule uri_parts_join)

definition user_target :: "string \<Rightarrow> string list \<Rightarrow> uri_error + resolved_namespace" where
  "user_target owner rest =
     (case validate_user_id owner of
        Some msg \<Rightarrow> Inl (NamespaceShapeError (''Invalid user_id: '' @ msg))
      | None \<Rightarrow> py_then (validate_peer_id_segments (''user'' # owner # rest))
          (\<lambda>_. Inr \<lparr>rn_uri = uri_of (''user'' # owner # rest), rn_scope = ''user'',
                    rn_owner_user_id = Some owner, rn_is_container = False\<rparr>))"

definition direct_target :: "string \<Rightarrow> resolved_namespace" where
  "direct_target u =
     \<lparr>rn_uri = py_rstrip (CHR ''/'') (viking_normalize u), rn_scope = hd (uri_parts u),
      rn_owner_user_id = None, rn_is_container = False\<rparr>"

definition calls_left :: nat where "calls_left = RECURSION_LIMIT - 2"

lemma resolve_uri_Suc: "resolve_uri = resolve_uri_rec (Suc (Suc calls_left))"
  by (simp add: resolve_uri_def RECURSION_LIMIT_def calls_left_def numeral_eq_Suc)

lemma resolve_user_direct:
  assumes "\<not> is_current_user_relative_uri (''user'' # x # rest) ctx"
  shows "resolve_user_uri recur (''user'' # x # rest) ctx rc = user_target x rest"
proof -
  have "rest = [] \<Longrightarrow> validate_peer_id_segments (''user'' # x # rest) = Inr ()"
    by (simp add: validate_peer_id_segments_def)
  with assms show ?thesis
    by (cases rest) (auto simp: resolve_user_uri_def user_target_def uri_of_def Let_def split: option.splits)
qed

lemma uri_parts_plain:
  assumes "\<forall>x \<in> set (''user'' # rest). segment x"
  shows "uri_parts (py_join (CHR ''/'') (''user'' # rest)) = ''user'' # rest"
    (is "uri_parts ?j = _")
proof -
  have q: "before_query ?j = ?j"
    by (intro before_query_id join_no_query assms)
  have "\<not> py_startswith ?j SCHEME_PREFIX"
    by (cases rest) (simp_all add: py_startswith_def SCHEME_PREFIX_def)
  then have "uri_parts ?j = segments ?j" by (simp only: uri_parts_body q uri_body_def if_False)
  also have "\<dots> = ''user'' # rest"
    by (rule segments_join) (use assms in \<open>auto simp: segment_def\<close>)
  finally show ?thesis .
qed

lemma join_user_parts:
  assumes "\<forall>x \<in> set rest. segment x" "segment uid"
  shows "uri_parts (py_join (CHR ''/'') ((''user/'' @ uid) # rest)) = ''user'' # uid # rest"
proof -
  have "py_join (CHR ''/'') ((''user/'' @ uid) # rest) = py_join (CHR ''/'') (''user'' # uid # rest)"
    by (cases rest) auto
  moreover have "\<forall>x \<in> set (''user'' # uid # rest). segment x"
    using assms by (simp add: segment_def)
  ultimately show ?thesis using uri_parts_plain [of "uid # rest"] by simp
qed

text \<open>The user scope, for a request with validated ids: one recursive call is enough.\<close>

definition own_relative :: "request_context \<Rightarrow> string \<Rightarrow> bool" where
  "own_relative ctx x \<longleftrightarrow> x \<noteq> ui_user_id (rc_user ctx) \<and> is_user_relative_root_segment x"

lemma current_user_relative [simp]:
  "is_current_user_relative_uri (''user'' # x # rest) (Some ctx) = own_relative ctx x"
  by (simp add: is_current_user_relative_uri_def own_relative_def)

lemma own_not_relative [simp]: "\<not> own_relative ctx (ui_user_id (rc_user ctx))"
  by (simp add: own_relative_def)

lemma resolve_rec_user:
  assumes ctx: "valid_ctx ctx" and parts: "uri_parts u = ''user'' # x # rest"
  shows "resolve_uri_rec (Suc (Suc n)) u (Some ctx) rc =
     (if own_relative ctx x
      then if rc then Inl (NamespaceShapeError (''Shorthand user URI is not allowed here: '' @ uri_of (uri_parts u)))
           else user_target (ui_user_id (rc_user ctx)) (x # rest)
      else user_target x rest)"
proof (cases "own_relative ctx x \<and> \<not> rc")
  case False
  with parts show ?thesis
    by (auto simp: resolve_user_direct) (simp add: resolve_user_uri_def uri_of_def)
next
  case True
  let ?uid = "ui_user_id (rc_user ctx)"
  let ?v = "py_join (CHR ''/'') ((''user/'' @ ?uid) # x # rest)"
  have seg: "\<forall>y \<in> set (x # rest). segment y"
    using uri_parts_segment [of _ u] parts by simp
  have v: "uri_parts ?v = ''user'' # ?uid # x # rest"
    by (rule join_user_parts [OF seg valid_ctxD(2) [OF ctx]])
  have root: "drop (length SCHEME_PREFIX) (canonical_user_root ctx) = ''user/'' @ ?uid"
    by (simp add: canonical_user_root_def user_space_fragment_def SCHEME_PREFIX_def)
  have "resolve_uri_rec (Suc (Suc n)) u (Some ctx) rc = resolve_uri_rec (Suc n) ?v (Some ctx) False"
    by (subst resolve_uri_rec.simps(2))
       (use parts True root in \<open>simp add: resolve_user_uri_def del: resolve_uri_rec.simps py_join.simps\<close>)
  also have "\<dots> = user_target ?uid (x # rest)"
    using v by (simp add: resolve_user_direct del: py_join.simps)
  finally show ?thesis using True by simp
qed

lemma resolve_uri_user:
  assumes "valid_ctx ctx" "uri_parts u = ''user'' # x # rest"
  shows "resolve_uri u (Some ctx) False =
     (if own_relative ctx x then user_target (ui_user_id (rc_user ctx)) (x # rest)
      else user_target x rest)"
  by (simp add: resolve_uri_Suc resolve_rec_user [OF assms] del: resolve_uri_rec.simps)

text \<open>Outside the user scope nothing is called again.\<close>

lemma resolve_rec_other:
  "take 1 (uri_parts u) \<noteq> [''user''] \<or> length (uri_parts u) = 1 \<Longrightarrow>
     resolve_uri_rec (Suc n) u ctx rc = resolve_uri_rec (Suc m) u ctx rc"
  by (cases "uri_parts u") (simp_all add: resolve_user_uri_def Let_def)

lemma resolve_uri_simple:
  assumes "uri_parts u = s # rest" "s \<noteq> ''user''" "s \<noteq> ''session''"
  shows "resolve_uri u ctx rc = Inr (direct_target u)"
  using assms by (simp add: resolve_uri_Suc direct_target_def Let_def)

lemma resolve_uri_root: "uri_parts u = [] \<Longrightarrow> resolve_uri u ctx rc =
    Inr \<lparr>rn_uri = ''viking://'', rn_scope = [], rn_owner_user_id = None, rn_is_container = True\<rparr>"
  by (simp add: resolve_uri_Suc)

lemma resolve_uri_user_root: "uri_parts u = [''user''] \<Longrightarrow> resolve_uri u ctx rc =
    Inr \<lparr>rn_uri = ''viking://user'', rn_scope = ''user'', rn_owner_user_id = None, rn_is_container = True\<rparr>"
  by (simp add: resolve_uri_Suc resolve_user_uri_def Let_def)

lemma resolve_uri_session:
  assumes "uri_parts u = ''session'' # rest"
  shows "resolve_uri u (Some ctx) False =
    Inr \<lparr>rn_uri = uri_of (''user'' # ui_user_id (rc_user ctx) # ''sessions'' # rest), rn_scope = ''user'',
         rn_owner_user_id = Some (ui_user_id (rc_user ctx)), rn_is_container = (rest = [])\<rparr>"
proof -
  have "\<forall>x \<in> set rest. x \<noteq> []"
    using uri_parts_segment [of _ u] assms by (auto simp: segment_def)
  moreover have "resolve_uri u (Some ctx) False = resolve_session_uri (''session'' # rest) (Some ctx) False"
    using assms by (simp add: resolve_uri_Suc)
  ultimately show ?thesis
    by (cases rest; cases "tl rest")
       (auto simp: resolve_session_uri_def canonical_session_uri_def canonical_session_root_def
          canonical_user_root_def user_space_fragment_def uri_of_def)
qed

lemma sessions_peer_id: "require_peer_id_segment ''sessions'' = Inr ()"
  by (simp add: require_peer_id_segment_def normalize_peer_id_def normalize_identifier_part_def
      py_strip_def py_space_def validate_identifier_part_def VALIDATION_PATTERN_def dollar_body_def
      line_feed_def ident_char_def ascii_alnum_def Let_def)

lemma user_targetD:
  assumes "user_target owner rest = Inr t"
  shows "rn_uri t = uri_of (''user'' # owner # rest)" "rn_scope t = ''user''"
    "rn_owner_user_id t = Some owner" "t\<lparr>rn_is_container := False\<rparr> = t"
  using assms by (auto simp: user_target_def raise_iff split: option.splits)

text \<open>Every canonical URI is one of four kinds.\<close>

lemma canonicalize_cases:
  assumes ctx: "valid_ctx ctx" and res: "resolve_uri u (Some ctx) False = Inr t"
  obtains (root) "uri_parts u = []" "rn_uri t = ''viking://''" "rn_scope t = []"
      "rn_owner_user_id t = None"
  | (user_root) "uri_parts u = [''user'']" "rn_uri t = ''viking://user''" "rn_scope t = ''user''"
      "rn_owner_user_id t = None"
  | (user) owner rest where "uri_parts u \<noteq> []" "hd (uri_parts u) \<in> {''user'', ''session''}"
      "rn_uri t = uri_of (''user'' # owner # rest)" "rn_scope t = ''user''"
      "rn_owner_user_id t = Some owner" "\<forall>x \<in> set (owner # rest). segment x"
      "\<not> own_relative ctx owner" "user_target owner rest = Inr (t\<lparr>rn_is_container := False\<rparr>)"
  | (direct) s rest where "uri_parts u = s # rest" "s \<noteq> ''user''" "s \<noteq> ''session''" "t = direct_target u"
proof (cases "uri_parts u")
  case Nil
  with res show thesis using root by (auto simp: resolve_uri_root)
next
  case (Cons s rest)
  have seg: "\<forall>x \<in> set (s # rest). segment x"
    using uri_parts_segment [of _ u] Cons by simp
  show thesis
  proof (cases "s = ''user''")
    case True
    show thesis
    proof (cases rest)
      case Nil
      with True Cons res show thesis using user_root by (auto simp: resolve_uri_user_root)
    next
      case (Cons x r)
      with True \<open>uri_parts u = s # rest\<close> have p: "uri_parts u = ''user'' # x # r" by simp
      from seg Cons have "\<forall>y \<in> set (x # r). segment y" by simp
      moreover have "segment (ui_user_id (rc_user ctx))" by (rule valid_ctxD(2) [OF ctx])
      ultimately show thesis
        using res [unfolded resolve_uri_user [OF ctx p]] user_targetD user p
        by (auto split: if_splits)
    qed
  next
    case False
    note s = this
    show thesis
    proof (cases "s = ''session''")
      case True
      with Cons have p: "uri_parts u = ''session'' # rest" by simp
      let ?uid = "ui_user_id (rc_user ctx)"
      have "validate_peer_id_segments (''user'' # ?uid # ''sessions'' # rest) = Inr ()"
        by (auto simp: validate_peer_id_segments_def sessions_peer_id)
      moreover have "segment ?uid" "segment ''sessions''" "validate_user_id ?uid = None"
        using valid_ctxD [OF ctx] by (auto simp: segment_def)
      ultimately show thesis
        using res [unfolded resolve_uri_session [OF p]] seg p user [of ?uid "''sessions'' # rest"]
        by (auto simp: user_target_def)
    next
      case False
      with s Cons res show thesis using direct by (simp add: resolve_uri_simple)
    qed
  qed
qed

section \<open>Canonical forms\<close>

lemma before_query_rstrip: "segments (before_query (py_rstrip (CHR ''/'') s)) = segments (before_query s)"
proof (cases "CHR ''?'' \<in> set s")
  case True
  then obtain a b where s: "s = a @ CHR ''?'' # b" "CHR ''?'' \<notin> set a"
    by (meson split_list_first)
  obtain b' where "py_rstrip (CHR ''/'') (CHR ''?'' # b) = CHR ''?'' # b'"
  proof (cases "py_rstrip (CHR ''/'') b = []")
    case True
    then show thesis
      using that [of "[]"] rstrip_append_Nil [of _ b "[CHR ''?'']"] by (simp add: py_rstrip_def)
  next
    case False
    then show thesis using that rstrip_append [of _ b "[CHR ''?'']"] by simp
  qed
  with s show ?thesis by (simp add: rstrip_append before_query_def takeWhile_append)
next
  case False
  moreover have "set (py_rstrip (CHR ''/'') s) \<subseteq> set s"
    by (auto simp: py_rstrip_def dest: set_dropWhileD)
  ultimately show ?thesis by (metis before_query_id segments_rstrip subsetD)
qed

lemma before_query_scheme: "before_query (SCHEME_PREFIX @ b) = SCHEME_PREFIX @ before_query b"
  by (simp add: before_query_def SCHEME_PREFIX_def)

lemma uri_parts_scheme: "uri_parts (SCHEME_PREFIX @ b) = segments (before_query b)"
  by (simp add: uri_parts_body before_query_scheme)

lemma before_query_lstrip: "segments (before_query (py_lstrip (CHR ''/'') s)) = segments (before_query s)"
  by (induction s) (auto simp: py_lstrip_def before_query_def)

lemma uri_parts_normalize [simp]: "uri_parts (viking_normalize u) = uri_parts u"
proof (cases "py_startswith u SCHEME_PREFIX")
  case True
  then show ?thesis by (simp add: viking_normalize_def)
next
  case False
  have "\<not> py_startswith (before_query u) SCHEME_PREFIX"
  proof
    assume "py_startswith (before_query u) SCHEME_PREFIX"
    then obtain t where "before_query u = SCHEME_PREFIX @ t" by (auto simp: startswith_iff)
    then have "u = SCHEME_PREFIX @ t @ dropWhile (\<lambda>c. c \<noteq> CHR ''?'') u"
      by (metis append.assoc before_query_def takeWhile_dropWhile_id)
    with False show False by (metis startswith_append)
  qed
  with False show ?thesis
    by (simp add: viking_normalize_def uri_parts_scheme before_query_lstrip)
       (simp add: uri_parts_body uri_body_def)
qed

text \<open>The form a URI outside the user and session scopes is resolved to.\<close>

lemma direct_form:
  assumes "uri_parts u \<noteq> []"
  obtains b where "rn_uri (direct_target u) = SCHEME_PREFIX @ b"
    "py_rstrip (CHR ''/'') (SCHEME_PREFIX @ b) = SCHEME_PREFIX @ b"
    "segments b = segments (uri_body u)" "uri_parts (SCHEME_PREFIX @ b) = uri_parts u"
proof -
  obtain b where b: "viking_normalize u = SCHEME_PREFIX @ b" "segments b = segments (uri_body u)"
    by (rule normalize_split)
  have parts: "uri_parts u = segments (before_query b)"
    using uri_parts_normalize [of u] by (simp add: b(1) uri_parts_scheme)
  have "segments b \<noteq> []"
  proof
    assume "segments b = []"
    then have "segments (before_query b) = []"
      by (auto simp: segments_Nil_iff strip_Nil_iff py_rstrip_def before_query_def
          dest!: set_takeWhileD)
    with parts assms show False by simp
  qed
  then have "rn_uri (direct_target u) = SCHEME_PREFIX @ py_rstrip (CHR ''/'') b"
    by (simp add: direct_target_def b(1) rstrip_scheme)
  moreover have "uri_parts (SCHEME_PREFIX @ py_rstrip (CHR ''/'') b) = uri_parts u"
    by (simp add: uri_parts_scheme before_query_rstrip parts)
  moreover have "py_rstrip (CHR ''/'') (SCHEME_PREFIX @ py_rstrip (CHR ''/'') b) =
      SCHEME_PREFIX @ py_rstrip (CHR ''/'') b"
    using \<open>segments b \<noteq> []\<close> by (simp add: rstrip_scheme)
  ultimately show thesis using that b(2) by simp
qed

lemma direct_target_idem:
  assumes "uri_parts u \<noteq> []"
  shows "direct_target (rn_uri (direct_target u)) = direct_target u"
    "uri_parts (rn_uri (direct_target u)) = uri_parts u"
proof -
  obtain b where b: "rn_uri (direct_target u) = SCHEME_PREFIX @ b"
    "py_rstrip (CHR ''/'') (SCHEME_PREFIX @ b) = SCHEME_PREFIX @ b"
    "uri_parts (SCHEME_PREFIX @ b) = uri_parts u"
    using direct_form [OF assms] by metis
  then show "uri_parts (rn_uri (direct_target u)) = uri_parts u" by simp
  have "viking_normalize (SCHEME_PREFIX @ b) = SCHEME_PREFIX @ b"
    by (simp add: viking_normalize_def)
  then have "direct_target (SCHEME_PREFIX @ b) =
      \<lparr>rn_uri = SCHEME_PREFIX @ b, rn_scope = hd (uri_parts u), rn_owner_user_id = None,
       rn_is_container = False\<rparr>"
    using b(2,3) by (simp add: direct_target_def)
  also have "\<dots> = direct_target u" using b(1) by (simp add: direct_target_def)
  finally show "direct_target (rn_uri (direct_target u)) = direct_target u" by (simp add: b(1))
qed

end
