(* ===== verification/Viking_Fs_Facts.thy ===== *)
theory Viking_Fs_Facts
  imports Viking_Fs_Access Namespace_Facts
begin

text \<open>
  Facts on the gate of the file system: the segments it looks at against those the name space looks
  at (the latter end at the first question mark), shortened names, and the paths a URI is mapped to.
\<close>

section \<open>First segments\<close>

lemma split_Cons_cases:
  assumes "py_split c s = p # ps"
  obtains "ps = []" "s = p" | t where "s = p @ c # t" "ps = py_split c t"
proof (cases "c \<in> set s")
  case False
  with assms that(1) show thesis by (simp add: split_single)
next
  case True
  then obtain a t where s: "s = a @ c # t" "c \<notin> set a" by (meson split_list_first)
  with assms that(2) show thesis by (simp add: split_cons_sep)
qed

lemma first_segment:
  "segments s = x # r \<Longrightarrow> CHR ''?'' \<notin> set x \<Longrightarrow> \<exists>r'. segments (before_query s) = x # r'"
proof (induction s rule: length_induct)
  case (1 s)
  obtain p ps where sp: "py_split (CHR ''/'') s = p # ps" by (cases "py_split (CHR ''/'') s") auto
  then show ?case
  proof (cases rule: split_Cons_cases)
    case 1
    with "1.prems" sp show ?thesis by (auto simp: segments_def before_query_id split: if_splits)
  next
    case (2 t)
    have p: "CHR ''/'' \<notin> set p" using split_segments [of p _ s] sp by simp
    show ?thesis
    proof (cases "p = []")
      case True
      with 2 "1.prems" "1.IH" show ?thesis by (auto simp: before_query_def)
    next
      case False
      with 2 sp "1.prems" have "x = p" by (simp add: segments_def)
      with 2 "1.prems" have "before_query s = x @ CHR ''/'' # before_query t"
        by (simp add: before_query_def takeWhile_append)
      with \<open>x = p\<close> p False show ?thesis by simp
    qed
  qed
qed

lemma segments_before_query_Nil: "segments b = [] \<Longrightarrow> segments (before_query b) = []"
  by (auto simp: segments_Nil_iff strip_Nil_iff py_rstrip_def before_query_def dest!: set_takeWhileD)

lemma uri_parts_first:
  assumes "segments (uri_body u) = x # r" "CHR ''?'' \<notin> set x"
  shows "\<exists>r'. uri_parts u = x # r'"
proof -
  obtain b where b: "viking_normalize u = SCHEME_PREFIX @ b" "segments b = segments (uri_body u)"
    by (rule normalize_split)
  then have "uri_parts u = segments (before_query b)"
    using uri_parts_normalize [of u] by (simp add: uri_parts_scheme)
  with first_segment [of b x r] assms b(2) show ?thesis by simp
qed

lemma uri_parts_none: "segments (uri_body u) = [] \<Longrightarrow> uri_parts u = []"
proof -
  assume "segments (uri_body u) = []"
  moreover obtain b where b: "viking_normalize u = SCHEME_PREFIX @ b" "segments b = segments (uri_body u)"
    by (rule normalize_split)
  ultimately show ?thesis
    using uri_parts_normalize [of u] by (simp add: uri_parts_scheme segments_before_query_Nil)
qed

section \<open>Normalised segments\<close>

lemma fs_normalize [simp]: "fs_normalize_uri u = viking_normalize u"
  by (simp add: fs_normalize_uri_def viking_normalize_def)

lemma body_normalize: "segments (drop (length SCHEME_PREFIX) (viking_normalize u)) = segments (uri_body u)"
proof -
  obtain b where "viking_normalize u = SCHEME_PREFIX @ b" "segments b = segments (uri_body u)"
    by (rule normalize_split)
  then show ?thesis by simp
qed

lemma normalized_uri_parts_eq:
  "normalized_uri_parts u =
     (if list_ex unsafe_part (segments (uri_body u)) then Inl (PermissionDeniedError (viking_normalize u))
      else Inr (viking_normalize u, segments (uri_body u)))"
  by (simp add: normalized_uri_parts_def body_normalize Let_def)

lemma body_of_normalize [simp]: "segments (uri_body (viking_normalize u)) = segments (uri_body u)"
  using body_normalize [of u] by (simp add: uri_body_def)

lemma normalized_uri_parts_normalize [simp]:
  "normalized_uri_parts (viking_normalize u) = normalized_uri_parts u"
  by (simp add: normalized_uri_parts_eq)

lemma resolve_normalize [simp]: "resolve_uri (viking_normalize u) ctx rc = resolve_uri u ctx rc"
  unfolding resolve_uri_Suc resolve_uri_rec.simps uri_parts_normalize normalize_idem ..

lemma fs_is_accessible_normalize [simp]: "fs_is_accessible (viking_normalize u) ctx = fs_is_accessible u ctx"
  by (simp only: fs_is_accessible_def normalized_uri_parts_normalize)

lemma ensure_access_iff:
  "ensure_access u ctx = Inr () \<longleftrightarrow> fs_is_accessible u ctx = Inr True"
proof (cases "normalized_uri_parts u")
  case (Inl e)
  then show ?thesis by (simp add: ensure_access_def fs_is_accessible_def)
next
  case (Inr np)
  then obtain ps where "np = (viking_normalize u, ps)"
    by (auto simp: normalized_uri_parts_eq split: if_splits)
  with Inr show ?thesis
    by (cases "fs_is_accessible u ctx") (auto simp: ensure_access_def)
qed

section \<open>Shortened names\<close>

definition sha_hex :: "(string \<Rightarrow> string) \<Rightarrow> bool" where
  "sha_hex hexdigest \<longleftrightarrow>
     (\<forall>s. length (hexdigest s) = 64 \<and> set (hexdigest s) \<subseteq> set ''0123456789abcdef'')"

lemma trim_prefix_take: "\<exists>n. trim_prefix target s = take n s"
proof (induction target s rule: trim_prefix.induct)
  case (1 target s)
  show ?case
  proof (cases "target < utf8_len s \<and> s \<noteq> []")
    case True
    with 1 obtain n where "trim_prefix target (butlast s) = take n (butlast s)" by blast
    with True show ?thesis
      by (metis butlast_conv_take take_take trim_prefix.simps)
  next
    case False
    then show ?thesis by (metis trim_prefix.simps order_refl take_all)
  qed
qed

lemma trim_prefix_bound: "utf8_len (trim_prefix target s) \<le> target"
proof (induction target s rule: trim_prefix.induct)
  case (1 target s)
  show ?case
  proof (cases "target < utf8_len s \<and> s \<noteq> []")
    case True
    then show ?thesis using 1 by (subst trim_prefix.simps) simp
  next
    case False
    then show ?thesis
      by (subst trim_prefix.simps) (auto simp: utf8_len_def)
  qed
qed

abbreviation short_name :: "(string \<Rightarrow> string) \<Rightarrow> string \<Rightarrow> string" where
  "short_name hexdigest p \<equiv> shorten_component hexdigest p MAX_FILENAME_BYTES"

lemma short_name_cases:
  assumes "sha_hex hexdigest"
  obtains "short_name hexdigest p = p" "utf8_len p \<le> 255"
  | n where "short_name hexdigest p = take n p @ CHR ''_'' # take 8 (hexdigest p)"
      "9 \<le> length (short_name hexdigest p)" "utf8_len p > 255"
proof (cases "utf8_len p \<le> 255")
  case True
  with that(1) show thesis by (simp add: shorten_component_def MAX_FILENAME_BYTES_def)
next
  case False
  obtain n where "trim_prefix (255 - utf8_len (''_'' @ take 8 (hexdigest p))) p = take n p"
    using trim_prefix_take by blast
  moreover have "length (take 8 (hexdigest p)) = 8" using assms by (simp add: sha_hex_def)
  ultimately show thesis using False that(2) [of n]
    by (simp add: shorten_component_def MAX_FILENAME_BYTES_def Let_def)
qed

lemma short_name_inv:
  assumes "sha_hex hexdigest" "short_name hexdigest p = s" "length s \<le> 8"
  shows "p = s"
proof (cases rule: short_name_cases [OF assms(1), of p])
  case 1
  show ?thesis using 1(1) assms(2) by (rule trans [OF sym])
next
  case 2
  from 2(2) have "9 \<le> length s" unfolding assms(2) .
  with assms(3) show ?thesis by linarith
qed

lemma short_name_segment:
  assumes "sha_hex hexdigest" "p \<noteq> []" "CHR ''/'' \<notin> set p"
  shows "short_name hexdigest p \<noteq> [] \<and> CHR ''/'' \<notin> set (short_name hexdigest p)"
proof (cases rule: short_name_cases [OF assms(1), of p])
  case 1
  with assms show ?thesis by simp
next
  case (2 n)
  have "set (take 8 (hexdigest p)) \<subseteq> set ''0123456789abcdef''"
    using assms(1) set_take_subset [of 8 "hexdigest p"] unfolding sha_hex_def by blast
  moreover have "CHR ''/'' \<notin> set ''0123456789abcdef''" by simp
  ultimately have "CHR ''/'' \<notin> set (take 8 (hexdigest p))" by blast
  moreover have "CHR ''/'' \<notin> set (take n p)" using assms(3) by (blast dest: in_set_takeD)
  ultimately show ?thesis unfolding 2(1) by simp
qed

lemma segments_local_path:
  assumes "sha_hex hexdigest" "segment aid" "\<forall>x \<in> set parts. x \<noteq> [] \<and> CHR ''/'' \<notin> set x"
  shows "segments (local_path hexdigest aid parts) = ''local'' # aid # map (short_name hexdigest) parts"
proof -
  have "local_path hexdigest aid parts =
      CHR ''/'' # ''local'' @ CHR ''/'' # aid @ CHR ''/'' # py_join (CHR ''/'') (map (short_name hexdigest) parts)"
    by (simp add: local_path_def)
  moreover have "segments (py_join (CHR ''/'') (map (short_name hexdigest) parts)) = map (short_name hexdigest) parts"
    using assms(3) short_name_segment [OF assms(1)] by (intro segments_join) auto
  moreover have "segments aid = [aid]" using assms(2) by (simp add: segment_def)
  ultimately show ?thesis
    by (simp only: segments_Cons_slash segments_append) (simp add: segments_def)
qed

lemma segments_local_of:
  assumes "sha_hex hexdigest" "segment aid"
  shows "segments (local_path hexdigest aid (segments s)) =
    ''local'' # aid # map (short_name hexdigest) (segments s)"
  using segments_mem by (intro segments_local_path assms) blast

lemma segments_root_path: "segment aid \<Longrightarrow> segments (''/local/'' @ aid) = [''local'', aid]"
  using segments_append [of "''/local''" aid] by (simp add: segment_def segments_def split_single)

section \<open>Paths\<close>

text \<open>A URI is mapped to its own segments (in the old agent format) or to those of its canonical form.\<close>

lemma uri_to_path_cases:
  assumes "uri_to_path hexdigest u ctx = Inr p"
  obtains (agent) x r where "segments (uri_body u) = ''agent'' # x # r"
      "list_all (\<lambda>s. \<not> unsafe_part s) (segments (uri_body u))"
      "p = local_path hexdigest (ui_account_id (rc_user ctx)) (segments (uri_body u))"
  | (canonical) c where "canonicalize_uri u (Some ctx) = Inr c"
      "list_all (\<lambda>s. \<not> unsafe_part s) (segments (uri_body c))"
      "p = (if segments (uri_body c) = [] then ''/local/'' @ ui_account_id (rc_user ctx)
            else local_path hexdigest (ui_account_id (rc_user ctx)) (segments (uri_body c)))"
proof -
  let ?parts = "segments (uri_body u)"
  let ?legacy = "?parts \<noteq> [] \<and> ?parts ! 0 = ''agent'' \<and> 2 \<le> length ?parts \<and> ?parts ! 1 \<notin> set AGENT_SEGMENTS"
  have safe: "list_all (\<lambda>s. \<not> unsafe_part s) ?parts"
    using assms by (auto simp: uri_to_path_def normalized_uri_parts_eq list_all_iff list_ex_iff
        split: if_splits)
  then have np: "normalized_uri_parts u = Inr (viking_normalize u, ?parts)"
    by (auto simp: normalized_uri_parts_eq list_all_iff list_ex_iff)
  show thesis
  proof (cases ?legacy)
    case True
    then obtain x r where "?parts = ''agent'' # x # r"
      by (cases ?parts; cases "tl ?parts") auto
    moreover have "p = local_path hexdigest (ui_account_id (rc_user ctx)) ?parts"
      using assms np True by (auto simp: uri_to_path_def is_legacy_agent_id_uri_def)
    ultimately show thesis using agent safe by blast
  next
    case False
    then have "py_then (canonicalize_uri u (Some ctx)) (\<lambda>c.
        py_then (normalized_uri_parts c) (\<lambda>(_, parts).
          if parts = [] then Inr (''/local/'' @ ui_account_id (rc_user ctx))
          else Inr (local_path hexdigest (ui_account_id (rc_user ctx)) parts))) = Inr p"
      using assms np by (auto simp: uri_to_path_def is_legacy_agent_id_uri_def Let_def split: if_splits)
    then show thesis using canonical
      by (auto simp: raise_iff normalized_uri_parts_eq list_all_iff list_ex_iff split: if_splits)
  qed
qed

end
