(* ===== verification/Access_Props.thy ===== *)
theory Access_Props
  imports Viking_Fs_Facts
begin

text \<open>
  What the name spaces and the gate of the file system guarantee together: a request without the root
  role reaches no path outside its account and no other user's directory, canonical forms are stable,
  and the places where the gate is weaker than it looks.
\<close>

section \<open>Who may reach what\<close>

lemma body_uri_of [simp]: "uri_body (uri_of parts) = py_join (CHR ''/'') parts"
  unfolding uri_of_def by (rule body_viking)

lemma segments_uri_of: "\<forall>x \<in> set xs. segment x \<Longrightarrow> segments (uri_body (uri_of xs)) = xs"
  by (simp add: segments_join segment_def)

text \<open>The verdict of the gate for a request that is not root, by the first segment it sees.\<close>

lemma fs_accessible_cases:
  assumes "fs_is_accessible u ctx = Inr True" "rc_role ctx \<noteq> ROLE_ROOT" "segments (uri_body u) = s # r"
  shows "s \<noteq> ''upload''" "s \<noteq> ''_system''"
    "s = ''temp'' \<Longrightarrow> r = [] \<or> hd r = ui_user_id (rc_user ctx) \<or> looks_like_legacy_temp_leaf (hd r)"
    "s \<notin> {''resources'', ''temp'', ''agent''} \<Longrightarrow> is_accessible (viking_normalize u) ctx = Inr True"
proof -
  have np: "normalized_uri_parts u = Inr (viking_normalize u, s # r)"
    using assms(1,3) by (auto simp: fs_is_accessible_def normalized_uri_parts_eq split: if_splits)
  note verdict = assms(1) [unfolded fs_is_accessible_def np]
  show "s \<noteq> ''upload''" "s \<noteq> ''_system''"
    using verdict assms(2) by (auto simp: raise_iff split: if_splits)
  show "s = ''temp'' \<Longrightarrow> r = [] \<or> hd r = ui_user_id (rc_user ctx) \<or> looks_like_legacy_temp_leaf (hd r)"
    using verdict assms(2) by (cases r) (auto simp: raise_iff is_legacy_temp_uri_parts_def Let_def split: if_splits)
  show "s \<notin> {''resources'', ''temp'', ''agent''} \<Longrightarrow> is_accessible (viking_normalize u) ctx = Inr True"
    using verdict assms(2) by (auto simp: raise_iff split: if_splits)
qed

lemma is_accessible_owner:
  assumes "is_accessible (viking_normalize u) ctx = Inr True" "rc_role ctx \<noteq> ROLE_ROOT"
    "resolve_uri u (Some ctx) False = Inr t" "rn_scope t = ''user''" "rn_owner_user_id t = Some owner"
    "owner \<noteq> []"
  shows "owner = ui_user_id (rc_user ctx)"
  using assms by (simp add: is_accessible_def ROLE_ROOT_def)

text \<open>The owner of what a URI of the user or session scope is resolved to.\<close>

lemma accessible_user_owner:
  assumes ctx: "valid_ctx ctx" and role: "rc_role ctx \<noteq> ROLE_ROOT"
    and acc: "fs_is_accessible u ctx = Inr True"
    and hd: "hd (uri_parts u) \<in> {''user'', ''session''}" "uri_parts u \<noteq> []"
    and res: "resolve_uri u (Some ctx) False = Inr t" "rn_scope t = ''user''"
      "rn_owner_user_id t = Some owner" "segment owner"
  shows "owner = ui_user_id (rc_user ctx)"
proof -
  obtain s r where s: "segments (uri_body u) = s # r"
    using hd(2) uri_parts_none [of u] by (cases "segments (uri_body u)") auto
  have "s \<notin> {''resources'', ''temp'', ''agent''}"
    using uri_parts_first [OF s] hd(1) by auto
  then have "is_accessible (viking_normalize u) ctx = Inr True"
    by (rule fs_accessible_cases(4) [OF acc role s])
  with role res show ?thesis by (intro is_accessible_owner) (auto simp: segment_def)
qed

text \<open>The segments a URI is mapped to.\<close>

definition confined :: "request_context \<Rightarrow> string list \<Rightarrow> bool" where
  "confined ctx names \<longleftrightarrow>
     (case names of
        [] \<Rightarrow> True
      | s # r \<Rightarrow>
          s \<noteq> ''upload'' \<and> s \<noteq> ''_system'' \<and>
          (s = ''user'' \<longrightarrow> r = [] \<or> hd r = ui_user_id (rc_user ctx)) \<and>
          (s = ''temp'' \<longrightarrow> r = [] \<or> hd r = ui_user_id (rc_user ctx) \<or> looks_like_legacy_temp_leaf (hd r)))"

lemma canonical_confined:
  assumes ctx: "valid_ctx ctx" and role: "rc_role ctx \<noteq> ROLE_ROOT"
    and acc: "fs_is_accessible u ctx = Inr True" and can: "canonicalize_uri u (Some ctx) = Inr c"
  shows "confined ctx (segments (uri_body c))"
proof -
  obtain t where t: "resolve_uri u (Some ctx) False = Inr t" and c: "c = rn_uri t"
    using can by (auto simp: canonicalize_uri_def raise_iff)
  from ctx t show ?thesis
  proof (cases rule: canonicalize_cases)
    case root
    then show ?thesis using body_viking [of "[]"] by (simp add: c confined_def)
  next
    case user_root
    have "segments (uri_body (''viking://'' @ ''user'')) = [''user'']"
      unfolding body_viking by simp
    with user_root show ?thesis by (simp add: c confined_def)
  next
    case (user owner rest)
    then have "owner = ui_user_id (rc_user ctx)"
      by (intro accessible_user_owner [OF ctx role acc _ _ t]) auto
    moreover have "segments (uri_body c) = ''user'' # owner # rest"
      unfolding c user(3) using user(6) by (intro segments_uri_of) (simp add: segment_def)
    ultimately show ?thesis by (simp add: confined_def)
  next
    case (direct s rest)
    obtain b where b: "c = SCHEME_PREFIX @ b" "segments b = segments (uri_body u)"
      using direct_form [of u] direct(1,4) c by (metis list.distinct(1))
    show ?thesis
    proof (cases "segments (uri_body u)")
      case (Cons x r)
      have "x \<noteq> ''user''" using uri_parts_first [OF Cons] direct(1,2) by auto
      with fs_accessible_cases [OF acc role Cons] show ?thesis
        by (simp add: confined_def b Cons)
    qed (simp add: confined_def b)
  qed
qed

text \<open>From the segments of the URI to the names in the path.\<close>

lemma utf8_len_le: "utf8_len s \<le> 2 * length s"
  by (induction s) (auto simp: utf8_len_def)

lemma legacy_leaf_short:
  assumes "looks_like_legacy_temp_leaf s" "sha_hex hexdigest"
  shows "short_name hexdigest s = s"
proof -
  have "length s \<le> Suc (length (dollar_body s))" by (simp add: dollar_body_def)
  then have "utf8_len s \<le> 255"
    using utf8_len_le [of s] assms(1) by (simp add: looks_like_legacy_temp_leaf_def Let_def)
  then show ?thesis by (simp add: shorten_component_def MAX_FILENAME_BYTES_def)
qed

definition path_confined :: "(string \<Rightarrow> string) \<Rightarrow> request_context \<Rightarrow> string list \<Rightarrow> bool" where
  "path_confined hexdigest ctx names \<longleftrightarrow>
     ''.'' \<notin> set names \<and> ''..'' \<notin> set names \<and>
     (\<forall>s r. names = s # r \<longrightarrow> s \<noteq> ''upload'' \<and> s \<noteq> ''_system'') \<and>
     (\<forall>x r. names = ''user'' # x # r \<longrightarrow> x = short_name hexdigest (ui_user_id (rc_user ctx))) \<and>
     (\<forall>x r. names = ''temp'' # x # r \<longrightarrow>
        x = short_name hexdigest (ui_user_id (rc_user ctx)) \<or> looks_like_legacy_temp_leaf x)"

lemma path_confinedI:
  assumes sha: "sha_hex hexdigest" and con: "confined ctx parts"
    and safe: "list_all (\<lambda>s. \<not> unsafe_part s) parts"
  shows "path_confined hexdigest ctx (map (short_name hexdigest) parts)"
proof -
  have inv: "x = s" if "short_name hexdigest x = s" "length s \<le> 8" for x s
    using sha that by (rule short_name_inv)
  have dots: "short_name hexdigest x \<noteq> s" if x: "x \<in> set parts" and s: "unsafe_part s" "length s \<le> 8" for x s
    using safe inv [of x s] x s unfolding list_all_iff by metis
  have hd: "s \<noteq> ''upload'' \<and> s \<noteq> ''_system''" if names: "map (short_name hexdigest) parts = s # r" for s r
  proof -
    obtain y r' where "parts = y # r'" "short_name hexdigest y = s"
      using names by (auto simp only: map_eq_Cons_conv)
    with inv [of y "''upload''"] inv [of y "''_system''"] con show ?thesis by (auto simp: confined_def)
  qed
  have user: "x = short_name hexdigest (ui_user_id (rc_user ctx))"
    if names: "map (short_name hexdigest) parts = ''user'' # x # r" for x r
  proof -
    obtain s y r' where p: "parts = s # y # r'" "short_name hexdigest s = ''user''" "short_name hexdigest y = x"
      using names by (auto simp only: map_eq_Cons_conv)
    with inv [of s "''user''"] con show ?thesis by (auto simp: confined_def)
  qed
  have temp: "x = short_name hexdigest (ui_user_id (rc_user ctx)) \<or> looks_like_legacy_temp_leaf x"
    if names: "map (short_name hexdigest) parts = ''temp'' # x # r" for x r
  proof -
    obtain s y r' where p: "parts = s # y # r'" "short_name hexdigest s = ''temp''" "short_name hexdigest y = x"
      using names by (auto simp only: map_eq_Cons_conv)
    with inv [of s "''temp''"] con legacy_leaf_short [OF _ sha, of y] show ?thesis
      by (auto simp: confined_def)
  qed
  have "''.'' \<notin> set (map (short_name hexdigest) parts)" "''..'' \<notin> set (map (short_name hexdigest) parts)"
    using dots [of _ "''.''"] dots [of _ "''..''"] unfolding unsafe_part_def by fastforce+
  with hd user temp show ?thesis unfolding path_confined_def by blast
qed

lemma agent_confined: "confined ctx (''agent'' # x # r)"
  by (simp add: confined_def)

text \<open>Property C6 (safety): a request that is not root reaches only its account's directory, and there no
  other user's.  Whatever URI passes ensure_access, the path it is mapped to lies under
  /local/account, has no component . or .., is not under upload or _system, under user only in the
  directory of the request's own user, and under temp only in the user's own directory or in one that
  bears the time stamp of the old format.\<close>

theorem fs_access_confined:
  assumes ctx: "valid_ctx ctx" and role: "rc_role ctx \<noteq> ROLE_ROOT" and sha: "sha_hex hexdigest"
    and acc: "ensure_access u ctx = Inr ()" and path: "uri_to_path hexdigest u ctx = Inr p"
  shows "\<exists>names. segments p = ''local'' # ui_account_id (rc_user ctx) # names \<and>
     ''.'' \<notin> set names \<and> ''..'' \<notin> set names \<and>
     (\<forall>s r. names = s # r \<longrightarrow> s \<noteq> ''upload'' \<and> s \<noteq> ''_system'') \<and>
     (\<forall>x r. names = ''user'' # x # r \<longrightarrow> x = short_name hexdigest (ui_user_id (rc_user ctx))) \<and>
     (\<forall>x r. names = ''temp'' # x # r \<longrightarrow>
        x = short_name hexdigest (ui_user_id (rc_user ctx)) \<or> looks_like_legacy_temp_leaf x)"
proof -
  let ?aid = "ui_account_id (rc_user ctx)"
  have aid: "segment ?aid" by (rule valid_ctxD(1) [OF ctx])
  have acc': "fs_is_accessible u ctx = Inr True" using acc by (simp add: ensure_access_iff)
  from path obtain parts where p: "segments p = ''local'' # ?aid # map (short_name hexdigest) parts"
    and con: "confined ctx parts" and safe: "list_all (\<lambda>s. \<not> unsafe_part s) parts"
  proof (cases rule: uri_to_path_cases)
    case (agent x r)
    then show thesis
      using that [of "segments (uri_body u)"] segments_local_of [OF sha aid] agent_confined by metis
  next
    case (canonical c)
    show thesis
      using that [of "segments (uri_body c)"] canonical segments_local_of [OF sha aid]
        canonical_confined [OF ctx role acc' canonical(1)] segments_root_path [OF aid]
      by (cases "segments (uri_body c) = []") auto
  qed
  with path_confinedI [OF sha con safe] show ?thesis
    by (auto simp: path_confined_def)
qed

definition sample_ctx :: request_context where
  "sample_ctx = \<lparr>rc_user = \<lparr>ui_account_id = ''acme'', ui_user_id = ''alice''\<rparr>, rc_role = ''user'',
                 rc_actor_peer_id = Some ''bob''\<rparr>"

definition sample_digest :: "string \<Rightarrow> string" where
  "sample_digest s = replicate 64 (CHR ''0'')"

lemma sample_ctx_valid: "valid_ctx sample_ctx" "rc_role sample_ctx \<noteq> ROLE_ROOT"
  by code_simp+

lemma sample_digest_hex: "sha_hex sample_digest"
  by (simp add: sha_hex_def sample_digest_def)

theorem fs_access_confined_witness:
  "\<exists>names. segments ''/local/acme/user/alice/memories/a.md'' = ''local'' # ''acme'' # names \<and> ''..'' \<notin> set names"
proof -
  have "ensure_access ''user/memories/a.md'' sample_ctx = Inr ()" by code_simp
  moreover have "uri_to_path sample_digest ''user/memories/a.md'' sample_ctx =
      Inr ''/local/acme/user/alice/memories/a.md''"
    by code_simp
  ultimately show ?thesis
    using fs_access_confined [OF sample_ctx_valid sample_digest_hex, of "''user/memories/a.md''"]
    by (auto simp: sample_ctx_def)
qed

section \<open>Canonical forms\<close>

lemma resolve_user_not_relative:
  assumes "uri_parts u = ''user'' # x # rest" "\<not> own_relative ctx x"
  shows "resolve_uri u (Some ctx) rc = user_target x rest"
  using assms by (simp add: resolve_uri_Suc resolve_user_direct)

lemma resolve_stable:
  assumes ctx: "valid_ctx ctx" and res: "resolve_uri u (Some ctx) False = Inr t"
  shows "\<exists>b. resolve_uri (rn_uri t) (Some ctx) require_canonical = Inr (t\<lparr>rn_is_container := b\<rparr>)"
  using ctx res
proof (cases rule: canonicalize_cases)
  case root
  moreover have "uri_parts ''viking://'' = []" by code_simp
  ultimately show ?thesis by (cases t) (auto simp: resolve_uri_root)
next
  case user_root
  moreover have "uri_parts ''viking://user'' = [''user'']" by code_simp
  ultimately show ?thesis by (cases t) (auto simp: resolve_uri_user_root)
next
  case (user owner rest)
  have "uri_parts (rn_uri t) = ''user'' # owner # rest"
    unfolding user(3) using user(6) by (intro uri_parts_uri_of) (simp add: segment_def)
  then have "resolve_uri (rn_uri t) (Some ctx) require_canonical = user_target owner rest"
    using user(7) by (rule resolve_user_not_relative)
  with user(8) show ?thesis by auto
next
  case (direct s rest)
  then have "uri_parts u \<noteq> []" by simp
  note idem = direct_target_idem [OF this]
  then have "resolve_uri (rn_uri t) (Some ctx) require_canonical = Inr (direct_target (rn_uri t))"
    using direct by (intro resolve_uri_simple [of _ s rest]) simp_all
  also have "\<dots> = Inr (t\<lparr>rn_is_container := False\<rparr>)"
    using idem(1) direct(4) by (simp add: direct_target_def)
  finally show ?thesis by blast
qed

text \<open>Canonical URIs are fixed points.  Whatever a URI is resolved to for a request
  with validated ids, the canonical URI is resolved to itself, with the same scope and owner, also where
  shorthand forms are not allowed.\<close>

lemma canonical_form_stable:
  assumes "valid_ctx ctx" "resolve_uri u (Some ctx) False = Inr t"
  shows "\<exists>b. resolve_uri (rn_uri t) (Some ctx) require_canonical = Inr (t\<lparr>rn_is_container := b\<rparr>)"
  by (rule resolve_stable [OF assms])

lemma canonical_form_stable_example:
  "\<exists>b. resolve_uri ''viking://user/alice/sessions/s1'' (Some sample_ctx) True =
     Inr \<lparr>rn_uri = ''viking://user/alice/sessions/s1'', rn_scope = ''user'',
          rn_owner_user_id = Some ''alice'', rn_is_container = b\<rparr>"
proof -
  have "resolve_uri ''/session/s1?x'' (Some sample_ctx) False =
      Inr \<lparr>rn_uri = ''viking://user/alice/sessions/s1'', rn_scope = ''user'',
           rn_owner_user_id = Some ''alice'', rn_is_container = False\<rparr>"
    by code_simp
  from canonical_form_stable [OF sample_ctx_valid(1) this, of True] show ?thesis by simp
qed

section \<open>Resolution ends\<close>

lemma user_target_error: "user_target owner rest = Inl e \<Longrightarrow> \<exists>msg. e = NamespaceShapeError msg"
  by (auto simp: user_target_def raise_iff validate_peer_id_segments_def require_peer_id_segment_def
      normalize_peer_id_def normalize_identifier_part_def Let_def
      split: option.splits if_splits sum.splits uri_error.splits)

lemma resolve_other_error:
  assumes "take 1 (uri_parts u) \<noteq> [''user''] \<or> length (uri_parts u) = 1"
    "resolve_uri_rec (Suc n) u (Some ctx) rc = Inl e"
  shows "\<exists>msg. e = NamespaceShapeError msg"
  using assms
  by (cases "uri_parts u")
     (auto simp: resolve_user_uri_def resolve_session_uri_def Let_def split: if_splits)

text \<open>The mutual recursion of resolve_uri and _resolve_user_uri ends.  For a
  request with validated ids two nested calls of resolve_uri are always enough, whatever the URI: more
  of them do not change the outcome, the recursion limit is never hit, and the only exception is
  NamespaceShapeError.\<close>

lemma namespace_resolution_ends:
  assumes ctx: "valid_ctx ctx"
  shows "resolve_uri_rec (Suc (Suc n)) u (Some ctx) rc = resolve_uri_rec 2 u (Some ctx) rc \<and>
     (resolve_uri u (Some ctx) rc = Inl e \<longrightarrow> (\<exists>msg. e = NamespaceShapeError msg))"
proof -
  consider (user) x rest where "uri_parts u = ''user'' # x # rest"
    | (other) "take 1 (uri_parts u) \<noteq> [''user''] \<or> length (uri_parts u) = 1"
    by (cases "uri_parts u"; cases "tl (uri_parts u)") auto
  then show ?thesis
  proof cases
    case user
    show ?thesis
      unfolding resolve_uri_Suc numeral_2_eq_2 resolve_rec_user [OF ctx user]
      using user_target_error by (auto split: if_splits)
  next
    case other
    then show ?thesis
      unfolding resolve_uri_Suc numeral_2_eq_2
      using resolve_rec_other [OF other] resolve_other_error [OF other] by blast
  qed
qed

lemma namespace_resolution_ends_example:
  "resolve_uri_rec 5 ''user/sessions/s1'' (Some sample_ctx) False =
     resolve_uri_rec 2 ''user/sessions/s1'' (Some sample_ctx) False"
  using namespace_resolution_ends [OF sample_ctx_valid(1), of 3 "''user/sessions/s1''" False]
  by (simp only: numeral_eq_Suc pred_numeral_simps BitM.simps)

section \<open>The watch-task files\<close>

text \<open>The two spellings, evaluated as far as they do not depend on the request.\<close>

abbreviation watch_uri :: string where "watch_uri \<equiv> ''viking://resources/.watch_tasks.json''"
abbreviation watch_uri2 :: string where "watch_uri2 \<equiv> ''viking://resources//.watch_tasks.json''"

lemma watch_parts:
  "normalized_uri_parts watch_uri = Inr (watch_uri, [''resources'', ''.watch_tasks.json''])"
  "normalized_uri_parts watch_uri2 = Inr (watch_uri2, [''resources'', ''.watch_tasks.json''])"
  "uri_parts watch_uri = [''resources'', ''.watch_tasks.json'']"
  "uri_parts watch_uri2 = [''resources'', ''.watch_tasks.json'']"
  "py_rstrip (CHR ''/'') (viking_normalize watch_uri) = watch_uri"
  "py_rstrip (CHR ''/'') (viking_normalize watch_uri2) = watch_uri2"
  "py_rstrip (CHR ''/'') watch_uri2 \<noteq> ''viking://temp''"
  "is_watch_task_control_uri watch_uri" "\<not> is_watch_task_control_uri watch_uri2"
  "ensure_supported_write_namespace watch_uri2 = Inr ()"
  "ensure_supported_delete_namespace watch_uri2 = Inr ()"
  by code_simp+

lemma canonicalize_direct:
  assumes "uri_parts u = s # r" "s \<noteq> ''user''" "s \<noteq> ''session''"
    "py_rstrip (CHR ''/'') (viking_normalize u) = u"
  shows "canonicalize_uri u (Some ctx) = Inr u"
  using resolve_uri_simple [OF assms(1-3)] assms(4) by (simp add: canonicalize_uri_def direct_target_def)

lemma not_user_not_hidden:
  assumes "canonicalize_uri u (Some ctx) = Inr c" "take 1 (uri_parts c) \<noteq> [''user'']"
  shows "is_hidden_by_actor_peer_view u ctx = Inr False" "may_include_hidden_actor_peers u ctx = Inr False"
proof -
  have "actor_peer_view_user_suffix u ctx = Inr None"
    using assms by (cases "uri_parts c") (auto simp: actor_peer_view_user_suffix_def)
  then show "is_hidden_by_actor_peer_view u ctx = Inr False" "may_include_hidden_actor_peers u ctx = Inr False"
    by (simp_all add: is_hidden_by_actor_peer_view_def may_include_hidden_actor_peers_def)
qed

lemma watch_canonical:
  "canonicalize_uri watch_uri (Some ctx) = Inr watch_uri" "canonicalize_uri watch_uri2 (Some ctx) = Inr watch_uri2"
  "is_hidden_by_actor_peer_view watch_uri ctx = Inr False"
  "is_hidden_by_actor_peer_view watch_uri2 ctx = Inr False"
  "may_include_hidden_actor_peers watch_uri2 ctx = Inr False"
proof -
  show c1: "canonicalize_uri watch_uri (Some ctx) = Inr watch_uri"
    by (rule canonicalize_direct [OF watch_parts(3) _ _ watch_parts(5)]) simp_all
  show c2: "canonicalize_uri watch_uri2 (Some ctx) = Inr watch_uri2"
    by (rule canonicalize_direct [OF watch_parts(4) _ _ watch_parts(6)]) simp_all
  show "is_hidden_by_actor_peer_view watch_uri ctx = Inr False"
    by (rule not_user_not_hidden [OF c1]) (simp only: watch_parts, simp)
  show "is_hidden_by_actor_peer_view watch_uri2 ctx = Inr False"
    "may_include_hidden_actor_peers watch_uri2 ctx = Inr False"
    by (rule not_user_not_hidden [OF c2]; simp only: watch_parts, simp)+
qed

lemma watch_accessible:
  assumes "rc_role ctx \<noteq> ROLE_ROOT"
  shows "fs_is_accessible watch_uri ctx = Inr False" "fs_is_accessible watch_uri2 ctx = Inr True"
  unfolding fs_is_accessible_def watch_parts py_then_simps prod.case watch_canonical
  using assms watch_parts(8,9) by simp_all

text \<open>Property C19 (safety): the protection of the watch-task control files does not hold.  A request that is
  not root is denied viking://resources/.watch_tasks.json, as intended; but the same URI with a doubled
  slash passes the gate, for reading, writing and deleting, and is mapped to the very same file.\<close>

theorem watch_file_by_double_slash:
  assumes "rc_role ctx \<noteq> ROLE_ROOT"
  shows "ensure_access ''viking://resources/.watch_tasks.json'' ctx =
       Inl (PermissionDeniedError ''viking://resources/.watch_tasks.json'') \<and>
     ensure_mutable_access ''viking://resources//.watch_tasks.json'' ctx = Inr () \<and>
     ensure_delete_access ''viking://resources//.watch_tasks.json'' ctx = Inr () \<and>
     uri_to_path hexdigest ''viking://resources//.watch_tasks.json'' ctx =
       uri_to_path hexdigest ''viking://resources/.watch_tasks.json'' ctx"
proof (intro conjI)
  note access = watch_accessible [OF assms]
  show "ensure_access watch_uri ctx = Inl (PermissionDeniedError watch_uri)"
    unfolding ensure_access_def watch_parts py_then_simps prod.case access by simp
  have ok: "ensure_access watch_uri2 ctx = Inr ()"
    unfolding ensure_access_iff access ..
  show "ensure_mutable_access watch_uri2 ctx = Inr ()" "ensure_delete_access watch_uri2 ctx = Inr ()"
    unfolding ensure_mutable_access_def ensure_delete_access_def ensure_changeable_def ok watch_parts
      watch_canonical py_then_simps prod.case
    using watch_parts(7) by simp_all
  show "uri_to_path hexdigest watch_uri2 ctx = uri_to_path hexdigest watch_uri ctx"
    unfolding uri_to_path_def watch_parts watch_canonical by (simp add: watch_canonical watch_parts)
qed

theorem watch_file_by_double_slash_witness:
  "ensure_mutable_access ''viking://resources//.watch_tasks.json'' sample_ctx = Inr ()"
  using watch_file_by_double_slash [OF sample_ctx_valid(2)] by blast

end
