(* ===== verification/Uri_Validation.thy ===== *)
theory Uri_Validation
  imports Namespace
begin

text \<open>
  The validation of URIs that come from outside (\<^verbatim>\<open>openviking/core/uri_validation.py\<close>) and the choice
  of the directories a search runs over (\<^verbatim>\<open>openviking/core/retrieval_targets.py\<close>).
\<close>

section \<open>Validation at the boundary\<close>

text \<open>\<^verbatim>\<open>^[A-Za-z][A-Za-z0-9+.-]*:\<close>: the scheme before the colon, if the text begins with one.\<close>

definition URI_SCHEME_RE :: "string \<Rightarrow> string option" where
  "URI_SCHEME_RE s =
     (case s of
        [] \<Rightarrow> None
      | c # cs \<Rightarrow>
          let in_scheme = (\<lambda>d. ascii_alnum d \<or> d \<in> {CHR ''+'', CHR ''.'', CHR ''-''});
              w = takeWhile in_scheme cs;
              rest = dropWhile in_scheme cs
          in if ascii_alnum c \<and> \<not> is_digit c \<and> rest \<noteq> [] \<and> hd rest = CHR '':'' then Some (c # w) else None)"

definition PUBLIC_API_SCOPES :: "string list" where
  "PUBLIC_API_SCOPES = [] # PUBLIC_SCOPES @ LEGACY_SCOPES"

definition ALL_API_SCOPES :: "string list" where
  "ALL_API_SCOPES = [] # VISITABLE_SCOPES"

definition scope_from_uri :: "string \<Rightarrow> string" where
  "scope_from_uri u =
     (let normalized = (if py_startswith u SCHEME_PREFIX then u else viking_normalize u);
          path = drop (length SCHEME_PREFIX) normalized
      in if strip_slashes path = [] then [] else hd (py_split (CHR ''/'') path))"

fun comma_join :: "string list \<Rightarrow> string" where
  "comma_join [] = []"
| "comma_join [s] = s"
| "comma_join (s # t # rest) = s @ '', '' @ comma_join (t # rest)"

definition format_scope_names :: "string list \<Rightarrow> string" where
  "format_scope_names scopes = comma_join (sort (filter (\<lambda>s. s \<noteq> []) scopes))"

definition scope_set :: "bool \<Rightarrow> string list option \<Rightarrow> string list" where
  "scope_set allow_internal allowed_scopes =
     (case allowed_scopes of
        Some scopes \<Rightarrow> scopes
      | None \<Rightarrow> if allow_internal then ALL_API_SCOPES else PUBLIC_API_SCOPES)"

definition invalid_scope_reason :: "string \<Rightarrow> string list \<Rightarrow> string" where
  "invalid_scope_reason scope allowed_scopes =
     (let scope_names = format_scope_names allowed_scopes
      in if scope = [] then ''URI must include one of: '' @ scope_names
         else ''Invalid scope '' @ quoted scope @ ''. Must be one of: '' @ scope_names)"

definition validate_viking_uri ::
  "string \<Rightarrow> string \<Rightarrow> bool \<Rightarrow> string list option \<Rightarrow> uri_error + string" where
  "validate_viking_uri u field_name allow_internal allowed_scopes =
     (let raw_uri = py_strip u;
          scopes = scope_set allow_internal allowed_scopes;
          bad_scheme = (if py_startswith raw_uri SCHEME_PREFIX then None else URI_SCHEME_RE raw_uri)
      in if raw_uri = [] then Inl (InvalidURIError u (field_name @ '' must not be empty''))
         else case bad_scheme of
           Some scheme \<Rightarrow>
             Inl (InvalidURIError raw_uri
                   (if scheme = ''viking'' then ''URI must start with '' @ quoted SCHEME_PREFIX
                    else ''unsupported URI scheme '' @ quoted scheme))
         | None \<Rightarrow>
             (case new_viking_uri raw_uri of
                Inl (UriValueError reason) \<Rightarrow>
                  Inl (InvalidURIError raw_uri
                        (if py_startswith reason ''Invalid scope''
                         then invalid_scope_reason (scope_from_uri raw_uri) scopes else reason))
              | Inl e \<Rightarrow> Inl e
              | Inr parsed \<Rightarrow>
                  if vu_scope parsed \<notin> set scopes
                  then Inl (InvalidURIError raw_uri (invalid_scope_reason (vu_scope parsed) scopes))
                  else Inr raw_uri))"

definition validate_optional_viking_uri ::
  "string option \<Rightarrow> string \<Rightarrow> bool \<Rightarrow> string list option \<Rightarrow> uri_error + string" where
  "validate_optional_viking_uri u field_name allow_internal allowed_scopes =
     (case u of
        None \<Rightarrow> Inr []
      | Some v \<Rightarrow>
          let raw_uri = py_strip v
          in if raw_uri = [] then Inr []
             else validate_viking_uri raw_uri field_name allow_internal allowed_scopes)"

text \<open>A list of URIs: each is validated in turn, the empty ones are left out.\<close>

fun validate_optional_viking_uris ::
  "string option list \<Rightarrow> string \<Rightarrow> bool \<Rightarrow> string list option \<Rightarrow> uri_error + string list" where
  "validate_optional_viking_uris [] field_name allow_internal allowed_scopes = Inr []"
| "validate_optional_viking_uris (item # items) field_name allow_internal allowed_scopes =
     py_then (validate_optional_viking_uri item field_name allow_internal allowed_scopes) (\<lambda>result.
       map_sum id (\<lambda>validated. if result \<noteq> [] then result # validated else validated)
         (validate_optional_viking_uris items field_name allow_internal allowed_scopes))"

definition matches_content_kind :: "string \<Rightarrow> string \<Rightarrow> uri_error + bool" where
  "matches_content_kind u kind =
     (if kind \<noteq> ''resource'' \<and> kind \<noteq> ''skill''
      then Inl (UriValueError (''Unsupported content target kind: '' @ kind))
      else
        let parts = uri_parts u
        in if kind = ''resource'' \<and> take 1 parts = [''resources''] then Inr True
           else
             let classification = classify_uri u
             in Inr (uc_context_type classification = kind \<and> uc_content_index classification \<noteq> None))"

definition validate_content_target_uri ::
  "string \<Rightarrow> request_context \<Rightarrow> string \<Rightarrow> string \<Rightarrow> uri_error + string" where
  "validate_content_target_uri u ctx kind field_name =
     (let raw_uri = py_strip u
      in if raw_uri = [] then Inl (InvalidURIError u (field_name @ '' must not be empty''))
         else case canonicalize_uri raw_uri (Some ctx) of
           Inl (NamespaceShapeError msg) \<Rightarrow> Inl (InvalidURIError raw_uri msg)
         | Inl (UriValueError msg) \<Rightarrow> Inl (InvalidURIError raw_uri msg)
         | Inl e \<Rightarrow> Inl e
         | Inr canonical_uri \<Rightarrow>
             py_then (matches_content_kind canonical_uri kind) (\<lambda>ok.
               if ok
               then py_then (is_accessible canonical_uri ctx) (\<lambda>acc.
                      if acc then Inr canonical_uri else Inl (PermissionDeniedError canonical_uri))
               else Inl (InvalidURIError raw_uri (field_name @ '' must target '' @ kind @ '' content''))))"

definition validate_optional_content_target_uri ::
  "string option \<Rightarrow> request_context \<Rightarrow> string \<Rightarrow> string \<Rightarrow> uri_error + string" where
  "validate_optional_content_target_uri u ctx kind field_name =
     (case u of
        None \<Rightarrow> Inr []
      | Some v \<Rightarrow>
          let raw_uri = py_strip v
          in if raw_uri = [] then Inr [] else validate_content_target_uri raw_uri ctx kind field_name)"

section \<open>The directories of a search\<close>

record retrieval_targets =
  target_directories :: "string list"
  first_explicit_directory :: string

datatype context_type = MEMORY | RESOURCE | SKILL

definition has_actor :: "request_context \<Rightarrow> bool" where
  "has_actor ctx \<longleftrightarrow> rc_actor_peer_id ctx \<noteq> None \<and> rc_actor_peer_id ctx \<noteq> Some []"

definition actor_root :: "request_context \<Rightarrow> string" where
  "actor_root ctx = canonical_user_root ctx @ ''/peers/'' @ the (rc_actor_peer_id ctx)"

definition actor_peer_targets :: "request_context \<Rightarrow> string list" where
  "actor_peer_targets ctx =
     (if \<not> has_actor ctx then [] else [actor_root ctx @ ''/memories'', actor_root ctx @ ''/resources''])"

definition default_skill_targets :: "request_context \<Rightarrow> string list" where
  "default_skill_targets ctx = [canonical_user_root ctx @ ''/skills'']"

definition default_agent_skill_targets :: "string list" where
  "default_agent_skill_targets = [''viking://agent/skills'']"

definition default_user_root_targets :: "request_context \<Rightarrow> string list" where
  "default_user_root_targets ctx =
     (let user_root = canonical_user_root ctx
      in if \<not> has_actor ctx then [user_root]
         else py_fromkeys ([user_root @ ''/memories'', user_root @ ''/resources''] @
                default_skill_targets ctx @ actor_peer_targets ctx))"

definition default_target_directories ::
  "request_context option \<Rightarrow> context_type option \<Rightarrow> string list" where
  "default_target_directories octx ctype =
     (case octx of
        None \<Rightarrow> []
      | Some ctx \<Rightarrow>
          if rc_role ctx = ROLE_ROOT then []
          else
            let user_root = canonical_user_root ctx
            in case ctype of
                 Some MEMORY \<Rightarrow>
                   if has_actor ctx then py_fromkeys [user_root @ ''/memories'', actor_root ctx @ ''/memories'']
                   else [user_root]
               | Some RESOURCE \<Rightarrow>
                   if has_actor ctx
                   then py_fromkeys [''viking://resources'', user_root @ ''/resources'', actor_root ctx @ ''/resources'']
                   else [''viking://resources'', user_root]
               | Some SKILL \<Rightarrow> py_fromkeys (default_skill_targets ctx @ default_agent_skill_targets)
               | None \<Rightarrow>
                   if has_actor ctx then py_fromkeys (''viking://resources'' # default_user_root_targets ctx)
                   else [user_root, ''viking://resources''])"

fun canonicalize_target_uris :: "string list \<Rightarrow> request_context \<Rightarrow> string list \<Rightarrow> uri_error + string list" where
  "canonicalize_target_uris [] ctx acc = Inr acc"
| "canonicalize_target_uris (item # items) ctx acc =
     (if item = [] \<or> item = ''/'' \<or> item = ''viking://'' then canonicalize_target_uris items ctx acc
      else case canonicalize_uri item (Some ctx) of
        Inl (NamespaceShapeError msg) \<Rightarrow> Inl (InvalidArgumentError msg)
      | Inl e \<Rightarrow> Inl e
      | Inr u \<Rightarrow> canonicalize_target_uris items ctx (if u \<notin> set acc then acc @ [u] else acc))"

definition is_agent_scope_uri :: "string \<Rightarrow> bool" where
  "is_agent_scope_uri u =
     (let parts = py_split (CHR ''/'') (strip_slashes (drop (length SCHEME_PREFIX) u))
      in parts ! 0 = ''agent'' \<and> 2 \<le> length parts \<and>
         parts ! 1 \<in> set [''skills'', ''endpoints'', ''tools'', ''payments''])"

definition target_peer_id :: "string \<Rightarrow> uri_error + string option" where
  "target_peer_id peer_id =
     (case normalize_peer_id (Some peer_id) of
        Inl (UriValueError msg) \<Rightarrow> Inl (InvalidArgumentError msg)
      | r \<Rightarrow> r)"

text \<open>\<^verbatim>\<open>f"{None}"\<close> prints \<^verbatim>\<open>None\<close>.\<close>

definition opt_str :: "string option \<Rightarrow> string" where
  "opt_str p = (case p of None \<Rightarrow> ''None'' | Some s \<Rightarrow> s)"

definition resolve_peer_target :: "string \<Rightarrow> request_context \<Rightarrow> uri_error + string list option" where
  "resolve_peer_target u ctx =
     (let parts = uri_parts u;
          user_root_parts = uri_parts (canonical_user_root ctx);
          suffix = drop (length user_root_parts) parts
      in if take (length user_root_parts) parts \<noteq> user_root_parts then Inr None
         else if suffix = [] \<or> suffix ! 0 \<noteq> ''peers'' then Inr None
         else if length suffix = 1
         then Inr (Some (if has_actor ctx then actor_peer_targets ctx else [u]))
         else
           py_then (target_peer_id (suffix ! 1)) (\<lambda>peer.
           py_then (is_hidden_by_actor_peer_view u ctx) (\<lambda>hidden.
             if hidden then Inl (PermissionDeniedError [])
             else
               let peer_root = canonical_user_root ctx @ ''/peers/'' @ opt_str peer
               in if length suffix = 2 then Inr (Some [peer_root @ ''/memories'', peer_root @ ''/resources''])
                  else if suffix ! 2 \<noteq> ''memories'' \<and> suffix ! 2 \<noteq> ''resources''
                  then Inl (InvalidArgumentError ''Only peer memories and resources are searchable.'')
                  else Inr (Some [u]))))"

definition is_current_user_root :: "string \<Rightarrow> request_context \<Rightarrow> bool" where
  "is_current_user_root u ctx =
     (let normalized = py_rstrip (CHR ''/'') (viking_normalize u)
      in normalized \<in> set [''viking://user'', py_rstrip (CHR ''/'') (canonical_user_root ctx)])"

definition is_default_user_content_root :: "string \<Rightarrow> request_context \<Rightarrow> string \<Rightarrow> bool" where
  "is_default_user_content_root u ctx seg =
     (let normalized = py_rstrip (CHR ''/'') (viking_normalize u)
      in normalized \<in> set [''viking://user/'' @ seg,
           py_rstrip (CHR ''/'') (canonical_user_root ctx) @ ''/'' @ seg])"

definition target_directories_for_uri :: "string \<Rightarrow> request_context \<Rightarrow> uri_error + string list" where
  "target_directories_for_uri u ctx =
     (if is_current_user_root u ctx then Inr (default_user_root_targets ctx)
      else if is_agent_scope_uri u then Inr [u]
      else py_then (resolve_peer_target u ctx) (\<lambda>peer_target.
        case peer_target of
          Some dirs \<Rightarrow> Inr dirs
        | None \<Rightarrow>
            if list_ex (is_default_user_content_root u ctx) [''memories'', ''resources'', ''skills''] then Inr [u]
            else Inr [u]))"

fun collect_targets :: "string list \<Rightarrow> request_context \<Rightarrow> string list \<Rightarrow> uri_error + string list" where
  "collect_targets [] ctx acc = Inr acc"
| "collect_targets (u # us) ctx acc =
     py_then (target_directories_for_uri u ctx) (\<lambda>dirs.
       collect_targets us ctx (foldl (\<lambda>ds d. if d \<notin> set ds then ds @ [d] else ds) acc dirs))"

definition resolve_retrieval_targets :: "string list \<Rightarrow> request_context \<Rightarrow> uri_error + retrieval_targets" where
  "resolve_retrieval_targets target_uri ctx =
     py_then (canonicalize_target_uris target_uri ctx []) (\<lambda>target_uris.
       if target_uris = []
       then Inr \<lparr>target_directories = default_target_directories (Some ctx) None, first_explicit_directory = []\<rparr>
       else py_then (collect_targets target_uris ctx []) (\<lambda>dirs.
         Inr \<lparr>target_directories = dirs, first_explicit_directory = (if dirs \<noteq> [] then hd dirs else [])\<rparr>))"

end
