(* ===== verification/Uri_Props.thy ===== *)
theory Uri_Props
  imports Access_Props Uri_Validation "HOL-Library.Sublist"
begin

text \<open>
  Properties of URIs at the boundary: what a validated URI can reach, what a search may look at, and
  that URI objects keep their form.
\<close>

section \<open>Validated URIs\<close>

lemma split_hd_segments:
  assumes "hd (py_split (CHR ''/'') b) = s" "s \<noteq> []"
  shows "\<exists>r. segments b = s # r"
  using assms by (cases "py_split (CHR ''/'') b") (auto simp: segments_def)

lemma new_viking_uri_scope:
  assumes "new_viking_uri u = Inr v"
  shows "(vu_scope v = [] \<and> segments (uri_body u) = []) \<or>
    (vu_scope v \<in> set VISITABLE_SCOPES \<and> (\<exists>r. segments (uri_body u) = vu_scope v # r))"
proof -
  obtain b where b: "viking_normalize u = SCHEME_PREFIX @ b" "segments b = segments (uri_body u)"
    by (rule normalize_split)
  have parse: "viking_parse (SCHEME_PREFIX @ b) = Inr v"
    using assms by (simp add: new_viking_uri_def b(1))
  show ?thesis
  proof (cases "strip_slashes b = []")
    case True
    then have "segments b = []" by (simp add: segments_Nil_iff)
    with True parse b(2) show ?thesis by (auto simp: viking_parse_def)
  next
    case False
    with parse have "vu_scope v = hd (py_split (CHR ''/'') b)" "vu_scope v \<in> set VISITABLE_SCOPES"
      by (auto simp: viking_parse_def Let_def split: if_splits)
    moreover from this(2) have "vu_scope v \<noteq> []"
      by (auto simp: VISITABLE_SCOPES_def PUBLIC_SCOPES_def LEGACY_SCOPES_def INTERNAL_SCOPES_def)
    ultimately show ?thesis using split_hd_segments [of b "vu_scope v"] b(2) by simp
  qed
qed

lemma public_scopes: "set PUBLIC_API_SCOPES = {[], ''resources'', ''wiki'', ''user'', ''agent'', ''session''}"
  by (auto simp: PUBLIC_API_SCOPES_def PUBLIC_SCOPES_def LEGACY_SCOPES_def)

lemma validated_scope:
  assumes "validate_viking_uri u field_name False None = Inr raw"
  shows "segments (uri_body raw) = [] \<or>
    (\<exists>s r. segments (uri_body raw) = s # r \<and> s \<in> {''resources'', ''wiki'', ''user'', ''agent'', ''session''})"
proof -
  from assms obtain v where v: "new_viking_uri raw = Inr v" "vu_scope v \<in> set PUBLIC_API_SCOPES"
    by (auto simp: validate_viking_uri_def scope_set_def Let_def
        split: if_splits option.splits sum.splits uri_error.splits)
  from new_viking_uri_scope [OF v(1)] v(2) show ?thesis
    unfolding public_scopes
    by (auto simp: VISITABLE_SCOPES_def PUBLIC_SCOPES_def LEGACY_SCOPES_def INTERNAL_SCOPES_def)
qed

lemma canonical_public:
  assumes ctx: "valid_ctx ctx" and can: "canonicalize_uri u (Some ctx) = Inr c"
    and seg: "segments (uri_body u) = [] \<or>
      (\<exists>s r. segments (uri_body u) = s # r \<and> s \<in> {''resources'', ''wiki'', ''user'', ''agent'', ''session''})"
  shows "segments (uri_body c) = [] \<or> hd (segments (uri_body c)) \<in> {''resources'', ''wiki'', ''user'', ''agent''}"
proof -
  obtain t where t: "resolve_uri u (Some ctx) False = Inr t" and c: "c = rn_uri t"
    using can by (auto simp: canonicalize_uri_def raise_iff)
  from ctx t show ?thesis
  proof (cases rule: canonicalize_cases)
    case root
    then show ?thesis using body_viking [of "[]"] by (simp add: c)
  next
    case user_root
    have "segments (uri_body (''viking://'' @ ''user'')) = [''user'']" unfolding body_viking by simp
    with user_root show ?thesis by (simp add: c)
  next
    case (user owner rest)
    have "segments (uri_body c) = ''user'' # owner # rest"
      unfolding c user(3) using user(6) by (intro segments_uri_of) (simp add: segment_def)
    then show ?thesis by simp
  next
    case (direct s rest)
    obtain b where b: "c = SCHEME_PREFIX @ b" "segments b = segments (uri_body u)"
      using direct_form [of u] direct(1,4) c by (metis list.distinct(1))
    have "x \<noteq> ''session''" if "segments (uri_body u) = x # r" for x r
      using uri_parts_first [OF that] direct(1,3) by auto
    with seg b show ?thesis by auto
  qed
qed

text \<open>Property C7 (safety): a URI that passed the validation at the boundary never addresses internal files,
  whoever asks.  The path it is mapped to is the account's directory itself or lies under resources,
  wiki, user or agent in it: not under temp, queue, upload or _system, also for the root role.\<close>

theorem validated_uri_stays_public:
  assumes ctx: "valid_ctx ctx" and sha: "sha_hex hexdigest"
    and val: "validate_viking_uri u field_name False None = Inr raw"
    and path: "uri_to_path hexdigest raw ctx = Inr p"
  shows "\<exists>names. segments p = ''local'' # ui_account_id (rc_user ctx) # names \<and>
     (names = [] \<or> hd names \<in> {''resources'', ''wiki'', ''user'', ''agent''})"
proof -
  have aid: "segment (ui_account_id (rc_user ctx))" by (rule valid_ctxD(1) [OF ctx])
  have short: "short_name hexdigest s = s" if "s \<in> {''resources'', ''wiki'', ''user'', ''agent''}" for s
    using that by (auto simp: shorten_component_def MAX_FILENAME_BYTES_def utf8_len_def)
  from path show ?thesis
  proof (cases rule: uri_to_path_cases)
    case (agent x r)
    then show ?thesis using segments_local_of [OF sha aid, of "uri_body raw"] short by simp
  next
    case (canonical c)
    note pub = canonical_public [OF ctx canonical(1) validated_scope [OF val]]
    show ?thesis
    proof (cases "segments (uri_body c)")
      case Nil
      with canonical(3) show ?thesis
        using segments_root_path [OF aid] by simp
    next
      case (Cons s r)
      with pub short canonical(3) segments_local_of [OF sha aid, of "uri_body c"]
      show ?thesis by auto
    qed
  qed
qed

theorem validated_uri_stays_public_witness:
  "\<exists>names. segments ''/local/acme/user/alice/skills'' = ''local'' # ''acme'' # names \<and> names \<noteq> []"
proof -
  have "validate_viking_uri '' user/skills '' ''uri'' False None = Inr ''user/skills''"
    "uri_to_path sample_digest ''user/skills'' sample_ctx = Inr ''/local/acme/user/alice/skills''"
    by code_simp+
  from validated_uri_stays_public [OF sample_ctx_valid(1) sample_digest_hex this]
  show ?thesis by (auto simp: sample_ctx_def segments_def)
qed

section \<open>The directories of a search\<close>

text \<open>
  A list of segments is harmless for an actor when no other peer's directory is below, at or above it.
\<close>

definition peer_safe :: "request_context \<Rightarrow> string \<Rightarrow> string list \<Rightarrow> bool" where
  "peer_safe ctx actor parts \<longleftrightarrow>
     (\<forall>p. p \<noteq> actor \<longrightarrow>
        \<not> prefix parts [''user'', ui_user_id (rc_user ctx), ''peers'', p] \<and>
        \<not> prefix [''user'', ui_user_id (rc_user ctx), ''peers'', p] parts)"

lemma peer_safe_other: "s \<noteq> ''user'' \<Longrightarrow> peer_safe ctx actor (s # r)"
  "owner \<noteq> ui_user_id (rc_user ctx) \<Longrightarrow> peer_safe ctx actor (''user'' # owner # r)"
  "x \<noteq> ''peers'' \<Longrightarrow> peer_safe ctx actor (''user'' # ui_user_id (rc_user ctx) # x # r)"
  "peer_safe ctx actor (''user'' # ui_user_id (rc_user ctx) # ''peers'' # actor # r)"
  by (auto simp: peer_safe_def)

lemma uri_of_snoc: "xs \<noteq> [] \<Longrightarrow> uri_of xs @ CHR ''/'' # x = uri_of (xs @ [x])"
  by (simp add: uri_of_def join_append)

lemma user_root_uri: "canonical_user_root ctx = uri_of [''user'', ui_user_id (rc_user ctx)]"
  by (simp add: canonical_user_root_def user_space_fragment_def uri_of_def)

lemma literal_segments [simp]:
  "segment ''user''" "segment ''peers''" "segment ''memories''" "segment ''resources''" "segment ''skills''"
  by (simp_all add: segment_def)

lemma user_content_parts:
  assumes "valid_ctx ctx" "segment x"
  shows "uri_parts (canonical_user_root ctx @ CHR ''/'' # x) = [''user'', ui_user_id (rc_user ctx), x]"
  using assms valid_ctxD(2) [OF assms(1)] by (simp add: user_root_uri uri_of_snoc)

lemma peer_content_parts:
  assumes "valid_ctx ctx" "segment x" "segment actor"
  shows "uri_parts (canonical_user_root ctx @ ''/peers/'' @ actor @ CHR ''/'' # x) =
    [''user'', ui_user_id (rc_user ctx), ''peers'', actor, x]"
proof -
  have "canonical_user_root ctx @ ''/peers/'' @ actor @ CHR ''/'' # x =
      uri_of [''user'', ui_user_id (rc_user ctx), ''peers'', actor, x]"
    by (simp add: user_root_uri uri_of_def)
  with assms valid_ctxD(2) [OF assms(1)] show ?thesis by simp
qed

text \<open>The directories the functions make up themselves.\<close>

lemma actor_targets_safe:
  assumes ctx: "valid_ctx ctx" and actor: "rc_actor_peer_id ctx = Some actor"
    and d: "d \<in> set (default_user_root_targets ctx) \<union> set (actor_peer_targets ctx)"
  shows "peer_safe ctx actor (uri_parts d)"
proof -
  have seg: "segment actor" by (rule valid_ctx_actor [OF ctx actor])
  then have "has_actor ctx" using actor by (simp add: has_actor_def segment_def)
  with d actor have "d \<in> {canonical_user_root ctx @ CHR ''/'' # ''memories'',
      canonical_user_root ctx @ CHR ''/'' # ''resources'', canonical_user_root ctx @ CHR ''/'' # ''skills'',
      canonical_user_root ctx @ ''/peers/'' @ actor @ CHR ''/'' # ''memories'',
      canonical_user_root ctx @ ''/peers/'' @ actor @ CHR ''/'' # ''resources''}"
    by (auto simp: default_user_root_targets_def default_skill_targets_def actor_peer_targets_def
        actor_root_def Let_def)
  then show ?thesis
    by (elim insertE) (simp_all only: user_content_parts [OF ctx] peer_content_parts [OF ctx _ seg]
        literal_segments, auto intro: peer_safe_other)
qed

lemma canonicalize_stable:
  assumes "valid_ctx ctx" "canonicalize_uri u (Some ctx) = Inr c"
  shows "canonicalize_uri c (Some ctx) = Inr c"
proof -
  obtain t where t: "resolve_uri u (Some ctx) False = Inr t" "c = rn_uri t"
    using assms(2) by (auto simp: canonicalize_uri_def raise_iff)
  from resolve_stable [OF assms(1) t(1), of False] t(2) show ?thesis
    by (auto simp: canonicalize_uri_def)
qed

lemma peer_target_safe:
  assumes ctx: "valid_ctx ctx" and actor: "rc_actor_peer_id ctx = Some actor"
    and can: "canonicalize_uri u (Some ctx) = Inr u"
    and target: "resolve_peer_target u ctx = Inr (Some dirs)" and d: "d \<in> set dirs"
  shows "peer_safe ctx actor (uri_parts d)"
proof -
  let ?uid = "ui_user_id (rc_user ctx)"
  have seg: "segment actor" by (rule valid_ctx_actor [OF ctx actor])
  then have act: "has_actor ctx" "actor \<noteq> []" using actor by (simp_all add: has_actor_def segment_def)
  have "uri_parts (canonical_user_root ctx) = [''user'', ?uid]"
    using valid_ctxD(2) [OF ctx] by (simp add: user_root_uri)
  with target obtain suffix where parts: "uri_parts u = ''user'' # ?uid # ''peers'' # suffix"
    by (cases "uri_parts u"; cases "tl (uri_parts u)"; cases "tl (tl (uri_parts u))")
       (auto simp: resolve_peer_target_def Let_def split: if_splits)
  show ?thesis
  proof (cases suffix)
    case Nil
    with target parts act \<open>uri_parts (canonical_user_root ctx) = _\<close> have "dirs = actor_peer_targets ctx"
      by (simp add: resolve_peer_target_def)
    with d show ?thesis by (intro actor_targets_safe [OF ctx actor]) simp
  next
    case (Cons p rest)
    have view: "actor_peer_view_user_suffix u ctx = Inr (Some (''peers'' # p # rest))"
      using can parts Cons actor act by (simp add: actor_peer_view_user_suffix_def)
    obtain peer where peer: "target_peer_id p = Inr peer" and "p = actor"
      and dirs: "d \<in> {canonical_user_root ctx @ ''/peers/'' @ opt_str peer @ CHR ''/'' # ''memories'',
        canonical_user_root ctx @ ''/peers/'' @ opt_str peer @ CHR ''/'' # ''resources''} \<or> d = u"
      using target d view parts Cons actor \<open>uri_parts (canonical_user_root ctx) = _\<close>
      by (auto simp: resolve_peer_target_def is_hidden_by_actor_peer_view_def raise_iff Let_def split: if_splits)
    have "peer = Some actor"
      using peer \<open>p = actor\<close> ctx actor by (simp add: target_peer_id_def valid_ctx_def)
    with dirs parts Cons \<open>p = actor\<close> show ?thesis
      by (auto simp: opt_str_def peer_safe_other(4) peer_content_parts [OF ctx _ seg, simplified])
  qed
qed

lemma agent_scope_parts:
  assumes "is_agent_scope_uri (SCHEME_PREFIX @ b)"
  shows "\<exists>r. uri_parts (SCHEME_PREFIX @ b) = ''agent'' # r"
proof -
  have "hd (py_split (CHR ''/'') (strip_slashes b)) = ''agent''"
    using assms by (simp add: is_agent_scope_uri_def Let_def hd_conv_nth)
  then obtain r where "segments (strip_slashes b) = ''agent'' # r"
    using split_hd_segments [of "strip_slashes b" "''agent''"] by auto
  then show ?thesis using uri_parts_first [of "SCHEME_PREFIX @ b" "''agent''" r] by simp
qed

lemma canonical_scheme:
  assumes "valid_ctx ctx" "canonicalize_uri u (Some ctx) = Inr c"
  obtains b where "c = SCHEME_PREFIX @ b"
proof -
  obtain t where t: "resolve_uri u (Some ctx) False = Inr t" "c = rn_uri t"
    using assms(2) by (auto simp: canonicalize_uri_def raise_iff)
  have "\<exists>b. c = SCHEME_PREFIX @ b"
    using assms(1) t(1)
  proof (cases rule: canonicalize_cases)
    case (direct s rest)
    then have "uri_parts u \<noteq> []" by simp
    with direct(4) t(2) show ?thesis by (metis direct_form)
  qed (auto simp: t(2) SCHEME_PREFIX_def uri_of_def)
  with that show thesis by blast
qed

text \<open>A target that is passed on unchanged.\<close>

lemma plain_target_safe:
  assumes ctx: "valid_ctx ctx" and can: "canonicalize_uri u (Some ctx) = Inr u"
    and root: "\<not> is_current_user_root u ctx" "u \<noteq> ''viking://''"
    and peer: "resolve_peer_target u ctx = Inr None"
  shows "peer_safe ctx actor (uri_parts u)"
proof -
  let ?uid = "ui_user_id (rc_user ctx)"
  obtain t where t: "resolve_uri u (Some ctx) False = Inr t" "u = rn_uri t"
    using can by (auto simp: canonicalize_uri_def raise_iff)
  from ctx t(1) show ?thesis
  proof (cases rule: canonicalize_cases)
    case root
    with \<open>u \<noteq> ''viking://''\<close> t(2) show ?thesis by simp
  next
    case user_root
    have "is_current_user_root ''viking://user'' ctx"
      by (simp add: is_current_user_root_def viking_normalize_def py_startswith_def SCHEME_PREFIX_def
          py_rstrip_def)
    with user_root t(2) root(1) show ?thesis by simp
  next
    case (user owner rest)
    have parts: "uri_parts u = ''user'' # owner # rest"
      unfolding t(2) user(3) using user(6) by (intro uri_parts_uri_of) simp
    have rp: "uri_parts (canonical_user_root ctx) = [''user'', ?uid]"
      using valid_ctxD(2) [OF ctx] by (simp add: user_root_uri)
    show ?thesis
    proof (cases "owner = ?uid")
      case False
      then show ?thesis unfolding parts by (rule peer_safe_other(2))
    next
      case True
      have "rest \<noteq> []"
      proof
        assume "rest = []"
        with True user(3) t(2) have "u = canonical_user_root ctx" by (simp add: user_root_uri)
        moreover have "viking_normalize (canonical_user_root ctx) = canonical_user_root ctx"
          by (simp add: viking_normalize_def canonical_user_root_def py_startswith_def SCHEME_PREFIX_def)
        ultimately show False using root(1) by (simp add: is_current_user_root_def)
      qed
      then obtain x r where "rest = x # r" by (cases rest) auto
      with True parts rp peer have "x \<noteq> ''peers''"
        by (auto simp: resolve_peer_target_def raise_iff Let_def split: if_splits)
      with \<open>rest = x # r\<close> True parts show ?thesis by (simp add: peer_safe_other(3))
    qed
  next
    case (direct s rest)
    then show ?thesis by (simp add: peer_safe_other(1))
  qed
qed

lemma target_directories_cases:
  assumes "target_directories_for_uri u ctx = Inr dirs"
  obtains (user_root) "dirs = default_user_root_targets ctx"
    | (agent) "is_agent_scope_uri u" "dirs = [u]"
    | (peer) "resolve_peer_target u ctx = Inr (Some dirs)"
    | (plain) "\<not> is_current_user_root u ctx" "resolve_peer_target u ctx = Inr None" "dirs = [u]"
proof -
  consider "is_current_user_root u ctx" | "\<not> is_current_user_root u ctx" "is_agent_scope_uri u"
    | "\<not> is_current_user_root u ctx" "\<not> is_agent_scope_uri u" by blast
  then show thesis
  proof cases
    case 3
    with assms obtain t where "resolve_peer_target u ctx = Inr t"
      "(case t of Some ds \<Rightarrow> Inr ds | None \<Rightarrow> Inr [u]) = (Inr dirs :: uri_error + string list)"
      unfolding target_directories_for_uri_def by (simp only: if_False if_cancel raise_iff) blast
    with 3 show thesis using peer plain by (cases t) simp_all
  qed (use assms user_root agent in \<open>simp_all add: target_directories_for_uri_def\<close>)
qed

lemma target_directories_safe:
  assumes ctx: "valid_ctx ctx" and actor: "rc_actor_peer_id ctx = Some actor"
    and can: "canonicalize_uri u0 (Some ctx) = Inr u"
    and dirs: "target_directories_for_uri u ctx = Inr dirs" "d \<in> set dirs" "d \<noteq> ''viking://''"
  shows "peer_safe ctx actor (uri_parts d)"
proof -
  note stable = canonicalize_stable [OF ctx can]
  obtain b where b: "u = SCHEME_PREFIX @ b" by (rule canonical_scheme [OF ctx can])
  from dirs(1) show ?thesis
  proof (cases rule: target_directories_cases)
    case user_root
    with dirs(2) show ?thesis by (intro actor_targets_safe [OF ctx actor]) simp
  next
    case agent
    with dirs(2) have "is_agent_scope_uri (SCHEME_PREFIX @ b)" "d = SCHEME_PREFIX @ b" using b by simp_all
    then obtain r where "uri_parts d = ''agent'' # r" using agent_scope_parts by blast
    then show ?thesis by (simp add: peer_safe_other(1))
  next
    case peer
    then show ?thesis using dirs(2) by (rule peer_target_safe [OF ctx actor stable])
  next
    case plain
    from plain(3) dirs(2) have "d = u" by simp
    with plain(1,2) dirs(3) show ?thesis using plain_target_safe [OF ctx stable] by blast
  qed
qed

lemma canonicalize_targets_canonical:
  "canonicalize_target_uris items ctx acc = Inr us \<Longrightarrow> u \<in> set us \<Longrightarrow>
     u \<in> set acc \<or> (\<exists>u0. canonicalize_uri u0 (Some ctx) = Inr u)"
proof (induction items ctx acc rule: canonicalize_target_uris.induct)
  case (2 item items ctx acc)
  then show ?case by (auto split: if_splits sum.splits uri_error.splits)
qed simp

lemma fold_dedupe_set: "set (foldl (\<lambda>ds d. if d \<notin> set ds then ds @ [d] else ds) acc dirs) = set acc \<union> set dirs"
  by (induction dirs arbitrary: acc) auto

lemma collect_targets_from:
  "collect_targets us ctx acc = Inr ds \<Longrightarrow> d \<in> set ds \<Longrightarrow>
     d \<in> set acc \<or> (\<exists>u \<in> set us. \<exists>dirs. target_directories_for_uri u ctx = Inr dirs \<and> d \<in> set dirs)"
proof (induction us ctx acc rule: collect_targets.induct)
  case (2 u us ctx acc)
  then obtain dirs where "target_directories_for_uri u ctx = Inr dirs"
    "collect_targets us ctx (foldl (\<lambda>ds d. if d \<notin> set ds then ds @ [d] else ds) acc dirs) = Inr ds"
    by (auto simp: raise_iff)
  with 2 show ?case by (fastforce simp: fold_dedupe_set)
qed simp

text \<open>Property C8 (safety): a search under an actor peer looks at no other peer.  Whatever target URIs the
  request names, no directory that resolve_retrieval_targets returns is another peer's, lies inside one or
  contains one, with one exception: the root viking:// itself.\<close>

theorem retrieval_hides_peers:
  assumes ctx: "valid_ctx ctx" and actor: "rc_actor_peer_id ctx = Some actor"
    and res: "resolve_retrieval_targets uris ctx = Inr r"
    and d: "d \<in> set (target_directories r)" "d \<noteq> ''viking://''" and p: "p \<noteq> actor"
  shows "\<not> prefix (uri_parts d) [''user'', ui_user_id (rc_user ctx), ''peers'', p] \<and>
     \<not> prefix [''user'', ui_user_id (rc_user ctx), ''peers'', p] (uri_parts d)"
proof -
  obtain us where us: "canonicalize_target_uris uris ctx [] = Inr us"
    using res by (auto simp: resolve_retrieval_targets_def raise_iff)
  have "peer_safe ctx actor (uri_parts d)"
  proof (cases "us = []")
    case True
    have "segment actor" by (rule valid_ctx_actor [OF ctx actor])
    with True us res d(1) actor have "d = ''viking://resources'' \<or> d \<in> set (default_user_root_targets ctx)"
      by (auto simp: resolve_retrieval_targets_def default_target_directories_def has_actor_def segment_def
          Let_def split: if_splits)
    moreover have "uri_parts ''viking://resources'' = [''resources'']" by code_simp
    ultimately show ?thesis
      using actor_targets_safe [OF ctx actor, of d] by (auto intro: peer_safe_other)
  next
    case False
    with us res have "collect_targets us ctx [] = Inr (target_directories r)"
      by (auto simp: resolve_retrieval_targets_def raise_iff)
    from collect_targets_from [OF this d(1)] obtain u dirs where "u \<in> set us"
      "target_directories_for_uri u ctx = Inr dirs" "d \<in> set dirs" by auto
    with canonicalize_targets_canonical [OF us, of u] target_directories_safe [OF ctx actor] d(2)
    show ?thesis by auto
  qed
  with p show ?thesis by (simp add: peer_safe_def)
qed

theorem retrieval_hides_peers_witness:
  "\<not> prefix (uri_parts ''viking://user/alice/peers/bob/memories'') [''user'', ''alice'', ''peers'', ''eve''] \<and>
   \<not> prefix [''user'', ''alice'', ''peers'', ''eve''] (uri_parts ''viking://user/alice/peers/bob/memories'')"
proof -
  have "resolve_retrieval_targets [''user/peers'', ''viking://resources/x''] sample_ctx =
      Inr \<lparr>target_directories = [''viking://user/alice/peers/bob/memories'',
             ''viking://user/alice/peers/bob/resources'', ''viking://resources/x''],
           first_explicit_directory = ''viking://user/alice/peers/bob/memories''\<rparr>"
    by code_simp
  from retrieval_hides_peers [OF sample_ctx_valid(1) _ this, of "''bob''"
      "''viking://user/alice/peers/bob/memories''" "''eve''"]
  show ?thesis by (simp add: sample_ctx_def)
qed

text \<open>
  The exception: the root is left out only when it is written viking:// or /; written with more slashes it
  becomes an explicit target, and the search runs over the whole tree, all peers included.
\<close>

lemma search_root_by_slashes:
  "resolve_retrieval_targets [''viking:///''] sample_ctx =
     Inr \<lparr>target_directories = [''viking://''], first_explicit_directory = ''viking://''\<rparr>"
  "may_include_hidden_actor_peers ''viking://'' sample_ctx = Inr False"
  by code_simp+

section \<open>URI objects\<close>

definition wf_viking_uri :: "viking_uri \<Rightarrow> bool" where
  "wf_viking_uri v \<longleftrightarrow>
     (\<exists>b. vu_uri v = SCHEME_PREFIX @ b \<and>
        (if segments b = [] then vu_scope v = [] \<and> vu_full_path v = []
         else vu_scope v \<in> set VISITABLE_SCOPES \<and> vu_scope v = hd (py_split (CHR ''/'') b) \<and> vu_full_path v = b))"

definition vu_segments :: "viking_uri \<Rightarrow> string list" where
  "vu_segments v = segments (vu_full_path v)"

lemma hd_split_append [simp]: "hd (py_split c (a @ c # b)) = hd (py_split c a)"
  by (simp add: split_append_sep)

lemma hd_split_rstrip [simp]: "hd (py_split c (py_rstrip c s)) = hd (py_split c s)"
  by (induction s rule: rev_induct) (auto simp: py_str_simps)

lemma visitable_nonempty: "[] \<notin> set VISITABLE_SCOPES"
  by (simp add: VISITABLE_SCOPES_def PUBLIC_SCOPES_def LEGACY_SCOPES_def INTERNAL_SCOPES_def)

text \<open>The constructor on a full URI, and when it raises.\<close>

lemma new_viking_uri_full:
  "new_viking_uri (SCHEME_PREFIX @ b) =
     (if segments b = [] then Inr \<lparr>vu_uri = SCHEME_PREFIX @ b, vu_scope = [], vu_full_path = []\<rparr>
      else if hd (py_split (CHR ''/'') b) \<notin> set VISITABLE_SCOPES
      then Inl (UriValueError (''Invalid scope '' @ quoted (hd (py_split (CHR ''/'') b))))
      else Inr \<lparr>vu_uri = SCHEME_PREFIX @ b, vu_scope = hd (py_split (CHR ''/'') b), vu_full_path = b\<rparr>)"
  by (simp add: new_viking_uri_def viking_normalize_def viking_parse_def segments_Nil_iff Let_def)

lemma new_viking_uri_wf:
  assumes "new_viking_uri u = Inr v"
  shows "wf_viking_uri v" "vu_segments v = segments (uri_body u)"
proof -
  obtain b where b: "viking_normalize u = SCHEME_PREFIX @ b" "segments b = segments (uri_body u)"
    by (rule normalize_split)
  have "new_viking_uri (SCHEME_PREFIX @ b) = Inr v"
    using assms normalize_idem [of u] by (simp only: new_viking_uri_def b(1))
  note v = this [unfolded new_viking_uri_full]
  have "wf_viking_uri v \<and> vu_segments v = segments (uri_body u)"
  proof (cases "segments b = []")
    case True
    with v have "v = \<lparr>vu_uri = SCHEME_PREFIX @ b, vu_scope = [], vu_full_path = []\<rparr>" by simp
    with True b(2) show ?thesis
      by (simp add: wf_viking_uri_def vu_segments_def)
  next
    case False
    with v have "hd (py_split (CHR ''/'') b) \<in> set VISITABLE_SCOPES"
      "v = \<lparr>vu_uri = SCHEME_PREFIX @ b, vu_scope = hd (py_split (CHR ''/'') b), vu_full_path = b\<rparr>"
      by (simp_all split: if_splits)
    with False b(2) show ?thesis
      by (simp add: wf_viking_uri_def vu_segments_def)
  qed
  then show "wf_viking_uri v" "vu_segments v = segments (uri_body u)" by blast+
qed

lemma new_viking_uri_ok:
  assumes "segments b = [] \<or> hd (py_split (CHR ''/'') b) \<in> set VISITABLE_SCOPES"
  obtains v where "new_viking_uri (SCHEME_PREFIX @ b) = Inr v" "wf_viking_uri v" "vu_segments v = segments b"
proof -
  have "\<exists>v. new_viking_uri (SCHEME_PREFIX @ b) = Inr v"
    using assms by (cases "segments b = []") (simp_all add: new_viking_uri_full)
  then obtain v where v: "new_viking_uri (SCHEME_PREFIX @ b) = Inr v" by blast
  with new_viking_uri_wf [OF v] that show thesis by simp
qed

lemma find_upt:
  "k < n \<Longrightarrow> P k \<Longrightarrow> (\<And>j. j < k \<Longrightarrow> \<not> P j) \<Longrightarrow> find P [0..<n] = Some k"
  by (auto simp: find_Some_iff intro!: exI [of _ k])

lemma find_scheme: "py_find (SCHEME_PREFIX @ x) ''://'' = Some 6"
proof -
  have at: "py_startswith (drop 6 (SCHEME_PREFIX @ x)) ''://''"
    by (simp add: SCHEME_PREFIX_def py_startswith_def)
  have before: "\<not> py_startswith (drop j (SCHEME_PREFIX @ x)) ''://''" if "j < 6" for j
  proof -
    from that have "j \<in> {0, 1, 2, 3, 4, 5}" by auto
    then show ?thesis by (elim insertE) (simp_all add: SCHEME_PREFIX_def py_startswith_def)
  qed
  have "6 < Suc (length (SCHEME_PREFIX @ x))" by (simp add: SCHEME_PREFIX_def)
  with at before show ?thesis unfolding py_find_def by (intro find_upt)
qed

lemma parent_of_wf:
  assumes "wf_viking_uri v"
  shows "(vu_segments v = [] \<and> vu_parent v = Inr None) \<or>
    (\<exists>w. vu_parent v = Inr (Some w) \<and> wf_viking_uri w \<and> vu_segments v \<noteq> [] \<and>
      vu_segments w = butlast (vu_segments v))"
proof -
  obtain b where b: "vu_uri v = SCHEME_PREFIX @ b" and
    fields: "if segments b = [] then vu_scope v = [] \<and> vu_full_path v = []
      else vu_scope v \<in> set VISITABLE_SCOPES \<and> vu_scope v = hd (py_split (CHR ''/'') b) \<and> vu_full_path v = b"
    using assms by (auto simp: wf_viking_uri_def)
  show ?thesis
  proof (cases "segments b = []")
    case True
    have "py_find ''viking:'' ''://'' = None" by code_simp
    with True b fields show ?thesis by (simp add: vu_parent_def rstrip_scheme vu_segments_def)
  next
    case False
    define r where "r = py_rstrip (CHR ''/'') b"
    have r: "segments r = segments b" "r \<noteq> []" "last r \<noteq> CHR ''/''"
      "hd (py_split (CHR ''/'') r) \<in> set VISITABLE_SCOPES"
      using False fields rstrip_no_suffix [of "CHR ''/''" b] by (auto simp: r_def) (metis segments_Nil segments_rstrip)+
    have u: "py_rstrip (CHR ''/'') (vu_uri v) = SCHEME_PREFIX @ r"
      using False by (simp add: b rstrip_scheme r_def)
    have drop: "drop (6 + 3) (SCHEME_PREFIX @ r) = r" by (simp add: SCHEME_PREFIX_def)
    have segs: "vu_segments v = segments r" using False fields r(1) by (simp add: vu_segments_def)
    show ?thesis
    proof (cases "CHR ''/'' \<in> set r")
      case True
      then obtain r' l where rl: "r = r' @ CHR ''/'' # l" "CHR ''/'' \<notin> set l" by (meson split_list_last)
      with r(3) have "l \<noteq> []" by auto
      have "hd (py_split (CHR ''/'') r') \<in> set VISITABLE_SCOPES" using r(4) rl(1) by simp
      then obtain w where w: "new_viking_uri (SCHEME_PREFIX @ r') = Inr w" "wf_viking_uri w"
        "vu_segments w = segments r'" using new_viking_uri_ok [of r'] by blast
      have "py_rsplit1 (CHR ''/'') (SCHEME_PREFIX @ r) = Some (SCHEME_PREFIX @ r', l)"
        using rsplit1_append [OF rl(2), of "SCHEME_PREFIX @ r'"] rl(1) by simp
      then have "vu_parent v = Inr (Some w)"
        unfolding vu_parent_def u Let_def find_scheme option.case drop using True w(1) by simp
      moreover have "segments r = segments r' @ [l]" using rl \<open>l \<noteq> []\<close> by simp
      ultimately show ?thesis using w segs by auto
    next
      case no: False
      obtain w where w: "new_viking_uri (SCHEME_PREFIX @ []) = Inr w" "wf_viking_uri w" "vu_segments w = []"
        using new_viking_uri_ok [of "[]"] by auto
      then have "vu_parent v = Inr (Some w)"
        unfolding vu_parent_def u Let_def find_scheme option.case drop using no r(2) by simp
      moreover have "segments r = [r]" using no r(2) by simp
      ultimately show ?thesis using w segs by auto
    qed
  qed
qed

lemma strip_slashes_hd:
  assumes "strip_slashes s \<noteq> []"
  shows "hd (strip_slashes s) \<noteq> CHR ''/''"
proof -
  let ?t = "py_lstrip (CHR ''/'') s"
  have "?t = strip_slashes s @ rev (takeWhile (\<lambda>x. x = CHR ''/'') (rev ?t))"
    unfolding strip_slashes_def py_rstrip_def by (metis rev_append rev_rev_ident takeWhile_dropWhile_id)
  with assms have "?t \<noteq> []" "hd ?t = hd (strip_slashes s)" by (metis append_is_Nil_conv, metis hd_append2)
  then show ?thesis using hd_dropWhile [of "\<lambda>x. x = CHR ''/''" s] by (simp add: py_lstrip_def)
qed

lemma hd_segments:
  assumes "q \<noteq> []" "hd q \<noteq> CHR ''/''"
  shows "hd (py_split (CHR ''/'') q) = hd (segments q)"
proof -
  obtain c cs where "q = c # cs" "c \<noteq> CHR ''/''" using assms by (cases q) auto
  moreover obtain seg rest where "py_split (CHR ''/'') cs = seg # rest"
    by (cases "py_split (CHR ''/'') cs") auto
  ultimately show ?thesis by (simp add: segments_def)
qed

lemma join_of_wf:
  assumes "wf_viking_uri v"
  shows "(\<exists>w. vu_join v part = Inr w \<and> wf_viking_uri w \<and> vu_segments w = vu_segments v @ segments part) \<or>
    (\<exists>e. vu_join v part = Inl e \<and> vu_segments v = [] \<and> segments part \<noteq> [] \<and>
      hd (segments part) \<notin> set VISITABLE_SCOPES)"
proof (cases "strip_slashes part = []")
  case True
  then have "segments part = []" by (simp add: segments_Nil_iff)
  with True assms show ?thesis by (simp add: vu_join_def)
next
  case False
  define q where "q = strip_slashes part"
  define full where "full = py_rstrip (CHR ''/'') (vu_full_path v)"
  have q: "q \<noteq> []" "segments q = segments part" "segments part \<noteq> []"
    using False by (simp_all add: q_def segments_Nil_iff)
  have fs: "segments full = vu_segments v" by (simp add: full_def vu_segments_def)
  show ?thesis
  proof (cases "full = []")
    case False
    have "hd (py_split (CHR ''/'') full) \<in> set VISITABLE_SCOPES"
      using assms False unfolding full_def hd_split_rstrip
      by (auto simp: wf_viking_uri_def py_str_simps split: if_splits)
    then obtain w where "new_viking_uri (SCHEME_PREFIX @ full @ ''/'' @ q) = Inr w" "wf_viking_uri w"
      "vu_segments w = segments full @ segments q"
      using new_viking_uri_ok [of "full @ ''/'' @ q"] by auto
    with False q fs show ?thesis by (simp add: vu_join_def q_def full_def)
  next
    case True
    have hd: "hd (py_split (CHR ''/'') q) = hd (segments q)"
      using q(1) strip_slashes_hd [of part] by (simp add: q_def hd_segments)
    have join: "vu_join v part = new_viking_uri (SCHEME_PREFIX @ q)"
      using True q by (simp add: vu_join_def q_def full_def)
    show ?thesis
    proof (cases "hd (segments q) \<in> set VISITABLE_SCOPES")
      case ok: True
      then obtain w where "new_viking_uri (SCHEME_PREFIX @ q) = Inr w" "wf_viking_uri w" "vu_segments w = segments q"
        using new_viking_uri_ok [of q] hd by auto
      with join q fs True show ?thesis by simp
    next
      case bad: False
      with hd q have "\<exists>e. new_viking_uri (SCHEME_PREFIX @ q) = Inl e" by (simp add: new_viking_uri_full)
      with join q fs True bad show ?thesis by auto
    qed
  qed
qed

text \<open>Property C20 (type): URI objects keep their form.  Every VikingURI that the constructor returns has the
  scheme and either no scope, with nothing but slashes after the scheme, or one of the known scopes as its
  first segment.  On such an object parent never raises: it is None exactly at the root and otherwise an
  object of this form with the last segment removed; join appends the segments of the part, and raises only
  at the root, when the part does not begin with a known scope.\<close>

theorem viking_uri_objects:
  "(\<forall>v. new_viking_uri u = Inr v \<longrightarrow> wf_viking_uri v \<and> vu_segments v = segments (uri_body u)) \<and>
   (\<forall>v. wf_viking_uri v \<longrightarrow>
     (case vu_parent v of
        Inl _ \<Rightarrow> False
      | Inr None \<Rightarrow> vu_segments v = []
      | Inr (Some w) \<Rightarrow> wf_viking_uri w \<and> vu_segments v \<noteq> [] \<and> vu_segments w = butlast (vu_segments v)) \<and>
     (case vu_join v part of
        Inl _ \<Rightarrow> vu_segments v = [] \<and> hd (segments part) \<notin> set VISITABLE_SCOPES
      | Inr w \<Rightarrow> wf_viking_uri w \<and> vu_segments w = vu_segments v @ segments part))"
proof -
  have parent: "case vu_parent v of
        Inl _ \<Rightarrow> False
      | Inr None \<Rightarrow> vu_segments v = []
      | Inr (Some w) \<Rightarrow> wf_viking_uri w \<and> vu_segments v \<noteq> [] \<and> vu_segments w = butlast (vu_segments v)"
    if "wf_viking_uri v" for v
    using parent_of_wf [OF that] by auto
  have join: "case vu_join v part of
        Inl _ \<Rightarrow> vu_segments v = [] \<and> hd (segments part) \<notin> set VISITABLE_SCOPES
      | Inr w \<Rightarrow> wf_viking_uri w \<and> vu_segments w = vu_segments v @ segments part"
    if "wf_viking_uri v" for v
    using join_of_wf [OF that, of part] by auto
  show ?thesis using new_viking_uri_wf parent join by blast
qed

theorem viking_uri_objects_witness:
  "wf_viking_uri \<lparr>vu_uri = ''viking://user/alice'', vu_scope = ''user'', vu_full_path = ''user/alice''\<rparr>"
proof -
  have "new_viking_uri ''/user/alice'' =
      Inr \<lparr>vu_uri = ''viking://user/alice'', vu_scope = ''user'', vu_full_path = ''user/alice''\<rparr>"
    by code_simp
  with viking_uri_objects [of "''/user/alice''" "[]"] show ?thesis by blast
qed

section \<open>Segments made from text\<close>

lemma merge_subset: "set (merge_underscores s) \<subseteq> set s"
  by (induction s rule: merge_underscores.induct) auto

lemma strip_set_subset: "set (strip_set A s) \<subseteq> set s"
  by (auto simp: strip_set_def dest!: set_dropWhileD)

lemma segment_char_no_sep: "segment_char c \<Longrightarrow> c \<noteq> CHR ''/'' \<and> c \<noteq> CHR ''?''"
  by (auto simp: segment_char_def ascii_alnum_def)

lemma sanitize_segment_ok:
  "sanitize_segment s \<noteq> [] \<and> length (sanitize_segment s) \<le> 50 \<and> segment (sanitize_segment s)"
proof -
  define safe where
    "safe = take 50 (strip_set {CHR ''_'', CHR ''.''}
       (merge_underscores (map (\<lambda>c. if segment_char c then c else CHR ''_'') s)))"
  have "set safe \<subseteq> set (map (\<lambda>c. if segment_char c then c else CHR ''_'') s)"
    unfolding safe_def using set_take_subset strip_set_subset merge_subset by (meson order_trans)
  then have "\<forall>c \<in> set safe. c \<noteq> CHR ''/'' \<and> c \<noteq> CHR ''?''"
    using segment_char_no_sep by fastforce
  then have "safe \<noteq> [] \<Longrightarrow> segment safe" by (auto simp: segment_def)
  moreover have "length safe \<le> 50" by (simp add: safe_def)
  moreover have "sanitize_segment s = (if safe = [] then ''unnamed'' else safe)"
    by (simp add: sanitize_segment_def safe_def Let_def)
  ultimately show ?thesis by (auto simp: segment_def)
qed

text \<open>
  The length limit is applied after the stripping, so that a cut name may end in an underscore again:
  sanitising is not idempotent.
\<close>

lemma sanitize_not_idempotent:
  "let s = sanitize_segment (replicate 49 (CHR ''a'') @ ''_b'')
   in last s = CHR ''_'' \<and> sanitize_segment s \<noteq> s"
  by code_simp

text \<open>An id with a line feed at its end passes the pattern.\<close>

lemma newline_id_valid: "validate_user_id (''alice'' @ [CHR 0x0A]) = None"
  by code_simp

end
