(* ===== verification/Retention.thy ===== *)
theory Retention
  imports Py_Prelude Complex_Main
begin

text \<open>
  Token estimation (\<^verbatim>\<open>openviking/utils/token_estimation.py\<close>), the messages of a session as far as the
  planner looks at them (\<^verbatim>\<open>openviking/message/\<close>) and turn-aware retention
  (\<^verbatim>\<open>openviking/session/retention.py\<close>).

  Texts are lists of code points, all of Unicode.  Weights are counted in quarters of a token, so the
  sums of the source, which are exact in binary floating point, are natural numbers.  A tool input is the
  JSON text it is serialised to; \<open>None\<close> stands for a missing or empty one.  A message object has its
  identity (Python's \<^verbatim>\<open>id\<close>) as the field \<open>m_ref\<close>; fields the planner never reads are left out.
\<close>

type_synonym unicode = "nat list"

section \<open>Token estimation\<close>

definition is_cjk_code_point :: "nat \<Rightarrow> bool" where
  "is_cjk_code_point c \<longleftrightarrow>
     (0x3400 \<le> c \<and> c \<le> 0x4DBF) \<or> (0x4E00 \<le> c \<and> c \<le> 0x9FFF) \<or> (0xF900 \<le> c \<and> c \<le> 0xFAFF) \<or>
     (0x20000 \<le> c \<and> c \<le> 0x2EBEF) \<or> (0x3040 \<le> c \<and> c \<le> 0x30FF) \<or> (0x31F0 \<le> c \<and> c \<le> 0x31FF) \<or>
     (0xAC00 \<le> c \<and> c \<le> 0xD7AF) \<or> (0x1100 \<le> c \<and> c \<le> 0x11FF) \<or> (0x3130 \<le> c \<and> c \<le> 0x318F) \<or>
     (0xFF00 \<le> c \<and> c \<le> 0xFFEF) \<or> (0x3000 \<le> c \<and> c \<le> 0x303F)"

definition code_point_weight :: "nat \<Rightarrow> nat" where
  "code_point_weight c = (if is_cjk_code_point c then 6 else if 0xFFFF < c then 8 else 1)"

text \<open>The tables are compared as integers when they are evaluated.\<close>

lemma is_cjk_code_point_code [code]:
  "is_cjk_code_point c =
     (let i = int c in list_ex (\<lambda>(low, high). low \<le> i \<and> i \<le> high)
        [(0x3400, 0x4DBF), (0x4E00, 0x9FFF), (0xF900, 0xFAFF), (0x20000, 0x2EBEF), (0x3040, 0x30FF), (0x31F0, 0x31FF),
         (0xAC00, 0xD7AF), (0x1100, 0x11FF), (0x3130, 0x318F), (0xFF00, 0xFFEF), (0x3000, 0x303F)])"
  by (simp add: is_cjk_code_point_def)

lemma code_point_weight_code [code]:
  "code_point_weight c = (if is_cjk_code_point c then 6 else if 0xFFFF < int c then 8 else 1)"
  by (simp add: code_point_weight_def)

definition text_weight :: "unicode \<Rightarrow> nat" where
  "text_weight t = sum_list (map code_point_weight t)"

definition estimate_text_tokens :: "unicode \<Rightarrow> nat" where
  "estimate_text_tokens t = (text_weight t + 3) div 4"

function prefix_length_loop :: "unicode \<Rightarrow> nat \<Rightarrow> nat \<Rightarrow> nat \<Rightarrow> nat" where
  "prefix_length_loop value budget low high =
     (if low < high
      then let mid = (low + high + 1) div 2
           in if estimate_text_tokens (take mid value) \<le> budget
              then prefix_length_loop value budget mid high
              else prefix_length_loop value budget low (mid - 1)
      else low)"
  by auto
termination by (relation "measure (\<lambda>(_, _, low, high). high - low)") auto

declare prefix_length_loop.simps [simp del]

definition prefix_length :: "unicode \<Rightarrow> nat \<Rightarrow> nat" where
  "prefix_length value budget = prefix_length_loop value budget 0 (length value)"

text \<open>The white space that \<^verbatim>\<open>rstrip\<close> and \<^verbatim>\<open>lstrip\<close> remove.\<close>

definition white_space :: "nat \<Rightarrow> bool" where
  "white_space c \<longleftrightarrow>
     c \<in> {9, 10, 11, 12, 13, 28, 29, 30, 31, 32, 0x85, 0xA0, 0x1680, 0x2028, 0x2029, 0x202F, 0x205F, 0x3000} \<or>
     (0x2000 \<le> c \<and> c \<le> 0x200A)"

lemma white_space_code [code]:
  "white_space c =
     (let i = int c in list_ex (\<lambda>x. i = x)
        [9, 10, 11, 12, 13, 28, 29, 30, 31, 32, 0x85, 0xA0, 0x1680, 0x2028, 0x2029, 0x202F, 0x205F, 0x3000] \<or>
        (0x2000 \<le> i \<and> i \<le> 0x200A))"
  by (auto simp: white_space_def)

definition MARKER :: unicode where "MARKER = [10, 0x2026, 10]"

definition truncate_text_to_token_budget :: "unicode \<Rightarrow> nat \<Rightarrow> unicode \<Rightarrow> rat \<Rightarrow> unicode" where
  "truncate_text_to_token_budget s max_tokens marker0 head_ratio =
     (if s = [] \<or> estimate_text_tokens s \<le> max_tokens then s
      else if max_tokens = 0 then []
      else
        let marker = (if max_tokens \<le> estimate_text_tokens marker0 then [] else marker0);
            marker_tokens = (if max_tokens \<le> estimate_text_tokens marker0 then 0 else estimate_text_tokens marker0);
            content_tokens = max_tokens - marker_tokens;
            bounded_head_ratio = min (max head_ratio 0) 1;
            head_tokens = nat \<lfloor>of_nat content_tokens * bounded_head_ratio\<rfloor>;
            tail_tokens = content_tokens - head_tokens;
            head_end = prefix_length s head_tokens;
            remaining = drop head_end s;
            tail_length = prefix_length (rev remaining) tail_tokens;
            tail = (if tail_length \<noteq> 0 then drop (length remaining - tail_length) remaining else [])
        in rev (dropWhile white_space (rev (take head_end s))) @ marker @ dropWhile white_space tail)"

section \<open>Messages\<close>

record tool_part =
  tp_id :: unicode
  tp_name :: unicode
  tp_input :: "unicode option"
  tp_output :: unicode
  tp_output_truncated :: bool
  tp_output_original_chars :: "nat option"
  tp_output_preview_chars :: "nat option"

datatype part =
    TextPart unicode
  | ContextPart string unicode
  | ImagePart string
  | ToolPart tool_part

record message =
  m_ref :: nat
  m_id :: string
  m_role :: string
  m_parts :: "part list"
  m_kind :: "string option"

fun part_text :: "part \<Rightarrow> unicode" where
  "part_text (TextPart t) = t"
| "part_text (ContextPart _ a) = a"
| "part_text (ImagePart _) = []"
| "part_text (ToolPart tp) =
     tp_id tp @ tp_name tp @ (case tp_input tp of None \<Rightarrow> [] | Some j \<Rightarrow> j) @ tp_output tp"

definition estimated_tokens :: "message \<Rightarrow> nat" where
  "estimated_tokens m = estimate_text_tokens (concat (map part_text (m_parts m)))"

section \<open>Turns\<close>

definition is_tool :: "part \<Rightarrow> bool" where
  "is_tool p = (case p of ToolPart _ \<Rightarrow> True | _ \<Rightarrow> False)"

definition is_tool_transport :: "message \<Rightarrow> bool" where
  "is_tool_transport m =
     (if m_kind m = Some ''tool_transport'' then True
      else if m_kind m = Some ''user_query'' then False
      else m_parts m \<noteq> [] \<and> m_role m = ''user'' \<and> list_all is_tool (m_parts m))"

definition is_user_query :: "message \<Rightarrow> bool" where
  "is_user_query m =
     (if m_kind m = Some ''user_query'' then True
      else if m_kind m = Some ''tool_transport'' then False
      else m_role m = ''user'' \<and> \<not> is_tool_transport m)"

text \<open>An assistant step is the list of its messages.\<close>

type_synonym assistant_step = "message list"

record user_turn =
  ut_anchor :: "message option"
  ut_steps :: "assistant_step list"

definition message_tokens :: "message list \<Rightarrow> nat" where
  "message_tokens ms = sum_list (map estimated_tokens ms)"

definition turn_messages :: "user_turn \<Rightarrow> message list" where
  "turn_messages t = (case ut_anchor t of None \<Rightarrow> [] | Some a \<Rightarrow> [a]) @ concat (ut_steps t)"

definition turn_tokens :: "user_turn \<Rightarrow> nat" where
  "turn_tokens t = message_tokens (turn_messages t)"

definition append_to_turn :: "user_turn \<Rightarrow> message \<Rightarrow> user_turn" where
  "append_to_turn t m =
     (if is_tool_transport m \<and> ut_steps t \<noteq> []
      then t\<lparr>ut_steps := butlast (ut_steps t) @ [last (ut_steps t) @ [m]]\<rparr>
      else if m_role m = ''assistant'' then t\<lparr>ut_steps := ut_steps t @ [[m]]\<rparr>
      else t\<lparr>ut_steps := ut_steps t @ [[m]]\<rparr>)"

definition add_message :: "user_turn list \<Rightarrow> message \<Rightarrow> user_turn list" where
  "add_message turns m =
     (if is_user_query m then turns @ [\<lparr>ut_anchor = Some m, ut_steps = []\<rparr>]
      else if turns = [] then [append_to_turn \<lparr>ut_anchor = None, ut_steps = []\<rparr> m]
      else butlast turns @ [append_to_turn (last turns) m])"

definition build_turns :: "message list \<Rightarrow> user_turn list" where
  "build_turns ms = foldl add_message [] ms"

definition flatten_turns :: "user_turn list \<Rightarrow> message list" where
  "flatten_turns turns = concat (map turn_messages turns)"

section \<open>Planning retention\<close>

record retention_plan =
  archive_messages :: "message list"
  retained_messages :: "message list"
  turn_anchor :: "message option"
  checkpoint_source_message_ids :: "string list"
  raw_tail_start_message_id :: "string option"
  estimated_active_tokens :: nat
  budget_exceeded :: bool
  partial_turn :: bool

definition plain_plan :: "message list \<Rightarrow> message list \<Rightarrow> nat \<Rightarrow> retention_plan" where
  "plain_plan archived retained toks =
     \<lparr>archive_messages = archived, retained_messages = retained, turn_anchor = None,
      checkpoint_source_message_ids = [], raw_tail_start_message_id = None, estimated_active_tokens = toks,
      budget_exceeded = False, partial_turn = False\<rparr>"

definition CHECKPOINT_TOKEN_RESERVE :: nat where "CHECKPOINT_TOKEN_RESERVE = 1024"

text \<open>
  The loop over the steps before the mandatory tail, newest first; \<open>rest\<close> are these steps in reverse order.
\<close>

fun extend_tail :: "nat \<Rightarrow> assistant_step list \<Rightarrow> assistant_step list \<Rightarrow> nat \<Rightarrow> assistant_step list \<times> assistant_step list"
where
  "extend_tail raw_budget [] retained toks = ([], retained)"
| "extend_tail raw_budget (candidate # rest) retained toks =
     (if raw_budget < toks + message_tokens candidate then (rev (candidate # rest), retained)
      else extend_tail raw_budget rest (candidate # retained) (toks + message_tokens candidate))"

definition partial_latest_turn_plan :: "user_turn list \<Rightarrow> user_turn \<Rightarrow> nat \<Rightarrow> int \<Rightarrow> retention_plan" where
  "partial_latest_turn_plan older_turns latest_turn token_budget min_raw_tail_steps =
     (let anchor = ut_anchor latest_turn;
          steps = ut_steps latest_turn;
          min_tail = (if steps \<noteq> [] then nat (max 1 min_raw_tail_steps) else 0);
          tail = drop (length steps - min_tail) steps;
          toks = (case anchor of None \<Rightarrow> 0 | Some a \<Rightarrow> estimated_tokens a) + sum_list (map message_tokens tail);
          checkpoint_reserve = min CHECKPOINT_TOKEN_RESERVE (token_budget div 4);
          raw_budget = token_budget - checkpoint_reserve;
          (archived_prefix, retained_steps) =
            extend_tail raw_budget (rev (take (length steps - min_tail) steps)) tail toks;
          archived_source_messages = concat archived_prefix;
          retained = (case anchor of None \<Rightarrow> [] | Some a \<Rightarrow> [a]) @ concat retained_steps;
          archived = flatten_turns older_turns @
            (if archived_source_messages \<noteq> []
             then (case anchor of None \<Rightarrow> [] | Some a \<Rightarrow> [a]) @ archived_source_messages else []);
          active_tokens = message_tokens retained
      in \<lparr>archive_messages = archived, retained_messages = retained, turn_anchor = anchor,
          checkpoint_source_message_ids = map m_id archived_source_messages,
          raw_tail_start_message_id =
            (case retained_steps of (m # _) # _ \<Rightarrow> Some (m_id m) | _ \<Rightarrow> None),
          estimated_active_tokens = active_tokens, budget_exceeded = token_budget < active_tokens,
          partial_turn = (archived_source_messages \<noteq> [])\<rparr>)"

text \<open>The loop that evicts the oldest retained turns; the newest one always stays.\<close>

fun evict_turns :: "nat \<Rightarrow> user_turn list \<Rightarrow> user_turn list \<Rightarrow> user_turn list \<times> user_turn list" where
  "evict_turns budget older (t # u # rest) =
     (if budget < sum_list (map turn_tokens (t # u # rest)) then evict_turns budget (older @ [t]) (u # rest)
      else (older, t # u # rest))"
| "evict_turns budget older retained = (older, retained)"

definition plan_retention :: "message list \<Rightarrow> int \<Rightarrow> int \<Rightarrow> int \<Rightarrow> retention_plan" where
  "plan_retention messages keep_recent_turn_count0 token_budget0 min_raw_tail_steps =
     (let keep_recent_turn_count = nat keep_recent_turn_count0;
          token_budget = nat token_budget0;
          turns = build_turns messages
      in if turns = [] \<or> keep_recent_turn_count = 0 then plain_plan messages [] 0
         else
           let selected_start = length turns - keep_recent_turn_count;
               (older_turns, retained_turns) =
                 evict_turns token_budget (take selected_start turns) (drop selected_start turns);
               latest_turn = last retained_turns
           in if token_budget < turn_tokens latest_turn
              then (if ut_anchor latest_turn = None
                    then plain_plan (flatten_turns (older_turns @ [latest_turn])) [] 0
                    else partial_latest_turn_plan older_turns latest_turn token_budget min_raw_tail_steps)
              else
                let retained = flatten_turns retained_turns
                in plain_plan (flatten_turns older_turns) retained (message_tokens retained))"

end
