(* ===== verification/Active_Budget.thy ===== *)
theory Active_Budget
  imports Retention
begin

text \<open>
  The budgeted view of a session's active messages: \<^verbatim>\<open>fit_active_messages_to_budget\<close> of
  \<^verbatim>\<open>openviking/session/retention.py\<close> with the shortening of one group of messages.  A part of a copied
  message is addressed by the positions of the message and of the part.
\<close>

section \<open>Shortening a group\<close>

fun slot_text :: "part \<Rightarrow> unicode option" where
  "slot_text (TextPart t) = Some t"
| "slot_text (ContextPart _ a) = Some a"
| "slot_text (ToolPart tp) = Some (tp_output tp)"
| "slot_text (ImagePart _) = None"

fun set_slot :: "unicode \<Rightarrow> part \<Rightarrow> part" where
  "set_slot t (TextPart _) = TextPart t"
| "set_slot t (ContextPart u _) = ContextPart u t"
| "set_slot t (ToolPart tp) = ToolPart (tp\<lparr>tp_output := t\<rparr>)"
| "set_slot t (ImagePart u) = ImagePart u"

definition update_part :: "nat \<Rightarrow> nat \<Rightarrow> (part \<Rightarrow> part) \<Rightarrow> message list \<Rightarrow> message list" where
  "update_part i j f ms = ms[i := (ms ! i)\<lparr>m_parts := (m_parts (ms ! i))[j := f (m_parts (ms ! i) ! j)]\<rparr>]"

text \<open>All positions of parts, in the order of the messages.\<close>

definition positions :: "message list \<Rightarrow> (nat \<times> nat) list" where
  "positions ms = concat (map (\<lambda>i. map (\<lambda>j. (i, j)) [0..<length (m_parts (ms ! i))]) [0..<length ms])"

definition part_at :: "message list \<Rightarrow> nat \<times> nat \<Rightarrow> part" where
  "part_at ms p = m_parts (ms ! fst p) ! snd p"

text \<open>The slots, newest first, with their original texts, and the copies with empty slots.\<close>

definition text_slots :: "message list \<Rightarrow> ((nat \<times> nat) \<times> unicode) list" where
  "text_slots ms =
     concat (map (\<lambda>p. case slot_text (part_at ms p) of None \<Rightarrow> [] | Some t \<Rightarrow> [(p, t)]) (rev (positions ms)))"

definition clear_slots :: "message list \<Rightarrow> message list" where
  "clear_slots ms = map (\<lambda>m. m\<lparr>m_parts := map (set_slot []) (m_parts m)\<rparr>) ms"

fun has_input :: "part \<Rightarrow> bool" where
  "has_input (ToolPart tp) = (tp_input tp \<noteq> None)"
| "has_input _ = False"

fun clear_input :: "part \<Rightarrow> part" where
  "clear_input (ToolPart tp) = ToolPart (tp\<lparr>tp_input := None\<rparr>)"
| "clear_input p = p"

fun drop_inputs ::
  "nat \<Rightarrow> (nat \<times> nat) list \<Rightarrow> message list \<times> string list \<Rightarrow> message list \<times> string list" where
  "drop_inputs budget [] (ms, ids) = (ms, ids)"
| "drop_inputs budget (p # ps) (ms, ids) =
     (if message_tokens ms \<le> budget then (ms, ids)
      else if has_input (part_at ms p)
      then drop_inputs budget ps (update_part (fst p) (snd p) clear_input ms, ids @ [m_id (ms ! fst p)])
      else drop_inputs budget ps (ms, ids))"

fun fill_slots :: "nat \<Rightarrow> ((nat \<times> nat) \<times> unicode) list \<Rightarrow> message list \<Rightarrow> message list" where
  "fill_slots budget [] ms = ms"
| "fill_slots budget ((p, original) # slots) ms =
     (if original = [] then fill_slots budget slots ms
      else
        let remaining = budget - message_tokens ms
        in if remaining = 0 then ms
           else fill_slots budget slots
                  (update_part (fst p) (snd p)
                    (set_slot (truncate_text_to_token_budget original remaining MARKER (3 / 4))) ms))"

fun mark_preview :: "nat \<Rightarrow> nat \<Rightarrow> part \<Rightarrow> part" where
  "mark_preview original fitted (ToolPart tp) =
     ToolPart (tp\<lparr>tp_output_truncated := True,
       tp_output_original_chars := (case tp_output_original_chars tp of None \<Rightarrow> Some original | c \<Rightarrow> c),
       tp_output_preview_chars := Some fitted\<rparr>)"
| "mark_preview original fitted p = p"

fun mark_slots ::
  "((nat \<times> nat) \<times> unicode) list \<Rightarrow> message list \<times> string list \<Rightarrow> message list \<times> string list" where
  "mark_slots [] (ms, ids) = (ms, ids)"
| "mark_slots ((p, original) # slots) (ms, ids) =
     (let fitted = slot_text (part_at ms p)
      in if fitted = Some original then mark_slots slots (ms, ids)
         else mark_slots slots
                (update_part (fst p) (snd p) (mark_preview (length original) (length (the fitted))) ms,
                 ids @ [m_id (ms ! fst p)]))"

definition truncate_message_group :: "message list \<Rightarrow> nat \<Rightarrow> message list \<times> string list" where
  "truncate_message_group messages token_budget =
     (if token_budget = 0 \<or> messages = [] then ([], [])
      else if message_tokens messages \<le> token_budget then (messages, [])
      else
        let slots = text_slots messages;
            (cloned, truncated_ids) = drop_inputs token_budget (positions messages) (clear_slots messages, [])
        in if token_budget < message_tokens cloned then ([], [])
           else
             let cloned = fill_slots token_budget slots cloned;
                 (cloned, truncated_ids) = mark_slots slots (cloned, truncated_ids)
             in if token_budget < message_tokens cloned then ([], [])
                else (cloned, sort (remdups truncated_ids)))"

section \<open>Selecting groups\<close>

record selection =
  sl_selected :: "(nat, message) dict"
  sl_truncated :: "string list"
  sl_used :: nat

record active_plan =
  ap_messages :: "message list"
  ap_estimated_tokens :: nat
  ap_dropped_message_ids :: "string list"
  ap_truncated_message_ids :: "string list"

definition message_indexes :: "message list \<Rightarrow> (nat, nat) dict" where
  "message_indexes messages =
     foldl (\<lambda>d (i, m). AList.update (m_ref m) i d) [] (zip [0..<length messages] messages)"

fun put_all :: "(nat, nat) dict \<Rightarrow> message list \<Rightarrow> message list \<Rightarrow> (nat, message) dict \<Rightarrow> (nat, message) dict option" where
  "put_all idx [] [] sel = Some sel"
| "put_all idx (m # ms) (r # rs) sel =
     (case map_of idx (m_ref m) of
        None \<Rightarrow> None
      | Some i \<Rightarrow> put_all idx ms rs (AList.update i r sel))"
| "put_all idx _ _ sel = None"

text \<open>\<open>None\<close> is the \<^verbatim>\<open>ValueError\<close> of the strict zip, or the \<^verbatim>\<open>KeyError\<close> of the index.\<close>

definition select_group ::
  "(nat, nat) dict \<Rightarrow> nat \<Rightarrow> message list \<Rightarrow> bool \<Rightarrow> nat option \<Rightarrow> selection \<Rightarrow> (selection \<times> bool) option" where
  "select_group idx token_budget grp allow_truncate max_budget st =
     (if grp = [] then Some (st, True)
      else
        let remaining = token_budget - sl_used st;
            remaining = (case max_budget of None \<Rightarrow> remaining | Some b \<Rightarrow> min remaining b)
        in if message_tokens grp \<le> remaining
           then map_option (\<lambda>sel. (st\<lparr>sl_selected := sel, sl_used := sl_used st + message_tokens grp\<rparr>, True))
                  (put_all idx grp grp (sl_selected st))
           else if \<not> allow_truncate \<or> remaining = 0 then Some (st, False)
           else
             let (chosen, group_truncated) = truncate_message_group grp remaining
             in if chosen = [] then Some (st, False)
                else map_option (\<lambda>sel. (st\<lparr>sl_selected := sel, sl_used := sl_used st + message_tokens chosen,
                                            sl_truncated := sl_truncated st @ group_truncated\<rparr>, True))
                       (put_all idx grp chosen (sl_selected st)))"

text \<open>A loop that selects one group after the other and stops at the first that does not fit.\<close>

fun select_loop ::
  "(nat, nat) dict \<Rightarrow> nat \<Rightarrow> bool \<Rightarrow> message list list \<Rightarrow> selection \<Rightarrow> selection option" where
  "select_loop idx token_budget allow_truncate [] st = Some st"
| "select_loop idx token_budget allow_truncate (g # gs) st =
     (case select_group idx token_budget g allow_truncate None st of
        None \<Rightarrow> None
      | Some (st', ok) \<Rightarrow> if ok then select_loop idx token_budget allow_truncate gs st' else Some st')"

function minimum_loop :: "message list \<Rightarrow> nat \<Rightarrow> nat \<Rightarrow> nat option \<Rightarrow> nat option" where
  "minimum_loop grp low high minimum =
     (if low \<le> high
      then let candidate = (low + high) div 2
           in if fst (truncate_message_group grp candidate) \<noteq> []
              then (if candidate = 0 then Some candidate else minimum_loop grp low (candidate - 1) (Some candidate))
              else minimum_loop grp (candidate + 1) high minimum
      else minimum)"
  by auto
termination by (relation "measure (\<lambda>(_, low, high, _). Suc high - low)") auto

declare minimum_loop.simps [simp del]

definition minimum_group_budget :: "nat \<Rightarrow> message list \<Rightarrow> nat option" where
  "minimum_group_budget token_budget grp =
     (if grp = [] \<or> message_tokens grp = 0 then Some 0
      else minimum_loop grp 1 (min (message_tokens grp) token_budget) None)"

definition is_checkpoint_step :: "assistant_step \<Rightarrow> bool" where
  "is_checkpoint_step s = list_ex (\<lambda>m. m_kind m = Some ''checkpoint'') s"

definition final_reserve :: "nat \<Rightarrow> message list \<Rightarrow> message list \<Rightarrow> nat" where
  "final_reserve token_budget anchor_group final_group =
     (if anchor_group \<noteq> [] \<and> final_group \<noteq> []
      then (case (minimum_group_budget token_budget anchor_group, minimum_group_budget token_budget final_group) of
              (Some anchor_minimum, Some final_minimum) \<Rightarrow>
                if anchor_minimum + final_minimum \<le> token_budget
                then min (message_tokens final_group)
                       (min (max final_minimum (token_budget div 2)) (token_budget - anchor_minimum))
                else 0
            | _ \<Rightarrow> 0)
      else 0)"

definition select_all :: "message list \<Rightarrow> nat \<Rightarrow> selection option" where
  "select_all messages token_budget =
     (let turns = build_turns messages;
          idx = message_indexes messages;
          latest = last turns;
          final_group = (if ut_steps latest \<noteq> [] then last (ut_steps latest) else []);
          anchor_group = (case ut_anchor latest of None \<Rightarrow> [] | Some a \<Rightarrow> [a]);
          reserve = final_reserve token_budget anchor_group final_group;
          earlier = butlast (ut_steps latest);
          st0 = \<lparr>sl_selected = [], sl_truncated = [], sl_used = 0\<rparr>
      in Option.bind (select_group idx token_budget anchor_group True (Some (token_budget - reserve)) st0) (\<lambda>(st1, _).
         Option.bind (select_group idx token_budget final_group True None st1) (\<lambda>(st2, _).
         Option.bind (select_loop idx token_budget True (filter is_checkpoint_step earlier) st2) (\<lambda>st3.
         Option.bind (select_loop idx token_budget False (rev (filter (\<lambda>s. \<not> is_checkpoint_step s) earlier)) st3) (\<lambda>st4.
         select_loop idx token_budget False (rev (map turn_messages (butlast turns))) st4)))))"

definition fit_active_messages_to_budget :: "message list \<Rightarrow> int \<Rightarrow> active_plan option" where
  "fit_active_messages_to_budget messages token_budget0 =
     (let token_budget = nat token_budget0
      in if messages = [] \<or> token_budget = 0
         then Some \<lparr>ap_messages = [], ap_estimated_tokens = 0, ap_dropped_message_ids = map m_id messages,
                    ap_truncated_message_ids = []\<rparr>
         else if message_tokens messages \<le> token_budget
         then Some \<lparr>ap_messages = messages, ap_estimated_tokens = message_tokens messages,
                    ap_dropped_message_ids = [], ap_truncated_message_ids = []\<rparr>
         else map_option (\<lambda>st.
           let returned = map snd (sort_key fst (sl_selected st))
           in \<lparr>ap_messages = returned, ap_estimated_tokens = message_tokens returned,
               ap_dropped_message_ids =
                 map (\<lambda>i. m_id (messages ! i))
                   (filter (\<lambda>i. i \<notin> fst ` set (sl_selected st)) [0..<length messages]),
               ap_truncated_message_ids = sort (remdups (sl_truncated st))\<rparr>)
           (select_all messages token_budget))"

end
