(* ===== verification/Retention_Facts.thy ===== *)
theory Retention_Facts
  imports Retention
begin

text \<open>Grouping loses nothing, and what the loops of the planner keep.\<close>

section \<open>Turns\<close>

lemma turn_messages_append [simp]: "turn_messages (append_to_turn t m) = turn_messages t @ [m]"
proof (cases "ut_steps t = []")
  case False
  then have "concat (butlast (ut_steps t) @ [last (ut_steps t)]) = concat (ut_steps t)" by simp
  then show ?thesis by (simp add: turn_messages_def append_to_turn_def)
qed (simp add: turn_messages_def append_to_turn_def)

lemma flatten_append [simp]: "flatten_turns (ts @ us) = flatten_turns ts @ flatten_turns us"
  by (simp add: flatten_turns_def)

lemma flatten_single [simp]: "flatten_turns [t] = turn_messages t"
  by (simp add: flatten_turns_def)

lemma flatten_Cons [simp]: "flatten_turns (t # ts) = turn_messages t @ flatten_turns ts"
  by (simp add: flatten_turns_def)

lemma flatten_Nil [simp]: "flatten_turns [] = []"
  by (simp add: flatten_turns_def)

lemma flatten_add_message: "flatten_turns (add_message ts m) = flatten_turns ts @ [m]"
proof (cases "ts = []")
  case True
  then show ?thesis by (simp add: add_message_def) (simp add: turn_messages_def)
next
  case False
  then have "flatten_turns (butlast ts @ [last ts]) = flatten_turns ts" by simp
  then have "flatten_turns (butlast ts) @ turn_messages (last ts) = flatten_turns ts" by simp
  with False show ?thesis by (auto simp: add_message_def turn_messages_def [of "\<lparr>ut_anchor = _, ut_steps = _\<rparr>"])
qed

lemma build_turns_snoc: "build_turns (ms @ [m]) = add_message (build_turns ms) m"
  by (simp add: build_turns_def)

theorem flatten_build_turns: "flatten_turns (build_turns ms) = ms"
  by (induction ms rule: rev_induct) (simp_all add: build_turns_snoc flatten_add_message build_turns_def)

text \<open>
  The form of a turn: its anchor is a query, no step is empty, and no step but the first begins with the
  transport of a tool result.  Only the first turn may have no anchor.
\<close>

definition wf_turn :: "user_turn \<Rightarrow> bool" where
  "wf_turn t \<longleftrightarrow>
     (case ut_anchor t of None \<Rightarrow> True | Some a \<Rightarrow> is_user_query a) \<and> [] \<notin> set (ut_steps t) \<and>
     (\<forall>s \<in> set (tl (ut_steps t)). \<not> is_tool_transport (hd s))"

definition wf_turns :: "user_turn list \<Rightarrow> bool" where
  "wf_turns ts \<longleftrightarrow> (\<forall>t \<in> set ts. wf_turn t) \<and> (\<forall>t \<in> set (tl ts). ut_anchor t \<noteq> None)"

lemma set_tl_butlast_last: "xs \<noteq> [] \<Longrightarrow> set (tl (butlast xs @ [y])) \<subseteq> set (tl xs) \<union> {y}"
  by (cases xs) (auto dest: in_set_butlastD)

lemma wf_append_to_turn:
  assumes "wf_turn t"
  shows "wf_turn (append_to_turn t m)" "ut_anchor (append_to_turn t m) = ut_anchor t"
proof -
  show "ut_anchor (append_to_turn t m) = ut_anchor t" by (simp add: append_to_turn_def)
  show "wf_turn (append_to_turn t m)"
  proof (cases "is_tool_transport m \<and> ut_steps t \<noteq> []")
    case True
    then obtain pre s where st: "ut_steps t = pre @ [s]" by (metis append_butlast_last_id)
    with assms have "s \<noteq> []" by (auto simp: wf_turn_def)
    with True st assms show ?thesis
      by (cases pre) (auto simp: append_to_turn_def wf_turn_def)
  next
    case False
    with assms show ?thesis
      by (cases "ut_steps t") (auto simp: append_to_turn_def wf_turn_def)
  qed
qed

lemma wf_add_message:
  assumes "wf_turns ts"
  shows "wf_turns (add_message ts m)"
proof (cases "is_user_query m")
  case True
  with assms show ?thesis
    by (cases ts) (auto simp: wf_turns_def add_message_def wf_turn_def)
next
  case query: False
  show ?thesis
  proof (cases "ts = []")
    case True
    with query show ?thesis
      by (simp add: wf_turns_def add_message_def wf_append_to_turn wf_turn_def [of "\<lparr>ut_anchor = _, ut_steps = _\<rparr>"])
  next
    case False
    then obtain pre t where ts: "ts = pre @ [t]" by (metis append_butlast_last_id)
    with query assms show ?thesis
      by (cases pre) (auto simp: wf_turns_def add_message_def wf_append_to_turn)
  qed
qed

lemma wf_build_turns: "wf_turns (build_turns ms)"
proof (induction ms rule: rev_induct)
  case Nil
  show ?case by (simp add: build_turns_def wf_turns_def)
next
  case (snoc m ms)
  then show ?case by (simp add: build_turns_snoc wf_add_message)
qed

lemma turn_hd_query: "wf_turn t \<Longrightarrow> ut_anchor t \<noteq> None \<Longrightarrow> is_user_query (hd (turn_messages t))"
  by (auto simp: wf_turn_def turn_messages_def)

section \<open>The loops of the planner\<close>

lemma evict_turns_props:
  "evict_turns budget older retained = (older', retained') \<Longrightarrow> retained \<noteq> [] \<Longrightarrow>
     older' @ retained' = older @ retained \<and> retained' \<noteq> [] \<and> last retained' = last retained \<and>
     (length retained' = 1 \<or> sum_list (map turn_tokens retained') \<le> budget)"
  by (induction budget older retained rule: evict_turns.induct) (auto split: if_splits)

lemma extend_tail_props:
  "extend_tail raw_budget rest tail toks = (archived, retained) \<Longrightarrow>
     archived @ retained = rev rest @ tail \<and> (\<exists>k. retained = k @ tail) \<and>
     (retained = tail \<or>
      (\<exists>k. retained = k @ tail \<and> toks + sum_list (map message_tokens k) \<le> raw_budget))"
proof (induction raw_budget rest tail toks rule: extend_tail.induct)
  case (2 raw_budget candidate rest tail toks)
  show ?case
  proof (cases "raw_budget < toks + message_tokens candidate")
    case True
    with "2.prems" show ?thesis by auto
  next
    case False
    with 2 have IH: "archived @ retained = rev rest @ candidate # tail" "\<exists>k. retained = k @ candidate # tail"
      "retained = candidate # tail \<or> (\<exists>k. retained = k @ candidate # tail \<and>
         toks + message_tokens candidate + sum_list (map message_tokens k) \<le> raw_budget)"
      by auto
    from IH(3) have "\<exists>k. retained = k @ tail \<and> toks + sum_list (map message_tokens k) \<le> raw_budget"
    proof (elim disjE exE conjE)
      assume "retained = candidate # tail"
      with False show ?thesis by (intro exI [of _ "[candidate]"]) simp
    next
      fix k
      assume "retained = k @ candidate # tail" "toks + message_tokens candidate + sum_list (map message_tokens k) \<le> raw_budget"
      then show ?thesis by (intro exI [of _ "k @ [candidate]"]) simp
    qed
    with IH(1,2) show ?thesis by auto
  qed
qed auto

lemma message_tokens_append [simp]: "message_tokens (a @ b) = message_tokens a + message_tokens b"
  by (simp add: message_tokens_def)

lemma message_tokens_Cons [simp]: "message_tokens (m # ms) = estimated_tokens m + message_tokens ms"
  by (simp add: message_tokens_def)

lemma message_tokens_Nil [simp]: "message_tokens [] = 0"
  by (simp add: message_tokens_def)

lemma message_tokens_concat: "message_tokens (concat ss) = sum_list (map message_tokens ss)"
  by (induction ss) simp_all

lemma message_tokens_flatten: "message_tokens (flatten_turns ts) = sum_list (map turn_tokens ts)"
  by (induction ts) (simp_all add: turn_tokens_def)

section \<open>Plans\<close>

text \<open>What the plan for a turn that is too long by itself consists of.\<close>

lemma partial_plan_cases:
  assumes wf: "wf_turn t" and anchor: "ut_anchor t = Some a"
  obtains n where "n \<le> length (ut_steps t) - nat (max 1 tail)"
    "retained_messages (partial_latest_turn_plan older t budget tail) = a # concat (drop n (ut_steps t))"
    "archive_messages (partial_latest_turn_plan older t budget tail) =
       flatten_turns older @ (if concat (take n (ut_steps t)) \<noteq> [] then a # concat (take n (ut_steps t)) else [])"
    "checkpoint_source_message_ids (partial_latest_turn_plan older t budget tail) = map m_id (concat (take n (ut_steps t)))"
    "partial_turn (partial_latest_turn_plan older t budget tail) \<longleftrightarrow> concat (take n (ut_steps t)) \<noteq> []"
    "n = length (ut_steps t) - nat (max 1 tail) \<or> \<not> budget_exceeded (partial_latest_turn_plan older t budget tail)"
proof -
  define steps where "steps = ut_steps t"
  define min_tail where "min_tail = (if steps \<noteq> [] then nat (max 1 tail) else 0)"
  define base where "base = drop (length steps - min_tail) steps"
  define raw where "raw = budget - min CHECKPOINT_TOKEN_RESERVE (budget div 4)"
  define toks where "toks = estimated_tokens a + sum_list (map message_tokens base)"
  obtain archived retained where ext:
    "extend_tail raw (rev (take (length steps - min_tail) steps)) base toks = (archived, retained)"
    by (meson surj_pair)
  have cut: "length steps - min_tail = length steps - nat (max 1 tail)" by (simp add: min_tail_def)
  note props = extend_tail_props [OF ext]
  then have all: "archived @ retained = steps" by (simp add: base_def)
  have len: "length archived + length retained = length steps" using arg_cong [OF all, of length] by simp
  have len_base: "length base = length steps - (length steps - nat (max 1 tail))" by (simp add: base_def cut)
  define n where "n = length archived"
  have n: "archived = take n steps" "retained = drop n steps" using all by (auto simp: n_def)
  have "n \<le> length steps - nat (max 1 tail)"
  proof -
    obtain k where "retained = k @ base" using props by blast
    then have "length base \<le> length retained" by simp
    with len len_base show ?thesis unfolding n_def by arith
  qed
  moreover have plan: "partial_latest_turn_plan older t budget tail =
      \<lparr>archive_messages = flatten_turns older @ (if concat archived \<noteq> [] then [a] @ concat archived else []),
       retained_messages = [a] @ concat retained, turn_anchor = Some a,
       checkpoint_source_message_ids = map m_id (concat archived),
       raw_tail_start_message_id = (case retained of (m # _) # _ \<Rightarrow> Some (m_id m) | _ \<Rightarrow> None),
       estimated_active_tokens = message_tokens ([a] @ concat retained),
       budget_exceeded = budget < message_tokens ([a] @ concat retained),
       partial_turn = (concat archived \<noteq> [])\<rparr>"
    unfolding partial_latest_turn_plan_def Let_def anchor option.case
    using ext unfolding steps_def min_tail_def base_def raw_def toks_def by (simp add: Let_def)
  moreover have "n = length steps - nat (max 1 tail) \<or> message_tokens ([a] @ concat retained) \<le> budget"
    using props
  proof (elim conjE disjE exE)
    assume "retained = base"
    then have "length retained = length base" by simp
    with len len_base have "n = length steps - nat (max 1 tail)" unfolding n_def by arith
    then show ?thesis ..
  next
    fix k
    assume "retained = k @ base" "toks + sum_list (map message_tokens k) \<le> raw"
    then have "message_tokens ([a] @ concat retained) \<le> raw"
      by (simp add: toks_def message_tokens_concat)
    moreover have "raw \<le> budget" by (simp add: raw_def)
    ultimately show ?thesis by (meson order_trans)
  qed
  ultimately show thesis
    by (intro that [of n]) (auto simp: n steps_def simp del: concat_eq_Nil_conv)
qed

text \<open>The three ways a plan is made.\<close>

lemma plan_retention_cases:
  obtains (all_archived) "build_turns ms = [] \<or> nat keep = 0" "plan_retention ms keep budget tail = plain_plan ms [] 0"
  | (no_anchor) "plan_retention ms keep budget tail = plain_plan ms [] 0"
  | (partial) older t where "build_turns ms = older @ [t]" "ut_anchor t \<noteq> None" "nat budget < turn_tokens t"
      "plan_retention ms keep budget tail = partial_latest_turn_plan older t (nat budget) tail"
  | (plain) older retained where "build_turns ms = older @ retained" "retained \<noteq> []"
      "plan_retention ms keep budget tail =
         plain_plan (flatten_turns older) (flatten_turns retained) (message_tokens (flatten_turns retained))"
      "message_tokens (flatten_turns retained) \<le> nat budget"
proof (cases "build_turns ms = [] \<or> nat keep = 0")
  case True
  then show thesis by (intro all_archived) (auto simp: plan_retention_def Let_def)
next
  case False
  define start where "start = length (build_turns ms) - nat keep"
  obtain older retained where ev:
    "evict_turns (nat budget) (take start (build_turns ms)) (drop start (build_turns ms)) = (older, retained)"
    by (meson surj_pair)
  have "start < length (build_turns ms)" using False unfolding start_def
    by (intro diff_less) auto
  then have "drop start (build_turns ms) \<noteq> []" by simp
  note props = evict_turns_props [OF ev this]
  then have turns: "build_turns ms = older @ retained" "retained \<noteq> []" by simp_all
  have plan: "plan_retention ms keep budget tail =
      (if nat budget < turn_tokens (last retained)
       then if ut_anchor (last retained) = None then plain_plan (flatten_turns (older @ [last retained])) [] 0
            else partial_latest_turn_plan older (last retained) (nat budget) tail
       else plain_plan (flatten_turns older) (flatten_turns retained) (message_tokens (flatten_turns retained)))"
    using False ev unfolding plan_retention_def Let_def start_def by simp
  show thesis
  proof (cases "nat budget < turn_tokens (last retained)")
    case big: True
    have "length retained = 1"
    proof (rule ccontr)
      assume "length retained \<noteq> 1"
      with props have "sum_list (map turn_tokens retained) \<le> nat budget" by simp
      moreover have "turn_tokens (last retained) \<le> sum_list (map turn_tokens retained)"
        using turns(2) by (intro member_le_sum_list) auto
      ultimately show False using big by simp
    qed
    then have r: "retained = [last retained]" by (cases retained) auto
    have ms: "flatten_turns (older @ [last retained]) = ms" using flatten_build_turns [of ms] turns(1) r by metis
    show thesis
    proof (cases "ut_anchor (last retained) = None")
      case True
      with plan big ms show thesis by (intro no_anchor) simp
    next
      case False
      with plan big r turns(1) show thesis by (intro partial [of older "last retained"]) simp_all
    qed
  next
    case False
    have "message_tokens (flatten_turns retained) \<le> nat budget"
    proof (cases "length retained = 1")
      case True
      then have "retained = [last retained]" by (cases retained) auto
      then have "message_tokens (flatten_turns retained) = turn_tokens (last retained)"
        by (metis flatten_single turn_tokens_def)
      with False show ?thesis by simp
    next
      case no: False
      with props show ?thesis by (simp add: message_tokens_flatten)
    qed
    with plan False turns show thesis by (intro plain) simp_all
  qed
qed

end
