(* ===== verification/Active_Budget_Facts.thy ===== *)
theory Active_Budget_Facts
  imports Active_Budget Retention_Facts "HOL-Library.Multiset"
begin

text \<open>
  Lemmas on token estimates, on the shortening of a group of messages, and on the selection of groups.
\<close>

section \<open>Estimates\<close>

lemma text_weight_append [simp]: "text_weight (a @ b) = text_weight a + text_weight b"
  by (simp add: text_weight_def)

lemma text_weight_Nil [simp]: "text_weight [] = 0"
  by (simp add: text_weight_def)

lemma text_weight_rev [simp]: "text_weight (rev a) = text_weight a"
  by (induction a) (simp_all add: text_weight_def)

lemma estimate_le: "estimate_text_tokens t \<le> n \<longleftrightarrow> text_weight t \<le> 4 * n"
  unfolding estimate_text_tokens_def by arith

lemma estimate_bound: "text_weight t \<le> 4 * estimate_text_tokens t"
  using estimate_le [of t] by blast

lemma text_weight_dropWhile: "text_weight (dropWhile P t) \<le> text_weight t"
proof -
  have "text_weight t = text_weight (takeWhile P t @ dropWhile P t)" by simp
  then show ?thesis by (simp only: text_weight_append)
qed

lemma prefix_length_loop_bound:
  "estimate_text_tokens (take low v) \<le> budget \<Longrightarrow>
     estimate_text_tokens (take (prefix_length_loop v budget low high) v) \<le> budget"
proof (induction v budget low high rule: prefix_length_loop.induct)
  case (1 v budget low high)
  show ?case
    by (subst prefix_length_loop.simps) (use 1 in \<open>auto simp: Let_def\<close>)
qed

lemma prefix_length_bound: "text_weight (take (prefix_length v budget) v) \<le> 4 * budget"
proof -
  have "estimate_text_tokens (take 0 v) \<le> budget" by (simp add: estimate_text_tokens_def)
  from prefix_length_loop_bound [OF this] show ?thesis
    by (simp only: prefix_length_def estimate_le)
qed

lemma take_rev_drop: "n \<le> length xs \<Longrightarrow> drop (length xs - n) xs = rev (take n (rev xs))"
  by (simp add: rev_take)

lemma tail_bound:
  "text_weight (if prefix_length (rev r) budget \<noteq> 0 then drop (length r - prefix_length (rev r) budget) r else []) \<le> 4 * budget"
proof -
  let ?n = "prefix_length (rev r) budget"
  have "drop (length r - ?n) r = rev (take ?n (rev r))" by (simp add: rev_take)
  then have "text_weight (drop (length r - ?n) r) \<le> 4 * budget"
    using prefix_length_bound [of "rev r" budget] by simp
  then show ?thesis by simp
qed

lemma truncate_text_bound:
  "estimate_text_tokens (truncate_text_to_token_budget s n marker ratio) \<le> n"
proof (cases "s = [] \<or> estimate_text_tokens s \<le> n \<or> n = 0")
  case True
  moreover have "estimate_text_tokens [] = 0" by (simp add: estimate_text_tokens_def)
  ultimately show ?thesis unfolding truncate_text_to_token_budget_def by (elim disjE) simp_all
next
  case False
  define mk where "mk = (if n \<le> estimate_text_tokens marker then [] else marker)"
  define mt where "mt = (if n \<le> estimate_text_tokens marker then 0 else estimate_text_tokens marker)"
  define ht where "ht = nat \<lfloor>of_nat (n - mt) * min (max ratio 0) 1\<rfloor>"
  define hd where "hd = take (prefix_length s ht) s"
  define rm where "rm = drop (prefix_length s ht) s"
  define tl where "tl = (let k = prefix_length (rev rm) (n - mt - ht) in if k \<noteq> 0 then drop (length rm - k) rm else [])"
  have eq: "truncate_text_to_token_budget s n marker ratio =
      rev (dropWhile white_space (rev hd)) @ mk @ dropWhile white_space tl"
    using False unfolding truncate_text_to_token_budget_def Let_def mk_def mt_def ht_def hd_def rm_def tl_def
    by (simp only: de_Morgan_disj if_False simp_thms)
  have "of_nat (n - mt) * min (max ratio 0) 1 \<le> (of_nat (n - mt) :: rat)"
    by (intro mult_left_le) auto
  then have ht: "ht \<le> n - mt" unfolding ht_def by (simp add: floor_le_iff nat_le_iff)
  have w: "text_weight mk \<le> 4 * mt" "text_weight hd \<le> 4 * ht" "text_weight tl \<le> 4 * (n - mt - ht)"
    subgoal unfolding mk_def mt_def using estimate_bound [of marker] by simp
    subgoal unfolding hd_def by (rule prefix_length_bound)
    subgoal unfolding tl_def Let_def by (rule tail_bound)
    done
  have "mt \<le> n" by (simp add: mt_def)
  moreover have "text_weight (rev (dropWhile white_space (rev hd))) \<le> text_weight hd"
    using text_weight_dropWhile [of white_space "rev hd"] by simp
  moreover have "text_weight (dropWhile white_space tl) \<le> text_weight tl" by (rule text_weight_dropWhile)
  ultimately show ?thesis unfolding eq estimate_le using w ht by simp
qed

section \<open>Operations on parts\<close>

lemma estimate_add:
  "text_weight a \<le> text_weight b + text_weight c \<Longrightarrow>
     estimate_text_tokens a \<le> estimate_text_tokens b + estimate_text_tokens c"
  unfolding estimate_le using estimate_bound [of b] estimate_bound [of c] by simp

definition parts_weight :: "part list \<Rightarrow> nat" where
  "parts_weight ps = sum_list (map (\<lambda>p. text_weight (part_text p)) ps)"

lemma estimated_tokens_weight: "estimated_tokens m = (parts_weight (m_parts m) + 3) div 4"
proof -
  have "text_weight (concat (map part_text ps)) = parts_weight ps" for ps
    by (induction ps) (simp_all add: parts_weight_def)
  then show ?thesis by (simp add: estimated_tokens_def estimate_text_tokens_def)
qed

lemma set_slot_weight: "text_weight (part_text (set_slot t p)) \<le> text_weight (part_text p) + text_weight t"
  by (cases p) simp_all

lemma clear_slot_weight: "text_weight (part_text (set_slot [] p)) \<le> text_weight (part_text p)"
  by (cases p) simp_all

lemma clear_input_weight: "text_weight (part_text (clear_input p)) \<le> text_weight (part_text p)"
  by (cases p) (simp_all split: option.splits)

lemma mark_preview_text [simp]: "part_text (mark_preview a b p) = part_text p"
  by (cases p) simp_all

lemma parts_weight_update:
  "j < length ps \<Longrightarrow> parts_weight (ps[j := q]) + text_weight (part_text (ps ! j)) =
     parts_weight ps + text_weight (part_text q)"
proof (induction ps arbitrary: j)
  case (Cons p ps)
  then show ?case by (cases j) (auto simp: parts_weight_def)
qed simp

lemma length_update_part [simp]: "length (update_part i j f ms) = length ms"
  by (simp add: update_part_def)

text \<open>Out of range an update changes nothing.\<close>

lemma update_part_outside:
  "i \<ge> length ms \<or> j \<ge> length (m_parts (ms ! i)) \<Longrightarrow> update_part i j f ms = ms"
  by (auto simp: update_part_def list_update_beyond)

lemma message_tokens_update: "i < length ms \<Longrightarrow>
    message_tokens (ms[i := m]) + estimated_tokens (ms ! i) = message_tokens ms + estimated_tokens m"
proof (induction ms arbitrary: i)
  case (Cons x xs)
  then show ?case by (cases i) auto
qed simp

lemma update_part_tokens:
  assumes "\<And>p. text_weight (part_text (f p)) \<le> text_weight (part_text p) + 4 * n"
  shows "message_tokens (update_part i j f ms) \<le> message_tokens ms + n"
proof (cases "i < length ms \<and> j < length (m_parts (ms ! i))")
  case True
  let ?m = "(ms ! i)\<lparr>m_parts := (m_parts (ms ! i))[j := f (m_parts (ms ! i) ! j)]\<rparr>"
  have "parts_weight (m_parts ?m) \<le> parts_weight (m_parts (ms ! i)) + 4 * n"
    using parts_weight_update [of j "m_parts (ms ! i)" "f (m_parts (ms ! i) ! j)"]
      assms [of "m_parts (ms ! i) ! j"] True by simp
  then have "estimated_tokens ?m \<le> estimated_tokens (ms ! i) + n"
    unfolding estimated_tokens_weight by arith
  then show ?thesis
    using message_tokens_update [of i ms ?m] True unfolding update_part_def by simp
qed (use update_part_outside [of ms i j f] in auto)

text \<open>What no operation on a part changes: its kind, and the id and name of a tool call.\<close>

fun part_frame :: "part \<Rightarrow> part" where
  "part_frame (TextPart _) = TextPart []"
| "part_frame (ContextPart u _) = ContextPart u []"
| "part_frame (ImagePart u) = ImagePart u"
| "part_frame (ToolPart tp) =
     ToolPart \<lparr>tp_id = tp_id tp, tp_name = tp_name tp, tp_input = None, tp_output = [],
       tp_output_truncated = False, tp_output_original_chars = None, tp_output_preview_chars = None\<rparr>"

definition frame :: "message \<Rightarrow> message" where
  "frame m = m\<lparr>m_parts := map part_frame (m_parts m)\<rparr>"

lemma part_frame_ops [simp]:
  "part_frame (set_slot t p) = part_frame p" "part_frame (clear_input p) = part_frame p"
  "part_frame (mark_preview a b p) = part_frame p"
  by (cases p; simp)+

text \<open>A map over all parts that an update does not disturb.\<close>

definition map_parts :: "(part \<Rightarrow> part) \<Rightarrow> message list \<Rightarrow> message list" where
  "map_parts g ms = map (\<lambda>m. m\<lparr>m_parts := map g (m_parts m)\<rparr>) ms"

lemma map_parts_update:
  assumes "\<And>p. g (f p) = g p"
  shows "map_parts g (update_part i j f ms) = map_parts g ms"
proof (cases "i < length ms \<and> j < length (m_parts (ms ! i))")
  case True
  let ?ps = "m_parts (ms ! i)"
  have "map g (?ps[j := f (?ps ! j)]) = (map g ?ps)[j := map g ?ps ! j]"
    using True assms by (simp add: map_update)
  then have "map g (?ps[j := f (?ps ! j)]) = map g ?ps" by simp
  then show ?thesis using True
    by (auto simp: map_parts_def update_part_def map_update intro!: nth_equalityI simp: nth_list_update)
next
  case False
  then have "update_part i j f ms = ms" using update_part_outside [of ms i j f] by auto
  then show ?thesis by simp
qed

lemma map_frame: "map frame ms = map_parts part_frame ms"
  by (simp add: map_parts_def frame_def)

lemma frame_update:
  "(\<And>p. part_frame (f p) = part_frame p) \<Longrightarrow> map frame (update_part i j f ms) = map frame ms"
  by (simp add: map_frame map_parts_update)

lemma map_parts_tokens:
  assumes "\<And>p. text_weight (part_text (g p)) \<le> text_weight (part_text p)"
  shows "message_tokens (map_parts g ms) \<le> message_tokens ms"
proof -
  have "parts_weight (map g ps) \<le> parts_weight ps" for ps
    by (induction ps) (simp_all add: parts_weight_def add_mono assms)
  then have "estimated_tokens (m\<lparr>m_parts := map g (m_parts m)\<rparr>) \<le> estimated_tokens m" for m
    unfolding estimated_tokens_weight by (simp add: div_le_mono)
  then show ?thesis by (induction ms) (simp_all add: map_parts_def add_mono)
qed

section \<open>Shortening a group\<close>

lemma fill_slots_props:
  "message_tokens ms \<le> budget \<Longrightarrow>
     message_tokens (fill_slots budget slots ms) \<le> budget \<and> map frame (fill_slots budget slots ms) = map frame ms"
proof (induction budget slots ms rule: fill_slots.induct)
  case (2 budget p original slots ms)
  show ?case
  proof (cases "original = [] \<or> budget - message_tokens ms = 0")
    case True
    with 2 show ?thesis by auto
  next
    case False
    let ?t = "truncate_text_to_token_budget original (budget - message_tokens ms) MARKER (3 / 4)"
    let ?ms = "update_part (fst p) (snd p) (set_slot ?t) ms"
    have "text_weight ?t \<le> 4 * (budget - message_tokens ms)"
      using truncate_text_bound unfolding estimate_le .
    then have "message_tokens ?ms \<le> message_tokens ms + (budget - message_tokens ms)"
      using set_slot_weight [of ?t] by (intro update_part_tokens) (meson add_left_mono order_trans)
    with "2.prems" have "message_tokens ?ms \<le> budget" by simp
    moreover have "map frame ?ms = map frame ms" by (simp add: frame_update)
    ultimately show ?thesis using False "2.IH"(2) [OF _ refl] by (simp add: Let_def)
  qed
qed simp

lemma mark_slots_props:
  "message_tokens (fst (mark_slots slots (ms, ids))) \<le> message_tokens ms \<and>
     map frame (fst (mark_slots slots (ms, ids))) = map frame ms"
proof (induction slots "(ms, ids)" arbitrary: ms ids rule: mark_slots.induct)
  case (2 p original slots ms ids)
  have "message_tokens (update_part (fst p) (snd p) (mark_preview a b) ms) \<le> message_tokens ms + 0" for a b
    by (rule update_part_tokens) simp
  with 2 show ?case by (auto simp: Let_def frame_update) (metis add_0_right order_trans)
qed simp

text \<open>Positions stay what they are, and updates act at one of them.\<close>

definition shape :: "message list \<Rightarrow> nat list" where
  "shape ms = map (\<lambda>m. length (m_parts m)) ms"

lemma positions_shape: "shape ms = shape ms' \<Longrightarrow> positions ms = positions ms'"
proof -
  assume sh: "shape ms = shape ms'"
  then have len: "length ms = length ms'" unfolding shape_def by (metis length_map)
  have "length (m_parts (ms ! i)) = length (m_parts (ms' ! i))" if "i < length ms" for i
    using arg_cong [OF sh, of "\<lambda>l. l ! i"] that len by (simp add: shape_def)
  with len show ?thesis unfolding positions_def by (intro arg_cong [where f = concat] map_cong) auto
qed

lemma shape_update [simp]: "shape (update_part i j f ms) = shape ms"
  by (cases "i < length ms")
     (auto simp: shape_def update_part_def map_update list_update_beyond intro: nth_equalityI simp: nth_list_update)

lemma shape_map_parts [simp]: "shape (map_parts g ms) = shape ms"
  by (simp add: shape_def map_parts_def)

lemma positions_iff: "p \<in> set (positions ms) \<longleftrightarrow> fst p < length ms \<and> snd p < length (m_parts (ms ! fst p))"
  by (cases p) (force simp: positions_def)

lemma part_at_update:
  assumes "p \<in> set (positions ms)"
  shows "part_at (update_part (fst p) (snd p) f ms) q = (if q = p then f (part_at ms p) else part_at ms q)"
proof -
  have "fst p < length ms" "snd p < length (m_parts (ms ! fst p))" using assms by (simp_all add: positions_iff)
  then show ?thesis by (simp add: part_at_def update_part_def nth_list_update prod_eq_iff)
qed

lemma has_input_clear [simp]: "\<not> has_input (clear_input p)" "clear_input (clear_input p) = clear_input p"
  by (cases p; simp)+

lemma clear_input_id: "\<not> has_input p \<Longrightarrow> clear_input p = p"
  by (cases p) simp_all

lemma drop_inputs_props:
  "drop_inputs budget ps (ms, ids) = (ms', ids') \<Longrightarrow> set ps \<subseteq> set (positions ms) \<Longrightarrow>
     map_parts clear_input ms' = map_parts clear_input ms \<and> shape ms' = shape ms \<and>
     map frame ms' = map frame ms \<and>
     (\<forall>q. \<not> has_input (part_at ms q) \<longrightarrow> \<not> has_input (part_at ms' q)) \<and>
     (message_tokens ms' \<le> budget \<or> (\<forall>q \<in> set ps. \<not> has_input (part_at ms' q)))"
proof (induction budget ps "(ms, ids)" arbitrary: ms ids rule: drop_inputs.induct)
  case (2 budget p ps ms ids)
  have pos: "p \<in> set (positions ms)" using "2.prems" by simp
  let ?ms = "update_part (fst p) (snd p) clear_input ms"
  have sub: "set ps \<subseteq> set (positions ?ms)"
    using "2.prems"(2) positions_shape [of ?ms ms] by simp
  have upd: "map_parts clear_input ?ms = map_parts clear_input ms" "map frame ?ms = map frame ms"
    by (simp_all add: map_parts_update frame_update)
  consider (stop) "message_tokens ms \<le> budget" | (drop) "\<not> message_tokens ms \<le> budget" "has_input (part_at ms p)"
    | (skip) "\<not> message_tokens ms \<le> budget" "\<not> has_input (part_at ms p)" by blast
  then show ?case
  proof cases
    case stop
    with "2.prems"(1) show ?thesis by auto
  next
    case drop
    with "2.prems"(1) have "drop_inputs budget ps (?ms, ids @ [m_id (ms ! fst p)]) = (ms', ids')" by simp
    note IH = "2.hyps"(1) [OF drop this sub]
    have now: "\<not> has_input (part_at ?ms q)" if "q = p \<or> \<not> has_input (part_at ms q)" for q
      using that pos by (auto simp: part_at_update)
    have mono: "\<forall>q. \<not> has_input (part_at ?ms q) \<longrightarrow> \<not> has_input (part_at ms' q)" using IH by (elim conjE)
    have keep: "\<not> has_input (part_at ms' q)" if "q = p \<or> \<not> has_input (part_at ms q)" for q
      by (rule mono [rule_format, OF now [OF that]])
    show ?thesis
    proof (intro conjI allI impI)
      show "message_tokens ms' \<le> budget \<or> (\<forall>q \<in> set (p # ps). \<not> has_input (part_at ms' q))"
        using IH keep by auto
    qed (use IH upd keep in simp_all)
  next
    case skip
    with "2.prems"(1) have "drop_inputs budget ps (ms, ids) = (ms', ids')" by simp
    then have IH: "map_parts clear_input ms' = map_parts clear_input ms" "shape ms' = shape ms"
      "map frame ms' = map frame ms" "\<forall>q. \<not> has_input (part_at ms q) \<longrightarrow> \<not> has_input (part_at ms' q)"
      "message_tokens ms' \<le> budget \<or> (\<forall>q \<in> set ps. \<not> has_input (part_at ms' q))"
      using "2.hyps"(2) [OF skip] "2.prems"(2) by simp_all
    from IH(4) skip(2) have "\<not> has_input (part_at ms' p)" by blast
    with IH show ?thesis by simp
  qed
qed auto

lemma no_inputs_id:
  assumes "\<forall>q \<in> set (positions ms). \<not> has_input (part_at ms q)"
  shows "map_parts clear_input ms = ms"
proof (intro nth_equalityI)
  fix i
  assume "i < length (map_parts clear_input ms)"
  then have i: "i < length ms" by (simp add: map_parts_def)
  have "map clear_input (m_parts (ms ! i)) = m_parts (ms ! i)"
  proof (intro nth_equalityI)
    fix j
    assume j: "j < length (map clear_input (m_parts (ms ! i)))"
    with assms i have "\<not> has_input (part_at ms (i, j))" by (auto simp: positions_iff)
    with j show "map clear_input (m_parts (ms ! i)) ! j = m_parts (ms ! i) ! j"
      by (simp add: part_at_def clear_input_id)
  qed simp
  with i show "map_parts clear_input ms ! i = ms ! i" by (simp add: map_parts_def)
qed (simp add: map_parts_def)

text \<open>What is left of a group when everything that can be shortened is gone.\<close>

definition bare :: "message list \<Rightarrow> message list" where
  "bare ms = map_parts clear_input (map_parts (set_slot []) ms)"

lemma clear_slots_map: "clear_slots ms = map_parts (set_slot []) ms"
  by (simp add: clear_slots_def map_parts_def)

lemma bare_tokens_le: "message_tokens (bare ms) \<le> message_tokens ms"
  unfolding bare_def using map_parts_tokens clear_slot_weight clear_input_weight by (meson order_trans)

lemma drop_inputs_fits:
  assumes "drop_inputs budget (positions ms) (clear_slots ms, []) = (ms', ids)"
  shows "message_tokens ms' \<le> budget \<longleftrightarrow> message_tokens (bare ms) \<le> budget" "map frame ms' = map frame ms"
proof -
  have pos: "positions (clear_slots ms) = positions ms"
    by (rule positions_shape) (simp add: clear_slots_map)
  note props = drop_inputs_props [OF assms, unfolded pos, OF order_refl]
  have bare: "map_parts clear_input ms' = bare ms" using props by (simp add: bare_def clear_slots_map)
  have "positions ms' = positions ms" using props pos by (metis positions_shape)
  then have "message_tokens ms' \<le> budget \<or> ms' = bare ms"
    using props bare no_inputs_id [of ms'] by auto
  moreover have "message_tokens (bare ms) \<le> message_tokens ms'"
    unfolding bare [symmetric] by (intro map_parts_tokens clear_input_weight)
  ultimately show "message_tokens ms' \<le> budget \<longleftrightarrow> message_tokens (bare ms) \<le> budget" by auto
  have "map frame (clear_slots ms) = map frame ms"
    by (simp add: clear_slots_def frame_def)
  with props show "map frame ms' = map frame ms" by simp
qed

text \<open>A group can be shortened to a budget exactly when its bare form fits.\<close>

lemma truncate_message_group_props:
  shows "fst (truncate_message_group g b) \<noteq> [] \<longleftrightarrow> g \<noteq> [] \<and> 0 < b \<and> message_tokens (bare g) \<le> b"
    "fst (truncate_message_group g b) \<noteq> [] \<Longrightarrow>
       message_tokens (fst (truncate_message_group g b)) \<le> b \<and> map frame (fst (truncate_message_group g b)) = map frame g"
proof -
  have "(fst (truncate_message_group g b) \<noteq> [] \<longleftrightarrow> g \<noteq> [] \<and> 0 < b \<and> message_tokens (bare g) \<le> b) \<and>
    (fst (truncate_message_group g b) \<noteq> [] \<longrightarrow>
       message_tokens (fst (truncate_message_group g b)) \<le> b \<and> map frame (fst (truncate_message_group g b)) = map frame g)"
  proof (cases "b = 0 \<or> g = [] \<or> message_tokens g \<le> b")
    case True
    then show ?thesis using bare_tokens_le [of g] by (auto simp: truncate_message_group_def)
  next
    case False
    obtain c ids where d: "drop_inputs b (positions g) (clear_slots g, []) = (c, ids)" by (meson surj_pair)
    define m where "m = mark_slots (text_slots g) (fill_slots b (text_slots g) c, ids)"
    have eq: "fst (truncate_message_group g b) = (if b < message_tokens c then [] else
        if b < message_tokens (fst m) then [] else fst m)"
      using False d by (simp add: truncate_message_group_def m_def Let_def split: prod.splits)
    have fits: "message_tokens c \<le> b \<longleftrightarrow> message_tokens (bare g) \<le> b" "map frame c = map frame g"
      using drop_inputs_fits [OF d] by blast+
    have "message_tokens (fst m) \<le> b \<and> map frame (fst m) = map frame g" if "message_tokens c \<le> b"
      using fill_slots_props [OF that, of "text_slots g"] fits(2)
        mark_slots_props [of "text_slots g" "fill_slots b (text_slots g) c" ids] by (auto simp: m_def)
    moreover have "fst m \<noteq> []" if "map frame (fst m) = map frame g" using that False by auto
    ultimately show ?thesis using eq fits(1) False by auto
  qed
  then show "fst (truncate_message_group g b) \<noteq> [] \<longleftrightarrow> g \<noteq> [] \<and> 0 < b \<and> message_tokens (bare g) \<le> b"
    "fst (truncate_message_group g b) \<noteq> [] \<Longrightarrow>
       message_tokens (fst (truncate_message_group g b)) \<le> b \<and> map frame (fst (truncate_message_group g b)) = map frame g"
    by blast+
qed

section \<open>The smallest budget of a group\<close>

definition least_budget :: "message list \<Rightarrow> nat" where
  "least_budget g = max 1 (message_tokens (bare g))"

lemma minimum_loop_eq:
  "g \<noteq> [] \<Longrightarrow> 1 \<le> low \<Longrightarrow>
     minimum_loop g low high found = (if max low (least_budget g) \<le> high then Some (max low (least_budget g)) else found)"
proof (induction g low high found rule: minimum_loop.induct)
  case (1 g low high found)
  let ?c = "(low + high) div 2"
  show ?case
  proof (cases "low \<le> high")
    case False
    then show ?thesis by (subst minimum_loop.simps) simp
  next
    case True
    then have c: "low \<le> ?c" "?c \<le> high" "?c \<noteq> 0" using "1.prems" by auto
    have fits: "fst (truncate_message_group g ?c) \<noteq> [] \<longleftrightarrow> least_budget g \<le> ?c"
      using c "1.prems" by (auto simp: truncate_message_group_props(1) least_budget_def)
    show ?thesis
    proof (cases "least_budget g \<le> ?c")
      case le: True
      then have "minimum_loop g low high found = minimum_loop g low (?c - 1) (Some ?c)"
        using True c fits by (subst minimum_loop.simps) (simp add: Let_def)
      also have "\<dots> = (if max low (least_budget g) \<le> ?c - 1 then Some (max low (least_budget g)) else Some ?c)"
        using "1.IH"(1) [OF True refl] fits le c "1.prems" by simp
      finally show ?thesis using le c by (auto simp: max_def)
    next
      case gt: False
      then have "minimum_loop g low high found = minimum_loop g (?c + 1) high found"
        using True fits by (subst minimum_loop.simps) (simp add: Let_def)
      also have "\<dots> = (if max (?c + 1) (least_budget g) \<le> high then Some (max (?c + 1) (least_budget g)) else found)"
        using "1.IH"(2) [OF True refl] fits gt "1.prems" by simp
      finally show ?thesis using gt c by (auto simp: max_def)
    qed
  qed
qed

lemma minimum_group_budget_eq:
  assumes "g \<noteq> []" "message_tokens g \<noteq> 0" "least_budget g \<le> b"
  shows "minimum_group_budget b g = Some (least_budget g)"
proof -
  have "least_budget g \<le> message_tokens g"
    using assms(2) bare_tokens_le [of g] by (simp add: least_budget_def)
  moreover have "1 \<le> least_budget g" by (simp add: least_budget_def)
  ultimately show ?thesis
    using assms by (simp add: minimum_group_budget_def minimum_loop_eq)
qed

section \<open>Indexes\<close>

lemma message_indexes_snoc:
  "message_indexes (ms @ [m]) = AList.update (m_ref m) (length ms) (message_indexes ms)"
  by (simp add: message_indexes_def)

definition index_of :: "message list \<Rightarrow> message \<Rightarrow> nat" where
  "index_of ms m = the (map_of (message_indexes ms) (m_ref m))"

lemma message_indexes_lookup:
  "distinct (map m_ref ms) \<Longrightarrow> i < length ms \<Longrightarrow> map_of (message_indexes ms) (m_ref (ms ! i)) = Some i"
proof (induction ms rule: rev_induct)
  case (snoc m ms)
  show ?case
  proof (cases "i < length ms")
    case True
    with snoc have "m_ref (ms ! i) \<noteq> m_ref m" by (metis distinct_append disjoint_iff list.set_intros(1) map_append
        nth_mem image_eqI list.simps(9) set_map)
    with True snoc show ?thesis by (simp add: message_indexes_snoc nth_append)
  next
    case False
    with snoc.prems have "i = length ms" by simp
    then show ?thesis by (simp add: message_indexes_snoc)
  qed
qed simp

lemma index_of_nth [simp]: "distinct (map m_ref ms) \<Longrightarrow> i < length ms \<Longrightarrow> index_of ms (ms ! i) = i"
  by (simp add: index_of_def message_indexes_lookup)

lemma index_of_mem:
  assumes "distinct (map m_ref ms)" "m \<in> set ms"
  shows "index_of ms m < length ms" "ms ! index_of ms m = m"
    "map_of (message_indexes ms) (m_ref m) = Some (index_of ms m)"
  using assms by (auto simp: in_set_conv_nth message_indexes_lookup)

lemma index_of_inj: "distinct (map m_ref ms) \<Longrightarrow> inj_on (index_of ms) (set ms)"
  by (metis index_of_mem(2) inj_onI)

lemma put_all_fresh:
  assumes "length c = length g" "set g \<subseteq> set ms" "distinct (map m_ref ms)" "distinct g"
    "index_of ms ` set g \<inter> fst ` set sel = {}"
  shows "put_all (message_indexes ms) g c sel = Some (sel @ zip (map (index_of ms) g) c)"
  using assms
proof (induction "message_indexes ms" g c sel rule: put_all.induct)
  case (2 m g r c sel)
  have "m \<in> set ms" using "2.prems" by simp
  note ix = index_of_mem [OF "2.prems"(3) this]
  have fresh: "AList.update (index_of ms m) r sel = sel @ [(index_of ms m, r)]"
    using "2.prems" by (intro update_fresh) auto
  have "index_of ms m \<notin> index_of ms ` set g"
    using index_of_inj [OF "2.prems"(3)] "2.prems"(2,4) by (auto simp: inj_on_def)
  then have "put_all (message_indexes ms) g c (AList.update (index_of ms m) r sel) =
      Some (AList.update (index_of ms m) r sel @ zip (map (index_of ms) g) c)"
    using "2.prems" ix(3) by (intro "2.hyps") (auto simp: fresh)
  then show ?case by (simp add: ix(3) fresh)
qed simp_all

end
