(* ===== verification/Retention_Props.thy ===== *)
theory Retention_Props
  imports Retention_Facts
begin

text \<open>Properties of the retention planner and of the budgeted view of a session.\<close>

section \<open>Nothing is lost\<close>

lemma suffix_starts_step:
  assumes "wf_turn t" "0 < n" "n < length (ut_steps t)"
  shows "concat (drop n (ut_steps t)) \<noteq> [] \<and> \<not> is_tool_transport (hd (concat (drop n (ut_steps t))))"
proof -
  obtain s rest where d: "drop n (ut_steps t) = s # rest"
    using assms(3) by (cases "drop n (ut_steps t)") auto
  then have "s \<in> set (ut_steps t)" by (metis in_set_dropD list.set_intros(1))
  with assms(1) have "s \<noteq> []" by (auto simp: wf_turn_def)
  have "s \<in> set (tl (ut_steps t))"
    using d assms(2) in_set_dropD [of s "n - 1" "tl (ut_steps t)"] by (cases "ut_steps t"; cases n) auto
  with assms(1) have "\<not> is_tool_transport (hd s)" by (auto simp: wf_turn_def)
  with d \<open>s \<noteq> []\<close> show ?thesis by simp
qed

lemma partial_plan_splits:
  assumes wf: "wf_turn t" and anchor: "ut_anchor t = Some a"
    and p: "p = partial_latest_turn_plan older t budget tail"
  shows "(partial_turn p \<longrightarrow> (\<exists>src rest.
       flatten_turns older @ turn_messages t = flatten_turns older @ a # src @ rest \<and>
       archive_messages p = flatten_turns older @ a # src \<and> retained_messages p = a # rest \<and>
       checkpoint_source_message_ids p = map m_id src \<and> src \<noteq> [] \<and>
       rest \<noteq> [] \<and> \<not> is_tool_transport (hd rest))) \<and>
     (\<not> partial_turn p \<longrightarrow> archive_messages p @ retained_messages p = flatten_turns older @ turn_messages t)"
proof -
  from wf anchor obtain n where n: "n \<le> length (ut_steps t) - nat (max 1 tail)"
    and ret: "retained_messages p = a # concat (drop n (ut_steps t))"
    and arch: "archive_messages p =
      flatten_turns older @ (if concat (take n (ut_steps t)) \<noteq> [] then a # concat (take n (ut_steps t)) else [])"
    and src: "checkpoint_source_message_ids p = map m_id (concat (take n (ut_steps t)))"
    and part: "partial_turn p \<longleftrightarrow> concat (take n (ut_steps t)) \<noteq> []"
    unfolding p by (rule partial_plan_cases [of t a tail older budget])
  have msgs: "turn_messages t = a # concat (take n (ut_steps t)) @ concat (drop n (ut_steps t))"
    unfolding concat_append [symmetric] append_take_drop_id by (simp add: turn_messages_def anchor)
  have "0 < n \<and> n < length (ut_steps t)" if "concat (take n (ut_steps t)) \<noteq> []"
  proof -
    have "0 < n" "ut_steps t \<noteq> []" using that by (cases n; auto)+
    moreover have "0 < nat (max 1 tail)" by simp
    ultimately show ?thesis using n by (cases "length (ut_steps t)") linarith+
  qed
  with suffix_starts_step [OF wf, of n] arch ret src part msgs show ?thesis by auto
qed

text \<open>Property C21 (safety): retention loses no message and separates no tool result from its call.  The
  archive followed by the retained messages is the session, and the cut is before a user's query; or the newest
  turn is cut, then its query is in both parts, everything else of the session is in exactly one of them and in
  its order, the cut is between two steps, and the messages that the checkpoint has to summarise are exactly
  those of the turn that went to the archive.\<close>

theorem retention_splits_session:
  "let p = plan_retention ms keep budget tail in
     (\<not> partial_turn p \<longrightarrow>
        archive_messages p @ retained_messages p = ms \<and>
        (archive_messages p \<noteq> [] \<and> retained_messages p \<noteq> [] \<longrightarrow> is_user_query (hd (retained_messages p)))) \<and>
     (partial_turn p \<longrightarrow> (\<exists>older anchor src rest.
        ms = older @ anchor # src @ rest \<and> is_user_query anchor \<and>
        archive_messages p = older @ anchor # src \<and> retained_messages p = anchor # rest \<and>
        checkpoint_source_message_ids p = map m_id src \<and> src \<noteq> [] \<and>
        rest \<noteq> [] \<and> \<not> is_tool_transport (hd rest)))"
proof (cases rule: plan_retention_cases [of ms keep budget tail])
  case (partial older t)
  then obtain a where a: "ut_anchor t = Some a" by blast
  have wf: "wf_turn t" "is_user_query a"
    using wf_build_turns [of ms] partial(1) a by (auto simp: wf_turns_def wf_turn_def)
  have ms: "flatten_turns older @ turn_messages t = ms"
    using flatten_build_turns [of ms] partial(1) by simp
  have hd: "hd (retained_messages (partial_latest_turn_plan older t (nat budget) tail)) = a"
    using partial_plan_cases [OF wf(1) a, of tail older "nat budget"] by (metis list.sel(1))
  show ?thesis
    unfolding Let_def partial(4)
    using partial_plan_splits [OF wf(1) a refl, of older "nat budget" tail] wf(2) hd unfolding ms by metis
next
  case (plain older retained)
  have "is_user_query (hd (flatten_turns retained))" if "flatten_turns older \<noteq> []"
  proof -
    from plain(2) obtain t rest where r: "retained = t # rest" by (cases retained) auto
    from that have "older \<noteq> []" by auto
    with r plain(1) have "t \<in> set (tl (build_turns ms))" by (cases older) auto
    with wf_build_turns [of ms] have t: "wf_turn t" "ut_anchor t \<noteq> None"
      unfolding wf_turns_def by (metis list.sel(2) list.set_sel(2), blast)
    then have "turn_messages t \<noteq> []" by (auto simp: turn_messages_def)
    with turn_hd_query [OF t] r show ?thesis by simp
  qed
  moreover have "flatten_turns older @ flatten_turns retained = ms"
    using flatten_build_turns [of ms] plain(1) by simp
  ultimately show ?thesis unfolding plain(3) by (simp add: plain_plan_def Let_def)
qed (simp_all add: plain_plan_def Let_def)

text \<open>A session of two turns, the newer one with a tool call that is answered in a message of its own.\<close>

definition text_message :: "nat \<Rightarrow> string \<Rightarrow> string \<Rightarrow> nat \<Rightarrow> message" where
  "text_message ref mid who n =
     \<lparr>m_ref = ref, m_id = mid, m_role = who, m_parts = [TextPart (replicate n 65)], m_kind = None\<rparr>"

definition tool_message :: "nat \<Rightarrow> string \<Rightarrow> string \<Rightarrow> nat \<Rightarrow> message" where
  "tool_message ref mid who n =
     \<lparr>m_ref = ref, m_id = mid, m_role = who,
      m_parts = [ToolPart \<lparr>tp_id = [66], tp_name = [67], tp_input = None, tp_output = replicate n 68,
        tp_output_truncated = False, tp_output_original_chars = None, tp_output_preview_chars = None\<rparr>],
      m_kind = None\<rparr>"

definition example_session :: "message list" where
  "example_session =
     [text_message 1 ''u1'' ''user'' 8, text_message 2 ''a1'' ''assistant'' 8,
      text_message 3 ''u2'' ''user'' 8, tool_message 4 ''a2'' ''assistant'' 2, tool_message 5 ''t2'' ''user'' 60,
      text_message 6 ''a3'' ''assistant'' 12]"

theorem retention_splits_session_witness:
  "let p = plan_retention example_session 2 10 1 in
     partial_turn p \<and> map m_id (archive_messages p) = [''u1'', ''a1'', ''u2'', ''a2'', ''t2''] \<and>
     (\<exists>older anchor src rest. example_session = older @ anchor # src @ rest \<and>
        archive_messages p = older @ anchor # src \<and> retained_messages p = anchor # rest \<and> rest \<noteq> [])"
proof -
  have "partial_turn (plan_retention example_session 2 10 1)"
    "map m_id (archive_messages (plan_retention example_session 2 10 1)) = [''u1'', ''a1'', ''u2'', ''a2'', ''t2'']"
    by code_simp+
  with retention_splits_session [of example_session 2 10 1] show ?thesis unfolding Let_def by blast
qed

text \<open>Property C22 (bounds): the retained messages keep to the token budget.  The plan reports their true number
  of tokens; budget_exceeded says exactly whether it is above the budget, and then only what is mandatory was
  retained: the newest query and the last steps of its turn that have to stay.\<close>

theorem retention_within_budget:
  "let p = plan_retention ms keep budget tail in
     estimated_active_tokens p = message_tokens (retained_messages p) \<and>
     (budget_exceeded p \<longleftrightarrow> nat budget < message_tokens (retained_messages p)) \<and>
     (budget_exceeded p \<longrightarrow> (\<exists>anchor. let steps = ut_steps (last (build_turns ms)) in
        ut_anchor (last (build_turns ms)) = Some anchor \<and>
        retained_messages p = anchor # concat (drop (length steps - nat (max 1 tail)) steps)))"
proof (cases rule: plan_retention_cases [of ms keep budget tail])
  case (partial older t)
  then obtain a where a: "ut_anchor t = Some a" by blast
  have wf: "wf_turn t"
    using wf_build_turns [of ms] partial(1) by (auto simp: wf_turns_def)
  have last: "last (build_turns ms) = t" using partial(1) by simp
  define p where "p = partial_latest_turn_plan older t (nat budget) tail"
  from wf a obtain n where "retained_messages p = a # concat (drop n (ut_steps t))"
    "n = length (ut_steps t) - nat (max 1 tail) \<or> \<not> budget_exceeded p"
    unfolding p_def by (rule partial_plan_cases [of t a tail older "nat budget"])
  moreover have "estimated_active_tokens p = message_tokens (retained_messages p)"
    "budget_exceeded p \<longleftrightarrow> nat budget < message_tokens (retained_messages p)"
    by (simp_all add: p_def partial_latest_turn_plan_def Let_def split: prod.splits)
  ultimately show ?thesis unfolding Let_def partial(4) last p_def [symmetric] using a by auto
qed (simp_all add: plain_plan_def Let_def)

theorem retention_within_budget_witness:
  "let p = plan_retention example_session 2 4 1 in
     budget_exceeded p \<and> map m_id (retained_messages p) = [''u2'', ''a3''] \<and>
     (\<exists>anchor. retained_messages p = anchor # concat (drop 1 (ut_steps (last (build_turns example_session)))))"
proof -
  have eval: "budget_exceeded (plan_retention example_session 2 4 1)"
    "map m_id (retained_messages (plan_retention example_session 2 4 1)) = [''u2'', ''a3'']"
    "length (ut_steps (last (build_turns example_session))) = 2"
    by code_simp+
  with retention_within_budget [of example_session 2 4 1] show ?thesis by (auto simp: Let_def)
qed

end
