(* ===== verification/Active_Budget_Props.thy ===== *)
theory Active_Budget_Props
  imports Active_Budget_Facts Retention_Props
begin

text \<open>
  Properties of the budgeted view: it never raises, it is within the budget, steps are selected as a whole, and
  the newest query and the last answer are in it whenever they can be.
\<close>

section \<open>The selection\<close>

definition sel_keys :: "selection \<Rightarrow> nat set" where
  "sel_keys st = fst ` set (sl_selected st)"

text \<open>
  The selection after the groups \<open>R\<close> were tried: it consists of some of these groups, in forms that differ at
  most in shortened texts, and its tokens are counted and within the budget.
\<close>

definition sel_ok :: "message list \<Rightarrow> nat \<Rightarrow> message list list \<Rightarrow> selection \<Rightarrow> bool" where
  "sel_ok ms b R st \<longleftrightarrow>
     (\<exists>C. set C \<subseteq> set R \<and> sel_keys st = index_of ms ` set (concat C)) \<and>
     distinct (map fst (sl_selected st)) \<and>
     sum_list (map (\<lambda>(i, m). estimated_tokens m) (sl_selected st)) = sl_used st \<and> sl_used st \<le> b \<and>
     (\<forall>(i, m) \<in> set (sl_selected st). i < length ms \<and> frame m = frame (ms ! i))"

lemma sel_ok_mono: "sel_ok ms b R st \<Longrightarrow> set R \<subseteq> set R' \<Longrightarrow> sel_ok ms b R' st"
  unfolding sel_ok_def by (meson order_trans)

lemma zip_frames:
  assumes "map frame c = map frame g" "set g \<subseteq> set ms" "distinct (map m_ref ms)"
  shows "\<forall>(i, m) \<in> set (zip (map (index_of ms) g) c). i < length ms \<and> frame m = frame (ms ! i)"
proof -
  have len: "length c = length g" using arg_cong [OF assms(1), of length] by simp
  have "frame (c ! k) = frame (g ! k)" if "k < length g" for k
    using arg_cong [OF assms(1), of "\<lambda>l. l ! k"] that len by simp
  with len show ?thesis
    using index_of_mem [OF assms(3)] assms(2) by (auto simp: set_zip) (metis nth_mem subsetD)+
qed

abbreviation extend :: "message list \<Rightarrow> message list \<Rightarrow> message list \<Rightarrow> string list \<Rightarrow> selection \<Rightarrow> selection" where
  "extend ms g c ids st \<equiv> st\<lparr>sl_selected := sl_selected st @ zip (map (index_of ms) g) c,
     sl_used := sl_used st + message_tokens c, sl_truncated := ids\<rparr>"

lemma sel_fresh:
  assumes ok: "sel_ok ms b R st" and refs: "distinct (map m_ref ms)"
    and g: "set g \<union> set (concat R) \<subseteq> set ms" "set g \<inter> set (concat R) = {}"
  shows "index_of ms ` set g \<inter> sel_keys st = {}"
proof -
  obtain C where C: "set C \<subseteq> set R" "sel_keys st = index_of ms ` set (concat C)"
    using ok by (auto simp: sel_ok_def)
  have sub: "set (concat C) \<subseteq> set (concat R)" using C(1) by auto
  have "index_of ms ` set g \<inter> index_of ms ` set (concat R) = {}"
    using inj_on_image_Int [OF index_of_inj [OF refs], of "set g" "set (concat R)"] g by auto
  then show ?thesis unfolding C(2) using sub by blast
qed

lemma sel_ok_add:
  assumes ok: "sel_ok ms b R st" and refs: "distinct (map m_ref ms)"
    and g: "set g \<union> set (concat R) \<subseteq> set ms" "distinct g" "set g \<inter> set (concat R) = {}"
    and c: "map frame c = map frame g" "message_tokens c \<le> b - sl_used st"
  shows "put_all (message_indexes ms) g c (sl_selected st) = Some (sl_selected st @ zip (map (index_of ms) g) c)"
    "sel_ok ms b (R @ [g]) (extend ms g c ids st)"
    "sel_keys (extend ms g c ids st) = sel_keys st \<union> index_of ms ` set g"
proof -
  have len: "length c = length g" using arg_cong [OF c(1), of length] by simp
  have gms: "set g \<subseteq> set ms" using g(1) by simp
  note fresh = sel_fresh [OF ok refs g(1,3)]
  show "put_all (message_indexes ms) g c (sl_selected st) = Some (sl_selected st @ zip (map (index_of ms) g) c)"
    using fresh by (intro put_all_fresh len gms refs g(2)) (simp add: sel_keys_def)
  have zk: "fst ` set (zip (map (index_of ms) g) c) = index_of ms ` set g"
    using len by (metis length_map list.set_map map_fst_zip)
  then show keys: "sel_keys (extend ms g c ids st) = sel_keys st \<union> index_of ms ` set g"
    by (simp add: sel_keys_def image_Un)
  obtain C where C: "set C \<subseteq> set R" "sel_keys st = index_of ms ` set (concat C)"
    using ok by (auto simp: sel_ok_def)
  have chosen: "set (C @ [g]) \<subseteq> set (R @ [g]) \<and> sel_keys (extend ms g c ids st) = index_of ms ` set (concat (C @ [g]))"
    using C keys by (auto simp: image_Un)
  have "distinct (map fst (sl_selected (extend ms g c ids st)))"
  proof -
    have "distinct (map (index_of ms) g)"
      using g(2) gms index_of_inj [OF refs] by (auto simp: distinct_map inj_on_def)
    moreover have "map fst (zip (map (index_of ms) g) c) = map (index_of ms) g" using len by simp
    ultimately show ?thesis using ok fresh by (auto simp: sel_ok_def sel_keys_def)
  qed
  moreover have "sum_list (map (\<lambda>(i, m). estimated_tokens m) (zip (map (index_of ms) g) c)) = message_tokens c"
  proof -
    have "map (\<lambda>(i, m). estimated_tokens m) (zip (map (index_of ms) g) c) =
        map estimated_tokens (map snd (zip (map (index_of ms) g) c))" by (simp add: case_prod_unfold)
    then show ?thesis using len by (simp add: message_tokens_def)
  qed
  moreover have "sl_used st + message_tokens c \<le> b"
  proof -
    have "sl_used st \<le> b" using ok by (simp add: sel_ok_def)
    with c(2) show ?thesis by linarith
  qed
  moreover have "\<forall>(i, m) \<in> set (sl_selected (extend ms g c ids st)). i < length ms \<and> frame m = frame (ms ! i)"
    using ok zip_frames [OF c(1) gms refs] unfolding sel_ok_def by auto
  moreover have "sum_list (map (\<lambda>(i, m). estimated_tokens m) (sl_selected st)) = sl_used st"
    using ok by (simp add: sel_ok_def)
  ultimately show "sel_ok ms b (R @ [g]) (extend ms g c ids st)"
    unfolding sel_ok_def by (intro conjI exI [of _ "C @ [g]"] chosen) simp_all
qed

text \<open>One call of the selection, and the loops.\<close>

definition room :: "nat \<Rightarrow> nat option \<Rightarrow> selection \<Rightarrow> nat" where
  "room b mb st = (case mb of None \<Rightarrow> b - sl_used st | Some k \<Rightarrow> min (b - sl_used st) k)"

lemma select_group_ok:
  assumes ok: "sel_ok ms b R st" and refs: "distinct (map m_ref ms)"
    and g: "set g \<union> set (concat R) \<subseteq> set ms" "distinct g" "set g \<inter> set (concat R) = {}"
  obtains st' res where "select_group (message_indexes ms) b g allow mb st = Some (st', res)"
    "sel_ok ms b (R @ [g]) st'" "sel_keys st \<subseteq> sel_keys st'" "res \<Longrightarrow> index_of ms ` set g \<subseteq> sel_keys st'"
    "g \<noteq> [] \<and> (message_tokens g \<le> room b mb st \<or> allow \<and> least_budget g \<le> room b mb st) \<Longrightarrow> res"
    "sl_used st' \<le> sl_used st + room b mb st"
proof -
  have room: "room b mb st \<le> b - sl_used st" by (simp add: room_def split: option.splits)
  have unfold: "select_group (message_indexes ms) b g allow mb st =
     (if g = [] then Some (st, True)
      else if message_tokens g \<le> room b mb st
      then map_option (\<lambda>sel. (st\<lparr>sl_selected := sel, sl_used := sl_used st + message_tokens g\<rparr>, True))
             (put_all (message_indexes ms) g g (sl_selected st))
      else if \<not> allow \<or> room b mb st = 0 then Some (st, False)
      else
        let (chosen, group_truncated) = truncate_message_group g (room b mb st)
        in if chosen = [] then Some (st, False)
           else map_option (\<lambda>sel. (st\<lparr>sl_selected := sel, sl_used := sl_used st + message_tokens chosen,
                                       sl_truncated := sl_truncated st @ group_truncated\<rparr>, True))
                  (put_all (message_indexes ms) g chosen (sl_selected st)))"
    by (simp add: select_group_def room_def Let_def)
  consider (empty) "g = []" | (whole) "g \<noteq> []" "message_tokens g \<le> room b mb st"
    | (cut) "g \<noteq> []" "\<not> message_tokens g \<le> room b mb st" "allow" "least_budget g \<le> room b mb st"
    | (none) "g \<noteq> []" "\<not> message_tokens g \<le> room b mb st" "\<not> (allow \<and> least_budget g \<le> room b mb st)" by blast
  then show thesis
  proof cases
    case empty
    then have "select_group (message_indexes ms) b g allow mb st = Some (st, True)"
      by (simp add: select_group_def)
    moreover have "sel_ok ms b (R @ [g]) st" using ok by (rule sel_ok_mono) auto
    ultimately show thesis using empty by (intro that) auto
  next
    case whole
    have "message_tokens g \<le> b - sl_used st" using whole(2) room by simp
    note add = sel_ok_add(1) [OF ok refs g refl this] sel_ok_add(2,3) [OF ok refs g refl this, of "sl_truncated st"]
    show thesis using whole add by (intro that [of "extend ms g g (sl_truncated st) st" True]) (auto simp: unfold)
  next
    case cut
    obtain chosen ids where t: "truncate_message_group g (room b mb st) = (chosen, ids)" by (meson surj_pair)
    have "0 < room b mb st" "chosen \<noteq> []"
      using cut truncate_message_group_props(1) [of g "room b mb st"] t by (auto simp: least_budget_def)
    then have c: "message_tokens chosen \<le> room b mb st" "map frame chosen = map frame g"
      using truncate_message_group_props(2) [of g "room b mb st"] t by auto
    then have "message_tokens chosen \<le> b - sl_used st" using room by simp
    note add = sel_ok_add(1) [OF ok refs g c(2) this]
      sel_ok_add(2,3) [OF ok refs g c(2) this, of "sl_truncated st @ ids"]
    have "select_group (message_indexes ms) b g allow mb st = Some (extend ms g chosen (sl_truncated st @ ids) st, True)"
      unfolding unfold using cut(1-3) \<open>0 < room b mb st\<close> \<open>chosen \<noteq> []\<close> t add(1) by simp
    then show thesis by (rule that) (use c(1) add(2,3) in simp_all)
  next
    case none
    have "select_group (message_indexes ms) b g allow mb st = Some (st, False)"
    proof (cases "\<not> allow \<or> room b mb st = 0")
      case True
      with none(1,2) show ?thesis by (simp add: unfold)
    next
      case False
      with none(3) have "\<not> message_tokens (bare g) \<le> room b mb st" by (auto simp: least_budget_def)
      then have "fst (truncate_message_group g (room b mb st)) = []"
        using truncate_message_group_props(1) by blast
      with none(1,2) False show ?thesis unfolding unfold by (auto split: prod.splits)
    qed
    moreover have "sel_ok ms b (R @ [g]) st" using ok by (rule sel_ok_mono) auto
    ultimately show thesis using none by (intro that [of st False]) auto
  qed
qed

lemma select_loop_ok:
  assumes "sel_ok ms b R st" "distinct (map m_ref ms)" "set (concat (R @ gs)) \<subseteq> set ms"
    "distinct (concat gs)" "set (concat gs) \<inter> set (concat R) = {}"
  shows "\<exists>st'. select_loop (message_indexes ms) b allow gs st = Some st' \<and> sel_ok ms b (R @ gs) st' \<and>
     sel_keys st \<subseteq> sel_keys st'"
  using assms
proof (induction gs arbitrary: R st)
  case (Cons g gs)
  have g: "set g \<union> set (concat R) \<subseteq> set ms" "distinct g" "set g \<inter> set (concat R) = {}"
    using Cons.prems by auto
  obtain st1 res where s: "select_group (message_indexes ms) b g allow None st = Some (st1, res)"
    "sel_ok ms b (R @ [g]) st1" "sel_keys st \<subseteq> sel_keys st1"
    by (rule select_group_ok [OF Cons.prems(1,2) g])
  show ?case
  proof (cases res)
    case True
    have "\<exists>st'. select_loop (message_indexes ms) b allow gs st1 = Some st' \<and> sel_ok ms b ((R @ [g]) @ gs) st' \<and>
        sel_keys st1 \<subseteq> sel_keys st'"
      using Cons.prems by (intro Cons.IH s(2)) auto
    with True s(1,3) show ?thesis by auto
  next
    case False
    have "sel_ok ms b (R @ g # gs) st1" using s(2) by (rule sel_ok_mono) auto
    with False s(1,3) show ?thesis by simp
  qed
qed auto

text \<open>All groups, in the order in which they are tried.\<close>

definition anchor_group :: "user_turn \<Rightarrow> message list" where
  "anchor_group t = (case ut_anchor t of None \<Rightarrow> [] | Some a \<Rightarrow> [a])"

definition final_group :: "user_turn \<Rightarrow> message list" where
  "final_group t = (if ut_steps t \<noteq> [] then last (ut_steps t) else [])"

definition rest_groups :: "user_turn list \<Rightarrow> message list list" where
  "rest_groups turns =
     (let earlier = butlast (ut_steps (last turns))
      in filter is_checkpoint_step earlier @ rev (filter (\<lambda>s. \<not> is_checkpoint_step s) earlier) @
         rev (map turn_messages (butlast turns)))"

definition groups :: "message list \<Rightarrow> message list list" where
  "groups ms = (let turns = build_turns ms
     in [anchor_group (last turns), final_group (last turns)] @ rest_groups turns)"

lemma mset_concat_rev: "mset (concat (rev xs)) = mset (concat xs)"
  by (induction xs) simp_all

lemma mset_concat_filter: "mset (concat (filter P xs)) + mset (concat (filter (\<lambda>x. \<not> P x) xs)) = mset (concat xs)"
  by (induction xs) simp_all

lemma build_turns_empty: "build_turns ms = [] \<longleftrightarrow> ms = []"
  by (cases ms rule: rev_cases) (simp_all add: build_turns_snoc add_message_def build_turns_def)

lemma groups_mset:
  assumes "ms \<noteq> []"
  shows "mset (concat (groups ms)) = mset ms"
proof -
  define t where "t = last (build_turns ms)"
  have ne: "build_turns ms \<noteq> []" using assms by (simp add: build_turns_empty)
  have "ms = flatten_turns (butlast (build_turns ms) @ [t])"
    unfolding t_def append_butlast_last_id [OF ne] by (rule flatten_build_turns [symmetric])
  also have "mset \<dots> = mset (concat (map turn_messages (butlast (build_turns ms)))) + mset (turn_messages t)"
    by (simp add: flatten_turns_def)
  finally have ms: "mset ms = \<dots>" .
  have "concat (ut_steps t) = concat (butlast (ut_steps t)) @ final_group t"
    by (cases "ut_steps t" rule: rev_cases) (simp_all add: final_group_def)
  then have "mset (turn_messages t) = mset (anchor_group t) + mset (final_group t) + mset (concat (butlast (ut_steps t)))"
    by (simp add: turn_messages_def anchor_group_def)
  moreover have "mset (concat (rest_groups (build_turns ms))) =
      mset (concat (butlast (ut_steps t))) + mset (concat (map turn_messages (butlast (build_turns ms))))"
    unfolding rest_groups_def Let_def t_def [symmetric] concat_append mset_append mset_concat_rev
    using mset_concat_filter [of is_checkpoint_step "butlast (ut_steps t)"] by (metis add.assoc)
  ultimately show ?thesis unfolding ms by (simp add: groups_def Let_def t_def [symmetric])
qed

lemma groups_disjoint:
  assumes "distinct (map m_ref ms)" "ms \<noteq> []"
  shows "distinct (concat (groups ms))" "set (concat (groups ms)) = set ms"
proof -
  note eq = groups_mset [OF assms(2)]
  show "set (concat (groups ms)) = set ms" using eq by (rule mset_eq_setD)
  have "distinct ms" using assms(1) by (simp add: distinct_map)
  with eq show "distinct (concat (groups ms))" by (metis mset_eq_imp_distinct_iff)
qed

lemma step_in_group:
  assumes "t \<in> set (build_turns ms)" "s \<in> set (ut_steps t)"
  shows "\<exists>g \<in> set (groups ms). set s \<subseteq> set g"
proof -
  have ne: "build_turns ms \<noteq> []" "ut_steps t \<noteq> []" using assms by auto
  consider (older) "t \<in> set (butlast (build_turns ms))"
    | (final) "t = last (build_turns ms)" "s = last (ut_steps t)"
    | (earlier) "t = last (build_turns ms)" "s \<in> set (butlast (ut_steps t))"
    using assms append_butlast_last_id [OF ne(1)] append_butlast_last_id [OF ne(2)]
    by (metis in_set_conv_decomp rotate1.simps(2) set_ConsD set_rotate1)
  then show ?thesis
  proof cases
    case older
    with assms(2) show ?thesis
      by (intro bexI [of _ "turn_messages t"]) (auto simp: groups_def rest_groups_def Let_def turn_messages_def)
  next
    case final
    with ne show ?thesis by (auto simp: groups_def final_group_def Let_def)
  next
    case earlier
    then show ?thesis by (auto simp: groups_def rest_groups_def Let_def)
  qed
qed

text \<open>The whole selection.  The first two groups, the newest query and the last step of its turn, leave room
  for each other whenever both fit in their shortest form.\<close>

lemma final_reserve_bounds:
  assumes "a \<noteq> []" "f \<noteq> []" "least_budget a + least_budget f \<le> b"
  defines "r \<equiv> final_reserve b a f"
  shows "r \<le> b" "message_tokens a \<le> b - r \<or> least_budget a \<le> b - r" "message_tokens f \<le> r \<or> least_budget f \<le> r"
proof -
  have min: "minimum_group_budget b g = Some (if message_tokens g = 0 then 0 else least_budget g)"
    if "g \<noteq> []" "least_budget g \<le> b" for g
    using minimum_group_budget_eq [OF that(1) _ that(2)] by (auto simp: minimum_group_budget_def)
  have "least_budget a \<le> b" "least_budget f \<le> b" using assms(3) by simp_all
  note fits = min [OF assms(1) this(1)] min [OF assms(2) this(2)]
  then have r: "r = min (message_tokens f) (min (max (if message_tokens f = 0 then 0 else least_budget f) (b div 2))
      (b - (if message_tokens a = 0 then 0 else least_budget a)))"
    using assms unfolding r_def final_reserve_def by simp
  show "r \<le> b" "message_tokens a \<le> b - r \<or> least_budget a \<le> b - r" "message_tokens f \<le> r \<or> least_budget f \<le> r"
    using assms(3) unfolding r by (auto split: if_splits)
qed

lemma select_all_ok:
  assumes refs: "distinct (map m_ref ms)" and ne: "ms \<noteq> []"
  defines "a \<equiv> anchor_group (last (build_turns ms))" and "f \<equiv> final_group (last (build_turns ms))"
  obtains st where "select_all ms b = Some st" "sel_ok ms b (groups ms) st"
    "a \<noteq> [] \<and> f \<noteq> [] \<and> least_budget a + least_budget f \<le> b \<Longrightarrow> index_of ms ` set (a @ f) \<subseteq> sel_keys st"
proof -
  define earlier where "earlier = butlast (ut_steps (last (build_turns ms)))"
  define cp where "cp = filter is_checkpoint_step earlier"
  define other where "other = rev (filter (\<lambda>s. \<not> is_checkpoint_step s) earlier)"
  define older where "older = rev (map turn_messages (butlast (build_turns ms)))"
  define st0 where "st0 = \<lparr>sl_selected = [], sl_truncated = [], sl_used = 0\<rparr>"
  let ?r = "final_reserve b a f"
  have gs: "groups ms = [a, f] @ cp @ other @ older"
    by (simp add: groups_def rest_groups_def Let_def a_def f_def earlier_def cp_def other_def older_def)
  have part: "set (concat (R @ gs)) \<subseteq> set ms" "distinct (concat gs)" "set (concat gs) \<inter> set (concat R) = {}"
    if "groups ms = R @ gs @ rest" for R gs rest
    using groups_disjoint [OF refs ne, unfolded that] by auto
  have ok0: "sel_ok ms b [] st0" by (auto simp: sel_ok_def st0_def sel_keys_def)
  obtain st1 r1 where s1: "select_group (message_indexes ms) b a True (Some (b - ?r)) st0 = Some (st1, r1)"
    "sel_ok ms b ([] @ [a]) st1" "r1 \<Longrightarrow> index_of ms ` set a \<subseteq> sel_keys st1"
    "a \<noteq> [] \<and> (message_tokens a \<le> room b (Some (b - ?r)) st0 \<or> True \<and> least_budget a \<le> room b (Some (b - ?r)) st0) \<Longrightarrow> r1"
    "sl_used st1 \<le> sl_used st0 + room b (Some (b - ?r)) st0"
    by (rule select_group_ok [OF ok0 refs, of a True "Some (b - ?r)"]) (use part [of "[]" "[a]"] gs in auto)
  obtain st2 r2 where s2: "select_group (message_indexes ms) b f True None st1 = Some (st2, r2)"
    "sel_ok ms b (([] @ [a]) @ [f]) st2" "sel_keys st1 \<subseteq> sel_keys st2" "r2 \<Longrightarrow> index_of ms ` set f \<subseteq> sel_keys st2"
    "f \<noteq> [] \<and> (message_tokens f \<le> room b None st1 \<or> True \<and> least_budget f \<le> room b None st1) \<Longrightarrow> r2"
    by (rule select_group_ok [OF s1(2) refs, of f True None]) (use part [of "[a]" "[f]"] gs in auto)
  obtain st3 where s3: "select_loop (message_indexes ms) b True cp st2 = Some st3"
    "sel_ok ms b ((([] @ [a]) @ [f]) @ cp) st3" "sel_keys st2 \<subseteq> sel_keys st3"
    using select_loop_ok [OF s2(2) refs, of cp True] part [of "[a, f]" cp "other @ older"] gs by auto
  obtain st4 where s4: "select_loop (message_indexes ms) b False other st3 = Some st4"
    "sel_ok ms b (((([] @ [a]) @ [f]) @ cp) @ other) st4" "sel_keys st3 \<subseteq> sel_keys st4"
    using select_loop_ok [OF s3(2) refs, of other False] part [of "[a, f] @ cp" other "older"] gs by auto
  obtain st5 where s5: "select_loop (message_indexes ms) b False older st4 = Some st5"
    "sel_ok ms b ((((([] @ [a]) @ [f]) @ cp) @ other) @ older) st5" "sel_keys st4 \<subseteq> sel_keys st5"
    using select_loop_ok [OF s4(2) refs, of older False] part [of "[a, f] @ cp @ other" older "[]"] gs by auto
  show thesis
  proof (rule that [of st5])
    show "select_all ms b = Some st5"
      using s1(1) s2(1) s3(1) s4(1) s5(1)
      by (simp add: select_all_def Let_def a_def f_def anchor_group_def final_group_def cp_def other_def older_def
          earlier_def st0_def)
    show "sel_ok ms b (groups ms) st5" using s5(2) by (simp add: gs)
    assume fit: "a \<noteq> [] \<and> f \<noteq> [] \<and> least_budget a + least_budget f \<le> b"
    then have res: "?r \<le> b" "message_tokens a \<le> b - ?r \<or> least_budget a \<le> b - ?r"
      "message_tokens f \<le> ?r \<or> least_budget f \<le> ?r" by (auto dest: final_reserve_bounds)
    have room: "room b (Some (b - ?r)) st0 = b - ?r" by (simp add: room_def st0_def)
    with s1(4) res(2) fit have r1 by simp
    have "?r \<le> room b None st1" using s1(5) res(1) by (simp add: room room_def st0_def)
    with s2(5) res(3) fit have r2 by (metis order_trans)
    with \<open>r1\<close> s1(3) s2(3,4) s3(3) s4(3) s5(3) show "index_of ms ` set (a @ f) \<subseteq> sel_keys st5"
      by auto blast+
  qed
qed

section \<open>The view\<close>

lemma frame_ref: "frame m = frame m' \<Longrightarrow> m_ref m = m_ref m'"
  by (drule arg_cong [of _ _ m_ref]) (simp add: frame_def)

lemma filter_by_index: "filter P xs = map (\<lambda>i. xs ! i) (filter (\<lambda>i. P (xs ! i)) [0..<length xs])"
  using filter_map [of P "\<lambda>i. xs ! i" "[0..<length xs]"] by (simp add: map_nth comp_def)

text \<open>The messages of the view are those of the selected positions, in the order of the session.\<close>

definition view :: "selection \<Rightarrow> message list" where
  "view st = map snd (sort_key fst (sl_selected st))"

lemma view_tokens:
  assumes "sel_ok ms b R st"
  shows "message_tokens (view st) = sl_used st"
proof -
  have "mset (map (\<lambda>x. estimated_tokens (snd x)) (sort_key fst (sl_selected st))) =
      mset (map (\<lambda>x. estimated_tokens (snd x)) (sl_selected st))"
    by simp
  then have "message_tokens (view st) = sum_list (map (\<lambda>x. estimated_tokens (snd x)) (sl_selected st))"
    unfolding message_tokens_def view_def map_map comp_def by (metis sum_mset_sum_list)
  then show ?thesis using assms by (simp add: sel_ok_def case_prod_unfold)
qed

lemma selected_frame:
  assumes "sel_ok ms b R st" "x \<in> set (sl_selected st)"
  shows "fst x < length ms" "frame (snd x) = frame (ms ! fst x)"
  using assms by (auto simp: sel_ok_def)

lemma view_refs:
  assumes "sel_ok ms b R st"
  shows "m_ref ` set (view st) = (\<lambda>i. m_ref (ms ! i)) ` sel_keys st"
proof -
  have "m_ref ` set (view st) = (\<lambda>x. m_ref (snd x)) ` set (sl_selected st)"
    by (simp add: view_def image_image)
  also have "\<dots> = (\<lambda>x. m_ref (ms ! fst x)) ` set (sl_selected st)"
    by (intro image_cong refl frame_ref selected_frame(2) [OF assms])
  finally show ?thesis by (simp add: sel_keys_def image_image)
qed

lemma view_mem:
  assumes ok: "sel_ok ms b R st" and refs: "distinct (map m_ref ms)" and i: "i < length ms"
  shows "m_ref (ms ! i) \<in> m_ref ` set (view st) \<longleftrightarrow> i \<in> sel_keys st"
proof -
  have "i = j" if "m_ref (ms ! i) = m_ref (ms ! j)" "j \<in> sel_keys st" for j
  proof -
    have "j < length ms" using that(2) selected_frame(1) [OF ok] by (auto simp: sel_keys_def)
    with that(1) i refs show ?thesis by (metis length_map nth_eq_iff_index_eq nth_map)
  qed
  then show ?thesis unfolding view_refs [OF ok] by auto
qed

lemma view_order:
  assumes ok: "sel_ok ms b R st"
  shows "map fst (sort_key fst (sl_selected st)) = filter (\<lambda>i. i \<in> sel_keys st) [0..<length ms]"
proof (rule sorted_distinct_set_unique)
  have "mset (map fst (sort_key fst (sl_selected st))) = mset (map fst (sl_selected st))" by simp
  moreover have "distinct (map fst (sl_selected st))" using ok by (simp add: sel_ok_def)
  ultimately show "distinct (map fst (sort_key fst (sl_selected st)))" by (metis mset_eq_imp_distinct_iff)
  show "set (map fst (sort_key fst (sl_selected st))) = set (filter (\<lambda>i. i \<in> sel_keys st) [0..<length ms])"
    using selected_frame(1) [OF ok] by (auto simp: sel_keys_def)
  show "sorted (filter (\<lambda>i. i \<in> sel_keys st) [0..<length ms])"
    using sorted_filter [of "\<lambda>i. i" "[0..<length ms]"] by simp
qed simp_all

lemma view_frames:
  assumes ok: "sel_ok ms b R st" and refs: "distinct (map m_ref ms)"
  shows "map frame (view st) = map frame (filter (\<lambda>m. m_ref m \<in> m_ref ` set (view st)) ms)"
proof -
  have "map frame (view st) = map (\<lambda>x. frame (ms ! fst x)) (sort_key fst (sl_selected st))"
    using selected_frame(2) [OF ok] by (simp add: view_def)
  also have "\<dots> = map (\<lambda>i. frame (ms ! i)) (map fst (sort_key fst (sl_selected st)))"
    by simp
  also have "\<dots> = map (\<lambda>i. frame (ms ! i)) (filter (\<lambda>i. m_ref (ms ! i) \<in> m_ref ` set (view st)) [0..<length ms])"
    unfolding view_order [OF ok] using view_mem [OF ok refs] by (intro arg_cong [where f = "map _"] filter_cong) auto
  finally show ?thesis by (subst filter_by_index) (simp add: comp_def)
qed

lemma view_dropped:
  assumes ok: "sel_ok ms b R st" and refs: "distinct (map m_ref ms)"
  shows "map (\<lambda>i. m_id (ms ! i)) (filter (\<lambda>i. i \<notin> sel_keys st) [0..<length ms]) =
     map m_id (filter (\<lambda>m. m_ref m \<notin> m_ref ` set (view st)) ms)"
proof -
  have "filter (\<lambda>i. i \<notin> sel_keys st) [0..<length ms] =
      filter (\<lambda>i. m_ref (ms ! i) \<notin> m_ref ` set (view st)) [0..<length ms]"
    using view_mem [OF ok refs] by (intro filter_cong) auto
  then show ?thesis by (subst filter_by_index) (simp add: comp_def)
qed

lemma selected_steps_whole:
  assumes ok: "sel_ok ms b (groups ms) st" and refs: "distinct (map m_ref ms)"
    and s: "t \<in> set (build_turns ms)" "s \<in> set (ut_steps t)"
  shows "index_of ms ` set s \<subseteq> sel_keys st \<or> index_of ms ` set s \<inter> sel_keys st = {}"
proof -
  have "ms \<noteq> []" using s(1) by (auto simp: build_turns_def)
  note gs = groups_disjoint [OF refs this]
  obtain C where C: "set C \<subseteq> set (groups ms)" "sel_keys st = index_of ms ` set (concat C)"
    using ok by (auto simp: sel_ok_def)
  obtain g where g: "g \<in> set (groups ms)" "set s \<subseteq> set g" using step_in_group [OF s] by blast
  show ?thesis
  proof (cases "g \<in> set C")
    case True
    with g(2) show ?thesis unfolding C(2) by auto
  next
    case False
    have "set g \<inter> set h = {}" if "h \<in> set C" for h
      using gs(1) that False g(1) C(1) unfolding distinct_concat_iff by (metis distinct_concat_iff gs(1) subsetD)
    then have "set s \<inter> set (concat C) = {}" using g(2) by auto
    moreover have "set s \<union> set (concat C) \<subseteq> set ms" using g C(1) gs(2) by auto
    ultimately show ?thesis unfolding C(2)
      using inj_on_image_Int [OF index_of_inj [OF refs], of "set s" "set (concat C)"] by auto
  qed
qed

text \<open>The three ways the view is made.\<close>

lemma fit_active_cases:
  assumes refs: "distinct (map m_ref ms)"
  defines "a \<equiv> anchor_group (last (build_turns ms))" and "f \<equiv> final_group (last (build_turns ms))"
  obtains (nothing) "ms = [] \<or> nat budget = 0" "fit_active_messages_to_budget ms budget =
      Some \<lparr>ap_messages = [], ap_estimated_tokens = 0, ap_dropped_message_ids = map m_id ms, ap_truncated_message_ids = []\<rparr>"
  | (everything) "message_tokens ms \<le> nat budget" "fit_active_messages_to_budget ms budget =
      Some \<lparr>ap_messages = ms, ap_estimated_tokens = message_tokens ms, ap_dropped_message_ids = [], ap_truncated_message_ids = []\<rparr>"
  | (selected) st where "fit_active_messages_to_budget ms budget =
      Some \<lparr>ap_messages = view st, ap_estimated_tokens = message_tokens (view st),
        ap_dropped_message_ids = map m_id (filter (\<lambda>m. m_ref m \<notin> m_ref ` set (view st)) ms),
        ap_truncated_message_ids = sort (remdups (sl_truncated st))\<rparr>"
      "sel_ok ms (nat budget) (groups ms) st"
      "a \<noteq> [] \<and> f \<noteq> [] \<and> least_budget a + least_budget f \<le> nat budget \<Longrightarrow> index_of ms ` set (a @ f) \<subseteq> sel_keys st"
proof -
  consider "ms = [] \<or> nat budget = 0" | "ms \<noteq> [] \<and> nat budget \<noteq> 0" "message_tokens ms \<le> nat budget"
    | "ms \<noteq> [] \<and> nat budget \<noteq> 0" "\<not> message_tokens ms \<le> nat budget" by blast
  then show thesis
  proof cases
    case 1
    show thesis by (rule nothing [OF 1]) (use 1 in \<open>auto simp: fit_active_messages_to_budget_def\<close>)
  next
    case 2
    show thesis by (rule everything [OF 2(2)]) (use 2 in \<open>auto simp: fit_active_messages_to_budget_def\<close>)
  next
    case 3
    obtain st where st: "select_all ms (nat budget) = Some st" "sel_ok ms (nat budget) (groups ms) st"
      "a \<noteq> [] \<and> f \<noteq> [] \<and> least_budget a + least_budget f \<le> nat budget \<Longrightarrow> index_of ms ` set (a @ f) \<subseteq> sel_keys st"
      unfolding a_def f_def using select_all_ok [OF refs] 3(1) by metis
    show thesis
    proof (rule selected [OF _ st(2,3)])
      show "fit_active_messages_to_budget ms budget =
        Some \<lparr>ap_messages = view st, ap_estimated_tokens = message_tokens (view st),
        ap_dropped_message_ids = map m_id (filter (\<lambda>m. m_ref m \<notin> m_ref ` set (view st)) ms),
        ap_truncated_message_ids = sort (remdups (sl_truncated st))\<rparr>"
        unfolding view_dropped [OF st(2) refs, symmetric]
        using 3 st(1) by (simp add: fit_active_messages_to_budget_def view_def sel_keys_def Let_def)
    qed
  qed
qed

lemma index_refs:
  assumes "sel_ok ms b R st" "distinct (map m_ref ms)" "set g \<subseteq> set ms"
  shows "index_of ms ` set g \<subseteq> sel_keys st \<longleftrightarrow> m_ref ` set g \<subseteq> m_ref ` set (view st)"
    "index_of ms ` set g \<inter> sel_keys st = {} \<longleftrightarrow> m_ref ` set g \<inter> m_ref ` set (view st) = {}"
proof -
  have "index_of ms m \<in> sel_keys st \<longleftrightarrow> m_ref m \<in> m_ref ` set (view st)" if "m \<in> set g" for m
    using view_mem [OF assms(1,2), of "index_of ms m"] index_of_mem [OF assms(2), of m] that assms(3) by auto
  then show "index_of ms ` set g \<subseteq> sel_keys st \<longleftrightarrow> m_ref ` set g \<subseteq> m_ref ` set (view st)"
    "index_of ms ` set g \<inter> sel_keys st = {} \<longleftrightarrow> m_ref ` set g \<inter> m_ref ` set (view st) = {}"
    by (simp_all only: image_subset_iff disjoint_iff ball_simps, auto)
qed

lemma step_of_session:
  assumes "distinct (map m_ref ms)" "t \<in> set (build_turns ms)" "s \<in> set (ut_steps t)"
  shows "set s \<subseteq> set ms"
proof -
  have "ms \<noteq> []" using assms(2) by (auto simp: build_turns_def)
  with step_in_group [OF assms(2,3)] groups_disjoint(2) [OF assms(1)] show ?thesis by auto
qed

text \<open>Property C23 (bounds): the budgeted view of a session always exists and is within its budget.  It
  consists of messages of the session in their order, which differ from the originals at most in shortened texts
  and tool inputs; the messages that are reported as dropped are exactly the others; a step of an assistant, its
  call and the tool results, is in the view as a whole or not at all.\<close>

theorem active_view_within_budget:
  "distinct (map m_ref ms) \<Longrightarrow>
     \<exists>p. fit_active_messages_to_budget ms budget = Some p \<and>
       message_tokens (ap_messages p) \<le> nat budget \<and> ap_estimated_tokens p = message_tokens (ap_messages p) \<and>
       (let kept = m_ref ` set (ap_messages p) in
          map frame (ap_messages p) = map frame (filter (\<lambda>m. m_ref m \<in> kept) ms) \<and>
          ap_dropped_message_ids p = map m_id (filter (\<lambda>m. m_ref m \<notin> kept) ms) \<and>
          (\<forall>t \<in> set (build_turns ms). \<forall>s \<in> set (ut_steps t). m_ref ` set s \<subseteq> kept \<or> m_ref ` set s \<inter> kept = {}))"
proof -
  assume refs: "distinct (map m_ref ms)"
  show ?thesis
  proof (cases rule: fit_active_cases [OF refs, of budget])
    case 1
    then show ?thesis by auto
  next
    case 2
    moreover have "\<forall>t \<in> set (build_turns ms). \<forall>s \<in> set (ut_steps t). m_ref ` set s \<subseteq> m_ref ` set ms"
      using step_of_session [OF refs] by (intro ballI image_mono)
    ultimately show ?thesis by simp
  next
    case (3 st)
    have "message_tokens (view st) \<le> nat budget" using 3(2) by (simp add: view_tokens [OF 3(2)] sel_ok_def)
    moreover have "m_ref ` set s \<subseteq> m_ref ` set (view st) \<or> m_ref ` set s \<inter> m_ref ` set (view st) = {}"
      if "t \<in> set (build_turns ms)" "s \<in> set (ut_steps t)" for t s
      using selected_steps_whole [OF 3(2) refs that] step_of_session [OF refs that]
      by (simp only: index_refs [OF 3(2) refs])
    ultimately show ?thesis using view_frames [OF 3(2) refs] 3(1) by (simp add: Let_def)
  qed
qed

theorem active_view_within_budget_witness:
  "distinct (map m_ref example_session) \<and>
   (\<exists>p. fit_active_messages_to_budget example_session 8 = Some p \<and> message_tokens (ap_messages p) \<le> 8) \<and>
   map_option (\<lambda>p. map m_ref (ap_messages p)) (fit_active_messages_to_budget example_session 8) = Some [3, 6] \<and>
   map_option ap_dropped_message_ids (fit_active_messages_to_budget example_session 8) = Some [''u1'', ''a1'', ''a2'', ''t2'']"
proof (intro conjI)
  show refs: "distinct (map m_ref example_session)" by code_simp
  obtain p where "fit_active_messages_to_budget example_session 8 = Some p" "message_tokens (ap_messages p) \<le> nat 8"
    using active_view_within_budget [OF refs, of 8] by (elim exE conjE)
  then show "\<exists>p. fit_active_messages_to_budget example_session 8 = Some p \<and> message_tokens (ap_messages p) \<le> 8"
    unfolding nat_numeral by (intro exI conjI)
  show "map_option (\<lambda>p. map m_ref (ap_messages p)) (fit_active_messages_to_budget example_session 8) = Some [3, 6]"
    by code_simp
  show "map_option ap_dropped_message_ids (fit_active_messages_to_budget example_session 8) =
      Some [''u1'', ''a1'', ''a2'', ''t2'']"
    by code_simp
qed

text \<open>A returned message has its original in the session.\<close>

lemma frames_of_keys:
  assumes ok: "sel_ok ms b R st" and refs: "distinct (map m_ref ms)" and g: "set g \<subseteq> set ms"
    and keys: "index_of ms ` set g \<subseteq> sel_keys st"
  shows "frame ` set g \<subseteq> frame ` set (view st)"
proof (rule image_subsetI)
  fix m
  assume m: "m \<in> set g"
  with keys obtain x where x: "x \<in> set (sl_selected st)" "fst x = index_of ms m" by (auto simp: sel_keys_def)
  have "frame (snd x) = frame m"
    using selected_frame(2) [OF ok x(1)] index_of_mem(2) [OF refs, of m] m g x(2) by auto
  moreover have "snd x \<in> set (view st)" using x(1) by (auto simp: view_def)
  ultimately show "frame m \<in> frame ` set (view st)" by (metis imageI)
qed

text \<open>Property C24 (functional): a long query does not push the newest answer out of the view.  When the
  newest query and the last step of its turn can be shortened to the budget together, every message of the two is
  in the view, whatever the lengths of their texts.\<close>

theorem newest_exchange_visible:
  assumes refs: "distinct (map m_ref ms)" and t: "build_turns ms = older @ [t]" "ut_anchor t = Some a" "ut_steps t \<noteq> []"
    and fit: "least_budget [a] + least_budget (last (ut_steps t)) \<le> nat budget"
  shows "\<exists>p. fit_active_messages_to_budget ms budget = Some p \<and>
     frame ` set (a # last (ut_steps t)) \<subseteq> frame ` set (ap_messages p)"
proof -
  have grp: "anchor_group (last (build_turns ms)) = [a]" "final_group (last (build_turns ms)) = last (ut_steps t)"
    using t by (simp_all add: anchor_group_def final_group_def)
  have ne: "ms \<noteq> []" using t(1) by (auto simp: build_turns_def)
  have "[] \<notin> set (ut_steps t)" using wf_build_turns [of ms] t(1) by (auto simp: wf_turns_def wf_turn_def)
  then have step: "last (ut_steps t) \<noteq> []" using t(3) by (metis last_in_set)
  have sub: "set ([a] @ last (ut_steps t)) \<subseteq> set ms"
    using groups_disjoint(2) [OF refs ne] grp by (auto simp: groups_def Let_def)
  show ?thesis
  proof (cases rule: fit_active_cases [OF refs, of budget])
    case 1
    with ne fit show ?thesis by (simp add: least_budget_def)
  next
    case 2
    with sub show ?thesis by auto
  next
    case (3 st)
    have "index_of ms ` set ([a] @ last (ut_steps t)) \<subseteq> sel_keys st"
      using 3(3) fit step unfolding grp by simp
    from frames_of_keys [OF 3(2) refs sub this] 3(1) show ?thesis by simp
  qed
qed

theorem newest_exchange_visible_witness:
  "least_budget [example_session ! 2] + least_budget [example_session ! 5] = 2 \<and>
   (\<exists>p. fit_active_messages_to_budget example_session 2 = Some p \<and>
      frame ` {example_session ! 2, example_session ! 5} \<subseteq> frame ` set (ap_messages p))"
proof (rule conjI)
  show fit: "least_budget [example_session ! 2] + least_budget [example_session ! 5] = 2" by code_simp
  have t: "build_turns example_session = [hd (build_turns example_session)] @ [last (build_turns example_session)]"
    "ut_anchor (last (build_turns example_session)) = Some (example_session ! 2)"
    "ut_steps (last (build_turns example_session)) \<noteq> []"
    "last (ut_steps (last (build_turns example_session))) = [example_session ! 5]" by code_simp+
  have refs: "distinct (map m_ref example_session)" by code_simp
  from newest_exchange_visible [OF refs t(1-3), of 2] fit
  show "\<exists>p. fit_active_messages_to_budget example_session 2 = Some p \<and>
      frame ` {example_session ! 2, example_session ! 5} \<subseteq> frame ` set (ap_messages p)"
    unfolding t(4) by simp
qed

text \<open>The view need not be a suffix of the session: a turn that is older than a dropped step may be in it.\<close>

lemma older_turn_before_dropped_step:
  "map_option (\<lambda>p. (map m_id (ap_messages p), ap_dropped_message_ids p)) (fit_active_messages_to_budget example_session 12) =
     Some ([''u1'', ''a1'', ''u2'', ''a3''], [''a2'', ''t2''])"
  by code_simp

end
