(* ===== verification/Watch_Manager.thy ===== *)
theory Watch_Manager
  imports Py_Prelude Complex_Main
begin

text \<open>
  The manager of watch tasks, \<^verbatim>\<open>openviking/resource/watch_manager.py\<close>: tasks with an index from target URIs, persisted
  in one file that is replaced through a temporary and a backup file.

  Every operation runs under the manager's lock and is one step on the manager and the state of the file system.  The
  file system object is injected by the caller and is a parameter (\<open>vfs\<close>); so is the JSON encoding of a task list
  (\<open>watch_codec\<close>).  Times are rational numbers of minutes, texts and option dictionaries of a task are strings.
\<close>

section \<open>URIs\<close>

definition uri_matches_prefix :: "string option \<Rightarrow> string \<Rightarrow> bool" where
  "uri_matches_prefix u prefix =
     (case u of
        None \<Rightarrow> False
      | Some uri \<Rightarrow>
          if uri = [] then False
          else let normalized = py_rstrip (CHR ''/'') prefix
               in uri = normalized \<or> py_startswith uri (normalized @ ''/''))"

definition rewrite_uri_prefix :: "string \<Rightarrow> string \<Rightarrow> string \<Rightarrow> string" where
  "rewrite_uri_prefix uri old_prefix new_prefix =
     (let old_normalized = py_rstrip (CHR ''/'') old_prefix;
          new_normalized = py_rstrip (CHR ''/'') new_prefix
      in if uri = old_normalized then new_normalized
         else new_normalized @ drop (length old_normalized) uri)"

definition watch_parent_uri :: "string \<Rightarrow> string option" where
  "watch_parent_uri uri =
     (case py_rsplit1 (CHR ''/'') (py_rstrip (CHR ''/'') uri) of
        None \<Rightarrow> None
      | Some (parent, _) \<Rightarrow> if parent \<in> {''viking:/'', ''viking://''} then None else Some parent)"

section \<open>Tasks\<close>

record watch_task =
  wt_task_id :: string
  wt_path :: string
  wt_to_uri :: "string option"
  wt_parent_uri :: "string option"
  wt_reason :: string
  wt_instruction :: string
  wt_watch_interval :: rat
  wt_build_index :: bool
  wt_summarize :: bool
  wt_processor_kwargs :: string
  wt_auth_state :: "string option"
  wt_created_at :: rat
  wt_last_execution_time :: "rat option"
  wt_next_execution_time :: "rat option"
  wt_is_active :: bool
  wt_account_id :: string
  wt_user_id :: string
  wt_original_role :: string

definition calculate_next_execution_time :: "watch_task \<Rightarrow> rat" where
  "calculate_next_execution_time t =
     (case wt_last_execution_time t of None \<Rightarrow> wt_created_at t | Some x \<Rightarrow> x) + wt_watch_interval t"

section \<open>The manager\<close>

record watch_manager =
  wm_tasks :: "(string, watch_task) dict"
  wm_uri_to_task :: "(string \<times> string, string) dict"
  wm_initialized :: bool

definition new_watch_manager :: watch_manager where
  "new_watch_manager = \<lparr>wm_tasks = [], wm_uri_to_task = [], wm_initialized = False\<rparr>"

datatype watch_error = WatchValueError | ConflictError | PermissionDeniedError | MoveFailed | SaveFailed

text \<open>The file system object: what a call returns, and for calls that change it whether they raised.\<close>

datatype read_error = ReadNotFound | ReadFailed

record 's vfs =
  vf_atomic :: bool
  vf_read_file :: "string \<Rightarrow> 's \<Rightarrow> read_error + string"
  vf_write_file :: "string \<Rightarrow> string \<Rightarrow> 's \<Rightarrow> 's \<times> bool"
  vf_exists :: "string \<Rightarrow> 's \<Rightarrow> bool option"
  vf_rm :: "string \<Rightarrow> 's \<Rightarrow> 's \<times> bool"
  vf_mv :: "string \<Rightarrow> string \<Rightarrow> 's \<Rightarrow> 's \<times> bool"

text \<open>What decoding a stored text gives: an entry that is no task, or not even a dictionary, is told apart.\<close>

datatype stored_entry = TaskEntry watch_task | InvalidEntry | NotADict

datatype stored_data = BadJson | NullData | OtherData | NoTaskList | TaskList "stored_entry list"

record watch_codec =
  wc_dumps :: "watch_task list \<Rightarrow> rat \<Rightarrow> string"
  wc_loads :: "string \<Rightarrow> stored_data"

definition STORAGE_URI :: string where "STORAGE_URI = ''viking://resources/.watch_tasks.json''"
definition STORAGE_BAK_URI :: string where "STORAGE_BAK_URI = ''viking://resources/.watch_tasks.json.bak''"
definition STORAGE_TMP_URI :: string where "STORAGE_TMP_URI = ''viking://resources/.watch_tasks.json.tmp''"

section \<open>Saving\<close>

text \<open>The result says whether the call raised.  A backup that cannot be removed or rotated does not stop the save.\<close>

definition rotate_backup :: "'s vfs \<Rightarrow> 's \<Rightarrow> 's" where
  "rotate_backup F s =
     (let s1 = (if vf_exists F STORAGE_BAK_URI s = Some True then fst (vf_rm F STORAGE_BAK_URI s) else s)
      in if vf_exists F STORAGE_URI s1 = Some True then fst (vf_mv F STORAGE_URI STORAGE_BAK_URI s1) else s1)"

definition save_tasks :: "watch_codec \<Rightarrow> 's vfs option \<Rightarrow> rat \<Rightarrow> watch_manager \<Rightarrow> 's \<Rightarrow> 's \<times> bool" where
  "save_tasks K viking_fs t m s =
     (case viking_fs of
        None \<Rightarrow> (s, False)
      | Some F \<Rightarrow>
          let content = wc_dumps K (map snd (wm_tasks m)) t
          in if py_strip content = [] \<or> wc_loads K content = BadJson then (s, True)
             else if \<not> vf_atomic F then vf_write_file F STORAGE_URI content s
             else case vf_write_file F STORAGE_TMP_URI content s of
                    (s1, True) \<Rightarrow> (s1, True)
                  | (s1, False) \<Rightarrow> vf_mv F STORAGE_TMP_URI STORAGE_URI (rotate_backup F s1))"

text \<open>An operation that ends with a save.\<close>

definition saving ::
  "watch_codec \<Rightarrow> 's vfs option \<Rightarrow> rat \<Rightarrow> 'a \<Rightarrow> watch_manager \<times> 's \<Rightarrow> (watch_manager \<times> 's) \<times> (watch_error + 'a)" where
  "saving K viking_fs t r ms =
     (case save_tasks K viking_fs t (fst ms) (snd ms) of
        (s, raised) \<Rightarrow> ((fst ms, s), if raised then Inl SaveFailed else Inr r))"

section \<open>Loading\<close>

text \<open>The stored task as it is taken over, and whether it had to be changed.\<close>

definition normalize_task :: "watch_task \<Rightarrow> watch_task \<times> bool" where
  "normalize_task t =
     (if \<not> wt_is_active t
      then (if wt_next_execution_time t \<noteq> None then (t\<lparr>wt_next_execution_time := None\<rparr>, True) else (t, False))
      else if wt_watch_interval t \<le> 0
      then (t\<lparr>wt_is_active := False, wt_next_execution_time := None\<rparr>, True)
      else if wt_next_execution_time t = None
      then (t\<lparr>wt_next_execution_time := Some (calculate_next_execution_time t)\<rparr>, True)
      else (t, False))"

definition truthy :: "string option \<Rightarrow> bool" where
  "truthy u \<longleftrightarrow> u \<noteq> None \<and> u \<noteq> Some []"

definition put_task :: "watch_task \<Rightarrow> watch_manager \<Rightarrow> watch_manager" where
  "put_task t m = m\<lparr>wm_tasks := AList.update (wt_task_id t) t (wm_tasks m)\<rparr>"

definition index_task :: "watch_task \<Rightarrow> watch_manager \<Rightarrow> watch_manager" where
  "index_task t m =
     (if truthy (wt_to_uri t)
      then m\<lparr>wm_uri_to_task := AList.update (wt_account_id t, the (wt_to_uri t)) (wt_task_id t) (wm_uri_to_task m)\<rparr>
      else m)"

text \<open>
  The loop over the entries: the manager, whether a task was changed, and whether the loop ended.  An entry that is
  no dictionary makes the handler of the failure itself raise, which ends the load.
\<close>

fun load_entries :: "stored_entry list \<Rightarrow> watch_manager \<times> bool \<Rightarrow> (watch_manager \<times> bool) \<times> bool" where
  "load_entries [] (m, normalized) = ((m, normalized), True)"
| "load_entries (TaskEntry t # es) (m, normalized) =
     (let (t', changed) = normalize_task t
      in load_entries es (index_task t' (put_task t' m), normalized \<or> changed))"
| "load_entries (InvalidEntry # es) (m, normalized) = load_entries es (m, normalized)"
| "load_entries (NotADict # es) (m, normalized) = ((m, normalized), False)"

text \<open>Reading one file: \<open>None\<close> when it is missing, blank, unreadable or no JSON.\<close>

definition read_stored :: "watch_codec \<Rightarrow> 's vfs \<Rightarrow> string \<Rightarrow> 's \<Rightarrow> stored_data option" where
  "read_stored K F u s =
     (case vf_read_file F u s of
        Inl _ \<Rightarrow> None
      | Inr content \<Rightarrow>
          if py_strip content = [] then None
          else case wc_loads K content of BadJson \<Rightarrow> None | d \<Rightarrow> Some d)"

text \<open>The stored data and whether they come from the backup file.\<close>

definition read_either :: "watch_codec \<Rightarrow> 's vfs \<Rightarrow> 's \<Rightarrow> stored_data option \<times> bool" where
  "read_either K F s =
     (let main = read_stored K F STORAGE_URI s
      in if main \<noteq> None \<and> main \<noteq> Some NullData then (main, False)
         else case read_stored K F STORAGE_BAK_URI s of
                Some d \<Rightarrow> (Some d, True)
              | None \<Rightarrow> (None, False))"

definition load_tasks :: "watch_codec \<Rightarrow> 's vfs option \<Rightarrow> rat \<Rightarrow> watch_manager \<times> 's \<Rightarrow> watch_manager \<times> 's" where
  "load_tasks K viking_fs t ms =
     (case viking_fs of
        None \<Rightarrow> ms
      | Some F \<Rightarrow>
          let (data, recovered_from_backup) = read_either K F (snd ms)
          in case (case data of Some (TaskList es) \<Rightarrow> Some es | Some NoTaskList \<Rightarrow> None | _ \<Rightarrow> Some []) of
               None \<Rightarrow> ms
             | Some es \<Rightarrow>
                 let ((m, normalized), finished) = load_entries es (fst ms, False)
                 in if finished \<and> (normalized \<or> recovered_from_backup)
                    then (m, fst (save_tasks K viking_fs t m (snd ms)))
                    else (m, snd ms))"

definition watch_initialize :: "watch_codec \<Rightarrow> 's vfs option \<Rightarrow> rat \<Rightarrow> watch_manager \<times> 's \<Rightarrow> watch_manager \<times> 's" where
  "watch_initialize K viking_fs t ms =
     (if wm_initialized (fst ms) then ms
      else let (m, s) = load_tasks K viking_fs t ms in (m\<lparr>wm_initialized := True\<rparr>, s))"

section \<open>Checks\<close>

definition check_permission :: "watch_task \<Rightarrow> string \<Rightarrow> string \<Rightarrow> string \<Rightarrow> bool" where
  "check_permission t account_id user_id role =
     (let role_value = py_lower role
      in if role_value = ''root'' then True
         else if wt_account_id t \<noteq> account_id then False
         else if role_value = ''admin'' then True
         else wt_user_id t = user_id)"

definition check_uri_conflict :: "watch_manager \<Rightarrow> string option \<Rightarrow> string \<Rightarrow> string option \<Rightarrow> bool" where
  "check_uri_conflict m to_uri account_id exclude_task_id =
     (if \<not> truthy to_uri then False
      else let existing_task_id = map_of (wm_uri_to_task m) (account_id, the to_uri)
           in if \<not> truthy existing_task_id then False
              else if truthy exclude_task_id \<and> existing_task_id = exclude_task_id then False
              else True)"

section \<open>Creating, updating, deleting\<close>

text \<open>
  Creating a task: \<open>t\<close> holds the arguments, with a fresh id and the creation time; it has not run yet and is active.
\<close>

definition watch_create_task ::
  "watch_codec \<Rightarrow> 's vfs option \<Rightarrow> rat \<Rightarrow> watch_task \<Rightarrow> watch_manager \<times> 's \<Rightarrow>
    (watch_manager \<times> 's) \<times> (watch_error + watch_task)" where
  "watch_create_task K viking_fs t arg ms =
     (if wt_path arg = [] then (ms, Inl WatchValueError)
      else if wt_watch_interval arg \<le> 0 then (ms, Inl WatchValueError)
      else if check_uri_conflict (fst ms) (wt_to_uri arg) (wt_account_id arg) None then (ms, Inl ConflictError)
      else
        let task0 = arg\<lparr>wt_created_at := t, wt_last_execution_time := None, wt_next_execution_time := None, wt_is_active := True\<rparr>;
            task = task0\<lparr>wt_next_execution_time := Some (calculate_next_execution_time task0)\<rparr>
        in saving K viking_fs t task (index_task task (put_task task (fst ms)), snd ms))"

text \<open>The arguments of an update; \<open>None\<close> leaves a field as it is.\<close>

record watch_update =
  wu_path :: "string option"
  wu_to_uri :: "string option"
  wu_parent_uri :: "string option"
  wu_reason :: "string option"
  wu_instruction :: "string option"
  wu_watch_interval :: "rat option"
  wu_build_index :: "bool option"
  wu_summarize :: "bool option"
  wu_processor_kwargs :: "string option"
  wu_auth_state :: "string option option"
  wu_is_active :: "bool option"

definition given :: "'a option \<Rightarrow> 'a \<Rightarrow> 'a" where
  "given a old = (case a of None \<Rightarrow> old | Some x \<Rightarrow> x)"

text \<open>The texts, then the interval, the options and the activity, then the time; each stage works on the task itself.\<close>

definition assign_texts :: "watch_update \<Rightarrow> watch_task \<Rightarrow> watch_task" where
  "assign_texts a t =
     t\<lparr>wt_path := given (wu_path a) (wt_path t),
       wt_to_uri := (case wu_to_uri a of None \<Rightarrow> wt_to_uri t | Some u \<Rightarrow> Some u),
       wt_parent_uri := (case wu_parent_uri a of None \<Rightarrow> wt_parent_uri t | Some u \<Rightarrow> Some u),
       wt_reason := given (wu_reason a) (wt_reason t),
       wt_instruction := given (wu_instruction a) (wt_instruction t)\<rparr>"

definition assign_interval :: "watch_update \<Rightarrow> watch_task \<Rightarrow> watch_task" where
  "assign_interval a t =
     (case wu_watch_interval a of
        None \<Rightarrow> t
      | Some i \<Rightarrow>
          if i \<le> 0 then t\<lparr>wt_watch_interval := i, wt_is_active := False, wt_next_execution_time := None\<rparr>
          else t\<lparr>wt_watch_interval := i\<rparr>)"

definition assign_options :: "watch_update \<Rightarrow> watch_task \<Rightarrow> watch_task" where
  "assign_options a t =
     t\<lparr>wt_build_index := given (wu_build_index a) (wt_build_index t),
       wt_summarize := given (wu_summarize a) (wt_summarize t),
       wt_processor_kwargs := given (wu_processor_kwargs a) (wt_processor_kwargs t),
       wt_auth_state := given (wu_auth_state a) (wt_auth_state t),
       wt_is_active := given (wu_is_active a) (wt_is_active t)\<rparr>"

text \<open>The time of the next execution; \<open>None\<close> is the \<^verbatim>\<open>ValueError\<close>.\<close>

definition assign_time :: "watch_update \<Rightarrow> watch_task \<Rightarrow> watch_task option" where
  "assign_time a t =
     (if wu_watch_interval a \<noteq> None
      then Some (if wt_is_active t \<and> 0 < wt_watch_interval t
                 then t\<lparr>wt_next_execution_time := Some (calculate_next_execution_time t)\<rparr>
                 else t\<lparr>wt_next_execution_time := None\<rparr>)
      else if wu_is_active a \<noteq> None
      then (if wt_is_active t
            then (if wt_watch_interval t \<le> 0 then None
                  else if wt_next_execution_time t = None
                  then Some (t\<lparr>wt_next_execution_time := Some (calculate_next_execution_time t)\<rparr>)
                  else Some t)
            else Some (t\<lparr>wt_next_execution_time := None\<rparr>))
      else Some t)"

text \<open>The task after the update, and whether a \<^verbatim>\<open>ValueError\<close> was raised on the way: what was assigned before stays.\<close>

definition apply_update :: "watch_update \<Rightarrow> watch_task \<Rightarrow> watch_task \<times> bool" where
  "apply_update a t =
     (let t1 = assign_texts a t
      in if (case wu_watch_interval a of None \<Rightarrow> False | Some i \<Rightarrow> i \<le> 0) \<and> wu_is_active a = Some True then (t1, True)
         else
           let t2 = assign_options a (assign_interval a t1)
           in case assign_time a t2 of None \<Rightarrow> (t2, True) | Some t3 \<Rightarrow> (t3, False))"

definition reindex :: "watch_update \<Rightarrow> string option \<Rightarrow> watch_task \<Rightarrow> watch_manager \<Rightarrow> watch_manager" where
  "reindex a old_to_uri t m =
     (case wu_to_uri a of
        None \<Rightarrow> m
      | Some to_uri \<Rightarrow>
          let d = (if truthy old_to_uri \<and> old_to_uri \<noteq> Some to_uri
                   then AList.delete (wt_account_id t, the old_to_uri) (wm_uri_to_task m) else wm_uri_to_task m)
          in m\<lparr>wm_uri_to_task := (if to_uri \<noteq> [] then AList.update (wt_account_id t, to_uri) (wt_task_id t) d else d)\<rparr>)"

definition watch_update_task ::
  "watch_codec \<Rightarrow> 's vfs option \<Rightarrow> rat \<Rightarrow> string \<Rightarrow> string \<Rightarrow> string \<Rightarrow> string \<Rightarrow> watch_update \<Rightarrow> watch_manager \<times> 's \<Rightarrow>
    (watch_manager \<times> 's) \<times> (watch_error + watch_task)" where
  "watch_update_task K viking_fs t task_id account_id user_id role a ms =
     (case map_of (wm_tasks (fst ms)) task_id of
        None \<Rightarrow> (ms, Inl WatchValueError)
      | Some task \<Rightarrow>
          if \<not> check_permission task account_id user_id role then (ms, Inl PermissionDeniedError)
          else if check_uri_conflict (fst ms) (wu_to_uri a) (wt_account_id task) (Some task_id)
          then (ms, Inl ConflictError)
          else
            let (task', raised) = apply_update a task;
                m = (fst ms)\<lparr>wm_tasks := AList.update task_id task' (wm_tasks (fst ms))\<rparr>
            in if raised then ((m, snd ms), Inl WatchValueError)
               else saving K viking_fs t task' (reindex a (wt_to_uri task) task' m, snd ms))"

definition watch_update_auth_state ::
  "watch_codec \<Rightarrow> 's vfs option \<Rightarrow> rat \<Rightarrow> string \<Rightarrow> string option \<Rightarrow> watch_manager \<times> 's \<Rightarrow>
    (watch_manager \<times> 's) \<times> (watch_error + unit)" where
  "watch_update_auth_state K viking_fs t task_id auth_state ms =
     (case map_of (wm_tasks (fst ms)) task_id of
        None \<Rightarrow> (ms, Inr ())
      | Some task \<Rightarrow>
          saving K viking_fs t ()
            ((fst ms)\<lparr>wm_tasks := AList.update task_id (task\<lparr>wt_auth_state := auth_state\<rparr>) (wm_tasks (fst ms))\<rparr>, snd ms))"

definition watch_delete_task ::
  "watch_codec \<Rightarrow> 's vfs option \<Rightarrow> rat \<Rightarrow> string \<Rightarrow> string \<Rightarrow> string \<Rightarrow> string \<Rightarrow> watch_manager \<times> 's \<Rightarrow>
    (watch_manager \<times> 's) \<times> (watch_error + bool)" where
  "watch_delete_task K viking_fs t task_id account_id user_id role ms =
     (case map_of (wm_tasks (fst ms)) task_id of
        None \<Rightarrow> (ms, Inr False)
      | Some task \<Rightarrow>
          if \<not> check_permission task account_id user_id role then (ms, Inl PermissionDeniedError)
          else saving K viking_fs t True
            ((fst ms)\<lparr>wm_tasks := AList.delete task_id (wm_tasks (fst ms)),
               wm_uri_to_task :=
                 (if truthy (wt_to_uri task)
                  then AList.delete (wt_account_id task, the (wt_to_uri task)) (wm_uri_to_task (fst ms))
                  else wm_uri_to_task (fst ms))\<rparr>, snd ms))"

section \<open>Following moved and deleted resources\<close>

definition plan_targets :: "watch_manager \<Rightarrow> string \<Rightarrow> string \<Rightarrow> string \<Rightarrow> (string, string) dict" where
  "plan_targets m old_uri new_uri account_id =
     (let old_prefix = py_rstrip (CHR ''/'') old_uri;
          new_prefix = py_rstrip (CHR ''/'') new_uri
      in map (\<lambda>(i, t). (i, rewrite_uri_prefix (the (wt_to_uri t)) old_prefix new_prefix))
           (filter (\<lambda>(i, t). wt_account_id t = account_id \<and> uri_matches_prefix (wt_to_uri t) old_prefix) (wm_tasks m)))"

definition plan_move_tasks_under_uri ::
  "watch_manager \<Rightarrow> string \<Rightarrow> string \<Rightarrow> string \<Rightarrow> watch_error + (string, string) dict" where
  "plan_move_tasks_under_uri m old_uri new_uri account_id =
     (let plan = plan_targets m old_uri new_uri account_id;
          moving_task_ids = map fst plan
      in if list_ex (\<lambda>(i, target).
           (case map_of (wm_uri_to_task m) (account_id, target) of
              None \<Rightarrow> False
            | Some existing \<Rightarrow> (existing \<noteq> [] \<and> existing \<notin> set moving_task_ids) \<or>
                               (existing \<in> set moving_task_ids \<and> existing \<noteq> i))) plan
         then Inl ConflictError else Inr plan)"

text \<open>The first loop takes the moved tasks out of the index, the second gives them their new targets.\<close>

fun unindex_moved :: "string \<Rightarrow> (string, string) dict \<Rightarrow> watch_manager \<Rightarrow> watch_manager" where
  "unindex_moved account_id [] m = m"
| "unindex_moved account_id ((i, _) # plan) m =
     unindex_moved account_id plan
       (case map_of (wm_tasks m) i of
          None \<Rightarrow> m
        | Some t \<Rightarrow> if truthy (wt_to_uri t)
                    then m\<lparr>wm_uri_to_task := AList.delete (account_id, the (wt_to_uri t)) (wm_uri_to_task m)\<rparr> else m)"

definition moved_task :: "string \<Rightarrow> watch_task \<Rightarrow> watch_task" where
  "moved_task target t =
     (let old_parent = watch_parent_uri (case wt_to_uri t of None \<Rightarrow> [] | Some u \<Rightarrow> u)
      in t\<lparr>wt_to_uri := Some target,
           wt_parent_uri := (if wt_parent_uri t \<noteq> None \<and> wt_parent_uri t = old_parent
                             then watch_parent_uri target else wt_parent_uri t)\<rparr>)"

fun retarget_moved :: "string \<Rightarrow> (string, string) dict \<Rightarrow> watch_manager \<Rightarrow> watch_manager" where
  "retarget_moved account_id [] m = m"
| "retarget_moved account_id ((i, target) # plan) m =
     retarget_moved account_id plan
       (case map_of (wm_tasks m) i of
          None \<Rightarrow> m
        | Some t \<Rightarrow> m\<lparr>wm_tasks := AList.update i (moved_task target t) (wm_tasks m),
                      wm_uri_to_task := AList.update (account_id, target) i (wm_uri_to_task m)\<rparr>)"

definition restore_targets :: "watch_manager \<Rightarrow> (string, string) dict \<Rightarrow> watch_manager \<Rightarrow> watch_manager" where
  "restore_targets original plan m =
     m\<lparr>wm_tasks := map (\<lambda>(i, task). (i,
          if i \<in> set (map fst plan)
          then (case map_of (wm_tasks original) i of
                  Some t \<Rightarrow> task\<lparr>wt_to_uri := wt_to_uri t, wt_parent_uri := wt_parent_uri t\<rparr>
                | None \<Rightarrow> task)
          else task)) (wm_tasks m),
       wm_uri_to_task := wm_uri_to_task original\<rparr>"

text \<open>
  The calls that move the resource and that move it back are the caller's.  When the save fails, the targets, parents
  and the index are put back, and the resource is moved back.
\<close>

definition sync_tasks_with_resource_move ::
  "watch_codec \<Rightarrow> 's vfs option \<Rightarrow> rat \<Rightarrow> string \<Rightarrow> string \<Rightarrow> ('s \<Rightarrow> 's \<times> bool) \<Rightarrow> ('s \<Rightarrow> 's \<times> bool) option \<Rightarrow> string \<Rightarrow>
    watch_manager \<times> 's \<Rightarrow> (watch_manager \<times> 's) \<times> (watch_error + watch_task list)" where
  "sync_tasks_with_resource_move K viking_fs t old_uri new_uri move_resource rollback_resource account_id ms =
     (case plan_move_tasks_under_uri (fst ms) old_uri new_uri account_id of
        Inl e \<Rightarrow> (ms, Inl e)
      | Inr plan \<Rightarrow>
          (case move_resource (snd ms) of
             (s1, True) \<Rightarrow> ((fst ms, s1), Inl MoveFailed)
           | (s1, False) \<Rightarrow>
               if plan = [] then ((fst ms, s1), Inr [])
               else
                 let m = retarget_moved account_id plan (unindex_moved account_id plan (fst ms));
                     updated = map (\<lambda>(i, _). the (map_of (wm_tasks m) i)) plan
                 in case saving K viking_fs t updated (m, s1) of
                      ((_, s2), Inl e) \<Rightarrow>
                        ((restore_targets (fst ms) plan m,
                          case rollback_resource of None \<Rightarrow> s2 | Some r \<Rightarrow> fst (r s2)), Inl e)
                    | r \<Rightarrow> r))"

definition deactivated :: "watch_task \<Rightarrow> watch_task" where
  "deactivated t = t\<lparr>wt_is_active := False, wt_next_execution_time := None\<rparr>"

definition deactivate_tasks_under_uri ::
  "watch_codec \<Rightarrow> 's vfs option \<Rightarrow> rat \<Rightarrow> string \<Rightarrow> string \<Rightarrow> watch_manager \<times> 's \<Rightarrow>
    (watch_manager \<times> 's) \<times> (watch_error + watch_task list)" where
  "deactivate_tasks_under_uri K viking_fs t uri account_id ms =
     (let matches = (\<lambda>task. wt_account_id task = account_id \<and> uri_matches_prefix (wt_to_uri task) uri);
          matched = filter matches (map snd (wm_tasks (fst ms)))
      in if matched = [] then (ms, Inr [])
         else saving K viking_fs t (map deactivated matched)
           ((fst ms)\<lparr>wm_tasks := map (\<lambda>(i, task). (i, if matches task then deactivated task else task)) (wm_tasks (fst ms))\<rparr>,
            snd ms))"

section \<open>Reading\<close>

definition watch_get_task :: "watch_manager \<Rightarrow> string \<Rightarrow> string \<Rightarrow> string \<Rightarrow> string \<Rightarrow> watch_task option" where
  "watch_get_task m task_id account_id user_id role =
     (case map_of (wm_tasks m) task_id of
        None \<Rightarrow> None
      | Some t \<Rightarrow> if check_permission t account_id user_id role then Some t else None)"

definition get_all_tasks :: "watch_manager \<Rightarrow> string \<Rightarrow> string \<Rightarrow> string \<Rightarrow> bool \<Rightarrow> watch_task list" where
  "get_all_tasks m account_id user_id role active_only =
     filter (\<lambda>t. check_permission t account_id user_id role \<and> (active_only \<longrightarrow> wt_is_active t)) (map snd (wm_tasks m))"

definition get_task_by_uri :: "watch_manager \<Rightarrow> string \<Rightarrow> string \<Rightarrow> string \<Rightarrow> string \<Rightarrow> watch_task option" where
  "get_task_by_uri m to_uri account_id user_id role =
     (let task_id = map_of (wm_uri_to_task m) (account_id, to_uri)
      in if \<not> truthy task_id then None else watch_get_task m (the task_id) account_id user_id role)"

section \<open>Schedule\<close>

definition update_execution_time ::
  "watch_codec \<Rightarrow> 's vfs option \<Rightarrow> rat \<Rightarrow> string \<Rightarrow> watch_manager \<times> 's \<Rightarrow> (watch_manager \<times> 's) \<times> (watch_error + unit)" where
  "update_execution_time K viking_fs t task_id ms =
     (case map_of (wm_tasks (fst ms)) task_id of
        None \<Rightarrow> (ms, Inr ())
      | Some task \<Rightarrow>
          let task' = (if \<not> wt_is_active task \<or> wt_watch_interval task \<le> 0 then deactivated task
                       else let task1 = task\<lparr>wt_last_execution_time := Some t\<rparr>
                            in task1\<lparr>wt_next_execution_time := Some (calculate_next_execution_time task1)\<rparr>)
          in saving K viking_fs t () ((fst ms)\<lparr>wm_tasks := AList.update task_id task' (wm_tasks (fst ms))\<rparr>, snd ms))"

definition scheduled :: "string option \<Rightarrow> watch_task \<Rightarrow> bool" where
  "scheduled account_id t \<longleftrightarrow>
     wt_is_active t \<and> \<not> (truthy account_id \<and> account_id \<noteq> Some (wt_account_id t)) \<and> wt_next_execution_time t \<noteq> None"

definition get_due_tasks :: "rat \<Rightarrow> string option \<Rightarrow> watch_manager \<Rightarrow> watch_task list" where
  "get_due_tasks t account_id m =
     filter (\<lambda>task. scheduled account_id task \<and> the (wt_next_execution_time task) \<le> t) (map snd (wm_tasks m))"

definition get_next_execution_time :: "string option \<Rightarrow> watch_manager \<Rightarrow> rat option" where
  "get_next_execution_time account_id m =
     (let next_times = map (\<lambda>task. the (wt_next_execution_time task)) (filter (scheduled account_id) (map snd (wm_tasks m)))
      in if next_times \<noteq> [] then Some (Min (set next_times)) else None)"

end
