(* ===== verification/Watch_Facts.thy ===== *)
theory Watch_Facts
  imports Watch_Manager
begin

text \<open>The invariants of the manager of watch tasks, and that its operations keep them.\<close>

section \<open>Invariants\<close>

text \<open>The key under which a task has to be in the index.\<close>

definition wt_target :: "watch_task \<Rightarrow> (string \<times> string) option" where
  "wt_target t = (if truthy (wt_to_uri t) then Some (wt_account_id t, the (wt_to_uri t)) else None)"

definition target_of :: "watch_manager \<Rightarrow> string \<Rightarrow> (string \<times> string) option" where
  "target_of m i = Option.bind (map_of (wm_tasks m) i) wt_target"

text \<open>Tasks are stored under their ids, and the index is exactly the inverse of the targets.\<close>

definition wm_inv :: "watch_manager \<Rightarrow> bool" where
  "wm_inv m \<longleftrightarrow> distinct (map fst (wm_tasks m)) \<and>
     (\<forall>i t. map_of (wm_tasks m) i = Some t \<longrightarrow> wt_task_id t = i \<and> i \<noteq> []) \<and>
     (\<forall>k i. map_of (wm_uri_to_task m) k = Some i \<longleftrightarrow> target_of m i = Some k)"

text \<open>An active task has a time, and its interval is positive; a paused one has no time.\<close>

definition sched_ok :: "watch_task \<Rightarrow> bool" where
  "sched_ok t \<longleftrightarrow>
     (if wt_is_active t then 0 < wt_watch_interval t \<and> wt_next_execution_time t \<noteq> None
      else wt_next_execution_time t = None)"

definition sched_inv :: "watch_manager \<Rightarrow> bool" where
  "sched_inv m \<longleftrightarrow> (\<forall>t \<in> snd ` set (wm_tasks m). sched_ok t)"

named_theorems watch_defs \<open>definitions of the parts of an update\<close>
declare assign_texts_def [watch_defs] assign_interval_def [watch_defs] assign_options_def [watch_defs]

lemma given_simps [simp]: "given None x = x" "given (Some y) x = y"
  by (simp_all add: given_def)

lemma wm_invD:
  assumes "wm_inv m"
  shows "distinct (map fst (wm_tasks m))" "map_of (wm_tasks m) i = Some t \<Longrightarrow> wt_task_id t = i"
    "map_of (wm_tasks m) i = Some t \<Longrightarrow> i \<noteq> []" "map_of (wm_uri_to_task m) k = Some i \<longleftrightarrow> target_of m i = Some k"
  using assms unfolding wm_inv_def by blast+

lemma wm_invI:
  assumes "distinct (map fst (wm_tasks m))" "\<And>i t. map_of (wm_tasks m) i = Some t \<Longrightarrow> wt_task_id t = i \<and> i \<noteq> []"
    "\<And>k i. map_of (wm_uri_to_task m) k = Some i \<longleftrightarrow> target_of m i = Some k"
  shows "wm_inv m"
  unfolding wm_inv_def using assms by blast

lemma index_nonempty: "wm_inv m \<Longrightarrow> map_of (wm_uri_to_task m) k = Some i \<Longrightarrow> i \<noteq> []"
  using wm_invD(3,4) [of m] by (auto simp: target_of_def bind_eq_Some_conv)

lemma truthy_index: "wm_inv m \<Longrightarrow> truthy (map_of (wm_uri_to_task m) k) \<longleftrightarrow> map_of (wm_uri_to_task m) k \<noteq> None"
  using index_nonempty [of m k] by (auto simp: truthy_def)

text \<open>The general step: one task is put in place, and the index follows.\<close>

lemma set_task_inv:
  assumes inv: "wm_inv m" and t: "wt_task_id t = i" "i \<noteq> []"
    and free: "\<And>k j. wt_target t = Some k \<Longrightarrow> map_of (wm_uri_to_task m) k = Some j \<Longrightarrow> j = i"
    and idx: "\<And>k. map_of idx k = (if wt_target t = Some k then Some i
      else if map_of (wm_uri_to_task m) k = Some i then None else map_of (wm_uri_to_task m) k)"
  shows "wm_inv (m\<lparr>wm_tasks := AList.update i t (wm_tasks m), wm_uri_to_task := idx\<rparr>)" (is "wm_inv ?m")
proof -
  have target: "target_of ?m j = (if j = i then wt_target t else target_of m j)" for j
    by (simp add: target_of_def)
  have "map_of idx k = Some j \<longleftrightarrow> target_of ?m j = Some k" for k j
    unfolding target idx using wm_invD(4) [OF inv, of k j] free [of k j] by auto
  moreover have "distinct (map fst (AList.update i t (wm_tasks m)))"
    using wm_invD(1) [OF inv] by (rule distinct_update)
  ultimately show ?thesis using t wm_invD(2,3) [OF inv] by (auto simp: wm_inv_def)
qed

lemma keep_target_inv:
  assumes inv: "wm_inv m" and old: "map_of (wm_tasks m) i = Some t"
    and t': "wt_task_id t' = wt_task_id t" "wt_target t' = wt_target t"
  shows "wm_inv (m\<lparr>wm_tasks := AList.update i t' (wm_tasks m)\<rparr>)"
proof -
  have own: "map_of (wm_uri_to_task m) k = Some i \<longleftrightarrow> wt_target t = Some k" for k
    using wm_invD(4) [OF inv, of k i] old by (simp add: target_of_def)
  have "wm_inv (m\<lparr>wm_tasks := AList.update i t' (wm_tasks m), wm_uri_to_task := wm_uri_to_task m\<rparr>)"
  proof (intro set_task_inv [OF inv])
    show "wt_task_id t' = i" "i \<noteq> []" using t'(1) wm_invD(2,3) [OF inv old] by simp_all
    fix k
    show "map_of (wm_uri_to_task m) k = (if wt_target t' = Some k then Some i
      else if map_of (wm_uri_to_task m) k = Some i then None else map_of (wm_uri_to_task m) k)"
      unfolding own t'(2) using own [of k] by simp
    fix j
    assume "wt_target t' = Some k" "map_of (wm_uri_to_task m) k = Some j"
    then show "j = i" using own [of k] t'(2) by simp
  qed
  then show ?thesis by simp
qed

lemma sched_inv_update:
  assumes "sched_inv m" "sched_ok t"
  shows "sched_inv (m\<lparr>wm_tasks := AList.update i t (wm_tasks m)\<rparr>)"
  using assms dict_set_subset [of i t "wm_tasks m"] by (fastforce simp: sched_inv_def)

lemma sched_inv_tasks: "wm_tasks m = wm_tasks m' \<Longrightarrow> sched_inv m \<longleftrightarrow> sched_inv m'"
  by (simp add: sched_inv_def)

lemma sched_invD: "sched_inv m \<Longrightarrow> map_of (wm_tasks m) i = Some t \<Longrightarrow> sched_ok t"
  by (force simp: sched_inv_def dest: map_of_SomeD)

lemma saving_manager [simp]: "fst (fst (saving K F t r ms)) = fst ms"
  by (simp add: saving_def split: prod.splits)

section \<open>Creating\<close>

lemma add_task_inv:
  assumes inv: "wm_inv m" and fresh: "map_of (wm_tasks m) (wt_task_id task) = None" "wt_task_id task \<noteq> []"
    and free: "\<And>k. wt_target task = Some k \<Longrightarrow> map_of (wm_uri_to_task m) k = None"
  shows "wm_inv (index_task task (put_task task m))"
proof -
  let ?m = "index_task task (put_task task m)"
  have none: "map_of (wm_uri_to_task m) k \<noteq> Some (wt_task_id task)" for k
    using wm_invD(4) [OF inv] fresh(1) by (simp add: target_of_def)
  have "wm_inv (m\<lparr>wm_tasks := AList.update (wt_task_id task) task (wm_tasks m), wm_uri_to_task := wm_uri_to_task ?m\<rparr>)"
    using free none fresh(2)
    by (intro set_task_inv [OF inv]) (auto simp: index_task_def put_task_def wt_target_def)
  also have "m\<lparr>wm_tasks := AList.update (wt_task_id task) task (wm_tasks m), wm_uri_to_task := wm_uri_to_task ?m\<rparr> = ?m"
    by (simp add: index_task_def put_task_def)
  finally show ?thesis .
qed

lemma watch_create_inv:
  assumes inv: "wm_inv (fst ms)" "sched_inv (fst ms)" and fresh: "map_of (wm_tasks (fst ms)) (wt_task_id arg) = None"
    "wt_task_id arg \<noteq> []"
  shows "wm_inv (fst (fst (watch_create_task K F t arg ms))) \<and> sched_inv (fst (fst (watch_create_task K F t arg ms)))"
proof (cases "wt_path arg = [] \<or> wt_watch_interval arg \<le> 0 \<or> check_uri_conflict (fst ms) (wt_to_uri arg) (wt_account_id arg) None")
  case True
  then show ?thesis using inv by (auto simp: watch_create_task_def)
next
  case False
  define task0 where "task0 = arg\<lparr>wt_created_at := t, wt_last_execution_time := None, wt_next_execution_time := None, wt_is_active := True\<rparr>"
  define task where "task = task0\<lparr>wt_next_execution_time := Some (calculate_next_execution_time task0)\<rparr>"
  have m: "fst (fst (watch_create_task K F t arg ms)) = index_task task (put_task task (fst ms))"
    using False by (simp add: watch_create_task_def task_def task0_def Let_def)
  have eq: "wt_task_id task = wt_task_id arg" "wt_to_uri task = wt_to_uri arg" "wt_account_id task = wt_account_id arg"
    by (simp_all add: task_def task0_def)
  have "map_of (wm_uri_to_task (fst ms)) k = None" if "wt_target task = Some k" for k
    using that False truthy_index [OF inv(1)] by (auto simp: wt_target_def check_uri_conflict_def eq Let_def split: if_splits)
  then have "wm_inv (index_task task (put_task task (fst ms)))"
    using fresh by (intro add_task_inv [OF inv(1)]) (simp_all add: eq)
  moreover have "sched_inv (put_task task (fst ms))"
    unfolding put_task_def using False
    by (intro sched_inv_update inv(2)) (simp add: sched_ok_def task_def task0_def)
  then have "sched_inv (index_task task (put_task task (fst ms)))" by (simp add: sched_inv_def index_task_def)
  ultimately show ?thesis by (simp add: m)
qed

section \<open>Updating\<close>

lemma apply_update_fields:
  assumes "apply_update a t = (t', raised)"
  shows "wt_task_id t' = wt_task_id t" "wt_account_id t' = wt_account_id t" "wt_user_id t' = wt_user_id t"
    "wt_to_uri t' = (case wu_to_uri a of None \<Rightarrow> wt_to_uri t | Some u \<Rightarrow> Some u)"
  using assms
  by (cases "wu_watch_interval a"; auto simp: apply_update_def assign_time_def watch_defs Let_def split: if_splits)+

lemma apply_update_sched: "apply_update a t = (t', False) \<Longrightarrow> sched_ok t \<Longrightarrow> sched_ok t'"
  by (cases "wu_watch_interval a"; cases "wu_is_active a")
     (auto simp: apply_update_def assign_time_def watch_defs Let_def sched_ok_def split: if_splits)

lemma reindex_inv:
  assumes inv: "wm_inv m" and old: "map_of (wm_tasks m) i = Some t"
    and t': "wt_task_id t' = i" "wt_account_id t' = wt_account_id t"
      "wt_to_uri t' = (case wu_to_uri a of None \<Rightarrow> wt_to_uri t | Some u \<Rightarrow> Some u)"
    and free: "\<not> check_uri_conflict m (wu_to_uri a) (wt_account_id t) (Some i)"
  shows "wm_inv (reindex a (wt_to_uri t) t' (m\<lparr>wm_tasks := AList.update i t' (wm_tasks m)\<rparr>))"
proof (cases "wu_to_uri a")
  case None
  with keep_target_inv [OF inv old, of t'] t' wm_invD(2) [OF inv old] show ?thesis
    by (simp add: reindex_def wt_target_def)
next
  case (Some u)
  have own: "map_of (wm_uri_to_task m) k = Some i \<longleftrightarrow> wt_target t = Some k" for k
    using wm_invD(4) [OF inv, of k i] old by (simp add: target_of_def)
  have i: "i \<noteq> []" by (rule wm_invD(3) [OF inv old])
  have target: "wt_target t' = (if u = [] then None else Some (wt_account_id t, u))"
    using t' Some by (auto simp: wt_target_def truthy_def)
  let ?idx = "wm_uri_to_task (reindex a (wt_to_uri t) t' m)"
  have "wm_inv (m\<lparr>wm_tasks := AList.update i t' (wm_tasks m), wm_uri_to_task := ?idx\<rparr>)"
  proof (intro set_task_inv [OF inv t'(1) i])
    fix k j
    assume "wt_target t' = Some k" "map_of (wm_uri_to_task m) k = Some j"
    then show "j = i" using free Some target i index_nonempty [OF inv, of k j]
      by (auto simp: check_uri_conflict_def truthy_def Let_def split: if_splits)
  next
    fix k
    show "map_of ?idx k = (if wt_target t' = Some k then Some i
      else if map_of (wm_uri_to_task m) k = Some i then None else map_of (wm_uri_to_task m) k)"
    proof (cases "truthy (wt_to_uri t)")
      case True
      then obtain v where "wt_to_uri t = Some v" "v \<noteq> []" by (auto simp: truthy_def)
      then show ?thesis unfolding own target using Some t' by (simp add: reindex_def wt_target_def truthy_def Let_def)
    next
      case False
      then show ?thesis unfolding own target using Some t' by (simp add: reindex_def wt_target_def Let_def)
    qed
  qed
  moreover have "reindex a (wt_to_uri t) t' (m\<lparr>wm_tasks := AList.update i t' (wm_tasks m)\<rparr>) =
      m\<lparr>wm_tasks := AList.update i t' (wm_tasks m), wm_uri_to_task := ?idx\<rparr>"
    by (simp add: reindex_def Some Let_def)
  ultimately show ?thesis by (simp only:)
qed

lemma update_inv:
  assumes inv: "wm_inv (fst ms)" "sched_inv (fst ms)"
    and ok: "snd (watch_update_task K F t i acc usr role a ms) \<noteq> Inl WatchValueError"
  shows "wm_inv (fst (fst (watch_update_task K F t i acc usr role a ms))) \<and>
    sched_inv (fst (fst (watch_update_task K F t i acc usr role a ms)))"
proof (cases "map_of (wm_tasks (fst ms)) i")
  case None
  then show ?thesis using inv by (simp add: watch_update_task_def)
next
  case (Some task)
  show ?thesis
  proof (cases "check_permission task acc usr role \<and> \<not> check_uri_conflict (fst ms) (wu_to_uri a) (wt_account_id task) (Some i)")
    case False
    then show ?thesis using inv Some by (auto simp: watch_update_task_def)
  next
    case True
    obtain task' raised where ap: "apply_update a task = (task', raised)" by (meson surj_pair)
    with ok Some True have r: "\<not> raised" by (auto simp: watch_update_task_def Let_def)
    note f = apply_update_fields [OF ap]
    have m: "fst (fst (watch_update_task K F t i acc usr role a ms)) =
        reindex a (wt_to_uri task) task' ((fst ms)\<lparr>wm_tasks := AList.update i task' (wm_tasks (fst ms))\<rparr>)"
      using Some True ap r by (simp add: watch_update_task_def Let_def)
    have "wm_inv \<dots>"
      using f True wm_invD(2) [OF inv(1) Some] by (intro reindex_inv [OF inv(1) Some]) auto
    moreover have "sched_ok task'" using apply_update_sched ap r sched_invD [OF inv(2) Some] by simp
    then have "sched_inv ((fst ms)\<lparr>wm_tasks := AList.update i task' (wm_tasks (fst ms))\<rparr>)"
      by (rule sched_inv_update [OF inv(2)])
    then have "sched_inv (reindex a (wt_to_uri task) task' ((fst ms)\<lparr>wm_tasks := AList.update i task' (wm_tasks (fst ms))\<rparr>))"
      by (simp add: sched_inv_def reindex_def Let_def split: option.splits)
    ultimately show ?thesis by (simp add: m)
  qed
qed

section \<open>Deleting\<close>

lemma set_delete_subset: "set (AList.delete i d) \<subseteq> set d"
  by (induction d) auto

lemma delete_inv:
  assumes inv: "wm_inv (fst ms)" "sched_inv (fst ms)"
  shows "wm_inv (fst (fst (watch_delete_task K F t i acc usr role ms))) \<and>
    sched_inv (fst (fst (watch_delete_task K F t i acc usr role ms)))"
proof (cases "map_of (wm_tasks (fst ms)) i")
  case None
  then show ?thesis using inv by (simp add: watch_delete_task_def)
next
  case (Some task)
  let ?m = "(fst ms)\<lparr>wm_tasks := AList.delete i (wm_tasks (fst ms)),
    wm_uri_to_task := (if truthy (wt_to_uri task)
      then AList.delete (wt_account_id task, the (wt_to_uri task)) (wm_uri_to_task (fst ms)) else wm_uri_to_task (fst ms))\<rparr>"
  have target: "target_of ?m j = (if j = i then None else target_of (fst ms) j)" for j
    by (simp add: target_of_def)
  have own: "map_of (wm_uri_to_task (fst ms)) k = Some i \<longleftrightarrow> wt_target task = Some k" for k
    using wm_invD(4) [OF inv(1), of k i] Some by (simp add: target_of_def)
  have idx: "map_of (wm_uri_to_task ?m) k = (if wt_target task = Some k then None else map_of (wm_uri_to_task (fst ms)) k)" for k
    by (auto simp: wt_target_def)
  have "map_of (wm_uri_to_task ?m) k = Some j \<longleftrightarrow> target_of ?m j = Some k" for k j
    unfolding idx target using own [of k] wm_invD(4) [OF inv(1), of k j] by auto
  moreover have "distinct (map fst (wm_tasks ?m))" using wm_invD(1) [OF inv(1)] by (simp add: distinct_delete)
  ultimately have "wm_inv ?m" unfolding wm_inv_def using wm_invD(2,3) [OF inv(1)] by (auto split: if_splits)
  moreover have "sched_inv ?m" using inv(2) set_delete_subset [of i "wm_tasks (fst ms)"] by (auto simp: sched_inv_def)
  ultimately show ?thesis using inv Some by (simp add: watch_delete_task_def)
qed

section \<open>One task in place\<close>

lemma auth_inv:
  assumes inv: "wm_inv (fst ms)" "sched_inv (fst ms)"
  shows "wm_inv (fst (fst (watch_update_auth_state K F t i x ms))) \<and>
    sched_inv (fst (fst (watch_update_auth_state K F t i x ms)))"
proof (cases "map_of (wm_tasks (fst ms)) i")
  case (Some task)
  have "wm_inv ((fst ms)\<lparr>wm_tasks := AList.update i (task\<lparr>wt_auth_state := x\<rparr>) (wm_tasks (fst ms))\<rparr>)"
    by (rule keep_target_inv [OF inv(1) Some]) (simp_all add: wt_target_def)
  moreover have "sched_ok (task\<lparr>wt_auth_state := x\<rparr>)" using sched_invD [OF inv(2) Some] by (simp add: sched_ok_def)
  note sched_inv_update [OF inv(2) this, of i]
  ultimately show ?thesis using Some by (simp add: watch_update_auth_state_def)
qed (use inv in \<open>simp add: watch_update_auth_state_def\<close>)

lemma execution_inv:
  assumes inv: "wm_inv (fst ms)" "sched_inv (fst ms)"
  shows "wm_inv (fst (fst (update_execution_time K F t i ms))) \<and> sched_inv (fst (fst (update_execution_time K F t i ms)))"
proof (cases "map_of (wm_tasks (fst ms)) i")
  case (Some task)
  define task' where "task' = (if \<not> wt_is_active task \<or> wt_watch_interval task \<le> 0 then deactivated task
    else let task1 = task\<lparr>wt_last_execution_time := Some t\<rparr>
         in task1\<lparr>wt_next_execution_time := Some (calculate_next_execution_time task1)\<rparr>)"
  have "wm_inv ((fst ms)\<lparr>wm_tasks := AList.update i task' (wm_tasks (fst ms))\<rparr>)"
    by (rule keep_target_inv [OF inv(1) Some]) (simp_all add: wt_target_def task'_def deactivated_def Let_def)
  moreover have "sched_ok task'" by (simp add: sched_ok_def task'_def deactivated_def Let_def)
  note sched_inv_update [OF inv(2) this, of i]
  moreover have "fst (fst (update_execution_time K F t i ms)) =
      (fst ms)\<lparr>wm_tasks := AList.update i task' (wm_tasks (fst ms))\<rparr>"
    unfolding update_execution_time_def Some option.case task'_def [symmetric] Let_def [of task'] by simp
  ultimately show ?thesis by simp
qed (use inv in \<open>simp add: update_execution_time_def\<close>)

section \<open>Many tasks at once\<close>

lemma map_of_map_values: "map_of (map (\<lambda>(i, t). (i, f i t)) d) i = map_option (f i) (map_of d i)"
  by (induction d) auto

lemma update_present:
  "distinct (map fst d) \<Longrightarrow> i \<in> fst ` set d \<Longrightarrow> AList.update i v d = map (\<lambda>(j, x). (j, if j = i then v else x)) d"
proof (induction d)
  case (Cons p d)
  show ?case
  proof (cases "fst p = i")
    case True
    with Cons.prems have "i \<notin> fst ` set d" by auto
    then have "map (\<lambda>(j, x). (j, if j = i then v else x)) d = d" by (intro map_idI) force
    with True show ?thesis by (cases p) simp
  next
    case False
    with Cons show ?thesis by (cases p) auto
  qed
qed simp

lemma deactivate_inv:
  assumes inv: "wm_inv (fst ms)" "sched_inv (fst ms)"
  shows "wm_inv (fst (fst (deactivate_tasks_under_uri K F t u acc ms))) \<and>
    sched_inv (fst (fst (deactivate_tasks_under_uri K F t u acc ms)))"
proof -
  define f where "f task = (if wt_account_id task = acc \<and> uri_matches_prefix (wt_to_uri task) u then deactivated task else task)" for task
  define m where "m = (fst ms)\<lparr>wm_tasks := map (\<lambda>(i, task). (i, f task)) (wm_tasks (fst ms))\<rparr>"
  have get: "map_of (wm_tasks m) i = map_option f (map_of (wm_tasks (fst ms)) i)" for i
    unfolding m_def by (simp add: map_of_map_values)
  have keep: "wt_task_id (f x) = wt_task_id x" "wt_target (f x) = wt_target x" for x
    by (simp_all add: f_def deactivated_def wt_target_def)
  have target: "target_of m i = target_of (fst ms) i" for i
    by (simp add: target_of_def get keep map_option_case split: option.splits)
  have "wm_inv m"
  proof (rule wm_invI)
    show "distinct (map fst (wm_tasks m))"
      using wm_invD(1) [OF inv(1)] by (simp add: m_def case_prod_unfold comp_def)
    show "wt_task_id x = i \<and> i \<noteq> []" if "map_of (wm_tasks m) i = Some x" for i x
      using that wm_invD(2,3) [OF inv(1)] by (auto simp: get keep)
    show "map_of (wm_uri_to_task m) k = Some i \<longleftrightarrow> target_of m i = Some k" for k i
      unfolding target using wm_invD(4) [OF inv(1)] by (simp add: m_def)
  qed
  moreover have "sched_ok (f x)" if "sched_ok x" for x
    using that by (auto simp: f_def deactivated_def sched_ok_def)
  then have "sched_inv m" using inv(2) by (auto simp: m_def sched_inv_def)
  moreover have "fst (fst (deactivate_tasks_under_uri K F t u acc ms)) = m \<or>
      fst (fst (deactivate_tasks_under_uri K F t u acc ms)) = fst ms"
    by (simp add: deactivate_tasks_under_uri_def m_def f_def Let_def)
  ultimately show ?thesis using inv by metis
qed

section \<open>Moving\<close>

lemma rewrite_prefix: "rewrite_uri_prefix u old new = py_rstrip (CHR ''/'') new @ drop (length (py_rstrip (CHR ''/'') old)) u"
  by (simp add: rewrite_uri_prefix_def Let_def)

lemma matches_prefix:
  "uri_matches_prefix (Some u) p \<Longrightarrow>
     u = py_rstrip (CHR ''/'') p @ drop (length (py_rstrip (CHR ''/'') p)) u \<and> u \<noteq> []"
  by (auto simp: uri_matches_prefix_def Let_def startswith_iff split: if_splits)

text \<open>The tasks that move, with their new targets.\<close>

lemma plan_targets_iff:
  assumes "distinct (map fst (wm_tasks m))"
  shows "(i, tg) \<in> set (plan_targets m old new acc) \<longleftrightarrow>
    (\<exists>t u. map_of (wm_tasks m) i = Some t \<and> wt_account_id t = acc \<and> wt_to_uri t = Some u \<and>
       uri_matches_prefix (Some u) (py_rstrip (CHR ''/'') old) \<and>
       tg = py_rstrip (CHR ''/'') new @ drop (length (py_rstrip (CHR ''/'') old)) u)"
proof -
  have opt: "uri_matches_prefix x q \<Longrightarrow> \<exists>u. x = Some u" for x q
    by (cases x) (simp_all add: uri_matches_prefix_def)
  have "(i, tg) \<in> set (plan_targets m old new acc) \<longleftrightarrow>
    (\<exists>t. (i, t) \<in> set (wm_tasks m) \<and> wt_account_id t = acc \<and>
       uri_matches_prefix (wt_to_uri t) (py_rstrip (CHR ''/'') old) \<and>
       tg = rewrite_uri_prefix (the (wt_to_uri t)) (py_rstrip (CHR ''/'') old) (py_rstrip (CHR ''/'') new))"
    by (auto simp: plan_targets_def Let_def)
  also have "\<dots> \<longleftrightarrow> (\<exists>t u. (i, t) \<in> set (wm_tasks m) \<and> wt_account_id t = acc \<and> wt_to_uri t = Some u \<and>
       uri_matches_prefix (Some u) (py_rstrip (CHR ''/'') old) \<and>
       tg = py_rstrip (CHR ''/'') new @ drop (length (py_rstrip (CHR ''/'') old)) u)"
    unfolding rewrite_prefix rstrip_idem using opt by (metis option.sel)
  finally show ?thesis using assms by (simp add: map_of_eq_Some_iff)
qed

lemma plan_targets_keys: "distinct (map fst (wm_tasks m)) \<Longrightarrow> distinct (map fst (plan_targets m old new acc))"
  by (simp add: plan_targets_def Let_def comp_def case_prod_unfold distinct_map_filter)

lemma unindex_moved_props:
  assumes "\<And>i t. i \<in> fst ` set plan \<Longrightarrow> map_of (wm_tasks m) i = Some t \<Longrightarrow> wt_account_id t = acc"
  shows "wm_tasks (unindex_moved acc plan m) = wm_tasks m \<and> wm_initialized (unindex_moved acc plan m) = wm_initialized m \<and>
    (\<forall>k. map_of (wm_uri_to_task (unindex_moved acc plan m)) k =
      (if \<exists>i \<in> fst ` set plan. target_of m i = Some k then None else map_of (wm_uri_to_task m) k))"
  using assms
proof (induction plan arbitrary: m)
  case (Cons p plan)
  obtain i tg where p: "p = (i, tg)" by (cases p)
  define m1 where "m1 = (case map_of (wm_tasks m) i of None \<Rightarrow> m
    | Some t \<Rightarrow> if truthy (wt_to_uri t)
        then m\<lparr>wm_uri_to_task := AList.delete (acc, the (wt_to_uri t)) (wm_uri_to_task m)\<rparr> else m)"
  have m1: "wm_tasks m1 = wm_tasks m" "wm_initialized m1 = wm_initialized m"
    by (simp_all add: m1_def split: option.splits)
  have idx: "map_of (wm_uri_to_task m1) k = (if target_of m i = Some k then None else map_of (wm_uri_to_task m) k)" for k
  proof (cases "map_of (wm_tasks m) i")
    case (Some t)
    with Cons.prems [of i t] p have "wt_account_id t = acc" by simp
    with Some show ?thesis by (auto simp: m1_def target_of_def wt_target_def)
  qed (simp add: m1_def target_of_def)
  have target: "target_of m1 j = target_of m j" for j by (simp add: target_of_def m1)
  have step: "unindex_moved acc (p # plan) m = unindex_moved acc plan m1" by (simp add: p m1_def)
  have "wm_tasks (unindex_moved acc plan m1) = wm_tasks m1 \<and> wm_initialized (unindex_moved acc plan m1) = wm_initialized m1 \<and>
    (\<forall>k. map_of (wm_uri_to_task (unindex_moved acc plan m1)) k =
      (if \<exists>i \<in> fst ` set plan. target_of m1 i = Some k then None else map_of (wm_uri_to_task m1) k))"
    by (intro Cons.IH, rule Cons.prems) (auto simp: m1)
  then show ?case unfolding step target idx m1 by (simp add: p)
qed simp

lemma retarget_moved_tasks:
  assumes "distinct (map fst (wm_tasks m))" "distinct (map fst plan)" "fst ` set plan \<subseteq> fst ` set (wm_tasks m)"
  shows "wm_tasks (retarget_moved acc plan m) =
      map (\<lambda>(i, t). (i, case map_of plan i of None \<Rightarrow> t | Some tg \<Rightarrow> moved_task tg t)) (wm_tasks m) \<and>
    wm_initialized (retarget_moved acc plan m) = wm_initialized m"
  using assms
proof (induction plan arbitrary: m)
  case Nil
  then show ?case by (simp add: case_prod_unfold)
next
  case (Cons p plan)
  obtain i tg where p: "p = (i, tg)" by (cases p)
  from Cons.prems p obtain t where t: "map_of (wm_tasks m) i = Some t"
    by (metis image_eqI insert_subset list.simps(15) image_insert fst_conv domIff dom_map_of_conv_image_fst not_Some_eq)
  define m1 where "m1 = m\<lparr>wm_tasks := AList.update i (moved_task tg t) (wm_tasks m),
    wm_uri_to_task := AList.update (acc, tg) i (wm_uri_to_task m)\<rparr>"
  have i: "i \<in> fst ` set (wm_tasks m)" using Cons.prems(3) p by simp
  have m1: "wm_tasks m1 = map (\<lambda>(j, x). (j, if j = i then moved_task tg t else x)) (wm_tasks m)"
    unfolding m1_def by (simp add: update_present [OF Cons.prems(1) i])
  have keys: "map fst (wm_tasks m1) = map fst (wm_tasks m)" by (simp add: m1 case_prod_unfold comp_def)
  have step: "retarget_moved acc (p # plan) m = retarget_moved acc plan m1" by (simp add: p m1_def t)
  have IH: "wm_tasks (retarget_moved acc plan m1) =
      map (\<lambda>(i, t). (i, case map_of plan i of None \<Rightarrow> t | Some tg \<Rightarrow> moved_task tg t)) (wm_tasks m1) \<and>
    wm_initialized (retarget_moved acc plan m1) = wm_initialized m1"
    using Cons.prems keys by (intro Cons.IH) (simp_all, metis list.set_map)
  have notin: "map_of plan i = None" using Cons.prems(2) p by (simp add: map_of_eq_None_iff)
  have "x = t" if "(i, x) \<in> set (wm_tasks m)" for x
    using that t Cons.prems(1) by (simp add: map_of_eq_Some_iff)
  with IH notin show ?case unfolding step m1
    by (auto simp: p m1_def)
qed

lemma retarget_moved_index:
  assumes "fst ` set plan \<subseteq> fst ` set (wm_tasks m)" "distinct (map snd plan)"
  shows "(i, tg) \<in> set plan \<Longrightarrow> map_of (wm_uri_to_task (retarget_moved acc plan m)) (acc, tg) = Some i"
    "k \<notin> Pair acc ` snd ` set plan \<Longrightarrow> map_of (wm_uri_to_task (retarget_moved acc plan m)) k = map_of (wm_uri_to_task m) k"
proof -
  have "((i, tg) \<in> set plan \<longrightarrow> map_of (wm_uri_to_task (retarget_moved acc plan m)) (acc, tg) = Some i) \<and>
    (k \<notin> Pair acc ` snd ` set plan \<longrightarrow> map_of (wm_uri_to_task (retarget_moved acc plan m)) k = map_of (wm_uri_to_task m) k)" for k
    using assms
  proof (induction plan arbitrary: m i tg k)
    case (Cons p plan)
    obtain j ug where p: "p = (j, ug)" by (cases p)
    from Cons.prems p obtain t where t: "map_of (wm_tasks m) j = Some t"
      by (metis image_eqI insert_subset list.simps(15) image_insert fst_conv domIff dom_map_of_conv_image_fst not_Some_eq)
    define m1 where "m1 = m\<lparr>wm_tasks := AList.update j (moved_task ug t) (wm_tasks m),
      wm_uri_to_task := AList.update (acc, ug) j (wm_uri_to_task m)\<rparr>"
    have step: "retarget_moved acc (p # plan) m = retarget_moved acc plan m1" by (simp add: p m1_def t)
    have dom: "fst ` set plan \<subseteq> fst ` set (wm_tasks m1)"
      using Cons.prems(1) by (auto simp: m1_def dict_keys_set)
    have dist: "distinct (map snd plan)" "ug \<notin> snd ` set plan" using Cons.prems(2) p by auto
    have idx: "map_of (wm_uri_to_task m1) x = (if x = (acc, ug) then Some j else map_of (wm_uri_to_task m) x)" for x
      by (simp add: m1_def)
    note IH = Cons.IH [OF dom dist(1)]
    show ?case
    proof (intro conjI impI)
      assume mem: "(i, tg) \<in> set (p # plan)"
      show "map_of (wm_uri_to_task (retarget_moved acc (p # plan) m)) (acc, tg) = Some i"
      proof (cases "(i, tg) \<in> set plan")
        case True
        then show ?thesis unfolding step using IH by blast
      next
        case False
        with mem p have "i = j" "tg = ug" by auto
        with IH [THEN conjunct2, rule_format, of "(acc, ug)"] dist(2) show ?thesis
          unfolding step by (auto simp: idx)
      qed
    next
      assume "k \<notin> Pair acc ` snd ` set (p # plan)"
      then show "map_of (wm_uri_to_task (retarget_moved acc (p # plan) m)) k = map_of (wm_uri_to_task m) k"
        unfolding step using IH [THEN conjunct2, rule_format, of k] by (auto simp: idx p)
    qed
  qed simp
  then show "(i, tg) \<in> set plan \<Longrightarrow> map_of (wm_uri_to_task (retarget_moved acc plan m)) (acc, tg) = Some i"
    "k \<notin> Pair acc ` snd ` set plan \<Longrightarrow> map_of (wm_uri_to_task (retarget_moved acc plan m)) k = map_of (wm_uri_to_task m) k"
    by blast+
qed

text \<open>The manager after a move.\<close>

definition moved_manager :: "string \<Rightarrow> (string, string) dict \<Rightarrow> watch_manager \<Rightarrow> watch_manager" where
  "moved_manager acc plan m = retarget_moved acc plan (unindex_moved acc plan m)"

lemma plan_dom:
  assumes inv: "wm_inv m" and plan: "plan_move_tasks_under_uri m old new acc = Inr plan"
  shows "plan = plan_targets m old new acc" "distinct (map fst plan)" "fst ` set plan \<subseteq> fst ` set (wm_tasks m)"
    "\<And>i t. i \<in> fst ` set plan \<Longrightarrow> map_of (wm_tasks m) i = Some t \<Longrightarrow> wt_account_id t = acc"
proof -
  show eq: "plan = plan_targets m old new acc"
    using plan by (simp add: plan_move_tasks_under_uri_def Let_def split: if_splits)
  show "distinct (map fst plan)" unfolding eq by (rule plan_targets_keys [OF wm_invD(1) [OF inv]])
  show "fst ` set plan \<subseteq> fst ` set (wm_tasks m)"
    unfolding eq by (auto simp: plan_targets_def Let_def rev_image_eqI)
  show "wt_account_id t = acc" if "i \<in> fst ` set plan" "map_of (wm_tasks m) i = Some t" for i t
    using that plan_targets_iff [OF wm_invD(1) [OF inv], of i _ old new acc] unfolding eq by fastforce
qed

lemma moved_tasks:
  assumes inv: "wm_inv m" and plan: "plan_move_tasks_under_uri m old new acc = Inr plan"
  shows "wm_tasks (moved_manager acc plan m) =
      map (\<lambda>(i, t). (i, case map_of plan i of None \<Rightarrow> t | Some tg \<Rightarrow> moved_task tg t)) (wm_tasks m)"
    "wm_initialized (moved_manager acc plan m) = wm_initialized m"
  using retarget_moved_tasks [of "unindex_moved acc plan m" plan acc] plan_dom [OF inv plan]
    unindex_moved_props [of plan m acc] wm_invD(1) [OF inv]
  by (simp_all add: moved_manager_def)

text \<open>New targets are distinct, since the old ones are, and nobody else has them.\<close>

lemma plan_fresh:
  assumes inv: "wm_inv m" and plan: "plan_move_tasks_under_uri m old new acc = Inr plan"
  shows "distinct (map snd plan)"
    "(i, tg) \<in> set plan \<Longrightarrow> map_of (wm_uri_to_task m) (acc, tg) = Some j \<Longrightarrow> j = i"
proof -
  note dom = plan_dom [OF inv plan] and iff = plan_targets_iff [OF wm_invD(1) [OF inv]]
  have "i = j" if i: "(i, tg) \<in> set plan" and j: "(j, tg) \<in> set plan" for i j tg
  proof -
    obtain t u where t: "map_of (wm_tasks m) i = Some t" "wt_account_id t = acc" "wt_to_uri t = Some u"
      "uri_matches_prefix (Some u) (py_rstrip (CHR ''/'') old)"
      "tg = py_rstrip (CHR ''/'') new @ drop (length (py_rstrip (CHR ''/'') old)) u"
      using i unfolding dom(1) iff by blast
    obtain t' u' where t': "map_of (wm_tasks m) j = Some t'" "wt_account_id t' = acc" "wt_to_uri t' = Some u'"
      "uri_matches_prefix (Some u') (py_rstrip (CHR ''/'') old)"
      "tg = py_rstrip (CHR ''/'') new @ drop (length (py_rstrip (CHR ''/'') old)) u'"
      using j unfolding dom(1) iff by blast
    have "u = u'" "u \<noteq> []" using t(5) t'(5) matches_prefix [OF t(4)] matches_prefix [OF t'(4)]
      by (metis append_same_eq rstrip_idem same_append_eq, blast)
    then have "target_of m i = Some (acc, u)" "target_of m j = Some (acc, u)"
      using t t' by (simp_all add: target_of_def wt_target_def truthy_def)
    then show "i = j" using wm_invD(4) [OF inv] by (metis option.inject)
  qed
  then have "inj_on snd (set plan)" by (auto intro!: inj_onI)
  moreover have "distinct plan" using dom(2) by (simp add: distinct_map)
  ultimately show "distinct (map snd plan)" by (simp add: distinct_map)
  assume mem: "(i, tg) \<in> set plan" and idx: "map_of (wm_uri_to_task m) (acc, tg) = Some j"
  have "\<not> list_ex (\<lambda>(i, target).
      (case map_of (wm_uri_to_task m) (acc, target) of None \<Rightarrow> False
       | Some existing \<Rightarrow> (existing \<noteq> [] \<and> existing \<notin> set (map fst plan)) \<or>
           (existing \<in> set (map fst plan) \<and> existing \<noteq> i))) plan"
    using plan unfolding plan_move_tasks_under_uri_def Let_def dom(1) [symmetric] by (auto split: if_splits)
  with mem idx index_nonempty [OF inv idx] show "j = i"
    by (auto simp: list_ex_iff)
qed

lemma moved_inv:
  assumes inv: "wm_inv m" and plan: "plan_move_tasks_under_uri m old new acc = Inr plan"
    and new: "py_rstrip (CHR ''/'') new \<noteq> []"
  shows "wm_inv (moved_manager acc plan m)" (is "wm_inv ?m")
proof -
  note dom = plan_dom [OF inv plan] and iff = plan_targets_iff [OF wm_invD(1) [OF inv]]
    and fresh = plan_fresh [OF inv plan]
  define u where "u = unindex_moved acc plan m"
  have un: "wm_tasks u = wm_tasks m \<and> wm_initialized u = wm_initialized m \<and>
    (\<forall>k. map_of (wm_uri_to_task u) k =
      (if \<exists>i \<in> fst ` set plan. target_of m i = Some k then None else map_of (wm_uri_to_task m) k))"
    unfolding u_def by (rule unindex_moved_props) (rule dom(4))
  note u = un [THEN conjunct1] un [THEN conjunct2, THEN conjunct2, rule_format]
  have get: "map_of (wm_tasks ?m) i =
      map_option (case map_of plan i of None \<Rightarrow> (\<lambda>t. t) | Some tg \<Rightarrow> moved_task tg) (map_of (wm_tasks m) i)" for i
    unfolding moved_tasks(1) [OF inv plan] map_of_map_values by (simp split: option.splits)
  have target: "target_of ?m i = (case map_of plan i of None \<Rightarrow> target_of m i | Some tg \<Rightarrow> Some (acc, tg))" for i
  proof (cases "map_of plan i")
    case (Some tg)
    then have mem: "(i, tg) \<in> set plan" by (rule map_of_SomeD)
    then obtain t where t: "map_of (wm_tasks m) i = Some t" "wt_account_id t = acc" and ne: "tg \<noteq> []"
      unfolding dom(1) iff using new by auto
    with Some show ?thesis by (simp add: target_of_def get wt_target_def truthy_def moved_task_def Let_def)
  qed (simp add: target_of_def get option.map_ident)
  show ?thesis
  proof (rule wm_invI)
    show "distinct (map fst (wm_tasks ?m))"
      using wm_invD(1) [OF inv] by (simp add: moved_tasks(1) [OF inv plan] case_prod_unfold comp_def)
    show "wt_task_id t = i \<and> i \<noteq> []" if t: "map_of (wm_tasks ?m) i = Some t" for i t
    proof -
      obtain z where z: "map_of (wm_tasks m) i = Some z" using t get [of i] by (cases "map_of (wm_tasks m) i") auto
      moreover have "wt_task_id t = wt_task_id z"
        using t get [of i] z by (simp split: option.splits) (auto simp: moved_task_def Let_def)
      ultimately show ?thesis using wm_invD(2,3) [OF inv z] by simp
    qed
    fix k i
    show "map_of (wm_uri_to_task ?m) k = Some i \<longleftrightarrow> target_of ?m i = Some k"
    proof (cases "k \<in> Pair acc ` snd ` set plan")
      case True
      then obtain j tg where j: "(j, tg) \<in> set plan" "k = (acc, tg)" by auto
      have idx: "map_of (wm_uri_to_task ?m) k = Some j"
        unfolding moved_manager_def j(2) using dom(3) u(1) fresh(1) j(1)
        by (intro retarget_moved_index(1)) (simp_all add: u_def)
      have "map_of plan j = Some tg" using j(1) dom(2) by (simp add: map_of_eq_Some_iff)
      moreover have "i = j" if "map_of plan i = Some tg"
        using map_of_SomeD [OF that] j(1) fresh(1) by (metis distinct_map inj_onD prod.inject snd_conv)
      moreover have "i = j" if "map_of plan i = None" "target_of m i = Some k"
        using that(2) fresh(2) [OF j(1)] wm_invD(4) [OF inv, of k i] j(2) by simp
      ultimately show ?thesis unfolding idx unfolding target by (auto simp: j(2) split: option.splits)
    next
      case False
      have idx: "map_of (wm_uri_to_task ?m) k = map_of (wm_uri_to_task u) k"
        unfolding moved_manager_def u_def [symmetric] using dom(3) u(1) fresh(1) False
        by (intro retarget_moved_index(2)) simp_all
      have "target_of ?m i = Some k \<longleftrightarrow> map_of plan i = None \<and> target_of m i = Some k"
        unfolding target using False by (force split: option.splits dest: map_of_SomeD)
      moreover have "map_of plan i = None \<longleftrightarrow> i \<notin> fst ` set plan" by (rule map_of_eq_None_iff)
      moreover have "i = j" if "target_of m i = Some k" "target_of m j = Some k" for j
        using that wm_invD(4) [OF inv, of k] by (metis option.inject)
      moreover have "map_of (wm_uri_to_task m) k = Some i \<longleftrightarrow> target_of m i = Some k" by (rule wm_invD(4) [OF inv])
      ultimately show ?thesis unfolding idx u(2) by (metis option.distinct(1))
    qed
  qed
qed

end
