(* ===== verification/Watch_Props.thy ===== *)
theory Watch_Props
  imports Watch_Facts
begin

text \<open>
  Properties of the manager of watch tasks: one task per target under any sequence of calls, the failed update that
  breaks this, who may change which task, moves with their roll-back, and that saving never loses the tasks.
\<close>

section \<open>Moves\<close>

lemma restore_moved:
  assumes inv: "wm_inv m" and plan: "plan_move_tasks_under_uri m old new acc = Inr plan"
  shows "restore_targets m plan (moved_manager acc plan m) = m"
proof -
  have undo: "(moved_task tg t)\<lparr>wt_to_uri := wt_to_uri t, wt_parent_uri := wt_parent_uri t\<rparr> = t" for tg t
    by (simp add: moved_task_def Let_def)
  define f :: "string \<times> watch_task \<Rightarrow> string \<times> watch_task" where "f = (\<lambda>(i, task). (i, if i \<in> set (map fst plan)
    then (case map_of (wm_tasks m) i of
            None \<Rightarrow> task
          | Some t \<Rightarrow> task\<lparr>wt_to_uri := wt_to_uri t, wt_parent_uri := wt_parent_uri t\<rparr>)
    else task))"
  have restored: "restore_targets m plan (moved_manager acc plan m) =
      (moved_manager acc plan m)\<lparr>wm_tasks := map f (wm_tasks (moved_manager acc plan m)), wm_uri_to_task := wm_uri_to_task m\<rparr>"
    by (simp add: restore_targets_def f_def)
  have "map f (wm_tasks (moved_manager acc plan m)) = wm_tasks m"
    unfolding moved_tasks(1) [OF inv plan] map_map
  proof (rule map_idI)
    fix p
    assume p: "p \<in> set (wm_tasks m)"
    obtain i t where it: "p = (i, t)" by (cases p)
    have get: "map_of (wm_tasks m) i = Some t"
      using p it wm_invD(1) [OF inv] by (simp add: map_of_eq_Some_iff)
    have "map_of plan i = None \<longleftrightarrow> i \<notin> set (map fst plan)" by (simp add: map_of_eq_None_iff)
    then show "(f \<circ> (\<lambda>(i, t). (i, case map_of plan i of None \<Rightarrow> t | Some tg \<Rightarrow> moved_task tg t))) p = p"
      by (cases "map_of plan i") (simp_all add: it get undo f_def)
  qed
  then show ?thesis unfolding restored using moved_tasks(2) [OF inv plan] by simp
qed

lemma move_cases:
  assumes inv: "wm_inv (fst ms)" and r_def: "r = sync_tasks_with_resource_move K F t old new mv rb acc ms"
  obtains (raised) e where "snd r = Inl e" "fst (fst r) = fst ms"
  | (moved) plan where "plan_move_tasks_under_uri (fst ms) old new acc = Inr plan"
      "fst (fst r) = moved_manager acc plan (fst ms)"
      "snd r = Inr (map (\<lambda>(i, _). the (map_of (wm_tasks (moved_manager acc plan (fst ms))) i)) plan)"
proof (cases "plan_move_tasks_under_uri (fst ms) old new acc")
  case (Inl e)
  then show thesis by (intro raised) (simp_all add: r_def sync_tasks_with_resource_move_def)
next
  case (Inr plan)
  obtain s1 b where mv: "mv (snd ms) = (s1, b)" by (meson surj_pair)
  let ?u = "map (\<lambda>(i, _). the (map_of (wm_tasks (moved_manager acc plan (fst ms))) i)) plan"
  consider "b" | "\<not> b" "plan = []" | "\<not> b" "plan \<noteq> []" by blast
  then show thesis
  proof cases
    case 1
    then show thesis using Inr mv by (intro raised) (simp_all add: r_def sync_tasks_with_resource_move_def)
  next
    case 2
    then show thesis using Inr mv
      by (intro moved [of plan]) (simp_all add: r_def sync_tasks_with_resource_move_def moved_manager_def)
  next
    case 3
    obtain s2 res where sv: "save_tasks K F t (moved_manager acc plan (fst ms)) s1 = (s2, res)" by (meson surj_pair)
    note unfold = r_def sync_tasks_with_resource_move_def moved_manager_def [symmetric] Let_def saving_def sv mv
      restore_moved [OF inv Inr]
    show thesis
    proof (cases res)
      case True
      then show thesis using Inr 3 by (intro raised) (simp_all add: unfold)
    next
      case False
      then show thesis using Inr 3 by (intro moved [OF Inr]) (simp_all add: unfold)
    qed
  qed
qed

lemma move_inv:
  assumes inv: "wm_inv (fst ms)" "sched_inv (fst ms)" and new: "py_rstrip (CHR ''/'') new \<noteq> []"
  shows "wm_inv (fst (fst (sync_tasks_with_resource_move K F t old new mv rb acc ms))) \<and>
    sched_inv (fst (fst (sync_tasks_with_resource_move K F t old new mv rb acc ms)))"
proof (cases rule: move_cases [OF inv(1) refl, of K F t old new mv rb acc])
  case 1
  then show ?thesis using inv by simp
next
  case (2 plan)
  have "sched_ok (moved_task tg x)" if "sched_ok x" for tg x
    using that by (simp add: sched_ok_def moved_task_def Let_def)
  then have "sched_inv (moved_manager acc plan (fst ms))"
    using inv(2) by (auto simp: sched_inv_def moved_tasks(1) [OF inv(1) 2(1)] split: option.splits)
  with moved_inv [OF inv(1) 2(1) new] 2(2) show ?thesis by simp
qed

section \<open>Any sequence of calls\<close>

text \<open>
  The calls of the manager.  Ids are fresh and a resource moves to a proper URI; an update that raises a
  \<^verbatim>\<open>ValueError\<close> is left out here and is the subject of a property of its own.
\<close>

inductive watch_step :: "watch_codec \<Rightarrow> 's vfs option \<Rightarrow> watch_manager \<times> 's \<Rightarrow> watch_manager \<times> 's \<Rightarrow> bool"
  for K F where
  create: "map_of (wm_tasks (fst ms)) (wt_task_id arg) = None \<Longrightarrow> wt_task_id arg \<noteq> [] \<Longrightarrow>
    watch_step K F ms (fst (watch_create_task K F t arg ms))"
| update: "snd (watch_update_task K F t i acc usr role a ms) \<noteq> Inl WatchValueError \<Longrightarrow>
    watch_step K F ms (fst (watch_update_task K F t i acc usr role a ms))"
| auth: "watch_step K F ms (fst (watch_update_auth_state K F t i x ms))"
| delete: "watch_step K F ms (fst (watch_delete_task K F t i acc usr role ms))"
| move: "py_rstrip (CHR ''/'') new \<noteq> [] \<Longrightarrow>
    watch_step K F ms (fst (sync_tasks_with_resource_move K F t old new mv rb acc ms))"
| deactivate: "watch_step K F ms (fst (deactivate_tasks_under_uri K F t u acc ms))"
| execute: "watch_step K F ms (fst (update_execution_time K F t i ms))"

lemma watch_step_inv:
  "watch_step K F ms ms' \<Longrightarrow> wm_inv (fst ms) \<Longrightarrow> sched_inv (fst ms) \<Longrightarrow> wm_inv (fst ms') \<and> sched_inv (fst ms')"
  by (induction rule: watch_step.induct)
     (simp_all only: watch_create_inv update_inv auth_inv delete_inv move_inv deactivate_inv execution_inv simp_thms not_False_eq_True)

lemma watch_steps_inv:
  assumes "(watch_step K F)\<^sup>*\<^sup>* ms ms'" "wm_inv (fst ms)" "sched_inv (fst ms)"
  shows "wm_inv (fst ms') \<and> sched_inv (fst ms')"
  using assms by (induction rule: rtranclp_induct) (auto dest: watch_step_inv)

lemma new_watch_manager_inv: "wm_inv new_watch_manager" "sched_inv new_watch_manager"
  by (simp_all add: wm_inv_def sched_inv_def new_watch_manager_def target_of_def)


text \<open>A codec and a file system for examples: files are a dictionary, and after a number of calls every call fails.\<close>

definition plain_task :: "string \<Rightarrow> string \<Rightarrow> rat \<Rightarrow> watch_task" where
  "plain_task i u iv =
     \<lparr>wt_task_id = i, wt_path = ''/p'', wt_to_uri = Some u, wt_parent_uri = None, wt_reason = [], wt_instruction = [],
      wt_watch_interval = iv, wt_build_index = True, wt_summarize = False, wt_processor_kwargs = ''{}'',
      wt_auth_state = None, wt_created_at = 0, wt_last_execution_time = None, wt_next_execution_time = None,
      wt_is_active = True, wt_account_id = ''acme'', wt_user_id = ''alice'', wt_original_role = ''user''\<rparr>"

definition no_update :: watch_update where
  "no_update =
     \<lparr>wu_path = None, wu_to_uri = None, wu_parent_uri = None, wu_reason = None, wu_instruction = None,
      wu_watch_interval = None, wu_build_index = None, wu_summarize = None, wu_processor_kwargs = None,
      wu_auth_state = None, wu_is_active = None\<rparr>"

definition no_codec :: watch_codec where
  "no_codec = \<lparr>wc_dumps = (\<lambda>_ _. ''{}''), wc_loads = (\<lambda>_. TaskList [])\<rparr>"

definition one_task_manager :: watch_manager where
  "one_task_manager =
     fst (fst (watch_create_task no_codec (None :: unit vfs option) 0 (plain_task ''a'' ''viking://resources/x'' 5) (new_watch_manager, ())))"

lemma one_task_inv: "wm_inv one_task_manager" "sched_inv one_task_manager"
  unfolding one_task_manager_def
  using watch_create_inv [of "(new_watch_manager, ())" "plain_task ''a'' ''viking://resources/x'' 5" no_codec None 0]
    new_watch_manager_inv by (simp_all add: new_watch_manager_def plain_task_def)


section \<open>Updates that fail\<close>

text \<open>Property C28 (error): an update that is refused half-way breaks the uniqueness of targets.  When a task
  whose interval is not positive is to be activated and given a new target, the call raises a \<^verbatim>\<open>ValueError\<close>, but the
  task has the new target already and counts as active, without a time to run; the index does not know the target, so a
  second task may be created for it.\<close>

theorem failed_update_breaks_index:
  assumes inv: "wm_inv (fst ms)" and task: "map_of (wm_tasks (fst ms)) i = Some task" "check_permission task acc usr role"
    and paused: "wt_watch_interval task \<le> 0" "wt_next_execution_time task = None"
    and free: "u \<noteq> []" "map_of (wm_uri_to_task (fst ms)) (wt_account_id task, u) = None"
    and args: "wu_to_uri a = Some u" "wu_is_active a = Some True" "wu_watch_interval a = None"
    and call: "(ms', r) = watch_update_task K F t i acc usr role a ms"
  shows "r = Inl WatchValueError \<and> snd ms' = snd ms \<and>
    (\<exists>task'. map_of (wm_tasks (fst ms')) i = Some task' \<and> wt_to_uri task' = Some u \<and>
       wt_is_active task' \<and> wt_next_execution_time task' = None) \<and>
    \<not> check_uri_conflict (fst ms') (Some u) (wt_account_id task) None \<and> \<not> wm_inv (fst ms')"
proof -
  obtain task' raised where ap: "apply_update a task = (task', raised)" by (meson surj_pair)
  have ap': "raised" "wt_to_uri task' = Some u" "wt_is_active task'" "wt_next_execution_time task' = None"
    "wt_account_id task' = wt_account_id task"
    using ap paused args by (auto simp: apply_update_def assign_time_def watch_defs Let_def)
  have "\<not> check_uri_conflict (fst ms) (Some u) (wt_account_id task) (Some i)"
    using free by (simp add: check_uri_conflict_def truthy_def)
  then have r: "ms' = ((fst ms)\<lparr>wm_tasks := AList.update i task' (wm_tasks (fst ms))\<rparr>, snd ms)" "r = Inl WatchValueError"
    using call task ap ap'(1) args(1) by (simp_all add: watch_update_task_def)
  have "target_of (fst ms') i = Some (wt_account_id task, u)"
    using ap' free(1) by (simp add: r target_of_def wt_target_def truthy_def)
  then have "\<not> wm_inv (fst ms')" using wm_invD(4) [of "fst ms'" "(wt_account_id task, u)" i] free(2) by (auto simp: r)
  then show ?thesis using free ap' by (simp add: r check_uri_conflict_def truthy_def)
qed

definition paused_state :: "watch_manager \<times> unit" where
  "paused_state = fst (watch_update_task no_codec None 1 ''a'' ''acme'' ''alice'' ''user''
     (no_update\<lparr>wu_watch_interval := Some 0\<rparr>) (one_task_manager, ()))"

definition refused_state :: "watch_manager \<times> unit" where
  "refused_state = fst (watch_update_task no_codec None 2 ''a'' ''acme'' ''alice'' ''user''
     (no_update\<lparr>wu_to_uri := Some ''viking://resources/y'', wu_is_active := Some True\<rparr>) paused_state)"

theorem failed_update_breaks_index_witness:
  "\<not> wm_inv (fst refused_state) \<and>
   map (\<lambda>(i, t). (i, wt_to_uri t))
     (wm_tasks (fst (fst (watch_create_task no_codec None 3 (plain_task ''b'' ''viking://resources/y'' 5) refused_state)))) =
     [(''a'', Some ''viking://resources/y''), (''b'', Some ''viking://resources/y'')]"
proof (rule conjI)
  let ?t = "(plain_task ''a'' ''viking://resources/x'' 0)\<lparr>wt_is_active := False\<rparr>"
  have "wm_inv (fst (paused_state)) \<and> sched_inv (fst paused_state)" unfolding paused_state_def
  proof (rule update_inv)
    show "wm_inv (fst (one_task_manager, ()))" "sched_inv (fst (one_task_manager, ()))" using one_task_inv by simp_all
    show "snd (watch_update_task no_codec None 1 ''a'' ''acme'' ''alice'' ''user''
        (no_update\<lparr>wu_watch_interval := Some 0\<rparr>) (one_task_manager, ())) \<noteq> Inl WatchValueError" by code_simp
  qed
  then have inv: "wm_inv (fst paused_state)" ..
  have get: "map_of (wm_tasks (fst paused_state)) ''a'' = Some ?t" by code_simp
  have perm: "check_permission ?t ''acme'' ''alice'' ''user''" by code_simp
  have free: "map_of (wm_uri_to_task (fst paused_state)) (wt_account_id ?t, ''viking://resources/y'') = None" by code_simp
  have "\<not> wm_inv (fst ms')" if "(ms', r) = watch_update_task no_codec None 2 ''a'' ''acme'' ''alice'' ''user''
      (no_update\<lparr>wu_to_uri := Some ''viking://resources/y'', wu_is_active := Some True\<rparr>) paused_state" for ms' r
    using failed_update_breaks_index [OF inv get perm _ _ _ free _ _ _ that]
    by (simp add: plain_task_def no_update_def)
  from this [OF prod.collapse] show "\<not> wm_inv (fst refused_state)" unfolding refused_state_def .
  show "map (\<lambda>(i, t). (i, wt_to_uri t))
     (wm_tasks (fst (fst (watch_create_task no_codec None 3 (plain_task ''b'' ''viking://resources/y'' 5) refused_state)))) =
     [(''a'', Some ''viking://resources/y''), (''b'', Some ''viking://resources/y'')]"
    by code_simp
qed

section \<open>Access\<close>

text \<open>A task of another account, or for a plain user of another user, is out of reach.
  Unless the requester has the root role, updating and deleting, under whatever id, leave such a task as it is, and no
  query returns it.\<close>

lemma watch_access_confined:
  assumes task: "map_of (wm_tasks (fst ms)) j = Some t"
    and foreign: "py_lower role \<noteq> ''root''" "wt_account_id t \<noteq> acc \<or> py_lower role \<noteq> ''admin'' \<and> wt_user_id t \<noteq> usr"
  shows "map_of (wm_tasks (fst (fst (watch_update_task K F tm i acc usr role a ms)))) j = Some t \<and>
    map_of (wm_tasks (fst (fst (watch_delete_task K F tm i acc usr role ms)))) j = Some t \<and>
    watch_get_task (fst ms) j acc usr role = None \<and> t \<notin> set (get_all_tasks (fst ms) acc usr role active_only) \<and>
    get_task_by_uri (fst ms) u acc usr role \<noteq> Some t"
proof -
  have denied: "\<not> check_permission t acc usr role"
    using foreign by (auto simp: check_permission_def Let_def)
  have tasks: "wm_tasks (reindex a x y m) = wm_tasks m" for x y m
    by (simp add: reindex_def Let_def split: option.splits)
  show ?thesis
  proof (intro conjI)
    show "map_of (wm_tasks (fst (fst (watch_update_task K F tm i acc usr role a ms)))) j = Some t"
      using task denied
      by (auto simp: watch_update_task_def Let_def tasks split: option.splits prod.splits)
    show "map_of (wm_tasks (fst (fst (watch_delete_task K F tm i acc usr role ms)))) j = Some t"
      using task denied by (auto simp: watch_delete_task_def split: option.splits)
    show "get_task_by_uri (fst ms) u acc usr role \<noteq> Some t"
      using denied by (auto simp: get_task_by_uri_def watch_get_task_def Let_def split: option.splits)
  qed (use task denied in \<open>simp_all add: watch_get_task_def get_all_tasks_def\<close>)
qed

lemma watch_access_confined_example:
  "watch_delete_task no_codec None 1 ''a'' ''acme'' ''bob'' ''user'' (one_task_manager, ()) =
     ((one_task_manager, ()), Inl PermissionDeniedError) \<and>
   get_task_by_uri one_task_manager ''viking://resources/x'' ''acme'' ''bob'' ''user'' = None \<and>
   map_of (wm_tasks (fst (fst (watch_delete_task no_codec (None :: unit vfs option) 1 ''a'' ''acme'' ''bob'' ''user''
     (one_task_manager, ()))))) ''a'' = Some ((plain_task ''a'' ''viking://resources/x'' 5)\<lparr>wt_next_execution_time := Some 5\<rparr>)"
proof (intro conjI)
  have get: "map_of (wm_tasks (fst (one_task_manager, ()))) ''a'' =
      Some ((plain_task ''a'' ''viking://resources/x'' 5)\<lparr>wt_next_execution_time := Some 5\<rparr>)" by code_simp
  have role: "py_lower ''user'' \<noteq> ''root''"
    "wt_account_id ((plain_task ''a'' ''viking://resources/x'' 5)\<lparr>wt_next_execution_time := Some 5\<rparr>) \<noteq> ''acme'' \<or>
     py_lower ''user'' \<noteq> ''admin'' \<and> wt_user_id ((plain_task ''a'' ''viking://resources/x'' 5)\<lparr>wt_next_execution_time := Some 5\<rparr>) \<noteq> ''bob''"
    by code_simp+
  from watch_access_confined [OF get role]
  show "map_of (wm_tasks (fst (fst (watch_delete_task no_codec (None :: unit vfs option) 1 ''a'' ''acme'' ''bob'' ''user''
     (one_task_manager, ()))))) ''a'' = Some ((plain_task ''a'' ''viking://resources/x'' 5)\<lparr>wt_next_execution_time := Some 5\<rparr>)"
    by blast
qed code_simp+

section \<open>Following a moved resource\<close>

text \<open>Property C27 (functional): watch tasks follow their resource, or nothing happens.  When a move of a resource
  fails, because of a conflict, of the move itself or of the save, the manager is exactly the one before.  When it
  succeeds, every task of the account at or below the old URI has the target with the prefix replaced, every other task is unchanged,
  the tasks are in their old order, and targets are unique again.\<close>

theorem resource_move_syncs_tasks:
  assumes inv: "wm_inv (fst ms)" and new: "py_rstrip (CHR ''/'') new \<noteq> []"
    and r: "r = sync_tasks_with_resource_move K F t old new mv rb acc ms"
  shows "(snd r = Inl e \<longrightarrow> fst (fst r) = fst ms) \<and>
    (snd r = Inr ts \<longrightarrow> wm_inv (fst (fst r)) \<and>
       wm_tasks (fst (fst r)) = map (\<lambda>(i, task). (i,
         if wt_account_id task = acc \<and> uri_matches_prefix (wt_to_uri task) old
         then moved_task (rewrite_uri_prefix (the (wt_to_uri task)) old new) task else task)) (wm_tasks (fst ms)))"
proof (cases rule: move_cases [OF inv r])
  case 1
  then show ?thesis by simp
next
  case (2 plan)
  have strip: "uri_matches_prefix x (py_rstrip (CHR ''/'') old) = uri_matches_prefix x old" for x
    by (cases x) (simp_all add: uri_matches_prefix_def)
  have rw: "rewrite_uri_prefix x (py_rstrip (CHR ''/'') old) (py_rstrip (CHR ''/'') new) = rewrite_uri_prefix x old new" for x
    by (simp add: rewrite_prefix)
  have "(case map_of plan i of None \<Rightarrow> task | Some tg \<Rightarrow> moved_task tg task) =
      (if wt_account_id task = acc \<and> uri_matches_prefix (wt_to_uri task) old
       then moved_task (rewrite_uri_prefix (the (wt_to_uri task)) old new) task else task)"
    if "(i, task) \<in> set (wm_tasks (fst ms))" for i task
  proof -
    have get: "map_of (wm_tasks (fst ms)) i = Some task"
      using that wm_invD(1) [OF inv] by (simp add: map_of_eq_Some_iff)
    have "map_of plan i = (if wt_account_id task = acc \<and> uri_matches_prefix (wt_to_uri task) old
        then Some (rewrite_uri_prefix (the (wt_to_uri task)) old new) else None)"
    proof (cases "wt_account_id task = acc \<and> uri_matches_prefix (wt_to_uri task) old")
      case True
      then obtain v where v: "wt_to_uri task = Some v" by (auto simp: uri_matches_prefix_def split: option.splits)
      with True get have "(i, rewrite_uri_prefix v old new) \<in> set plan"
        unfolding plan_dom(1) [OF inv 2(1)] plan_targets_iff [OF wm_invD(1) [OF inv]] by (simp add: strip rewrite_prefix)
      with plan_dom(2) [OF inv 2(1)] True v show ?thesis by simp
    next
      case False
      then have "i \<notin> fst ` set plan"
        unfolding plan_dom(1) [OF inv 2(1)] using plan_targets_iff [OF wm_invD(1) [OF inv], of i _ old new acc] get
        by (auto simp: strip)
      with False show ?thesis by (auto simp: map_of_eq_None_iff)
    qed
    then show ?thesis by simp
  qed
  then have "wm_tasks (fst (fst r)) = map (\<lambda>(i, task). (i,
         if wt_account_id task = acc \<and> uri_matches_prefix (wt_to_uri task) old
         then moved_task (rewrite_uri_prefix (the (wt_to_uri task)) old new) task else task)) (wm_tasks (fst ms))"
    unfolding 2(2) moved_tasks(1) [OF inv 2(1)] by (intro map_cong) auto
  then show ?thesis using moved_inv [OF inv 2(1) new] 2 by simp
qed

theorem resource_move_syncs_tasks_witness:
  "let r = sync_tasks_with_resource_move no_codec (None :: unit vfs option) 7 ''viking://resources/'' ''viking://resources/old''
         (\<lambda>s. (s, False)) None ''acme'' (one_task_manager, ())
   in wm_inv (fst (fst r)) \<and>
      map (\<lambda>(i, t). (i, wt_to_uri t)) (wm_tasks (fst (fst r))) = [(''a'', Some ''viking://resources/old/x'')]"
proof -
  define r where "r = sync_tasks_with_resource_move no_codec (None :: unit vfs option) 7 ''viking://resources/''
    ''viking://resources/old'' (\<lambda>s. (s, False)) None ''acme'' (one_task_manager, ())"
  have ne: "py_rstrip (CHR ''/'') ''viking://resources/old'' \<noteq> []" by code_simp
  obtain ts where "snd r = Inr ts"
  proof (cases "snd r")
    case (Inl e)
    moreover have "map_of (wm_tasks (fst (fst r))) ''a'' \<noteq> map_of (wm_tasks one_task_manager) ''a''"
      unfolding r_def by code_simp
    ultimately show thesis
      using resource_move_syncs_tasks [of "(one_task_manager, ())", OF _ ne r_def] one_task_inv by simp
  qed (rule that)
  then have "wm_inv (fst (fst r))"
    using resource_move_syncs_tasks [of "(one_task_manager, ())", OF _ ne r_def] one_task_inv by simp
  moreover have "map (\<lambda>(i, t). (i, wt_to_uri t)) (wm_tasks (fst (fst r))) = [(''a'', Some ''viking://resources/old/x'')]"
    unfolding r_def by code_simp
  ultimately show ?thesis unfolding r_def [symmetric] Let_def ..
qed

section \<open>Saving and loading\<close>

text \<open>
  What the manager relies on of the files: a call either does what it says or raises and leaves the files alone.  A
  process that dies between two calls is a file system that raises from then on.
\<close>

definition file_laws :: "'s vfs \<Rightarrow> ('s \<Rightarrow> string \<Rightarrow> string option) \<Rightarrow> bool" where
  "file_laws F files \<longleftrightarrow>
     (\<forall>u s. vf_read_file F u s = (case files s u of None \<Rightarrow> Inl ReadNotFound | Some c \<Rightarrow> Inr c)) \<and>
     (\<forall>u s b. vf_exists F u s = Some b \<longrightarrow> b = (files s u \<noteq> None)) \<and>
     (\<forall>u c s. files (fst (vf_write_file F u c s)) =
        (if snd (vf_write_file F u c s) then files s else (files s)(u := Some c))) \<and>
     (\<forall>u s. files (fst (vf_rm F u s)) = (if snd (vf_rm F u s) then files s else (files s)(u := None))) \<and>
     (\<forall>u v s. files (fst (vf_mv F u v s)) =
        (if snd (vf_mv F u v s) then files s else (files s)(v := files s u, u := None)))"

text \<open>What was encoded is decoded again; an encoded text is not blank.\<close>

definition codec_laws :: "watch_codec \<Rightarrow> watch_manager \<Rightarrow> rat \<Rightarrow> bool" where
  "codec_laws K m t \<longleftrightarrow>
     wc_loads K (wc_dumps K (map snd (wm_tasks m)) t) = TaskList (map (\<lambda>(i, task). TaskEntry task) (wm_tasks m)) \<and>
     py_strip (wc_dumps K (map snd (wm_tasks m)) t) \<noteq> []"

text \<open>The text that a start would decode.\<close>

definition recovered :: "('s \<Rightarrow> string \<Rightarrow> string option) \<Rightarrow> 's \<Rightarrow> string option" where
  "recovered files s = (case files s STORAGE_URI of Some c \<Rightarrow> Some c | None \<Rightarrow> files s STORAGE_BAK_URI)"

lemma storage_uris [simp]: "STORAGE_URI \<noteq> STORAGE_BAK_URI" "STORAGE_URI \<noteq> STORAGE_TMP_URI" "STORAGE_BAK_URI \<noteq> STORAGE_TMP_URI"
  "STORAGE_BAK_URI \<noteq> STORAGE_URI" "STORAGE_TMP_URI \<noteq> STORAGE_URI" "STORAGE_TMP_URI \<noteq> STORAGE_BAK_URI"
  by (simp_all add: STORAGE_URI_def STORAGE_BAK_URI_def STORAGE_TMP_URI_def)

lemma file_lawsD:
  assumes "file_laws F files"
  shows "vf_read_file F u s = (case files s u of None \<Rightarrow> Inl ReadNotFound | Some c \<Rightarrow> Inr c)"
    "vf_exists F u s = Some b \<Longrightarrow> b \<longleftrightarrow> files s u \<noteq> None"
    "files (fst (vf_write_file F u c s)) = (if snd (vf_write_file F u c s) then files s else (files s)(u := Some c))"
    "files (fst (vf_rm F u s)) = (if snd (vf_rm F u s) then files s else (files s)(u := None))"
    "files (fst (vf_mv F u v s)) = (if snd (vf_mv F u v s) then files s else (files s)(v := files s u, u := None))"
  using assms unfolding file_laws_def by blast+

lemma rotate_keeps:
  assumes "file_laws F files" "files s STORAGE_URI = Some c"
  shows "recovered files (rotate_backup F s) = Some c" "files (rotate_backup F s) STORAGE_TMP_URI = files s STORAGE_TMP_URI"
proof -
  note laws = file_lawsD [OF assms(1)]
  define s1 where "s1 = (if vf_exists F STORAGE_BAK_URI s = Some True then fst (vf_rm F STORAGE_BAK_URI s) else s)"
  have s1: "files s1 STORAGE_URI = Some c" "files s1 STORAGE_TMP_URI = files s STORAGE_TMP_URI"
    using assms(2) by (simp_all add: s1_def laws(4))
  have r: "rotate_backup F s =
      (if vf_exists F STORAGE_URI s1 = Some True then fst (vf_mv F STORAGE_URI STORAGE_BAK_URI s1) else s1)"
    by (simp add: rotate_backup_def s1_def Let_def)
  show "recovered files (rotate_backup F s) = Some c" "files (rotate_backup F s) STORAGE_TMP_URI = files s STORAGE_TMP_URI"
    using s1 by (simp_all add: r recovered_def laws(5))
qed

lemma save_recovered:
  assumes laws: "file_laws F files" and codec: "codec_laws K m t" and old: "files s STORAGE_URI = Some c"
    and save: "save_tasks K (Some F) t m s = (s', raised)"
  shows "recovered files s' = (if raised then Some c else Some (wc_dumps K (map snd (wm_tasks m)) t))"
proof -
  note L = file_lawsD [OF laws]
  define content where "content = wc_dumps K (map snd (wm_tasks m)) t"
  have ok: "py_strip content \<noteq> []" "wc_loads K content \<noteq> BadJson" using codec by (simp_all add: codec_laws_def content_def)
  obtain s1 b where w: "vf_write_file F STORAGE_TMP_URI content s = (s1, b)" by (meson surj_pair)
  show ?thesis
  proof (cases "vf_atomic F")
    case False
    then have "vf_write_file F STORAGE_URI content s = (s', raised)"
      using save ok by (simp add: save_tasks_def content_def Let_def)
    with L(3) [of STORAGE_URI content s] old show ?thesis by (simp add: recovered_def content_def)
  next
    case True
    have f1: "files s1 = (if b then files s else (files s)(STORAGE_TMP_URI := Some content))"
      using L(3) [of STORAGE_TMP_URI content s] w by simp
    show ?thesis
    proof (cases b)
      case True
      with \<open>vf_atomic F\<close> w save ok f1 old show ?thesis
        by (simp add: save_tasks_def content_def [symmetric] recovered_def Let_def)
    next
      case False
      then have mv: "vf_mv F STORAGE_TMP_URI STORAGE_URI (rotate_backup F s1) = (s', raised)"
        using \<open>vf_atomic F\<close> w save ok by (simp add: save_tasks_def content_def [symmetric] Let_def)
      have "files s1 STORAGE_URI = Some c" "files s1 STORAGE_TMP_URI = Some content" using f1 False old by simp_all
      note rot = rotate_keeps [OF laws this(1)] this(2)
      have "files s' = (if raised then files (rotate_backup F s1)
          else (files (rotate_backup F s1))(STORAGE_URI := Some content, STORAGE_TMP_URI := None))"
        using L(5) [of STORAGE_TMP_URI STORAGE_URI "rotate_backup F s1"] mv rot(2,3) by simp
      then have "recovered files s' = (if raised then recovered files (rotate_backup F s1) else Some content)"
        by (cases raised) (simp_all add: recovered_def cong: option.case_cong)
      then show ?thesis unfolding rot(1) content_def .
    qed
  qed
qed

lemma normalize_ok: "sched_ok t \<Longrightarrow> normalize_task t = (t, False)"
  by (auto simp: normalize_task_def sched_ok_def)

text \<open>Loading the tasks of a manager, one after the other, gives the manager again.\<close>

lemma load_rest:
  assumes inv: "wm_inv m" "sched_inv m"
  shows "wm_tasks m = xs @ ys \<Longrightarrow> wm_inv n \<Longrightarrow> wm_tasks n = xs \<Longrightarrow>
    \<exists>n'. load_entries (map TaskEntry (map snd ys)) (n, b) = ((n', b), True) \<and> wm_inv n' \<and> wm_tasks n' = wm_tasks m"
proof (induction ys arbitrary: xs n)
  case (Cons p ys)
  obtain i t where p: "p = (i, t)" by (cases p)
  have dist: "distinct (map fst (xs @ p # ys))" using wm_invD(1) [OF inv(1)] Cons.prems(1) by simp
  have get: "map_of (wm_tasks m) i = Some t"
    using Cons.prems(1) p by (intro map_of_is_SomeI [OF wm_invD(1) [OF inv(1)]]) simp
  note id = wm_invD(2,3) [OF inv(1) get]
  have fresh: "i \<notin> fst ` set xs" using dist p by auto
  have sub: "map_of (wm_tasks m) j = Some x" if "map_of xs j = Some x" for j x
    using Cons.prems(1) map_of_SomeD [OF that] by (intro map_of_is_SomeI [OF wm_invD(1) [OF inv(1)]]) simp
  have free: "map_of (wm_uri_to_task n) k = None" if k: "wt_target t = Some k" for k
  proof (rule ccontr)
    assume "map_of (wm_uri_to_task n) k \<noteq> None"
    then obtain j where "map_of (wm_uri_to_task n) k = Some j" by blast
    then have j: "target_of n j = Some k" using wm_invD(4) [OF Cons.prems(2)] by simp
    then obtain x where x: "map_of xs j = Some x" "wt_target x = Some k"
      using Cons.prems(3) by (auto simp: target_of_def bind_eq_Some_conv)
    have "target_of m j = Some k" "target_of m i = Some k"
      using sub [OF x(1)] x(2) get k by (simp_all add: target_of_def)
    then have "j = i" using wm_invD(4) [OF inv(1)] by (metis option.inject)
    with x(1) fresh show False by (metis image_eqI map_of_SomeD fst_conv)
  qed
  define n1 where "n1 = index_task t (put_task t n)"
  have "wm_inv n1" unfolding n1_def
    using Cons.prems(3) fresh free id by (intro add_task_inv [OF Cons.prems(2)]) (simp_all add: map_of_eq_None_iff)
  moreover have "wm_tasks n1 = xs @ [p]"
    using Cons.prems(3) fresh id p by (simp add: n1_def index_task_def put_task_def update_fresh)
  ultimately have "\<exists>n'. load_entries (map TaskEntry (map snd ys)) (n1, b) = ((n', b), True) \<and> wm_inv n' \<and> wm_tasks n' = wm_tasks m"
    using Cons.prems(1) by (intro Cons.IH [of "xs @ [p]"]) simp_all
  moreover have "normalize_task t = (t, False)" using sched_invD [OF inv(2) get] by (rule normalize_ok)
  ultimately show ?case by (simp add: p n1_def)
qed auto

lemma initialize_recovered:
  assumes laws: "file_laws F files" and codec: "codec_laws K m t" and inv: "wm_inv m" "sched_inv m"
    and rec: "recovered files s = Some (wc_dumps K (map snd (wm_tasks m)) t)"
    and m'_def: "m' = fst (watch_initialize K (Some F) t' (new_watch_manager, s))"
  shows "wm_inv m' \<and> wm_tasks m' = wm_tasks m"
proof -
  define text' where "text' = wc_dumps K (map snd (wm_tasks m)) t"
  have codec': "wc_loads K text' = TaskList (map TaskEntry (map snd (wm_tasks m)))" "py_strip text' \<noteq> []"
    using codec by (simp_all add: codec_laws_def text'_def case_prod_unfold comp_def)
  have read: "read_stored K F u s = (case files s u of None \<Rightarrow> None | Some c \<Rightarrow>
      if py_strip c = [] then None else case wc_loads K c of BadJson \<Rightarrow> None | d \<Rightarrow> Some d)" for u
    by (simp add: read_stored_def file_lawsD(1) [OF laws] split: option.splits)
  obtain n where n: "load_entries (map TaskEntry (map snd (wm_tasks m))) (new_watch_manager, False) = ((n, False), True)"
    "wm_inv n" "wm_tasks n = wm_tasks m"
    using load_rest [OF inv, of "[]" "wm_tasks m" new_watch_manager False] new_watch_manager_inv
    by (auto simp: new_watch_manager_def)
  have data: "read_either K F s = (Some (TaskList (map TaskEntry (map snd (wm_tasks m)))), files s STORAGE_URI = None)"
    using rec [folded text'_def] codec' unfolding recovered_def read_either_def read by (cases "files s STORAGE_URI") simp_all
  have "fst (load_tasks K (Some F) t' (new_watch_manager, s)) = n"
    unfolding load_tasks_def by (simp add: data n(1) del: map_map)
  moreover have "m' = (fst (load_tasks K (Some F) t' (new_watch_manager, s)))\<lparr>wm_initialized := True\<rparr>"
    by (simp add: m'_def watch_initialize_def new_watch_manager_def split: prod.splits)
  ultimately show ?thesis using n(2,3) by (simp add: wm_inv_def target_of_def)
qed


text \<open>Files in a dictionary, with a number of calls after which the process is gone.\<close>

definition fuse_fs :: "((string, string) dict \<times> nat) vfs" where
  "fuse_fs =
     \<lparr>vf_atomic = True,
      vf_read_file = (\<lambda>u (d, n). case map_of d u of None \<Rightarrow> Inl ReadNotFound | Some c \<Rightarrow> Inr c),
      vf_write_file = (\<lambda>u c (d, n). if n = 0 then ((d, n), True) else ((AList.update u c d, n - 1), False)),
      vf_exists = (\<lambda>u (d, n). Some (map_of d u \<noteq> None)),
      vf_rm = (\<lambda>u (d, n). if n = 0 \<or> map_of d u = None then ((d, n), True) else ((AList.delete u d, n - 1), False)),
      vf_mv = (\<lambda>u v (d, n). case map_of d u of
         None \<Rightarrow> ((d, n), True)
       | Some c \<Rightarrow> if n = 0 then ((d, n), True) else ((AList.delete u (AList.update v c d), n - 1), False))\<rparr>"

lemma fuse_fs_laws: "file_laws fuse_fs (\<lambda>s. map_of (fst s))"
  unfolding file_laws_def
  by (intro conjI allI impI ext) (auto simp: fuse_fs_def split: option.splits prod.splits)

text \<open>A codec for two managers: one with a single task, and an empty one.\<close>

definition small_codec :: watch_codec where
  "small_codec =
     \<lparr>wc_dumps = (\<lambda>ts t. if ts = [] then ''[]'' else ''[task]''),
      wc_loads = (\<lambda>c. if c = ''[]'' then TaskList []
        else TaskList [TaskEntry ((plain_task ''a'' ''viking://resources/x'' 5)\<lparr>wt_next_execution_time := Some 5\<rparr>)])\<rparr>"

lemma small_codec_laws: "codec_laws small_codec new_watch_manager 8" "codec_laws small_codec one_task_manager 0"
  unfolding codec_laws_def by code_simp+

abbreviation fused_save :: "nat \<Rightarrow> ((string, string) dict \<times> nat) \<times> bool" where
  "fused_save n \<equiv> save_tasks small_codec (Some fuse_fs) 8 new_watch_manager ([(STORAGE_URI, ''[task]'')], n)"

lemma fused_stored:
  "map_of (fst ([(STORAGE_URI, ''[task]'')], n)) STORAGE_URI =
     Some (wc_dumps small_codec (map snd (wm_tasks one_task_manager)) 0)"
proof -
  have "wc_dumps small_codec (map snd (wm_tasks one_task_manager)) 0 = ''[task]''" by code_simp
  then show ?thesis by simp
qed

lemma fused_raised: "snd (fused_save 2) = True" "snd (fused_save 3) = False"
  by code_simp+


end
