(* ===== verification/Overview_Text.thy ===== *)
theory Overview_Text
  imports Py_Prelude
begin

text \<open>
  The text functions of \<^verbatim>\<open>src/openviking/storage/queuefs/semantic_processor.py\<close> that turn what the
  language model generated into an overview and an abstract, and that read the summaries of the
  files back out of an overview.  Strings have the code points below 256, so the full-width
  sentence ends of the pattern in \<^verbatim>\<open>_truncate_generated_text\<close> do not occur.
\<close>

section \<open>Truncation at a sentence end\<close>

text \<open>The ends of the matches of \<^verbatim>\<open>\.(?!\d)(?=\s|$)|[!?](?=\s|$)\<close>: a full stop, an exclamation mark
  or a question mark at the end of the text or before white space.\<close>

definition sentence_ends :: "string \<Rightarrow> nat list" where
  "sentence_ends s =
     map Suc (filter (\<lambda>i. s ! i \<in> {CHR ''.'', CHR ''!'', CHR ''?''} \<and>
                         (Suc i = length s \<or> py_space (s ! Suc i))) [0..<length s])"

text \<open>The loop over the matches, with \<^verbatim>\<open>first_sentence_end\<close> and
  \<^verbatim>\<open>last_sentence_end_within_limit\<close>.\<close>

fun scan_ends :: "nat \<Rightarrow> nat list \<Rightarrow> nat option \<Rightarrow> nat option \<Rightarrow> nat option \<times> nat option" where
  "scan_ends limit [] first within = (first, within)"
| "scan_ends limit (e # es) first within =
     (let first' = (if first = None then Some e else first)
      in if e \<le> limit then scan_ends limit es first' (Some e)
         else if within \<noteq> None then (first', within)
         else scan_ends limit es first' within)"

definition py_rstrip_space :: "string \<Rightarrow> string" where
  "py_rstrip_space s = rev (dropWhile py_space (rev s))"

text \<open>\<^verbatim>\<open>s.rfind(" ")\<close>; \<open>None\<close> stands for \<^verbatim>\<open>-1\<close>.\<close>

definition rfind_space :: "string \<Rightarrow> nat option" where
  "rfind_space s = find (\<lambda>i. s ! i = CHR '' '') (rev [0..<length s])"

definition truncate_generated_text :: "string \<Rightarrow> int \<Rightarrow> string" where
  "truncate_generated_text s max_chars =
     (if max_chars \<le> 0 \<or> int (length s) \<le> max_chars then s
      else if max_chars \<le> 3 then take (nat max_chars) s
      else case scan_ends (nat max_chars) (sentence_ends s) None None of
        (_, Some e) \<Rightarrow> py_strip (take e s)
      | (Some e, None) \<Rightarrow> py_strip (take e s)
      | (None, None) \<Rightarrow>
          let candidate = py_rstrip_space (take (nat max_chars - 3) s)
          in case rfind_space candidate of
               Some i \<Rightarrow> if 0 < i then py_rstrip_space (take i candidate) @ ''...'' else candidate @ ''...''
             | None \<Rightarrow> candidate @ ''...'')"

section \<open>The abstract of an overview\<close>

definition newline :: char where "newline = CHR 0x0A"

fun abstract_lines :: "bool \<Rightarrow> string list \<Rightarrow> string list" where
  "abstract_lines in_header [] = []"
| "abstract_lines in_header (line # lines) =
     (if in_header \<and> py_startswith line ''#'' then abstract_lines in_header lines
      else
        let in_header' = (in_header \<and> py_strip line = [])
        in if in_header' then abstract_lines in_header' lines
           else if py_startswith line ''##'' then []
           else if py_strip line \<noteq> [] then py_strip line # abstract_lines in_header' lines
           else abstract_lines in_header' lines)"

definition extract_abstract_from_overview :: "string \<Rightarrow> string" where
  "extract_abstract_from_overview overview =
     py_strip (py_join newline (abstract_lines True (py_split newline overview)))"

text \<open>The two limits of the configuration (\<^verbatim>\<open>semantic.overview_max_chars\<close> and
  \<^verbatim>\<open>semantic.abstract_max_chars\<close>).\<close>

record semantic_limits =
  overview_max_chars :: int
  abstract_max_chars :: int

definition enforce_size_limits :: "semantic_limits \<Rightarrow> string \<Rightarrow> string \<Rightarrow> string \<times> string" where
  "enforce_size_limits lim overview abstract =
     ((if int (length overview) > overview_max_chars lim
       then truncate_generated_text overview (overview_max_chars lim) else overview),
      (if int (length abstract) > abstract_max_chars lim
       then truncate_generated_text abstract (abstract_max_chars lim) else abstract))"

definition normalize_overview_generation :: "semantic_limits \<Rightarrow> string \<Rightarrow> string \<times> string" where
  "normalize_overview_generation lim generated =
     enforce_size_limits lim generated (extract_abstract_from_overview generated)"

section \<open>Reading the summaries back\<close>

text \<open>\<^verbatim>\<open>s.split()\<close>: the words between runs of white space.\<close>

function py_words :: "string \<Rightarrow> string list" where
  "py_words s =
     (let t = dropWhile py_space s
      in if t = [] then []
         else takeWhile (\<lambda>c. \<not> py_space c) t # py_words (dropWhile (\<lambda>c. \<not> py_space c) t))"
  by auto

termination
proof (relation "measure length")
  fix s t :: string
  assume t: "t = dropWhile py_space s" and ne: "t \<noteq> []"
  then obtain c r where cr: "t = c # r" and c: "\<not> py_space c"
    by (metis dropWhile_eq_Cons_conv list.exhaust)
  have "length (dropWhile (\<lambda>c. \<not> py_space c) t) \<le> length r"
    using cr c by (simp add: length_dropWhile_le)
  also have "\<dots> < length t" using cr by simp
  also have "\<dots> \<le> length s" using t by (simp add: length_dropWhile_le)
  finally show "(dropWhile (\<lambda>c. \<not> py_space c) t, s) \<in> measure length" by simp
qed simp

text \<open>\<^verbatim>\<open>re.match(r"^###\s+(.+?)\s*$", line)\<close>: the stripped group, when the line matches.  The line
  has no line feed, so the dot matches every character of it; of a line with three marks and only
  white space after them (two characters at least) the group is one of these.\<close>

definition header_match :: "string \<Rightarrow> string option" where
  "header_match line =
     (let rest = drop 3 line
      in if py_startswith line ''###'' \<and> rest \<noteq> [] \<and> py_space (hd rest) \<and> 2 \<le> length rest
         then Some (py_strip rest) else None)"

text \<open>The lazy \<^verbatim>\<open>(.+?):\s*(.+)\<close>: the first colon after at least one character and before at least one.\<close>

definition lazy_colon :: "string \<Rightarrow> (string \<times> string) option" where
  "lazy_colon s =
     map_option (\<lambda>p. (take p s, drop (Suc p) s))
       (find (\<lambda>p. s ! p = CHR '':'') [1..<length s - 1])"

text \<open>\<^verbatim>\<open>re.match(r"^\[(\d+)\]\s+(.+?):\s*(.+)$", line)\<close>: the two stripped groups; the white space
  before the name is taken greedily and given back one character at a time.\<close>

definition numbered_match :: "string \<Rightarrow> (string \<times> string) option" where
  "numbered_match line =
     (case line of
        [] \<Rightarrow> None
      | c # r \<Rightarrow>
          let r2 = dropWhile is_digit r
          in if c = CHR ''['' \<and> takeWhile is_digit r \<noteq> [] \<and> py_startswith r2 '']''
             then let r3 = tl r2; w = length (takeWhile py_space r3)
                  in case List.find (\<lambda>k. lazy_colon (drop k r3) \<noteq> None) (rev [1..<Suc w]) of
                       None \<Rightarrow> None
                     | Some k \<Rightarrow> map_option (\<lambda>(a, b). (py_strip a, py_strip b)) (lazy_colon (drop k r3))
             else None)"

text \<open>\<^verbatim>\<open>" ".join(current_summary_lines).strip()\<close>, stored when there is a file and a line.\<close>

definition store_summary ::
  "string option \<Rightarrow> string list \<Rightarrow> (string, string) dict \<Rightarrow> (string, string) dict" where
  "store_summary current ls d =
     (case current of
        Some f \<Rightarrow> if f \<noteq> [] \<and> ls \<noteq> [] then AList.update f (py_strip (py_join (CHR '' '') ls)) d else d
      | None \<Rightarrow> d)"

definition header_file_name :: "string \<Rightarrow> string" where
  "header_file_name name =
     (case py_words name of
        p # q # _ \<Rightarrow> if p = q then p else name
      | _ \<Rightarrow> name)"

fun parse_overview_lines ::
  "string list \<Rightarrow> string option \<Rightarrow> string list \<Rightarrow> (string, string) dict \<Rightarrow> (string, string) dict" where
  "parse_overview_lines [] current ls d = store_summary current ls d"
| "parse_overview_lines (line # lines) current ls d =
     (case header_match line of
        Some name \<Rightarrow>
          parse_overview_lines lines (Some (header_file_name name)) [] (store_summary current ls d)
      | None \<Rightarrow>
          (case numbered_match line of
             Some (name, summary) \<Rightarrow>
               parse_overview_lines lines (Some name) [summary] (store_summary current ls d)
           | None \<Rightarrow>
               if current \<noteq> None \<and> current \<noteq> Some [] \<and> py_strip line \<noteq> [] \<and>
                  \<not> py_startswith (py_strip line) ''#''
               then parse_overview_lines lines current (ls @ [py_strip line]) d
               else parse_overview_lines lines current ls d))"

definition parse_overview_md :: "string \<Rightarrow> (string, string) dict" where
  "parse_overview_md overview =
     (if py_strip overview = [] then []
      else parse_overview_lines (py_split newline overview) None [] [])"

section \<open>Summaries survive in an overview\<close>

text \<open>An overview with one heading and one line of text for each file.\<close>

definition render_overview :: "(string \<times> string) list \<Rightarrow> string" where
  "render_overview es = py_join newline (concat (map (\<lambda>(name, summary). [''### '' @ name, summary]) es))"

definition clean_line :: "string \<Rightarrow> bool" where
  "clean_line s \<longleftrightarrow> s \<noteq> [] \<and> newline \<notin> set s \<and> py_strip s = s"

definition clean_entry :: "string \<times> string \<Rightarrow> bool" where
  "clean_entry e \<longleftrightarrow>
     clean_line (fst e) \<and> header_file_name (fst e) = fst e \<and>
     clean_line (snd e) \<and> \<not> py_startswith (snd e) ''#'' \<and> numbered_match (snd e) = None"

lemma strip_space_cons: "py_space c \<Longrightarrow> py_strip (c # s) = py_strip s"
  by (simp add: py_strip_def)

lemma header_rendered:
  assumes "clean_line name"
  shows "header_match (''### '' @ name) = Some name"
proof -
  have "py_space (CHR '' '')" by code_simp
  moreover have "length name \<ge> 1" using assms by (cases name) (auto simp: clean_line_def)
  ultimately show ?thesis
    using assms by (simp add: header_match_def py_startswith_def strip_space_cons clean_line_def)
qed

lemma header_not_summary:
  assumes "\<not> py_startswith s ''#''"
  shows "header_match s = None"
  using assms by (cases s) (auto simp: header_match_def py_startswith_def)

lemma parse_rendered_lines:
  assumes "list_all clean_entry es" "distinct (map fst es)" "\<forall>e\<in>set es. fst e \<notin> fst ` set d"
    and "\<forall>f. current = Some f \<longrightarrow> f \<notin> fst ` set d \<and> f \<notin> fst ` set es"
  shows "parse_overview_lines (concat (map (\<lambda>(name, summary). [''### '' @ name, summary]) es)) current ls d =
         store_summary current ls d @ es"
  using assms
proof (induction es arbitrary: current ls d)
  case Nil
  then show ?case by simp
next
  case (Cons e es)
  obtain name summary where e: "e = (name, summary)" by fastforce
  have name: "clean_line name" "header_file_name name = name"
    and sm: "clean_line summary" "\<not> py_startswith summary ''#''" "numbered_match summary = None"
    using Cons.prems(1) e by (simp_all add: clean_entry_def)
  let ?d = "store_summary current ls d"
  have sub: "fst ` set ?d \<subseteq> fst ` set d \<union> set_option current"
    by (auto simp: store_summary_def dict_keys_set split: option.splits)
  have fresh: "name \<notin> fst ` set ?d" using sub Cons.prems(3,4) e by (cases current) auto
  have store: "store_summary (Some name) [summary] ?d = ?d @ [(name, summary)]"
    using name sm fresh by (auto simp: store_summary_def clean_line_def update_fresh)
  have "parse_overview_lines (concat (map (\<lambda>(name, summary). [''### '' @ name, summary]) (e # es))) current ls d =
      parse_overview_lines (concat (map (\<lambda>(name, summary). [''### '' @ name, summary]) es)) (Some name) [summary] ?d"
    using e name sm header_rendered [OF name(1)] header_not_summary [OF sm(2)]
    by (simp add: clean_line_def)
  also have "\<dots> = store_summary (Some name) [summary] ?d @ es"
  proof (rule Cons.IH)
    show "\<forall>e\<in>set es. fst e \<notin> fst ` set ?d"
    proof
      fix x
      assume x: "x \<in> set es"
      then have "fst x \<notin> fst ` set d" "fst x \<notin> set_option current" using Cons.prems(3,4) by (cases current; auto)+
      then show "fst x \<notin> fst ` set ?d" using sub by blast
    qed
    show "\<forall>f. Some name = Some f \<longrightarrow> f \<notin> fst ` set ?d \<and> f \<notin> fst ` set es" using fresh Cons.prems(2) e by auto
  qed (use Cons.prems in auto)
  finally show ?case using store e by simp
qed

text \<open>Property C18 (roundtrip): the summaries of the files of a directory are read back from its overview.  For an
  overview with a heading for each file and a line of text below it, \<^verbatim>\<open>_parse_overview_md\<close>
  returns exactly the names and summaries, in order.\<close>

theorem parse_rendered_overview:
  assumes "es \<noteq> []" "list_all clean_entry es" "distinct (map fst es)"
  shows "parse_overview_md (render_overview es) = es"
proof -
  let ?ls = "concat (map (\<lambda>(name, summary). [''### '' @ name, summary]) es)"
  have "?ls \<noteq> []" using assms(1) by (cases es) auto
  moreover have "\<forall>l\<in>set ?ls. newline \<notin> set l"
    using assms(2) by (auto simp: list_all_iff clean_entry_def clean_line_def newline_def)
  ultimately have "py_split newline (render_overview es) = ?ls"
    unfolding render_overview_def by (rule join_split)
  moreover have "py_strip (render_overview es) \<noteq> []"
  proof -
    obtain name summary es' where "es = (name, summary) # es'" using assms(1) by (cases es) auto
    then have "\<exists>t. render_overview es = CHR ''#'' # t" by (auto simp: render_overview_def)
    then show ?thesis by (auto simp: py_strip_def py_space_def dropWhile_eq_Nil_conv)
  qed
  ultimately show ?thesis
    using parse_rendered_lines [of es "[]" None "[]"] assms(2,3)
    by (simp add: parse_overview_md_def store_summary_def)
qed

theorem parse_rendered_overview_witness:
  "list_all clean_entry [(''a.md'', ''First file.''), (''b.md'', ''Second file.'')] \<and>
   parse_overview_md (render_overview [(''a.md'', ''First file.''), (''b.md'', ''Second file.'')]) =
     [(''a.md'', ''First file.''), (''b.md'', ''Second file.'')]"
proof -
  have c: "list_all clean_entry [(''a.md'', ''First file.''), (''b.md'', ''Second file.'')]" by code_simp
  show ?thesis using parse_rendered_overview [OF _ c] c by simp
qed

section \<open>The limits\<close>

lemma strip_length: "length (py_strip s) \<le> length s"
proof -
  have "length (py_strip s) \<le> length (dropWhile py_space s)"
    unfolding py_strip_def by (metis length_dropWhile_le length_rev)
  then show ?thesis using length_dropWhile_le [of py_space s] by linarith
qed

lemma rstrip_space_length: "length (py_rstrip_space s) \<le> length s"
  unfolding py_rstrip_space_def by (metis length_dropWhile_le length_rev)

lemma scan_within:
  "scan_ends limit es first within = (a, Some e) \<Longrightarrow> (\<And>e'. within = Some e' \<Longrightarrow> e' \<le> limit) \<Longrightarrow> e \<le> limit"
  by (induction limit es first within rule: scan_ends.induct) (auto simp: Let_def split: if_splits)

lemma scan_within_some: "scan_ends limit es first (Some x) = (a, None) \<Longrightarrow> False"
  by (induction limit es first "Some x" arbitrary: x rule: scan_ends.induct) (auto simp: Let_def split: if_splits)

lemma scan_first:
  "scan_ends limit es None None = (Some e, None) \<Longrightarrow>
   e \<in> set es \<and> hd es = e \<and> (\<forall>e'\<in>set es. limit < e')"
proof -
  have later: "scan_ends limit es (Some x) None = (a, None) \<Longrightarrow> a = Some x \<and> (\<forall>e'\<in>set es. limit < e')" for es x a
    by (induction es) (auto simp: Let_def split: if_splits dest: scan_within_some)
  show "scan_ends limit es None None = (Some e, None) \<Longrightarrow> ?thesis"
    by (cases es) (auto simp: Let_def split: if_splits dest: later scan_within_some)
qed

text \<open>A generated text is cut to the configured length, or to its first sentence when
  that sentence alone is longer: then no sentence ends within the limit, and the result is the text
  up to the end of its first sentence.\<close>

lemma truncate_within_limit:
  assumes "0 < m"
  shows "int (length (truncate_generated_text s m)) \<le> m \<or>
    (sentence_ends s \<noteq> [] \<and> (\<forall>e\<in>set (sentence_ends s). m < int e) \<and>
     truncate_generated_text s m = py_strip (take (hd (sentence_ends s)) s))"
proof (cases "int (length s) \<le> m \<or> m \<le> 3")
  case True
  then show ?thesis using assms by (auto simp: truncate_generated_text_def)
next
  case False
  obtain first within where sc: "scan_ends (nat m) (sentence_ends s) None None = (first, within)" by fastforce
  show ?thesis
  proof (cases within)
    case (Some e)
    then have "e \<le> nat m" using scan_within sc by fastforce
    moreover have "length (py_strip (take e s)) \<le> e" using strip_length [of "take e s"] by simp
    moreover have "truncate_generated_text s m = py_strip (take e s)"
      using False sc Some assms by (cases first) (simp_all add: truncate_generated_text_def)
    ultimately have "length (truncate_generated_text s m) \<le> nat m" by simp
    then show ?thesis using assms by linarith
  next
    case None
    show ?thesis
    proof (cases first)
      case (Some e)
      then have "e \<in> set (sentence_ends s) \<and> hd (sentence_ends s) = e \<and> (\<forall>e'\<in>set (sentence_ends s). nat m < e')"
        using scan_first sc None by blast
      then show ?thesis using False sc Some None assms by (auto simp: truncate_generated_text_def)
    next
      case none: None
      define candidate where "candidate = py_rstrip_space (take (nat m - 3) s)"
      have c: "length candidate \<le> nat m - 3"
        using rstrip_space_length [of "take (nat m - 3) s"] by (simp add: candidate_def)
      moreover have "length (py_rstrip_space (take i candidate)) \<le> nat m - 3" for i
        using c rstrip_space_length [of "take i candidate"] by simp
      moreover have "truncate_generated_text s m =
          (case rfind_space candidate of
             Some i \<Rightarrow> if 0 < i then py_rstrip_space (take i candidate) @ ''...'' else candidate @ ''...''
           | None \<Rightarrow> candidate @ ''...'')"
        unfolding candidate_def using False sc None none assms by (simp add: truncate_generated_text_def Let_def)
      ultimately have "length (truncate_generated_text s m) \<le> nat m - 3 + 3"
        by (auto split: option.splits)
      then show ?thesis using False by linarith
    qed
  qed
qed

lemma truncate_within_limit_example:
  "(0::int) < 10 \<and> truncate_generated_text ''A. B. C. D.E.'' 10 = ''A. B. C.'' \<and>
   int (length (truncate_generated_text ''A. B. C. D.E.'' 10)) \<le> 10"
proof -
  have e: "truncate_generated_text ''A. B. C. D.E.'' 10 = ''A. B. C.''" by code_simp
  show ?thesis using truncate_within_limit [of 10 "''A. B. C. D.E.''"] e by simp
qed

end
