(* ===== verification/Semantic_Queue.thy ===== *)
theory Semantic_Queue
  imports Py_Prelude Complex_Main
begin

text \<open>
  The queue of semantic messages (\<^verbatim>\<open>src/openviking/storage/queuefs/semantic_queue.py\<close>): the versions by
  which rapid messages for one directory coalesce, and the window within which a second message
  for a memory directory is dropped.  The table of versions is global to the process; the table of
  last times belongs to one queue.  The clock is \<^verbatim>\<open>time.monotonic()\<close>, a \<^typ>\<open>real\<close> argument of the
  call.  What \<^verbatim>\<open>NamedQueue.enqueue\<close> stores is the list of messages \<open>sq_items\<close>, oldest first.
\<close>

record queued_msg =
  qm_uri :: string
  qm_context_type :: string
  qm_account_id :: string
  qm_user_id :: string
  qm_peer_id :: string
  qm_coalesce_key :: string
  qm_coalesce_version :: int

type_synonym coalesce_versions = "string \<rightharpoonup> int"

record semantic_queue =
  sq_versions :: coalesce_versions
  sq_last :: "(string, real) dict"
  sq_items :: "queued_msg list"

definition MEMORY_PARENT_SEMANTIC_DEDUPE_SEC :: real where
  "MEMORY_PARENT_SEMANTIC_DEDUPE_SEC = 45"

definition version_of :: "coalesce_versions \<Rightarrow> string \<Rightarrow> int" where
  "version_of versions key = (case versions key of None \<Rightarrow> 0 | Some v \<Rightarrow> v)"

definition is_semantic_coalesce_stale :: "coalesce_versions \<Rightarrow> string \<Rightarrow> int \<Rightarrow> bool" where
  "is_semantic_coalesce_stale versions key version =
     (if key = [] \<or> version \<le> 0 then False else version < version_of versions key)"

definition is_semantic_msg_stale :: "coalesce_versions \<Rightarrow> queued_msg \<Rightarrow> bool" where
  "is_semantic_msg_stale versions msg =
     is_semantic_coalesce_stale versions (qm_coalesce_key msg) (qm_coalesce_version msg)"

definition build_semantic_coalesce_key ::
  "string \<Rightarrow> string \<Rightarrow> string \<Rightarrow> string \<Rightarrow> string \<Rightarrow> string" where
  "build_semantic_coalesce_key context_type u account_id user_id peer_id =
     py_join (CHR ''|'') [context_type, account_id, user_id, peer_id, py_rstrip (CHR ''/'') u]"

definition memory_parent_semantic_key :: "queued_msg \<Rightarrow> string" where
  "memory_parent_semantic_key msg =
     qm_account_id msg @ ''|'' @ qm_user_id msg @ ''|'' @ qm_peer_id msg @ ''|'' @ qm_uri msg"

section \<open>SemanticQueue.enqueue\<close>

text \<open>The pruning of the table of last times, when it has more than 2000 entries.\<close>

definition prune_last :: "real \<Rightarrow> (string, real) dict \<Rightarrow> (string, real) dict" where
  "prune_last time lasts =
     (if length lasts > 2000
      then let cutoff = time - MEMORY_PARENT_SEMANTIC_DEDUPE_SEC * 4;
               stale = map fst (filter (\<lambda>(k, t). t < cutoff) lasts)
           in foldl (\<lambda>d k. AList.delete k d) lasts (take 800 stale)
      else lasts)"

definition last_time :: "(string, real) dict \<Rightarrow> string \<Rightarrow> real" where
  "last_time lasts key = (case map_of lasts key of None \<Rightarrow> 0 | Some t \<Rightarrow> t)"

datatype enqueue_result = Deduplicated | Stored

text \<open>The test of the deduplication window: \<open>None\<close> when the message is dropped.\<close>

definition dedupe_memory :: "real \<Rightarrow> queued_msg \<Rightarrow> semantic_queue \<Rightarrow> semantic_queue option" where
  "dedupe_memory time msg q =
     (if qm_context_type msg = ''memory'' \<and> qm_coalesce_key msg = []
      then let key = memory_parent_semantic_key msg
           in if time - last_time (sq_last q) key < MEMORY_PARENT_SEMANTIC_DEDUPE_SEC then None
              else Some (q\<lparr>sq_last := prune_last time (AList.update key time (sq_last q))\<rparr>)
      else Some q)"

definition coalesce_version :: "queued_msg \<Rightarrow> semantic_queue \<Rightarrow> semantic_queue \<times> queued_msg" where
  "coalesce_version msg q =
     (if qm_coalesce_key msg \<noteq> []
      then let version = version_of (sq_versions q) (qm_coalesce_key msg) + 1
           in (q\<lparr>sq_versions := (sq_versions q)(qm_coalesce_key msg \<mapsto> version)\<rparr>,
               msg\<lparr>qm_coalesce_version := version\<rparr>)
      else (q, msg))"

definition sq_enqueue :: "real \<Rightarrow> queued_msg \<Rightarrow> semantic_queue \<Rightarrow> semantic_queue \<times> enqueue_result" where
  "sq_enqueue time msg q =
     (case dedupe_memory time msg q of
        None \<Rightarrow> (q, Deduplicated)
      | Some q1 \<Rightarrow>
          let (q2, msg2) = coalesce_version msg q1
          in (q2\<lparr>sq_items := sq_items q2 @ [msg2]\<rparr>, Stored))"

definition new_semantic_queue :: "coalesce_versions \<Rightarrow> semantic_queue" where
  "new_semantic_queue versions = \<lparr>sq_versions = versions, sq_last = [], sq_items = []\<rparr>"

fun sq_enqueue_all :: "(real \<times> queued_msg) list \<Rightarrow> semantic_queue \<Rightarrow> semantic_queue" where
  "sq_enqueue_all [] q = q"
| "sq_enqueue_all ((t, m) # rest) q = sq_enqueue_all rest (fst (sq_enqueue t m q))"

section \<open>Coalescing: of the messages of one key, only the newest is not stale\<close>

definition keyed :: "string \<Rightarrow> queued_msg list \<Rightarrow> queued_msg list" where
  "keyed key ms = filter (\<lambda>m. qm_coalesce_key m = key) ms"

definition versions_inv :: "semantic_queue \<Rightarrow> bool" where
  "versions_inv q \<longleftrightarrow>
     (\<forall>key. key \<noteq> [] \<longrightarrow>
        0 \<le> version_of (sq_versions q) key \<and>
        sorted_wrt (<) (map qm_coalesce_version (keyed key (sq_items q))) \<and>
        (\<forall>m\<in>set (keyed key (sq_items q)).
           0 < qm_coalesce_version m \<and> qm_coalesce_version m \<le> version_of (sq_versions q) key) \<and>
        (keyed key (sq_items q) \<noteq> [] \<longrightarrow>
           qm_coalesce_version (last (keyed key (sq_items q))) = version_of (sq_versions q) key))"

lemma keyed_append [simp]: "keyed key (xs @ ys) = keyed key xs @ keyed key ys"
  by (simp add: keyed_def)

lemma dedupe_memory_frame:
  assumes "dedupe_memory time msg q = Some q1"
  shows "sq_versions q1 = sq_versions q" "sq_items q1 = sq_items q"
  using assms by (auto simp: dedupe_memory_def Let_def split: if_splits)

lemma versions_inv_enqueue:
  assumes inv: "versions_inv q"
  shows "versions_inv (fst (sq_enqueue time msg q))"
proof (cases "dedupe_memory time msg q")
  case None
  then show ?thesis using inv by (simp add: sq_enqueue_def)
next
  case (Some q1)
  note frame = dedupe_memory_frame [OF Some]
  show ?thesis
    unfolding versions_inv_def
  proof (intro allI impI)
    fix key :: string
    assume key: "key \<noteq> []"
    let ?q' = "fst (sq_enqueue time msg q)"
    note old = inv [unfolded versions_inv_def, rule_format, OF key]
    show "0 \<le> version_of (sq_versions ?q') key \<and>
        sorted_wrt (<) (map qm_coalesce_version (keyed key (sq_items ?q'))) \<and>
        (\<forall>m\<in>set (keyed key (sq_items ?q')).
           0 < qm_coalesce_version m \<and> qm_coalesce_version m \<le> version_of (sq_versions ?q') key) \<and>
        (keyed key (sq_items ?q') \<noteq> [] \<longrightarrow>
           qm_coalesce_version (last (keyed key (sq_items ?q'))) = version_of (sq_versions ?q') key)"
    proof (cases "qm_coalesce_key msg = key")
      case True
      then have "keyed key (sq_items ?q') =
          keyed key (sq_items q) @ [msg\<lparr>qm_coalesce_version := version_of (sq_versions q) key + 1\<rparr>]"
        and "version_of (sq_versions ?q') key = version_of (sq_versions q) key + 1"
        using Some key frame
        by (simp_all add: sq_enqueue_def coalesce_version_def Let_def keyed_def version_of_def)
      then show ?thesis using old by (force simp: sorted_wrt_append)
    next
      case False
      then have "keyed key (sq_items ?q') = keyed key (sq_items q)"
        and "version_of (sq_versions ?q') key = version_of (sq_versions q) key"
        using Some key frame
        by (simp_all add: sq_enqueue_def coalesce_version_def Let_def keyed_def version_of_def)
      then show ?thesis using old by simp
    qed
  qed
qed

lemma versions_inv_all: "versions_inv q \<Longrightarrow> versions_inv (sq_enqueue_all ms q)"
  by (induction ms q rule: sq_enqueue_all.induct) (simp_all add: versions_inv_enqueue)

lemma versions_inv_new: "versions_inv (new_semantic_queue Map.empty)"
  by (simp add: versions_inv_def new_semantic_queue_def keyed_def version_of_def)

text \<open>Of the messages stored under a key, exactly the last one is still fresh.\<close>

lemma stale_iff_not_last:
  assumes inv: "versions_inv q" and key: "key \<noteq> []" and i: "i < length (keyed key (sq_items q))"
  shows "is_semantic_msg_stale (sq_versions q) (keyed key (sq_items q) ! i) \<longleftrightarrow>
         Suc i < length (keyed key (sq_items q))"
proof -
  let ?ms = "keyed key (sq_items q)"
  note old = inv [unfolded versions_inv_def, rule_format, OF key]
  have mem: "?ms ! i \<in> set ?ms" using i by simp
  then have k: "qm_coalesce_key (?ms ! i) = key" by (simp add: keyed_def)
  have last: "qm_coalesce_version (?ms ! (length ?ms - 1)) = version_of (sq_versions q) key"
    using old i by (metis last_conv_nth length_0_conv not_less_zero)
  have stale: "is_semantic_msg_stale (sq_versions q) (?ms ! i) \<longleftrightarrow>
      qm_coalesce_version (?ms ! i) < version_of (sq_versions q) key"
    using old mem k key by (auto simp: is_semantic_msg_stale_def is_semantic_coalesce_stale_def)
  show ?thesis
  proof (cases "Suc i < length ?ms")
    case True
    then have "qm_coalesce_version (?ms ! i) < qm_coalesce_version (?ms ! (length ?ms - 1))"
      using old sorted_wrt_nth_less [of "(<)" "map qm_coalesce_version ?ms" i "length ?ms - 1"] by simp
    then show ?thesis using True stale last by simp
  next
    case False
    then have "i = length ?ms - 1" using i by simp
    then show ?thesis using False stale last by simp
  qed
qed


definition demo_msg :: "string \<Rightarrow> queued_msg" where
  "demo_msg key =
     \<lparr>qm_uri = ''viking://resources/a'', qm_context_type = ''memory'', qm_account_id = ''d'', qm_user_id = ''d'',
      qm_peer_id = ''d'', qm_coalesce_key = key, qm_coalesce_version = 0\<rparr>"

definition demo_queue :: semantic_queue where
  "demo_queue = sq_enqueue_all [(1, demo_msg ''k''), (2, demo_msg ''k''), (3, demo_msg ''k'')] (new_semantic_queue Map.empty)"


text \<open>
  The first message can be lost: a directory without an entry in the table counts as enqueued at
  time 0, and the clock is \<^verbatim>\<open>time.monotonic()\<close>, which on Linux counts from the start of the machine.  In the
  first 45 seconds every memory message without a coalesce key is dropped as a duplicate, although none
  was stored before.
\<close>

lemma first_memory_message_lost:
  assumes "time < 45" "qm_context_type msg = ''memory''" "qm_coalesce_key msg = []"
  shows "sq_enqueue time msg (new_semantic_queue versions) = (new_semantic_queue versions, Deduplicated)"
  using assms
  by (simp add: sq_enqueue_def dedupe_memory_def new_semantic_queue_def last_time_def Let_def
      MEMORY_PARENT_SEMANTIC_DEDUPE_SEC_def)

end
