(* ===== verification/Semantic_Dag.thy ===== *)
theory Semantic_Dag
  imports Viking_Uri Overview_Text Semantic_Queue
begin

text \<open>
  The executor that summarises a directory tree bottom-up
  (\<^verbatim>\<open>src/openviking/storage/queuefs/semantic_dag.py\<close>, with \<^verbatim>\<open>semantic_sidecar.py\<close>): one unit of work
  lists a directory, one summarises a file, one writes the overview of a directory when all it waits
  for is done, and one hands a finished text to vectorization.  Units wait in the queue of a
  scheduler and run on its workers.

  Time is a sequence of events.  \<open>TakeWork\<close> is a worker taking the head of the queue and running the
  unit up to its first wait; \<open>FinishWork w env\<close> is the rest of a running unit \<open>w\<close>.  The units wait
  only inside calls of the file system and of the language model; what they do to the state of the
  executor between two waits is not interruptible in \<^verbatim>\<open>asyncio\<close>, and the two notes a unit leaves
  before its last wait (the change status of a file, the cached overview) are read by no unit
  that can run before it ends.  So the order of units is free but each end is one event.

  What the calls outside the executor answer is the record \<open>dag_env\<close>, another one for each
  event: the file system, the text generated by the language model
  (\<^verbatim>\<open>_generate_single_file_summary\<close> and \<^verbatim>\<open>_generate_overview\<close> of the processor), the coalesce
  versions at the two places where they are read, and the outcome of the path lock of the sidecar
  files.  \<open>None\<close> is an exception.
\<close>

section \<open>Data\<close>

record file_summary =
  fsm_name :: string
  fsm_summary :: string
  fsm_content :: "string option"

text \<open>The dictionary \<^verbatim>\<open>{"name": child_name, "abstract": abstract}\<close>; the abstract may be \<^verbatim>\<open>None\<close>.\<close>

record child_abstract =
  ca_name :: string
  ca_abstract :: "string option"

record dir_node =
  dn_uri :: string
  dn_children_dirs :: "string list"
  dn_file_paths :: "string list"
  dn_file_index :: "string \<rightharpoonup> nat"
  dn_child_index :: "string \<rightharpoonup> nat"
  dn_file_summaries :: "file_summary option list"
  dn_children_abstracts :: "child_abstract option list"
  dn_pending :: int
  dn_dispatched :: bool
  dn_overview_scheduled :: bool

record dag_stats =
  ds_total_nodes :: nat
  ds_pending_nodes :: nat
  ds_in_progress_nodes :: nat
  ds_done_nodes :: nat

datatype vectorize_kind = VecFile | VecDirectory

record vectorize_task =
  vt_task_type :: vectorize_kind
  vt_uri :: string
  vt_context_type :: string
  vt_semantic_msg_id :: "string option"
  vt_file_path :: "string option"
  vt_summary_dict :: "file_summary option"
  vt_parent_uri :: "string option"
  vt_use_summary :: bool
  vt_abstract :: "string option"
  vt_overview :: "string option"

datatype dag_work =
    DirWork string "string option"
  | FileWork string string
  | OverviewWork string
  | VectorizeWork vectorize_task

record dag_config =
  dc_context_type :: string
  dc_max_concurrent_llm :: int
  dc_incremental_update :: bool
  dc_target_uri :: "string option"
  dc_semantic_msg_id :: "string option"
  dc_telemetry_id :: string
  dc_recursive :: bool
  dc_is_code_repo :: bool
  dc_changes :: "(string, string list) dict"
  dc_skip_vectorization :: bool
  dc_coalesce_key :: string
  dc_coalesce_version :: int
  dc_limits :: semantic_limits

record dag_env =
  en_ls :: "string \<Rightarrow> (string \<times> bool) list option"
  en_size :: "string \<Rightarrow> int option option"
  en_read :: "string \<Rightarrow> string option"
  en_abstract :: "string \<Rightarrow> string option"
  en_summary :: "string \<Rightarrow> file_summary option"
  en_overview :: "string \<Rightarrow> file_summary list \<Rightarrow> child_abstract list \<Rightarrow> string option"
  en_versions :: coalesce_versions
  en_versions_locked :: coalesce_versions
  en_has_lock_manager :: bool
  en_path_lock :: bool
  en_write :: "string \<Rightarrow> bool"

record node_scheduler =
  ns_max_workers :: nat
  ns_queue :: "dag_work list"
  ns_workers :: nat

datatype run_phase = WaitRoot | WaitVectorize | RunReturned | RunRaised string

text \<open>
  The executor.  An \<^verbatim>\<open>asyncio.Event\<close> is a flag (\<open>None\<close> while \<^verbatim>\<open>_vectorize_done\<close> is not created).
  \<open>dg_running\<close> are the units between \<open>TakeWork\<close> and \<open>FinishWork\<close>; \<open>dg_finished\<close>, \<open>dg_summarized\<close>,
  \<open>dg_generated\<close>, \<open>dg_written\<close> and \<open>dg_vectorized\<close> record what has been done to the world: the units
  that ended, the calls of the language model for a file and for a directory, the sidecar files
  written and the tasks handed to vectorization.
\<close>

record dag =
  dg_root_uri :: "string option"
  dg_root_done :: bool
  dg_sched :: node_scheduler
  dg_closed :: bool
  dg_failure :: "string option"
  dg_stats :: dag_stats
  dg_nodes :: "string \<rightharpoonup> dir_node"
  dg_parent :: "string \<rightharpoonup> string option"
  dg_vectorize_task_count :: nat
  dg_pending_vectorize_tasks :: "vectorize_task list"
  dg_pending_vectorize_work :: nat
  dg_vectorize_done :: "bool option"
  dg_file_change_status :: "string \<rightharpoonup> bool"
  dg_dir_change_status :: "string \<rightharpoonup> bool"
  dg_overview_cache :: "string \<rightharpoonup> (string, string) dict"
  dg_stale :: bool
  dg_phase :: run_phase
  dg_registered :: "nat option"
  dg_semantic_done :: bool
  dg_lock_closed :: bool
  dg_running :: "dag_work list"
  dg_finished :: "dag_work list"
  dg_summarized :: "string list"
  dg_generated :: "(string \<times> file_summary list \<times> child_abstract list) list"
  dg_written :: "(string \<times> string) list"
  dg_vectorized :: "vectorize_task list"

section \<open>The scheduler\<close>

definition new_scheduler :: "int \<Rightarrow> node_scheduler" where
  "new_scheduler max_workers =
     \<lparr>ns_max_workers = nat (max 1 max_workers), ns_queue = [], ns_workers = 0\<rparr>"

definition ensure_workers :: "node_scheduler \<Rightarrow> node_scheduler" where
  "ensure_workers s =
     s\<lparr>ns_workers := max (ns_workers s) (min (ns_max_workers s) (length (ns_queue s)))\<rparr>"

definition configure :: "int \<Rightarrow> node_scheduler \<Rightarrow> node_scheduler" where
  "configure max_workers s = ensure_workers (s\<lparr>ns_max_workers := nat (max 1 max_workers)\<rparr>)"

definition submit_work :: "dag_work \<Rightarrow> node_scheduler \<Rightarrow> node_scheduler" where
  "submit_work w s = ensure_workers (s\<lparr>ns_queue := ns_queue s @ [w]\<rparr>)"

text \<open>The scheduler of an event loop: created at the first call, configured again at a later one.\<close>

definition get_semantic_node_scheduler :: "int \<Rightarrow> node_scheduler option \<Rightarrow> node_scheduler" where
  "get_semantic_node_scheduler max_workers scheduler =
     (case scheduler of None \<Rightarrow> new_scheduler max_workers | Some s \<Rightarrow> configure max_workers s)"

section \<open>Statistics\<close>

definition mark_node_started :: "dag \<Rightarrow> dag" where
  "mark_node_started st =
     st\<lparr>dg_stats := (dg_stats st)\<lparr>ds_pending_nodes := ds_pending_nodes (dg_stats st) - 1,
                                  ds_in_progress_nodes := ds_in_progress_nodes (dg_stats st) + 1\<rparr>\<rparr>"

definition mark_node_waiting :: "dag \<Rightarrow> dag" where
  "mark_node_waiting st =
     st\<lparr>dg_stats := (dg_stats st)\<lparr>ds_in_progress_nodes := ds_in_progress_nodes (dg_stats st) - 1,
                                  ds_pending_nodes := ds_pending_nodes (dg_stats st) + 1\<rparr>\<rparr>"

definition mark_node_done :: "dag \<Rightarrow> dag" where
  "mark_node_done st =
     st\<lparr>dg_stats := (dg_stats st)\<lparr>ds_done_nodes := ds_done_nodes (dg_stats st) + 1,
                                  ds_in_progress_nodes := ds_in_progress_nodes (dg_stats st) - 1\<rparr>\<rparr>"

definition count_new_node :: "dag \<Rightarrow> dag" where
  "count_new_node st =
     st\<lparr>dg_stats := (dg_stats st)\<lparr>ds_total_nodes := ds_total_nodes (dg_stats st) + 1,
                                  ds_pending_nodes := ds_pending_nodes (dg_stats st) + 1\<rparr>\<rparr>"

definition add_stats :: "dag_stats \<Rightarrow> dag_stats \<Rightarrow> dag_stats" where
  "add_stats a b =
     \<lparr>ds_total_nodes = ds_total_nodes a + ds_total_nodes b,
      ds_pending_nodes = ds_pending_nodes a + ds_pending_nodes b,
      ds_in_progress_nodes = ds_in_progress_nodes a + ds_in_progress_nodes b,
      ds_done_nodes = ds_done_nodes a + ds_done_nodes b\<rparr>"

definition new_stats :: dag_stats where
  "new_stats = \<lparr>ds_total_nodes = 0, ds_pending_nodes = 0, ds_in_progress_nodes = 0, ds_done_nodes = 0\<rparr>"

text \<open>The class-wide set of active executors, by identity, and the sum of their statistics.\<close>

definition register_active :: "nat \<Rightarrow> nat list \<Rightarrow> nat list" where
  "register_active e active = (if e \<in> set active then active else active @ [e])"

definition unregister_active :: "nat \<Rightarrow> nat list \<Rightarrow> nat list" where
  "unregister_active e active = filter (\<lambda>x. x \<noteq> e) active"

definition get_active_stats :: "(nat \<Rightarrow> dag) \<Rightarrow> nat list \<Rightarrow> dag_stats" where
  "get_active_stats executors active = foldl (\<lambda>s e. add_stats s (dg_stats (executors e))) new_stats active"

section \<open>Scheduling\<close>

definition schedule_work :: "dag_work \<Rightarrow> dag \<Rightarrow> dag" where
  "schedule_work w st = (if dg_closed st then st else st\<lparr>dg_sched := submit_work w (dg_sched st)\<rparr>)"

definition schedule_dir :: "string \<Rightarrow> string option \<Rightarrow> dag \<Rightarrow> dag" where
  "schedule_dir d parent st =
     (if dg_closed st then st else schedule_work (DirWork d parent) (count_new_node st))"

definition schedule_file :: "string \<Rightarrow> string \<Rightarrow> dag \<Rightarrow> dag" where
  "schedule_file parent f st =
     (if dg_closed st then st else schedule_work (FileWork parent f) (count_new_node st))"

definition schedule_overview :: "string \<Rightarrow> dag \<Rightarrow> dag" where
  "schedule_overview d st =
     (case dg_nodes st d of
        None \<Rightarrow> st
      | Some node \<Rightarrow>
          if dn_overview_scheduled node then st
          else schedule_work (OverviewWork d)
                 (st\<lparr>dg_nodes := (dg_nodes st)(d \<mapsto> node\<lparr>dn_overview_scheduled := True\<rparr>)\<rparr>))"

definition release_dir_node :: "string \<Rightarrow> dag \<Rightarrow> dag" where
  "release_dir_node d st =
     st\<lparr>dg_nodes := (dg_nodes st)(d := None), dg_parent := (dg_parent st)(d := None)\<rparr>"

definition dag_fail :: "string \<Rightarrow> dag \<Rightarrow> dag" where
  "dag_fail exc st =
     st\<lparr>dg_failure := (if dg_failure st = None then Some exc else dg_failure st),
        dg_closed := True,
        dg_root_done := True,
        dg_vectorize_done := map_option (\<lambda>_. True) (dg_vectorize_done st)\<rparr>"

definition add_vectorize_task :: "dag_config \<Rightarrow> vectorize_task \<Rightarrow> dag \<Rightarrow> dag" where
  "add_vectorize_task cfg task st =
     (if dc_skip_vectorization cfg then st
      else st\<lparr>dg_pending_vectorize_tasks := dg_pending_vectorize_tasks st @ [task],
              dg_vectorize_task_count := dg_vectorize_task_count st +
                (case vt_task_type task of VecFile \<Rightarrow> 1 | VecDirectory \<Rightarrow> 2)\<rparr>)"

section \<open>Listing a directory\<close>

definition SKIP_FILENAMES :: "string list" where "SKIP_FILENAMES = [''messages.jsonl'']"

definition uri_name :: "string \<Rightarrow> string" where
  "uri_name u = List.last (py_split (CHR ''/'') u)"

definition skipped_name :: "string \<Rightarrow> bool" where
  "skipped_name name \<longleftrightarrow>
     name = [] \<or> py_startswith name ''.'' \<or> name \<in> {''.'', ''..''} \<or> name \<in> set SKIP_FILENAMES"

definition item_uri :: "string \<Rightarrow> string \<Rightarrow> uri_error + string" where
  "item_uri d name = py_then (new_viking_uri d) (\<lambda>v. py_then (vu_join v name) (\<lambda>c. Inr (vu_uri c)))"

fun collect_entries ::
  "string \<Rightarrow> (string \<times> bool) list \<Rightarrow> string list \<Rightarrow> string list \<Rightarrow> uri_error + string list \<times> string list" where
  "collect_entries d [] dirs files = Inr (dirs, files)"
| "collect_entries d ((name, is_dir) # entries) dirs files =
     (if skipped_name name then collect_entries d entries dirs files
      else py_then (item_uri d name)
        (\<lambda>u. if is_dir then collect_entries d entries (dirs @ [u]) files
              else collect_entries d entries dirs (files @ [u])))"

definition list_dir :: "(string \<Rightarrow> (string \<times> bool) list option) \<Rightarrow> string \<Rightarrow> uri_error + string list \<times> string list" where
  "list_dir ls d = (case ls d of None \<Rightarrow> Inr ([], []) | Some entries \<Rightarrow> collect_entries d entries [] [])"

section \<open>Incremental updates\<close>

definition changed_paths :: "dag_config \<Rightarrow> string list" where
  "changed_paths cfg =
     concat (map (\<lambda>key. case map_of (dc_changes cfg) key of None \<Rightarrow> [] | Some ps \<Rightarrow> ps)
                 [''added'', ''modified'', ''deleted''])"

definition is_truthy :: "string option \<Rightarrow> bool" where
  "is_truthy u \<longleftrightarrow> u \<noteq> None \<and> u \<noteq> Some []"

definition get_target_file_path :: "dag_config \<Rightarrow> dag \<Rightarrow> string \<Rightarrow> string option" where
  "get_target_file_path cfg st current =
     (if \<not> dc_incremental_update cfg \<or> \<not> is_truthy (dc_target_uri cfg) \<or> \<not> is_truthy (dg_root_uri st) then None
      else if dc_target_uri cfg \<noteq> dg_root_uri st then None
      else Some current)"

definition is_direct_incremental_update :: "dag_config \<Rightarrow> dag \<Rightarrow> bool" where
  "is_direct_incremental_update cfg st \<longleftrightarrow>
     dc_incremental_update cfg \<and> changed_paths cfg \<noteq> [] \<and> dc_target_uri cfg = dg_root_uri st"

definition path_has_direct_change :: "dag_config \<Rightarrow> string \<Rightarrow> bool" where
  "path_has_direct_change cfg u \<longleftrightarrow>
     u \<in> set (changed_paths cfg) \<or>
     list_ex (\<lambda>p. py_startswith p (py_rstrip (CHR ''/'') u @ ''/'')) (changed_paths cfg)"

definition check_file_content_changed :: "dag_config \<Rightarrow> dag_env \<Rightarrow> dag \<Rightarrow> string \<Rightarrow> bool" where
  "check_file_content_changed cfg env st f =
     (if is_direct_incremental_update cfg st then f \<in> set (changed_paths cfg)
      else
        let target = get_target_file_path cfg st f
        in if \<not> is_truthy target then True
           else case (en_size env f, en_size env (the target)) of
             (Some current_size, Some target_size) \<Rightarrow>
               if current_size \<noteq> None \<and> target_size \<noteq> None \<and> current_size \<noteq> target_size then True
               else (case (en_read env f, en_read env (the target)) of
                       (Some current_content, Some target_content) \<Rightarrow> current_content \<noteq> target_content
                     | _ \<Rightarrow> True)
           | _ \<Rightarrow> True)"

text \<open>The existing summary of a file, from the cached overview of its directory; the cache is
  filled on the way.\<close>

definition load_overview_cache :: "dag_env \<Rightarrow> string \<Rightarrow> dag \<Rightarrow> dag option" where
  "load_overview_cache env parent st =
     (if dg_overview_cache st parent \<noteq> None then Some st
      else case en_read env (parent @ ''/.overview.md'') of
        None \<Rightarrow> None
      | Some content \<Rightarrow>
          Some (st\<lparr>dg_overview_cache :=
            (dg_overview_cache st)(parent \<mapsto> (if content \<noteq> [] then parse_overview_md content else []))\<rparr>))"

definition read_existing_summary :: "dag_config \<Rightarrow> dag_env \<Rightarrow> string \<Rightarrow> dag \<Rightarrow> dag \<times> file_summary option" where
  "read_existing_summary cfg env f st =
     (let target = get_target_file_path cfg st f
      in if \<not> is_truthy target then (st, None)
         else
           let parent = (case py_rsplit1 (CHR ''/'') (the target) of None \<Rightarrow> [] | Some (p, _) \<Rightarrow> p)
           in if parent = [] then (st, None)
              else case load_overview_cache env parent st of
                None \<Rightarrow> (st, None)
              | Some st' \<Rightarrow>
                  (st', map_option (\<lambda>s. \<lparr>fsm_name = uri_name f, fsm_summary = s, fsm_content = None\<rparr>)
                          (map_of (the (dg_overview_cache st' parent)) (uri_name f))))"

definition status_of :: "(string \<rightharpoonup> bool) \<Rightarrow> string \<Rightarrow> bool" where
  "status_of m u = (case m u of None \<Rightarrow> True | Some b \<Rightarrow> b)"

definition check_dir_children_changed ::
  "dag_config \<Rightarrow> dag_env \<Rightarrow> dag \<Rightarrow> string \<Rightarrow> string list \<Rightarrow> string list \<Rightarrow> bool" where
  "check_dir_children_changed cfg env st d current_files current_dirs =
     (let below = (list_ex (status_of (dg_file_change_status st)) current_files \<or>
                   list_ex (status_of (dg_dir_change_status st)) current_dirs)
      in if is_direct_incremental_update cfg st then path_has_direct_change cfg d \<or> below
         else
           let target = get_target_file_path cfg st d
           in if \<not> is_truthy target then True
              else case list_dir (en_ls env) (the target) of
                Inl _ \<Rightarrow> True
              | Inr (target_dirs, target_files) \<Rightarrow>
                  uri_name ` set current_files \<noteq> uri_name ` set target_files \<or>
                  uri_name ` set current_dirs \<noteq> uri_name ` set target_dirs \<or> below)"

definition read_existing_overview_abstract ::
  "dag_config \<Rightarrow> dag_env \<Rightarrow> dag \<Rightarrow> string \<Rightarrow> (string \<times> string) option" where
  "read_existing_overview_abstract cfg env st d =
     (let target = get_target_file_path cfg st d
      in if \<not> is_truthy target then None
         else case (en_read env (the target @ ''/.overview.md''), en_read env (the target @ ''/.abstract.md'')) of
           (Some overview, Some abstract) \<Rightarrow> Some (overview, abstract)
         | _ \<Rightarrow> None)"

section \<open>The tasks\<close>

subsection \<open>What waits on a unit\<close>

definition fill_slot :: "'a option list \<Rightarrow> nat option \<Rightarrow> 'a \<Rightarrow> 'a option list" where
  "fill_slot xs idx v = (case idx of None \<Rightarrow> xs | Some i \<Rightarrow> xs[i := Some v])"

text \<open>The common end of \<^verbatim>\<open>_on_file_done\<close> and \<^verbatim>\<open>_on_child_done\<close>.\<close>

definition count_down :: "string \<Rightarrow> dir_node \<Rightarrow> dag \<Rightarrow> dag" where
  "count_down d node st =
     (let node' = node\<lparr>dn_pending := dn_pending node - 1\<rparr>;
          st' = st\<lparr>dg_nodes := (dg_nodes st)(d \<mapsto> node')\<rparr>
      in if dn_pending node' = 0 \<and> \<not> dn_overview_scheduled node' then schedule_overview d st' else st')"

definition on_file_done :: "string \<Rightarrow> string \<Rightarrow> file_summary \<Rightarrow> dag \<Rightarrow> dag" where
  "on_file_done parent f summary st =
     (case dg_nodes st parent of
        None \<Rightarrow> st
      | Some node \<Rightarrow>
          count_down parent
            (node\<lparr>dn_file_summaries := fill_slot (dn_file_summaries node) (dn_file_index node f) summary\<rparr>) st)"

definition on_child_done :: "string \<Rightarrow> string \<Rightarrow> string option \<Rightarrow> dag \<Rightarrow> dag" where
  "on_child_done parent child abstract st =
     (case dg_nodes st parent of
        None \<Rightarrow> st
      | Some node \<Rightarrow>
          count_down parent
            (node\<lparr>dn_children_abstracts :=
               fill_slot (dn_children_abstracts node) (dn_child_index node child)
                 \<lparr>ca_name = uri_name child, ca_abstract = abstract\<rparr>\<rparr>) st)"

subsection \<open>A directory\<close>

text \<open>\<^verbatim>\<open>{path: idx for idx, path in enumerate(paths)}\<close>.\<close>

definition enum_index :: "string list \<Rightarrow> string \<rightharpoonup> nat" where
  "enum_index xs = map_of (rev (zip xs [0..<length xs]))"

definition new_dir_node :: "dag_config \<Rightarrow> string \<Rightarrow> string list \<Rightarrow> string list \<Rightarrow> dir_node" where
  "new_dir_node cfg d dirs files =
     \<lparr>dn_uri = d, dn_children_dirs = dirs, dn_file_paths = files,
      dn_file_index = enum_index files, dn_child_index = enum_index dirs,
      dn_file_summaries = replicate (length files) None,
      dn_children_abstracts = replicate (length dirs) None,
      dn_pending = (if dc_recursive cfg then int (length dirs) + int (length files) else int (length files)),
      dn_dispatched = True, dn_overview_scheduled = False\<rparr>"

text \<open>\<^verbatim>\<open>_dispatch_dir\<close> from the answer of the listing on; the flag is its result (\<open>True\<close>: the unit is
  terminal).\<close>

definition dispatch_dir :: "dag_config \<Rightarrow> dag_env \<Rightarrow> string \<Rightarrow> string option \<Rightarrow> dag \<Rightarrow> dag \<times> bool" where
  "dispatch_dir cfg env d parent st =
     (case list_dir (en_ls env) d of
        Inl _ \<Rightarrow>
          ((if is_truthy parent then on_child_done (the parent) d (Some []) st
            else st\<lparr>dg_root_done := True\<rparr>), True)
      | Inr (dirs, files) \<Rightarrow>
          let node = new_dir_node cfg d dirs files;
              st1 = st\<lparr>dg_nodes := (dg_nodes st)(d \<mapsto> node)\<rparr>
          in if dn_pending node = 0 then (schedule_overview d st1, False)
             else
               let st2 = fold (schedule_file d) files st1;
                   st3 = (if dc_recursive cfg then fold (\<lambda>c. schedule_dir c (Some d)) dirs st2 else st2)
               in (st3, False))"

definition finish_dir :: "dag_config \<Rightarrow> dag_env \<Rightarrow> string \<Rightarrow> string option \<Rightarrow> dag \<Rightarrow> dag" where
  "finish_dir cfg env d parent st =
     (let (st', terminal) = dispatch_dir cfg env d parent st
      in if terminal then mark_node_done st' else mark_node_waiting st')"

subsection \<open>A file\<close>

text \<open>The first block of \<^verbatim>\<open>_file_summary_task\<close>: the summary and whether to vectorize it.\<close>

definition summarize_file :: "dag_config \<Rightarrow> dag_env \<Rightarrow> string \<Rightarrow> dag \<Rightarrow> dag \<times> file_summary \<times> bool" where
  "summarize_file cfg env f st =
     (let generate = (\<lambda>s. (s\<lparr>dg_summarized := dg_summarized s @ [f]\<rparr>,
            (case en_summary env f of
               Some summary \<Rightarrow> summary
             | None \<Rightarrow> \<lparr>fsm_name = uri_name f, fsm_summary = [], fsm_content = None\<rparr>), True));
          note_change = (\<lambda>b s. s\<lparr>dg_file_change_status := (dg_file_change_status s)(f \<mapsto> b)\<rparr>)
      in if dc_incremental_update cfg
         then if check_file_content_changed cfg env st f then generate (note_change True st)
              else (case read_existing_summary cfg env f (note_change False st) of
                      (s, Some summary) \<Rightarrow> (s, summary, False)
                    | (s, None) \<Rightarrow> generate (note_change True s))
         else generate (note_change True st))"

definition file_vectorize_task :: "dag_config \<Rightarrow> string \<Rightarrow> string \<Rightarrow> file_summary \<Rightarrow> vectorize_task" where
  "file_vectorize_task cfg parent f summary =
     \<lparr>vt_task_type = VecFile, vt_uri = f, vt_context_type = dc_context_type cfg,
      vt_semantic_msg_id = dc_semantic_msg_id cfg, vt_file_path = Some f,
      vt_summary_dict = Some summary, vt_parent_uri = Some parent,
      vt_use_summary = (dc_is_code_repo cfg \<and> fsm_summary summary \<noteq> []),
      vt_abstract = None, vt_overview = None\<rparr>"

definition finish_file :: "dag_config \<Rightarrow> dag_env \<Rightarrow> string \<Rightarrow> string \<Rightarrow> dag \<Rightarrow> dag" where
  "finish_file cfg env parent f st =
     (let (st1, summary, need_vectorize) = summarize_file cfg env f st;
          st2 = mark_node_done st1;
          st3 = (if need_vectorize then add_vectorize_task cfg (file_vectorize_task cfg parent f summary) st2
                 else st2)
      in on_file_done parent f summary st3)"

subsection \<open>The overview of a directory\<close>

definition finalize_file_summaries :: "dir_node \<Rightarrow> file_summary list" where
  "finalize_file_summaries node =
     map (\<lambda>(f, item). case item of
            None \<Rightarrow> \<lparr>fsm_name = uri_name f, fsm_summary = [], fsm_content = None\<rparr>
          | Some s \<Rightarrow> s)
       (zip (dn_file_paths node) (dn_file_summaries node))"

definition finalize_children_abstracts :: "dag_env \<Rightarrow> dir_node \<Rightarrow> child_abstract list" where
  "finalize_children_abstracts env node =
     map (\<lambda>(c, item). case item of
            None \<Rightarrow> \<lparr>ca_name = uri_name c,
                     ca_abstract = (case en_abstract env c of None \<Rightarrow> Some [] | Some a \<Rightarrow> Some a)\<rparr>
          | Some a \<Rightarrow> a)
       (zip (dn_children_dirs node) (dn_children_abstracts node))"

text \<open>\<^verbatim>\<open>_write_sidecars\<close>: \<open>False\<close> when one of the two writes raises.\<close>

definition write_sidecars :: "dag_env \<Rightarrow> string \<Rightarrow> string \<Rightarrow> string \<Rightarrow> dag \<Rightarrow> dag \<times> bool" where
  "write_sidecars env d overview abstract st =
     (if \<not> en_write env (d @ ''/.overview.md'') then (st, False)
      else
        let st1 = st\<lparr>dg_written := dg_written st @ [(d @ ''/.overview.md'', overview)]\<rparr>
        in if \<not> en_write env (d @ ''/.abstract.md'') then (st1, False)
           else (st1\<lparr>dg_written := dg_written st1 @ [(d @ ''/.abstract.md'', abstract)]\<rparr>, True))"

datatype write_outcome = Wrote | SkippedStale | WriteRaised

definition write_semantic_sidecars ::
  "dag_config \<Rightarrow> dag_env \<Rightarrow> string \<Rightarrow> string \<Rightarrow> string \<Rightarrow> dag \<Rightarrow> dag \<times> write_outcome" where
  "write_semantic_sidecars cfg env d overview abstract st =
     (let is_stale = (\<lambda>versions. is_semantic_coalesce_stale versions (dc_coalesce_key cfg) (dc_coalesce_version cfg));
          do_write = (case write_sidecars env d overview abstract st of
                        (s, ok) \<Rightarrow> (s, if ok then Wrote else WriteRaised))
      in if is_stale (en_versions env) then (st, SkippedStale)
         else if \<not> en_has_lock_manager env then do_write
         else if \<not> en_path_lock env then (st, WriteRaised)
         else if is_stale (en_versions_locked env) then (st, SkippedStale)
         else do_write)"

definition write_directory_semantics ::
  "dag_config \<Rightarrow> dag_env \<Rightarrow> string \<Rightarrow> string \<Rightarrow> string \<Rightarrow> dag \<Rightarrow> dag \<times> write_outcome" where
  "write_directory_semantics cfg env d overview abstract st =
     (case write_semantic_sidecars cfg env d overview abstract st of
        (s, SkippedStale) \<Rightarrow> (s\<lparr>dg_stale := True\<rparr>, SkippedStale)
      | (s, r) \<Rightarrow> (s, r))"

definition dir_vectorize_task :: "dag_config \<Rightarrow> string \<Rightarrow> string \<Rightarrow> string \<Rightarrow> vectorize_task" where
  "dir_vectorize_task cfg d abstract overview =
     \<lparr>vt_task_type = VecDirectory, vt_uri = d, vt_context_type = dc_context_type cfg,
      vt_semantic_msg_id = dc_semantic_msg_id cfg, vt_file_path = None, vt_summary_dict = None,
      vt_parent_uri = None, vt_use_summary = False, vt_abstract = Some abstract, vt_overview = Some overview\<rparr>"

text \<open>The overview and the abstract of a directory: the existing ones, or generated ones (\<open>None\<close> when
  the generation raises).  The call is recorded.\<close>

definition make_overview ::
  "dag_config \<Rightarrow> dag_env \<Rightarrow> string \<Rightarrow> dir_node \<Rightarrow> bool \<Rightarrow> dag \<Rightarrow> dag \<times> (string \<times> string) option" where
  "make_overview cfg env d node children_changed st =
     (case (if children_changed then None else read_existing_overview_abstract cfg env st d) of
        Some (overview, abstract) \<Rightarrow> (st, Some (overview, abstract))
      | None \<Rightarrow>
          let files = finalize_file_summaries node; children = finalize_children_abstracts env node
          in (st\<lparr>dg_generated := dg_generated st @ [(d, files, children)]\<rparr>,
              map_option (normalize_overview_generation (dc_limits cfg)) (en_overview env d files children)))"

text \<open>The \<^verbatim>\<open>try\<close> block of \<^verbatim>\<open>_overview_task\<close>, with the value the variable \<^verbatim>\<open>abstract\<close> has after it: the
  block assigns \<^verbatim>\<open>None\<close> to it before the calls that may raise.\<close>

definition overview_body ::
  "dag_config \<Rightarrow> dag_env \<Rightarrow> string \<Rightarrow> dir_node \<Rightarrow> bool \<Rightarrow> dag \<Rightarrow> dag \<times> string option" where
  "overview_body cfg env d node children_changed st =
     (case make_overview cfg env d node children_changed st of
        (st1, None) \<Rightarrow> (st1, None)
      | (st1, Some (overview, abstract)) \<Rightarrow>
          (case write_directory_semantics cfg env d overview abstract st1 of
             (st2, outcome) \<Rightarrow>
               ((if children_changed \<and> outcome \<noteq> SkippedStale
                 then add_vectorize_task cfg (dir_vectorize_task cfg d abstract overview) st2 else st2),
                Some abstract)))"

definition finish_overview :: "dag_config \<Rightarrow> dag_env \<Rightarrow> string \<Rightarrow> dag \<Rightarrow> dag" where
  "finish_overview cfg env d st =
     (case dg_nodes st d of
        None \<Rightarrow> st
      | Some node \<Rightarrow>
          let children_changed =
                (if dc_incremental_update cfg
                 then check_dir_children_changed cfg env st d (dn_file_paths node) (dn_children_dirs node)
                 else True);
              (st1, abstract) = overview_body cfg env d node children_changed st;
              st2 = mark_node_done st1;
              st3 = st2\<lparr>dg_dir_change_status := (dg_dir_change_status st2)(d \<mapsto> children_changed)\<rparr>
          in (case dg_parent st3 d of
                Some (Some parent) \<Rightarrow> release_dir_node d (on_child_done parent d abstract st3)
              | _ \<Rightarrow> (release_dir_node d st3)\<lparr>dg_root_done := True\<rparr>))"

subsection \<open>Vectorization\<close>

definition finish_vectorize :: "vectorize_task \<Rightarrow> dag \<Rightarrow> dag" where
  "finish_vectorize task st =
     (let left = dg_pending_vectorize_work st - 1
      in st\<lparr>dg_vectorized := dg_vectorized st @ [task],
            dg_pending_vectorize_work := left,
            dg_vectorize_done := (if left = 0 then map_option (\<lambda>_. True) (dg_vectorize_done st)
                                  else dg_vectorize_done st)\<rparr>)"

definition dispatch_vectorize_tasks :: "vectorize_task list \<Rightarrow> dag \<Rightarrow> dag" where
  "dispatch_vectorize_tasks tasks st =
     fold (\<lambda>t. schedule_work (VectorizeWork t)) tasks
       (st\<lparr>dg_vectorize_done := Some False, dg_pending_vectorize_work := length tasks\<rparr>)"

section \<open>Running the executor\<close>

definition new_dag :: "dag_config \<Rightarrow> string \<Rightarrow> dag" where
  "new_dag cfg root_uri =
     \<lparr>dg_root_uri = Some root_uri, dg_root_done = False,
      dg_sched = get_semantic_node_scheduler (max 1 (dc_max_concurrent_llm cfg)) None,
      dg_closed = False, dg_failure = None, dg_stats = new_stats,
      dg_nodes = Map.empty, dg_parent = Map.empty,
      dg_vectorize_task_count = 0, dg_pending_vectorize_tasks = [], dg_pending_vectorize_work = 0,
      dg_vectorize_done = None, dg_file_change_status = Map.empty, dg_dir_change_status = Map.empty,
      dg_overview_cache = Map.empty, dg_stale = False, dg_phase = WaitRoot, dg_registered = None,
      dg_semantic_done = False, dg_lock_closed = False, dg_running = [], dg_finished = [],
      dg_summarized = [], dg_generated = [], dg_written = [], dg_vectorized = []\<rparr>"

text \<open>\<^verbatim>\<open>run\<close> up to \<^verbatim>\<open>await self._root_done.wait()\<close>.\<close>

definition start_run :: "dag_config \<Rightarrow> string \<Rightarrow> dag" where
  "start_run cfg root_uri = schedule_dir root_uri None (new_dag cfg root_uri)"

text \<open>\<^verbatim>\<open>wrapped_on_complete\<close>.\<close>

definition on_complete :: "dag_config \<Rightarrow> dag \<Rightarrow> dag" where
  "on_complete cfg st =
     st\<lparr>dg_semantic_done := dg_semantic_done st \<or> (dc_telemetry_id cfg \<noteq> [] \<and> is_truthy (dc_semantic_msg_id cfg)),
        dg_lock_closed := True\<rparr>"

text \<open>\<^verbatim>\<open>run\<close> from one of its waits to the next or to its end.  With tasks to vectorize the callback
  is left to the embedding tracker (\<open>dg_registered\<close> is the count it is told).\<close>

definition resume_run :: "dag_config \<Rightarrow> dag \<Rightarrow> dag option" where
  "resume_run cfg st =
     (case dg_phase st of
        WaitRoot \<Rightarrow>
          if \<not> dg_root_done st then None
          else (case dg_failure st of
                  Some exc \<Rightarrow> Some (st\<lparr>dg_closed := True, dg_lock_closed := True, dg_phase := RunRaised exc\<rparr>)
                | None \<Rightarrow>
                    if dg_vectorize_task_count st > 0
                    then Some (dispatch_vectorize_tasks (dg_pending_vectorize_tasks st)
                           (st\<lparr>dg_registered := Some (dg_vectorize_task_count st), dg_phase := WaitVectorize\<rparr>))
                    else Some ((on_complete cfg st)\<lparr>dg_closed := True, dg_phase := RunReturned\<rparr>))
      | WaitVectorize \<Rightarrow>
          if dg_vectorize_done st = Some True then Some (st\<lparr>dg_closed := True, dg_phase := RunReturned\<rparr>) else None
      | _ \<Rightarrow> None)"

text \<open>\<^verbatim>\<open>_run_work\<close> up to the first wait of the unit.\<close>

definition begin_work :: "dag_work \<Rightarrow> dag \<Rightarrow> dag" where
  "begin_work w st =
     (if dg_closed st then st
      else case w of
        VectorizeWork _ \<Rightarrow> st\<lparr>dg_running := dg_running st @ [w]\<rparr>
      | FileWork _ _ \<Rightarrow> (mark_node_started st)\<lparr>dg_running := dg_running st @ [w]\<rparr>
      | DirWork d parent \<Rightarrow>
          if dg_nodes st d \<noteq> None
          then (mark_node_done (mark_node_started st))\<lparr>dg_finished := dg_finished st @ [w]\<rparr>
          else (mark_node_started st)\<lparr>dg_parent := (dg_parent st)(d \<mapsto> parent),
                                      dg_running := dg_running st @ [w]\<rparr>
      | OverviewWork d \<Rightarrow>
          if dg_nodes st d = None then (mark_node_started st)\<lparr>dg_finished := dg_finished st @ [w]\<rparr>
          else (mark_node_started st)\<lparr>dg_running := dg_running st @ [w]\<rparr>)"

definition end_work :: "dag_config \<Rightarrow> dag_env \<Rightarrow> dag_work \<Rightarrow> dag \<Rightarrow> dag" where
  "end_work cfg env w st =
     (case w of
        DirWork d parent \<Rightarrow> finish_dir cfg env d parent st
      | FileWork d f \<Rightarrow> finish_file cfg env d f st
      | OverviewWork d \<Rightarrow> finish_overview cfg env d st
      | VectorizeWork task \<Rightarrow> finish_vectorize task st)"

text \<open>The events: a worker takes the head of the queue; a running unit ends; a running unit raises
  (the worker reports it with \<^verbatim>\<open>fail\<close>); an idle worker times out and leaves because the queue
  is empty; the coroutine \<^verbatim>\<open>run\<close> goes on.  \<open>None\<close>: the event is not possible.\<close>

datatype dag_event =
    TakeWork
  | FinishWork dag_work dag_env
  | RaiseWork dag_work string
  | WorkerIdle
  | ResumeRun

definition take_work :: "dag \<Rightarrow> dag option" where
  "take_work st =
     (case ns_queue (dg_sched st) of
        [] \<Rightarrow> None
      | w # rest \<Rightarrow>
          if length (dg_running st) < ns_workers (dg_sched st)
          then Some (begin_work w (st\<lparr>dg_sched := (dg_sched st)\<lparr>ns_queue := rest\<rparr>\<rparr>))
          else None)"

definition worker_idle :: "dag \<Rightarrow> dag option" where
  "worker_idle st =
     (if ns_queue (dg_sched st) = [] \<and> length (dg_running st) < ns_workers (dg_sched st)
      then Some (st\<lparr>dg_sched := (dg_sched st)\<lparr>ns_workers := ns_workers (dg_sched st) - 1\<rparr>\<rparr>)
      else None)"

definition dag_step :: "dag_config \<Rightarrow> dag_event \<Rightarrow> dag \<Rightarrow> dag option" where
  "dag_step cfg ev st =
     (case ev of
        TakeWork \<Rightarrow> take_work st
      | FinishWork w env \<Rightarrow>
          if w \<in> set (dg_running st)
          then Some (end_work cfg env w
                 (st\<lparr>dg_running := remove1 w (dg_running st), dg_finished := dg_finished st @ [w]\<rparr>))
          else None
      | RaiseWork w exc \<Rightarrow>
          if w \<in> set (dg_running st)
          then Some (dag_fail exc
                 ((case w of DirWork _ _ \<Rightarrow> mark_node_waiting st | _ \<Rightarrow> st)
                    \<lparr>dg_running := remove1 w (dg_running st)\<rparr>))
          else None
      | WorkerIdle \<Rightarrow> worker_idle st
      | ResumeRun \<Rightarrow> resume_run cfg st)"

fun dag_run :: "dag_config \<Rightarrow> dag_event list \<Rightarrow> dag \<Rightarrow> dag option" where
  "dag_run cfg [] st = Some st"
| "dag_run cfg (ev # evs) st =
     (case dag_step cfg ev st of None \<Rightarrow> None | Some st' \<Rightarrow> dag_run cfg evs st')"

end
