(* ===== verification/Semantic_Dag_Spec.thy ===== *)
theory Semantic_Dag_Spec
  imports Semantic_Dag
begin

text \<open>
  The dependency graph that the executor of \<^verbatim>\<open>semantic_dag.py\<close> is meant to follow, without its
  queues, counters and node table.  \<open>L d\<close> is what listing the directory \<open>d\<close> gives (\<open>None\<close>: the
  listing raises), \<open>F\<close> the set of units that have ended.  \<open>submitted L recursive base F\<close> is the set of
  units that must have been handed to the scheduler by then: the listing of the top directory, the
  units of every directory that has been listed, and the overview of a directory as soon as
  everything below it is settled.  The locale \<open>dir_tree\<close> has the laws of listings that make this a
  tree, and the facts that follow from them for any such set \<open>F\<close>.
\<close>

type_synonym listing = "string \<Rightarrow> (string list \<times> string list) option"

definition listing_of :: "(string \<Rightarrow> (string \<times> bool) list option) \<Rightarrow> listing" where
  "listing_of ls d = (case list_dir ls d of Inl _ \<Rightarrow> None | Inr x \<Rightarrow> Some x)"

definition dirs_of :: "listing \<Rightarrow> string \<Rightarrow> string list" where
  "dirs_of L d = (case L d of None \<Rightarrow> [] | Some (cs, _) \<Rightarrow> cs)"

definition files_of :: "listing \<Rightarrow> string \<Rightarrow> string list" where
  "files_of L d = (case L d of None \<Rightarrow> [] | Some (_, xs) \<Rightarrow> xs)"

definition dispatched :: "listing \<Rightarrow> dag_work set \<Rightarrow> string \<Rightarrow> bool" where
  "dispatched L F d \<longleftrightarrow> L d \<noteq> None \<and> (\<exists>p. DirWork d p \<in> F)"

definition settled :: "listing \<Rightarrow> dag_work set \<Rightarrow> string \<Rightarrow> string \<Rightarrow> bool" where
  "settled L F d c \<longleftrightarrow> OverviewWork c \<in> F \<or> (L c = None \<and> DirWork c (Some d) \<in> F)"

definition waiting_files :: "listing \<Rightarrow> dag_work set \<Rightarrow> string \<Rightarrow> string list" where
  "waiting_files L F d = filter (\<lambda>f. FileWork d f \<notin> F) (files_of L d)"

definition waiting_dirs :: "listing \<Rightarrow> bool \<Rightarrow> dag_work set \<Rightarrow> string \<Rightarrow> string list" where
  "waiting_dirs L r F d = (if r then filter (\<lambda>c. \<not> settled L F d c) (dirs_of L d) else [])"

definition ready :: "listing \<Rightarrow> bool \<Rightarrow> dag_work set \<Rightarrow> string \<Rightarrow> bool" where
  "ready L r F d \<longleftrightarrow> dispatched L F d \<and> waiting_files L F d = [] \<and> waiting_dirs L r F d = []"

definition submitted :: "listing \<Rightarrow> bool \<Rightarrow> string \<Rightarrow> dag_work set \<Rightarrow> dag_work set" where
  "submitted L r base F =
     {w. case w of
           DirWork c None \<Rightarrow> c = base
         | DirWork c (Some d) \<Rightarrow> r \<and> dispatched L F d \<and> c \<in> set (dirs_of L d)
         | FileWork d f \<Rightarrow> dispatched L F d \<and> f \<in> set (files_of L d)
         | OverviewWork d \<Rightarrow> ready L r F d
         | VectorizeWork _ \<Rightarrow> False}"

lemma submitted_simps [simp]:
  "DirWork c None \<in> submitted L r base F \<longleftrightarrow> c = base"
  "DirWork c (Some d) \<in> submitted L r base F \<longleftrightarrow> r \<and> dispatched L F d \<and> c \<in> set (dirs_of L d)"
  "FileWork d f \<in> submitted L r base F \<longleftrightarrow> dispatched L F d \<and> f \<in> set (files_of L d)"
  "OverviewWork d \<in> submitted L r base F \<longleftrightarrow> ready L r F d"
  "VectorizeWork t \<notin> submitted L r base F"
  by (simp_all add: submitted_def)

definition root_settled :: "listing \<Rightarrow> string \<Rightarrow> dag_work set \<Rightarrow> bool" where
  "root_settled L base F \<longleftrightarrow> OverviewWork base \<in> F \<or> (L base = None \<and> DirWork base None \<in> F)"

text \<open>Every unit that ended had been submitted.\<close>

definition sound :: "listing \<Rightarrow> bool \<Rightarrow> string \<Rightarrow> dag_work set \<Rightarrow> bool" where
  "sound L r base F \<longleftrightarrow> F \<subseteq> submitted L r base F"

lemma soundD: "sound L r base F \<Longrightarrow> w \<in> F \<Longrightarrow> w \<in> submitted L r base F"
  by (auto simp: sound_def)

lemma ready_dispatched: "ready L r F d \<Longrightarrow> dispatched L F d"
  by (simp add: ready_def)

section \<open>Adding a unit that ended\<close>

lemma dispatched_insert_simps [simp]:
  "dispatched L (insert (FileWork e f) F) d \<longleftrightarrow> dispatched L F d"
  "dispatched L (insert (OverviewWork c) F) d \<longleftrightarrow> dispatched L F d"
  "dispatched L (insert (DirWork c p) F) d \<longleftrightarrow> dispatched L F d \<or> (d = c \<and> L c \<noteq> None)"
  by (auto simp: dispatched_def)

lemma settled_insert_simps [simp]:
  "settled L (insert (FileWork e f) F) d x \<longleftrightarrow> settled L F d x"
  "settled L (insert (OverviewWork c) F) d x \<longleftrightarrow> settled L F d x \<or> x = c"
  "settled L (insert (DirWork c p) F) d x \<longleftrightarrow> settled L F d x \<or> (x = c \<and> p = Some d \<and> L c = None)"
  by (auto simp: settled_def)

lemma waiting_files_insert [simp]:
  "waiting_files L (insert (FileWork e f) F) d =
     (if d = e then filter (\<lambda>x. x \<noteq> f) (waiting_files L F d) else waiting_files L F d)"
  "waiting_files L (insert (OverviewWork c) F) d = waiting_files L F d"
  "waiting_files L (insert (DirWork c p) F) d = waiting_files L F d"
  by (auto simp: waiting_files_def intro: filter_cong)

lemma waiting_dirs_insert [simp]:
  "waiting_dirs L r (insert (FileWork e f) F) d = waiting_dirs L r F d"
  "waiting_dirs L r (insert (OverviewWork c) F) d = filter (\<lambda>x. x \<noteq> c) (waiting_dirs L r F d)"
  "waiting_dirs L r (insert (DirWork c p) F) d =
     (if p = Some d \<and> L c = None then filter (\<lambda>x. x \<noteq> c) (waiting_dirs L r F d) else waiting_dirs L r F d)"
  by (auto simp: waiting_dirs_def intro: filter_cong)

section \<open>The laws of listings\<close>

locale dir_tree =
  fixes L :: listing and r :: bool and base :: string and ok :: "string \<Rightarrow> bool"
  assumes base_ok: "ok base"
    and entries_distinct: "ok d \<Longrightarrow> distinct (dirs_of L d) \<and> distinct (files_of L d)"
    and child_ok: "ok d \<Longrightarrow> c \<in> set (dirs_of L d) \<Longrightarrow> ok c \<and> length d < length c"
    and ok_nonempty: "ok d \<Longrightarrow> d \<noteq> []"
    and one_parent: "ok d \<Longrightarrow> ok e \<Longrightarrow> c \<in> set (dirs_of L d) \<Longrightarrow> c \<in> set (dirs_of L e) \<Longrightarrow> d = e"
begin

definition good_dirs :: "dag_work set \<Rightarrow> bool" where
  "good_dirs F \<longleftrightarrow> (\<forall>d p. DirWork d p \<in> submitted L r base F \<longrightarrow> ok d \<and> length base \<le> length d)"

text \<open>The two conditions on a set of ended units that the executor keeps.\<close>

definition fair :: "dag_work set \<Rightarrow> bool" where
  "fair F \<longleftrightarrow> sound L r base F \<and> good_dirs F"

lemma dispatched_ok:
  assumes "fair F" "dispatched L F d"
  shows "ok d" "length base \<le> length d"
proof -
  obtain p where "DirWork d p \<in> F" using assms(2) by (auto simp: dispatched_def)
  then have "DirWork d p \<in> submitted L r base F" using assms(1) soundD by (auto simp: fair_def)
  then show "ok d" "length base \<le> length d" using assms(1) by (auto simp: fair_def good_dirs_def)
qed

lemma fair_empty: "fair {}"
proof -
  have "good_dirs {}"
    unfolding good_dirs_def
  proof (intro allI impI)
    fix d p
    assume "DirWork d p \<in> submitted L r base {}"
    then have "d = base" by (cases p) (auto simp: dispatched_def)
    then show "ok d \<and> length base \<le> length d" using base_ok by simp
  qed
  then show ?thesis by (simp add: fair_def sound_def)
qed

lemma child_longer:
  assumes "fair F" "dispatched L F d" "c \<in> set (dirs_of L d)"
  shows "length base < length c" "ok c"
  using dispatched_ok [OF assms(1,2)] child_ok [of d c] assms(3) by auto

lemma parent_unique:
  assumes fair: "fair F" and p: "DirWork c p \<in> submitted L r base F"
    and q: "DirWork c q \<in> submitted L r base F"
  shows "p = q"
proof (cases p)
  case None
  then have "c = base" using p by simp
  then show ?thesis using None q child_longer [OF fair] by (cases q) auto
next
  case (Some d)
  then have d: "dispatched L F d" "c \<in> set (dirs_of L d)" using p by auto
  then have "c \<noteq> base" using child_longer [OF fair] by blast
  then obtain e where e: "q = Some e" using q by (cases q) auto
  then have "dispatched L F e" "c \<in> set (dirs_of L e)" using q by auto
  then have "d = e" using one_parent d dispatched_ok [OF fair] by blast
  then show ?thesis using Some e by simp
qed

section \<open>What is submitted after one more unit has ended\<close>

lemma submitted_file:
  assumes "dispatched L F d"
  shows "submitted L r base (insert (FileWork d f) F) =
         submitted L r base F \<union>
           (if ready L r (insert (FileWork d f) F) d then {OverviewWork d} else {})"
proof (rule set_eqI)
  fix w
  have same: "ready L r F e \<Longrightarrow> ready L r (insert (FileWork d f) F) e" for e by (auto simp: ready_def)
  have other: "ready L r (insert (FileWork d f) F) e \<longleftrightarrow> ready L r F e" if "e \<noteq> d" for e
    using that by (simp add: ready_def)
  show "w \<in> submitted L r base (insert (FileWork d f) F) \<longleftrightarrow>
      w \<in> submitted L r base F \<union> (if ready L r (insert (FileWork d f) F) d then {OverviewWork d} else {})"
  proof (cases w)
    case (DirWork c p)
    then show ?thesis by (cases p) auto
  next
    case (OverviewWork e)
    then show ?thesis using same other by (cases "e = d") auto
  qed auto
qed

text \<open>A directory is settled: its overview ended, or its listing raised.\<close>

definition settles :: "dag_work \<Rightarrow> string \<Rightarrow> string \<Rightarrow> bool" where
  "settles w d c \<longleftrightarrow> w = OverviewWork c \<or> (w = DirWork c (Some d) \<and> L c = None)"

lemma waiting_dirs_settles:
  assumes fair: "fair F" and w: "settles w d c" and d: "dispatched L F d" "c \<in> set (dirs_of L d)"
    and e: "dispatched L F e"
  shows "waiting_dirs L r (insert w F) e =
         (if e = d then filter (\<lambda>x. x \<noteq> c) (waiting_dirs L r F d) else waiting_dirs L r F e)"
proof (cases "e = d")
  case True
  then show ?thesis using w by (auto simp: settles_def)
next
  case False
  then have "c \<notin> set (dirs_of L e)"
    using one_parent dispatched_ok [OF fair] d e by blast
  then have "c \<notin> set (waiting_dirs L r F e)" by (auto simp: waiting_dirs_def)
  then have "filter (\<lambda>x. x \<noteq> c) (waiting_dirs L r F e) = waiting_dirs L r F e"
    by (auto simp: filter_id_conv)
  then show ?thesis using w False by (auto simp: settles_def)
qed

lemma settles_frame:
  assumes "settles w d c"
  shows "dispatched L (insert w F) e \<longleftrightarrow> dispatched L F e"
    and "waiting_files L (insert w F) e = waiting_files L F e"
  using assms by (auto simp: settles_def)

lemma submitted_settles:
  assumes fair: "fair F" and w: "settles w d c" and d: "dispatched L F d" "c \<in> set (dirs_of L d)"
  shows "submitted L r base (insert w F) =
         submitted L r base F \<union> (if ready L r (insert w F) d then {OverviewWork d} else {})"
proof (rule set_eqI)
  fix v
  have other: "ready L r (insert w F) e \<longleftrightarrow> ready L r F e" if "e \<noteq> d" for e
    using that waiting_dirs_settles [OF fair w d, of e] settles_frame [OF w, of F e]
    unfolding ready_def by auto
  have same: "ready L r F d \<Longrightarrow> ready L r (insert w F) d"
    using waiting_dirs_settles [OF fair w d d(1)] settles_frame [OF w, of F d]
    unfolding ready_def by simp
  show "v \<in> submitted L r base (insert w F) \<longleftrightarrow>
      v \<in> submitted L r base F \<union> (if ready L r (insert w F) d then {OverviewWork d} else {})"
  proof (cases v)
    case (DirWork x p)
    then show ?thesis using settles_frame(1) [OF w] by (cases p) auto
  next
    case (FileWork x f)
    then show ?thesis using settles_frame(1) [OF w] by auto
  next
    case (OverviewWork x)
    then show ?thesis using other same by (cases "x = d") auto
  next
    case (VectorizeWork t)
    then show ?thesis by simp
  qed
qed

text \<open>The unit at the root: nothing waits for it.\<close>

lemma submitted_root:
  assumes fair: "fair F" and w: "w = OverviewWork base \<or> (w = DirWork base None \<and> L base = None)"
  shows "submitted L r base (insert w F) = submitted L r base F"
proof (rule set_eqI)
  fix v
  have disp: "dispatched L (insert w F) e \<longleftrightarrow> dispatched L F e" for e using w by auto
  have files: "waiting_files L (insert w F) e = waiting_files L F e" for e using w by auto
  have dirs: "waiting_dirs L r (insert w F) e = waiting_dirs L r F e" if "dispatched L F e" for e
  proof -
    have "base \<notin> set (dirs_of L e)" using child_longer [OF fair that] by blast
    then have "base \<notin> set (waiting_dirs L r F e)" by (auto simp: waiting_dirs_def)
    then have "filter (\<lambda>x. x \<noteq> base) (waiting_dirs L r F e) = waiting_dirs L r F e"
      by (auto simp: filter_id_conv)
    then show ?thesis using w by auto
  qed
  have "ready L r (insert w F) e \<longleftrightarrow> ready L r F e" for e
    using disp files dirs unfolding ready_def by auto
  then show "v \<in> submitted L r base (insert w F) \<longleftrightarrow> v \<in> submitted L r base F"
  proof (cases v)
    case (DirWork x p)
    then show ?thesis using disp by (cases p) auto
  qed (use disp in auto)
qed

text \<open>A directory has been listed.\<close>

lemma fresh_children:
  assumes fair: "fair F" and d: "DirWork d p \<in> submitted L r base F" "DirWork d p \<notin> F"
  shows "\<not> dispatched L F d" "\<And>c q. r \<Longrightarrow> c \<in> set (dirs_of L d) \<Longrightarrow> DirWork c q \<notin> submitted L r base F"
    "\<And>f. FileWork d f \<notin> submitted L r base F" "OverviewWork d \<notin> submitted L r base F"
proof -
  have F: "F \<subseteq> submitted L r base F" using fair by (simp add: fair_def sound_def)
  show not: "\<not> dispatched L F d"
  proof
    assume "dispatched L F d"
    then obtain q where q: "DirWork d q \<in> F" by (auto simp: dispatched_def)
    then have "q = p" using parent_unique [OF fair _ d(1)] F by blast
    then show False using q d(2) by simp
  qed
  have okd: "ok d" "length base \<le> length d" using fair d(1) by (auto simp: fair_def good_dirs_def)
  show "DirWork c q \<notin> submitted L r base F" if "r" "c \<in> set (dirs_of L d)" for c q
  proof
    assume a: "DirWork c q \<in> submitted L r base F"
    have "length base < length c" using child_ok [OF okd(1) that(2)] okd(2) by auto
    then obtain e where e: "q = Some e" using a by (cases q) auto
    then have "dispatched L F e" "c \<in> set (dirs_of L e)" using a by auto
    then show False using one_parent [OF okd(1) _ that(2)] dispatched_ok [OF fair] not by blast
  qed
  show "FileWork d f \<notin> submitted L r base F" for f using not by simp
  show "OverviewWork d \<notin> submitted L r base F" using not by (simp add: ready_def)
qed

lemma waiting_fresh:
  assumes fair: "fair F" and d: "DirWork d p \<in> submitted L r base F" "DirWork d p \<notin> F"
  shows "waiting_files L F d = files_of L d" "waiting_dirs L r F d = (if r then dirs_of L d else [])"
proof -
  note fresh = fresh_children [OF fair d]
  have F: "F \<subseteq> submitted L r base F" using fair by (simp add: fair_def sound_def)
  show "waiting_files L F d = files_of L d"
    using fresh(3) F unfolding waiting_files_def by (auto simp: filter_id_conv)
  have "\<not> settled L F d c" if "r" "c \<in> set (dirs_of L d)" for c
  proof
    assume "settled L F d c"
    then have "\<exists>q. DirWork c q \<in> submitted L r base F"
    proof (unfold settled_def, elim disjE conjE)
      assume "OverviewWork c \<in> F"
      then have "dispatched L F c" using F ready_dispatched by fastforce
      then show ?thesis using F by (auto simp: dispatched_def)
    next
      assume "DirWork c (Some d) \<in> F"
      then show ?thesis using F by blast
    qed
    then show False using fresh(2) that by blast
  qed
  then show "waiting_dirs L r F d = (if r then dirs_of L d else [])"
    unfolding waiting_dirs_def by (auto simp: filter_id_conv)
qed

lemma submitted_dir:
  assumes fair: "fair F" and d: "DirWork d p \<in> submitted L r base F" "DirWork d p \<notin> F"
    and L: "L d \<noteq> None"
  shows "submitted L r base (insert (DirWork d p) F) =
         submitted L r base F \<union> FileWork d ` set (files_of L d) \<union>
           (if r then (\<lambda>c. DirWork c (Some d)) ` set (dirs_of L d) else {}) \<union>
           (if files_of L d = [] \<and> (r \<longrightarrow> dirs_of L d = []) then {OverviewWork d} else {})"
proof (rule set_eqI)
  fix v
  note fresh = fresh_children [OF fair d]
  note waits = waiting_fresh [OF fair d]
  have rd: "ready L r (insert (DirWork d p) F) d \<longleftrightarrow> files_of L d = [] \<and> (r \<longrightarrow> dirs_of L d = [])"
    using waits L by (auto simp: ready_def)
  have other: "ready L r (insert (DirWork d p) F) e \<longleftrightarrow> ready L r F e" if "e \<noteq> d" for e
    using that L by (auto simp: ready_def)
  show "v \<in> submitted L r base (insert (DirWork d p) F) \<longleftrightarrow>
      v \<in> submitted L r base F \<union> FileWork d ` set (files_of L d) \<union>
           (if r then (\<lambda>c. DirWork c (Some d)) ` set (dirs_of L d) else {}) \<union>
           (if files_of L d = [] \<and> (r \<longrightarrow> dirs_of L d = []) then {OverviewWork d} else {})"
  proof (cases v)
    case (DirWork c q)
    then show ?thesis using L by (cases q) auto
  next
    case (FileWork e f)
    then show ?thesis using L by auto
  next
    case (OverviewWork e)
    then show ?thesis using rd other fresh(4) by (cases "e = d") auto
  next
    case (VectorizeWork t)
    then show ?thesis by auto
  qed
qed

text \<open>The conditions are kept when a submitted unit ends.\<close>

lemma submitted_mono:
  assumes fair: "fair F" and w: "w \<in> submitted L r base F" "w \<notin> F"
  shows "submitted L r base F \<subseteq> submitted L r base (insert w F)"
proof
  fix v
  assume v: "v \<in> submitted L r base F"
  have rd: "ready L r F e \<Longrightarrow> ready L r (insert w F) e" for e
    using w(1) by (cases w) (auto simp: ready_def)
  have dp: "dispatched L F e \<Longrightarrow> dispatched L (insert w F) e" for e by (auto simp: dispatched_def)
  show "v \<in> submitted L r base (insert w F)"
  proof (cases v)
    case (DirWork c p)
    then show ?thesis using v dp by (cases p) auto
  qed (use v dp rd in auto)
qed

lemma fair_insert:
  assumes fair: "fair F" and w: "w \<in> submitted L r base F" "w \<notin> F"
  shows "fair (insert w F)"
proof -
  have sub: "insert w F \<subseteq> submitted L r base (insert w F)"
    using submitted_mono [OF assms] fair w by (auto simp: fair_def sound_def)
  have disp_ok: "ok e \<and> length base \<le> length e" if disp: "dispatched L (insert w F) e" for e
  proof -
    obtain p where "DirWork e p \<in> insert w F" using disp unfolding dispatched_def by blast
    then have "DirWork e p \<in> submitted L r base F" using fair w by (auto simp: fair_def sound_def)
    then show ?thesis using fair by (auto simp: fair_def good_dirs_def)
  qed
  have "good_dirs (insert w F)"
    unfolding good_dirs_def
  proof (intro allI impI)
    fix d p
    assume d: "DirWork d p \<in> submitted L r base (insert w F)"
    show "ok d \<and> length base \<le> length d"
    proof (cases p)
      case None
      then show ?thesis using d base_ok by simp
    next
      case (Some e)
      then show ?thesis using d disp_ok [of e] child_ok [of e d] by auto
    qed
  qed
  then show ?thesis using sub by (simp add: fair_def sound_def)
qed

section \<open>No deadlock, and nothing left over\<close>

text \<open>When every submitted unit has ended, the root is settled.\<close>

lemma quiescent_root:
  assumes fair: "fair F" and fin: "finite F" and all: "submitted L r base F \<subseteq> F"
  shows "root_settled L base F"
proof (rule ccontr)
  assume not: "\<not> root_settled L base F"
  have "DirWork base None \<in> F" using all by (auto simp: submitted_def)
  then have base: "dispatched L F base" "OverviewWork base \<notin> F"
    using not by (auto simp: root_settled_def dispatched_def)
  define U where "U = {d. dispatched L F d \<and> OverviewWork d \<notin> F}"
  have "U \<subseteq> (\<lambda>w. case w of DirWork d _ \<Rightarrow> d | _ \<Rightarrow> []) ` F"
    by (force simp: U_def dispatched_def)
  then have "finite U" using fin finite_surj by blast
  moreover have "U \<noteq> {}" using base by (auto simp: U_def)
  ultimately obtain d where d: "d \<in> U" and longest: "\<And>e. e \<in> U \<Longrightarrow> length e \<le> length d"
    using Max_ge [of "length ` U"] Max_in [of "length ` U"] by (smt (verit) finite_imageI image_iff image_is_empty)
  have disp: "dispatched L F d" "OverviewWork d \<notin> F" using d by (auto simp: U_def)
  have "waiting_files L F d = []"
    using all disp(1) unfolding waiting_files_def filter_empty_conv by (meson submitted_simps(3) subsetD)
  moreover have "settled L F d c" if "r" "c \<in> set (dirs_of L d)" for c
  proof -
    have c: "DirWork c (Some d) \<in> F" using all disp(1) that by (meson submitted_simps(2) subsetD)
    have "length d < length c" using child_ok that dispatched_ok [OF fair disp(1)] by blast
    then have "c \<notin> U" using longest leD by blast
    then show ?thesis using c by (auto simp: U_def settled_def dispatched_def)
  qed
  then have "waiting_dirs L r F d = []" by (auto simp: waiting_dirs_def)
  ultimately have "ready L r F d" using disp(1) by (simp add: ready_def)
  then show False using all disp(2) by (meson submitted_simps(4) subsetD)
qed

text \<open>When the root is settled, so is every directory that was listed, and every submitted unit has
  ended.\<close>

lemma dispatched_finished:
  assumes fair: "fair F" and root: "root_settled L base F" and d: "dispatched L F d"
  shows "OverviewWork d \<in> F"
  using d
proof (induction "length d" arbitrary: d rule: less_induct)
  case less
  obtain p where p: "DirWork d p \<in> F" using less.prems by (auto simp: dispatched_def)
  then have sub: "DirWork d p \<in> submitted L r base F" using fair by (auto simp: fair_def sound_def)
  show ?case
  proof (cases p)
    case None
    then show ?thesis using sub root less.prems by (auto simp: root_settled_def dispatched_def)
  next
    case (Some e)
    then have e: "dispatched L F e" "d \<in> set (dirs_of L e)" "r" using sub by auto
    then have "length e < length d" using child_ok dispatched_ok [OF fair] by blast
    then have "OverviewWork e \<in> F" using less.hyps e(1) by blast
    then have "ready L r F e" using fair soundD by (fastforce simp: fair_def)
    then have "settled L F e d" using e by (auto simp: ready_def waiting_dirs_def filter_empty_conv)
    then show ?thesis using less.prems by (auto simp: settled_def dispatched_def)
  qed
qed

lemma root_settled_all:
  assumes fair: "fair F" and root: "root_settled L base F"
  shows "submitted L r base F = F"
proof
  show "F \<subseteq> submitted L r base F" using fair by (simp add: fair_def sound_def)
  have sub: "F \<subseteq> submitted L r base F" using fair by (simp add: fair_def sound_def)
  have rdy: "ready L r F d" if "dispatched L F d" for d
    using dispatched_finished [OF fair root that] fair soundD by (fastforce simp: fair_def)
  show "submitted L r base F \<subseteq> F"
  proof
    fix v
    assume v: "v \<in> submitted L r base F"
    show "v \<in> F"
    proof (cases v)
      case (FileWork d f)
      then have "ready L r F d" "f \<in> set (files_of L d)" using v rdy by auto
      then show ?thesis using FileWork by (auto simp: ready_def waiting_files_def filter_empty_conv)
    next
      case (OverviewWork d)
      then show ?thesis using v dispatched_finished [OF fair root] ready_dispatched by auto
    next
      case (VectorizeWork t)
      then show ?thesis using v by simp
    next
      case (DirWork c p)
      show ?thesis
      proof (cases p)
        case None
        have "DirWork base None \<in> F"
        proof (cases "OverviewWork base \<in> F")
          case True
          then have "dispatched L F base" using fair soundD ready_dispatched by (fastforce simp: fair_def)
          then obtain q where q: "DirWork base q \<in> F" by (auto simp: dispatched_def)
          then have "q = None"
            using parent_unique [OF fair, of base q None] fair by (auto simp: fair_def sound_def)
          then show ?thesis using q by simp
        next
          case False
          then show ?thesis using root by (simp add: root_settled_def)
        qed
        then show ?thesis using v DirWork None by simp
      next
        case (Some e)
        then have e: "dispatched L F e" "c \<in> set (dirs_of L e)" "r" using v DirWork by auto
        then have "settled L F e c" using rdy by (auto simp: ready_def waiting_dirs_def filter_empty_conv)
        moreover have "DirWork c (Some e) \<in> F" if ov: "OverviewWork c \<in> F"
        proof -
          have "dispatched L F c" using ov fair soundD ready_dispatched by (fastforce simp: fair_def)
          then obtain q where q: "DirWork c q \<in> F" by (auto simp: dispatched_def)
          then have "q = Some e"
            using parent_unique [OF fair, of c q "Some e"] v DirWork Some sub by blast
          then show ?thesis using q by simp
        qed
        ultimately show ?thesis using DirWork Some by (auto simp: settled_def)
      qed
    qed
  qed
qed

section \<open>A bound on the number of units\<close>

lemma submitted_within:
  assumes fair: "fair F" and D: "base \<in> D" "\<And>d. d \<in> D \<Longrightarrow> set (dirs_of L d) \<subseteq> D"
  shows "DirWork d p \<in> submitted L r base F \<Longrightarrow> d \<in> D"
proof (induction "length d" arbitrary: d p rule: less_induct)
  case less
  show ?case
  proof (cases p)
    case None
    then show ?thesis using less.prems D(1) by simp
  next
    case (Some e)
    then have e: "dispatched L F e" "d \<in> set (dirs_of L e)" using less.prems by auto
    obtain q where "DirWork e q \<in> submitted L r base F"
      using e(1) fair by (auto simp: dispatched_def fair_def sound_def)
    moreover have "length e < length d" using child_ok e dispatched_ok(1) [OF fair] by blast
    ultimately have "e \<in> D" using less.hyps by blast
    then show ?thesis using D(2) e(2) by blast
  qed
qed

lemma dispatched_within:
  assumes "fair F" "base \<in> D" "\<And>d. d \<in> D \<Longrightarrow> set (dirs_of L d) \<subseteq> D" "dispatched L F d"
  shows "d \<in> D"
proof -
  obtain p where "DirWork d p \<in> F" using assms(4) by (auto simp: dispatched_def)
  then show ?thesis using submitted_within [OF assms(1-3)] assms(1) by (auto simp: fair_def sound_def)
qed

lemma submitted_card:
  assumes fair: "fair F" and D: "base \<in> D" "\<And>d. d \<in> D \<Longrightarrow> set (dirs_of L d) \<subseteq> D" and fin: "finite D"
  shows "finite (submitted L r base F)"
    and "card (submitted L r base F) \<le> 2 * card D + (\<Sum>d\<in>D. length (files_of L d))"
proof -
  define A where "A = {w \<in> submitted L r base F. \<exists>d p. w = DirWork d p}"
  define B where "B = (\<Union>d\<in>D. FileWork d ` set (files_of L d))"
  have sub: "submitted L r base F \<subseteq> A \<union> B \<union> OverviewWork ` D"
  proof
    fix w
    assume w: "w \<in> submitted L r base F"
    then show "w \<in> A \<union> B \<union> OverviewWork ` D"
      using dispatched_within [OF fair D] ready_dispatched
      by (cases w) (auto simp: A_def B_def)
  qed
  let ?name = "\<lambda>w. case w of DirWork d _ \<Rightarrow> d | _ \<Rightarrow> []"
  have inj: "inj_on ?name A" using parent_unique [OF fair] by (auto simp: inj_on_def A_def)
  have img: "?name ` A \<subseteq> D" using submitted_within [OF fair D] by (auto simp: A_def)
  have A: "finite A" "card A \<le> card D"
    using inj_on_finite [OF inj img fin] card_inj_on_le [OF inj img fin] by auto
  have B: "finite B" using fin by (simp add: B_def)
  have "card B \<le> (\<Sum>d\<in>D. card (FileWork d ` set (files_of L d)))"
    unfolding B_def by (rule card_UN_le [OF fin])
  also have "\<dots> \<le> (\<Sum>d\<in>D. length (files_of L d))"
    by (rule sum_mono) (meson card_image_le card_length finite_set le_trans)
  finally have cB: "card B \<le> (\<Sum>d\<in>D. length (files_of L d))" .
  show "finite (submitted L r base F)" using sub A(1) B fin by (meson finite_UnI finite_imageI finite_subset)
  have "card (submitted L r base F) \<le> card (A \<union> B \<union> OverviewWork ` D)"
    using sub A(1) B fin by (intro card_mono) auto
  also have "\<dots> \<le> card A + card B + card (OverviewWork ` D)"
    by (meson add_le_mono card_Un_le le_trans order_refl)
  also have "\<dots> \<le> card D + (\<Sum>d\<in>D. length (files_of L d)) + card D"
    using A(2) cB card_image_le [OF fin, of OverviewWork] by linarith
  finally show "card (submitted L r base F) \<le> 2 * card D + (\<Sum>d\<in>D. length (files_of L d))" by simp
qed

end

end
