(* ===== verification/Semantic_Dag_Facts.thy ===== *)
theory Semantic_Dag_Facts
  imports Semantic_Dag_Spec
begin

text \<open>
  The executor of \<^verbatim>\<open>semantic_dag.py\<close> follows the dependency graph of \<^verbatim>\<open>Semantic_Dag_Spec\<close>: an
  invariant that ties its node table, counters and queue to the set of units that ended, and one
  lemma for each event that keeps it.
\<close>

section \<open>The part of the state that schedules\<close>

definition rest ::
  "dag \<Rightarrow> bool \<times> (string \<rightharpoonup> dir_node) \<times> (string \<rightharpoonup> string option) \<times> bool \<times> dag_work list \<times>
          dag_work list \<times> run_phase \<times> string option" where
  "rest st = (dg_closed st, dg_nodes st, dg_parent st, dg_root_done st, dg_running st, dg_finished st,
              dg_phase st, dg_failure st)"

lemma rest_eq:
  "rest st = rest st' \<longleftrightarrow>
     dg_closed st = dg_closed st' \<and> dg_nodes st = dg_nodes st' \<and> dg_parent st = dg_parent st' \<and>
     dg_root_done st = dg_root_done st' \<and> dg_running st = dg_running st' \<and>
     dg_finished st = dg_finished st' \<and> dg_phase st = dg_phase st' \<and> dg_failure st = dg_failure st'"
  by (auto simp: rest_def)

definition core where "core st = (dg_sched st, rest st)"

lemma core_eq: "core st = core st' \<longleftrightarrow> dg_sched st = dg_sched st' \<and> rest st = rest st'"
  by (auto simp: core_def)

lemma core_marks [simp]:
  "core (mark_node_started st) = core st" "core (mark_node_waiting st) = core st"
  "core (mark_node_done st) = core st" "core (count_new_node st) = core st"
  by (simp_all add: core_def rest_def mark_node_started_def mark_node_waiting_def mark_node_done_def
      count_new_node_def)

lemma marks_simps [simp]:
  "dg_sched (mark_node_waiting st) = dg_sched st" "rest (mark_node_waiting st) = rest st"
  by (simp_all add: rest_def mark_node_waiting_def)

lemma core_add_vectorize_task [simp]: "core (add_vectorize_task cfg t st) = core st"
  by (simp add: core_def rest_def add_vectorize_task_def)

lemma core_read_existing_summary: "core (fst (read_existing_summary cfg env f st)) = core st"
  by (auto simp: read_existing_summary_def load_overview_cache_def core_def rest_def Let_def
      split: option.splits prod.splits)

lemma core_summarize_file: "core (fst (summarize_file cfg env f st)) = core st"
proof -
  have note_change: "core (st\<lparr>dg_file_change_status := m\<rparr>) = core st" for m st
    by (simp add: core_def rest_def)
  have gen: "core (st\<lparr>dg_summarized := m\<rparr>) = core st" for m st
    by (simp add: core_def rest_def)
  show ?thesis
    using core_read_existing_summary [of cfg env f "st\<lparr>dg_file_change_status := (dg_file_change_status st)(f \<mapsto> False)\<rparr>"]
    by (auto simp: summarize_file_def Let_def note_change gen split: prod.splits option.splits)
qed

lemma core_write: "core (fst (write_directory_semantics cfg env d ov ab st)) = core st"
  by (auto simp: write_directory_semantics_def write_semantic_sidecars_def write_sidecars_def core_def
      rest_def Let_def split: prod.splits write_outcome.splits)

lemma core_make_overview: "core (fst (make_overview cfg env d node ch st)) = core st"
  by (auto simp: make_overview_def core_def rest_def Let_def split: option.splits)

lemma core_overview_body: "core (fst (overview_body cfg env d node ch st)) = core st"
  unfolding overview_body_def
  using core_make_overview [of cfg env d node ch st]
  by (auto split: prod.splits option.splits) (metis core_write fst_conv)+

subsection \<open>The scheduler\<close>

definition workers_ok :: "nat \<Rightarrow> node_scheduler \<Rightarrow> bool" where
  "workers_ok k s \<longleftrightarrow> 1 \<le> ns_max_workers s \<and> ns_workers s \<le> ns_max_workers s \<and> k \<le> ns_workers s \<and>
     (ns_queue s \<noteq> [] \<longrightarrow> 0 < ns_workers s)"

lemma submit_queue [simp]: "ns_queue (submit_work w s) = ns_queue s @ [w]"
  by (simp add: submit_work_def ensure_workers_def)

lemma submit_ok: "workers_ok k s \<Longrightarrow> workers_ok k (submit_work w s)"
  by (auto simp: workers_ok_def submit_work_def ensure_workers_def)

lemma submit_all [simp]: "ns_queue (fold submit_work ws s) = ns_queue s @ ws"
  by (induction ws arbitrary: s) simp_all

lemma submit_all_ok: "workers_ok k s \<Longrightarrow> workers_ok k (fold submit_work ws s)"
  by (induction ws arbitrary: s) (simp_all add: submit_ok)

lemma workers_ok_less: "workers_ok k s \<Longrightarrow> j \<le> k \<Longrightarrow> workers_ok j s"
  by (auto simp: workers_ok_def)

lemma core_schedule:
  assumes "\<not> dg_closed st"
  shows "core (schedule_work w st) = (submit_work w (dg_sched st), rest st)"
    "core (schedule_file d f st) = (submit_work (FileWork d f) (dg_sched st), rest st)"
    "core (schedule_dir c p st) = (submit_work (DirWork c p) (dg_sched st), rest st)"
  using assms by (simp_all add: core_def rest_def schedule_work_def schedule_file_def schedule_dir_def
      count_new_node_def)

lemma core_schedule_all:
  assumes step: "\<And>x st. \<not> dg_closed st \<Longrightarrow> core (g x st) = (submit_work (w x) (dg_sched st), rest st)"
  shows "\<not> dg_closed st \<Longrightarrow> core (fold g xs st) = (fold submit_work (map w xs) (dg_sched st), rest st)"
proof (induction xs arbitrary: st)
  case Nil
  then show ?case by (simp add: core_def)
next
  case (Cons x xs)
  have x: "dg_sched (g x st) = submit_work (w x) (dg_sched st)" "rest (g x st) = rest st"
    using step [OF Cons.prems, of x] by (simp_all add: core_def)
  then have "\<not> dg_closed (g x st)" using Cons.prems by (simp add: rest_eq)
  then show ?case using Cons.IH x by simp
qed

lemma core_count_down:
  assumes open_: "\<not> dg_closed st" and n: "\<not> dn_overview_scheduled n"
  shows "core (count_down d n st) =
         core (st\<lparr>dg_nodes := (dg_nodes st)(d \<mapsto> n\<lparr>dn_pending := dn_pending n - 1,
                                                   dn_overview_scheduled := (dn_pending n = 1)\<rparr>),
                  dg_sched := (if dn_pending n = 1 then submit_work (OverviewWork d) (dg_sched st)
                               else dg_sched st)\<rparr>)"
proof -
  have "n\<lparr>dn_pending := v, dn_overview_scheduled := False\<rparr> = n\<lparr>dn_pending := v\<rparr>" for v
    using n by (cases n) simp
  then show ?thesis
    using assms by (auto simp: count_down_def schedule_overview_def schedule_work_def core_def rest_def Let_def)
qed

subsection \<open>The part of the state that scheduling leaves alone\<close>

definition quiet where
  "quiet st = (dg_root_uri st, dg_running st, dg_finished st, dg_summarized st, dg_generated st, dg_written st,
     dg_vectorize_task_count st, dg_pending_vectorize_tasks st, dg_vectorized st, dg_phase st,
     dg_dir_change_status st, dg_registered st)"

lemma quiet_eq:
  "quiet st = quiet st' \<longleftrightarrow>
     dg_root_uri st = dg_root_uri st' \<and> dg_running st = dg_running st' \<and> dg_finished st = dg_finished st' \<and>
     dg_summarized st = dg_summarized st' \<and> dg_generated st = dg_generated st' \<and> dg_written st = dg_written st' \<and>
     dg_vectorize_task_count st = dg_vectorize_task_count st' \<and>
     dg_pending_vectorize_tasks st = dg_pending_vectorize_tasks st' \<and> dg_vectorized st = dg_vectorized st' \<and>
     dg_phase st = dg_phase st' \<and> dg_dir_change_status st = dg_dir_change_status st' \<and>
     dg_registered st = dg_registered st'"
  by (auto simp: quiet_def)

lemma fold_frame: "(\<And>x s. h (g x s) = h s) \<Longrightarrow> h (fold g xs s) = h s"
  by (induction xs arbitrary: s) simp_all

lemma quiet_schedule [simp]:
  "quiet (schedule_work w st) = quiet st" "quiet (schedule_file d f st) = quiet st"
  "quiet (schedule_dir c p st) = quiet st" "quiet (schedule_overview d st) = quiet st"
  by (simp_all add: quiet_def schedule_work_def schedule_file_def schedule_dir_def schedule_overview_def
      count_new_node_def split: option.splits)

lemma quiet_marks [simp]:
  "quiet (mark_node_started st) = quiet st" "quiet (mark_node_waiting st) = quiet st"
  "quiet (mark_node_done st) = quiet st" "quiet (release_dir_node d st) = quiet st"
  "quiet (st\<lparr>dg_nodes := m\<rparr>) = quiet st" "quiet (st\<lparr>dg_root_done := b\<rparr>) = quiet st"
  by (simp_all add: quiet_def mark_node_started_def mark_node_waiting_def mark_node_done_def release_dir_node_def)

lemma quiet_done [simp]:
  "quiet (count_down d n st) = quiet st" "quiet (on_file_done d f v st) = quiet st"
  "quiet (on_child_done d c a st) = quiet st"
proof -
  show cd: "quiet (count_down d n st) = quiet st" for d n st by (simp add: count_down_def Let_def)
  show "quiet (on_file_done d f v st) = quiet st" "quiet (on_child_done d c a st) = quiet st"
    by (simp_all add: on_file_done_def on_child_done_def cd split: option.splits)
qed

lemma quiet_finish_dir [simp]: "quiet (finish_dir cfg env d p st) = quiet st"
  using fold_frame [of quiet "schedule_file d"] fold_frame [of quiet "\<lambda>c. schedule_dir c (Some d)"]
  by (auto simp: finish_dir_def dispatch_dir_def Let_def split: sum.splits prod.splits)

subsection \<open>Slots\<close>

lemma enum_index_nth:
  assumes "distinct xs" "i < length xs"
  shows "enum_index xs (xs ! i) = Some i"
proof -
  have "distinct (map fst (rev (zip xs [0..<length xs])))" using assms(1) by (simp add: rev_map [symmetric])
  moreover have "(xs ! i, i) \<in> set (rev (zip xs [0..<length xs]))"
    using assms(2) by (auto simp: in_set_zip intro!: exI [of _ i])
  ultimately show ?thesis unfolding enum_index_def by (rule map_of_is_SomeI)
qed

lemma fill_slot_length [simp]: "length (fill_slot xs i v) = length xs"
  by (auto simp: fill_slot_def split: option.splits)

lemma fill_slot_nth:
  assumes "distinct keys" "length xs = length keys" "k \<in> set keys" "i < length keys"
  shows "fill_slot xs (enum_index keys k) v ! i = (if keys ! i = k then Some v else xs ! i)"
proof -
  obtain j where j: "j < length keys" "keys ! j = k" using assms(3) by (auto simp: in_set_conv_nth)
  then have "enum_index keys k = Some j" using enum_index_nth assms(1) by blast
  then show ?thesis
    using assms j by (auto simp: fill_slot_def nth_eq_iff_index_eq nth_list_update)
qed

lemma filter_remove_length:
  assumes "distinct xs" "x \<in> set xs"
  shows "length xs = Suc (length (filter (\<lambda>y. y \<noteq> x) xs))"
proof -
  have "filter (\<lambda>y. y \<noteq> x) xs = remove1 x xs"
    using distinct_remove1_removeAll [OF assms(1)] by (simp add: removeAll_filter_not_eq eq_commute)
  then show ?thesis using assms(2) by (simp add: length_remove1) (metis Suc_pred length_pos_if_in_set)
qed

section \<open>The invariant\<close>

definition node_ok :: "listing \<Rightarrow> bool \<Rightarrow> dag_work set \<Rightarrow> string \<Rightarrow> dir_node \<Rightarrow> bool" where
  "node_ok L r F d n \<longleftrightarrow>
     dn_children_dirs n = dirs_of L d \<and> dn_file_paths n = files_of L d \<and>
     dn_file_index n = enum_index (files_of L d) \<and> dn_child_index n = enum_index (dirs_of L d) \<and>
     dn_pending n = int (length (waiting_files L F d)) + int (length (waiting_dirs L r F d)) \<and>
     (dn_overview_scheduled n \<longleftrightarrow> waiting_files L F d = [] \<and> waiting_dirs L r F d = []) \<and>
     length (dn_file_summaries n) = length (files_of L d) \<and>
     length (dn_children_abstracts n) = length (dirs_of L d) \<and>
     (\<forall>i<length (files_of L d). dn_file_summaries n ! i \<noteq> None \<longleftrightarrow> FileWork d (files_of L d ! i) \<in> F) \<and>
     (\<forall>i<length (dirs_of L d). dn_children_abstracts n ! i \<noteq> None \<longleftrightarrow> r \<and> settled L F d (dirs_of L d ! i))"

lemma node_ok_frame:
  assumes "node_ok L r F d n" and "waiting_files L F' d = waiting_files L F d"
    and "waiting_dirs L r F' d = waiting_dirs L r F d"
  shows "node_ok L r F' d n"
proof -
  have "FileWork d f \<in> F' \<longleftrightarrow> FileWork d f \<in> F" if f: "f \<in> set (files_of L d)" for f
    using assms(2) f unfolding waiting_files_def by (metis (mono_tags, lifting) mem_Collect_eq set_filter)
  moreover have "r \<and> settled L F' d c \<longleftrightarrow> r \<and> settled L F d c" if c: "c \<in> set (dirs_of L d)" for c
  proof (cases r)
    case True
    then have "set (filter (\<lambda>c. \<not> settled L F' d c) (dirs_of L d)) =
        set (filter (\<lambda>c. \<not> settled L F d c) (dirs_of L d))"
      using assms(3) by (simp add: waiting_dirs_def)
    then show ?thesis using c by auto
  qed simp
  ultimately show ?thesis using assms unfolding node_ok_def by simp
qed

lemma pending_zero:
  assumes "node_ok L r F d n"
  shows "dn_overview_scheduled n \<longleftrightarrow> dn_pending n = 0"
proof -
  have "dn_pending n = int (length (waiting_files L F d) + length (waiting_dirs L r F d))"
    and "dn_overview_scheduled n \<longleftrightarrow> waiting_files L F d = [] \<and> waiting_dirs L r F d = []"
    using assms by (simp_all add: node_ok_def)
  then show ?thesis by (simp add: add_eq_0_iff_both_eq_0 del: of_nat_add)
qed


lemma node_ok_new:
  assumes "waiting_files L F d = files_of L d" "waiting_dirs L r F d = (if r then dirs_of L d else [])"
    and "\<not> (files_of L d = [] \<and> (r \<longrightarrow> dirs_of L d = [])) \<or> b"
    and "b \<Longrightarrow> files_of L d = [] \<and> (r \<longrightarrow> dirs_of L d = [])"
    and r: "r = dc_recursive cfg"
  shows "node_ok L r F d ((new_dir_node cfg d (dirs_of L d) (files_of L d))\<lparr>dn_overview_scheduled := b\<rparr>)"
proof -
  have "FileWork d f \<notin> F" if f: "f \<in> set (files_of L d)" for f
    using assms(1) f unfolding waiting_files_def by (metis (mono_tags, lifting) mem_Collect_eq set_filter)
  moreover have "\<not> settled L F d c" if c: "c \<in> set (dirs_of L d)" and r for c
    using assms(2) c \<open>r\<close> unfolding waiting_dirs_def by (metis (mono_tags, lifting) mem_Collect_eq set_filter)
  moreover have "dn_pending (new_dir_node cfg d (dirs_of L d) (files_of L d)) =
      int (length (waiting_files L F d)) + int (length (waiting_dirs L r F d))"
    using assms(1,2) r by (simp add: new_dir_node_def)
  ultimately show ?thesis using assms(1-4) by (auto simp: node_ok_def new_dir_node_def)
qed

text \<open>One unit fewer to wait for.\<close>

lemma counted_down:
  assumes "p = int (length xs) + int (length ys) + 1"
  shows "p = 1 \<longleftrightarrow> xs = [] \<and> ys = []"
proof -
  have "p = int (length xs + length ys) + 1" using assms by simp
  then have "p = 1 \<longleftrightarrow> length xs + length ys = 0" by linarith
  then show ?thesis by simp
qed

lemma node_ok_file_done:
  assumes n: "node_ok L r F d n" and f: "f \<in> set (files_of L d)" "FileWork d f \<notin> F"
    and dist: "distinct (files_of L d)"
  shows "node_ok L r (insert (FileWork d f) F) d
           (n\<lparr>dn_file_summaries := fill_slot (dn_file_summaries n) (dn_file_index n f) v,
              dn_pending := dn_pending n - 1, dn_overview_scheduled := (dn_pending n = 1)\<rparr>)"
proof -
  have "f \<in> set (waiting_files L F d)" "distinct (waiting_files L F d)"
    using f dist by (simp_all add: waiting_files_def)
  then have len: "length (waiting_files L F d) = Suc (length (filter (\<lambda>x. x \<noteq> f) (waiting_files L F d)))"
    by (rule filter_remove_length [rotated])
  have p: "dn_pending n = int (length (waiting_files L F d)) + int (length (waiting_dirs L r F d))"
    using n by (simp add: node_ok_def)
  have "dn_pending n = 1 \<longleftrightarrow> filter (\<lambda>x. x \<noteq> f) (waiting_files L F d) = [] \<and> waiting_dirs L r F d = []"
    by (rule counted_down) (simp add: len p)
  moreover have "fill_slot (dn_file_summaries n) (dn_file_index n f) v ! i \<noteq> None \<longleftrightarrow>
      FileWork d (files_of L d ! i) \<in> insert (FileWork d f) F" if "i < length (files_of L d)" for i
    using n f(1) dist that fill_slot_nth [of "files_of L d" "dn_file_summaries n" f i v]
    by (auto simp: node_ok_def)
  ultimately show ?thesis using n len p by (simp add: node_ok_def)
qed

lemma node_ok_child_done:
  assumes n: "node_ok L r F d n" and c: "c \<in> set (dirs_of L d)" "\<not> settled L F d c" and r: r
    and dist: "distinct (dirs_of L d)"
    and dirs: "waiting_dirs L r F' d = filter (\<lambda>x. x \<noteq> c) (waiting_dirs L r F d)"
    and files: "waiting_files L F' d = waiting_files L F d"
    and settle: "\<And>x. settled L F' d x \<longleftrightarrow> settled L F d x \<or> x = c"
    and fw: "\<And>f. FileWork d f \<in> F' \<longleftrightarrow> FileWork d f \<in> F"
  shows "node_ok L r F' d
           (n\<lparr>dn_children_abstracts := fill_slot (dn_children_abstracts n) (dn_child_index n c) v,
              dn_pending := dn_pending n - 1, dn_overview_scheduled := (dn_pending n = 1)\<rparr>)"
proof -
  have "c \<in> set (waiting_dirs L r F d)" "distinct (waiting_dirs L r F d)"
    using c dist r by (simp_all add: waiting_dirs_def)
  then have len: "length (waiting_dirs L r F d) = Suc (length (filter (\<lambda>x. x \<noteq> c) (waiting_dirs L r F d)))"
    by (rule filter_remove_length [rotated])
  have p: "dn_pending n = int (length (waiting_files L F d)) + int (length (waiting_dirs L r F d))"
    using n by (simp add: node_ok_def)
  have "dn_pending n = 1 \<longleftrightarrow> waiting_files L F d = [] \<and> filter (\<lambda>x. x \<noteq> c) (waiting_dirs L r F d) = []"
    by (rule counted_down) (simp add: len p)
  moreover have "fill_slot (dn_children_abstracts n) (dn_child_index n c) v ! i \<noteq> None \<longleftrightarrow>
      r \<and> settled L F' d (dirs_of L d ! i)" if "i < length (dirs_of L d)" for i
    using n c(1) dist r that settle fill_slot_nth [of "dirs_of L d" "dn_children_abstracts n" c i v]
    by (auto simp: node_ok_def)
  ultimately show ?thesis using n len p dirs files fw by (simp add: node_ok_def)
qed

end
