(* ===== verification/Semantic_Dag_Inv.thy ===== *)
theory Semantic_Dag_Inv
  imports Semantic_Dag_Facts
begin

text \<open>
  The invariant of the executor while the tree is being summarised, for any listing that satisfies the
  laws of \<open>dir_tree\<close>, and that every event keeps it.
\<close>

context dir_tree
begin

definition works_ok :: "dag \<Rightarrow> bool" where
  "works_ok st \<longleftrightarrow>
     distinct (dg_finished st @ dg_running st @ ns_queue (dg_sched st)) \<and>
     set (dg_finished st) \<union> set (dg_running st) \<union> set (ns_queue (dg_sched st)) =
       submitted L r base (set (dg_finished st))"

definition nodes_ok :: "dag \<Rightarrow> bool" where
  "nodes_ok st \<longleftrightarrow>
     (\<forall>d. dg_nodes st d \<noteq> None \<longleftrightarrow>
        dispatched L (set (dg_finished st)) d \<and> OverviewWork d \<notin> set (dg_finished st)) \<and>
     (\<forall>d n. dg_nodes st d = Some n \<longrightarrow> node_ok L r (set (dg_finished st)) d n)"

definition parents_ok :: "dag \<Rightarrow> bool" where
  "parents_ok st \<longleftrightarrow>
     (\<forall>d p. DirWork d p \<in> set (dg_finished st) \<union> set (dg_running st) \<longrightarrow>
        OverviewWork d \<notin> set (dg_finished st) \<longrightarrow> dg_parent st d = Some p)"

definition open_ok :: "dag \<Rightarrow> bool" where
  "open_ok st \<longleftrightarrow>
     \<not> dg_closed st \<and> dg_failure st = None \<and> dg_phase st = WaitRoot \<and>
     (dg_root_done st \<longleftrightarrow> root_settled L base (set (dg_finished st))) \<and>
     workers_ok (length (dg_running st)) (dg_sched st)"

definition dag_inv :: "dag \<Rightarrow> bool" where
  "dag_inv st \<longleftrightarrow> fair (set (dg_finished st)) \<and> works_ok st \<and> nodes_ok st \<and> parents_ok st \<and> open_ok st"

lemma dag_inv_core: "core st = core st' \<Longrightarrow> dag_inv st \<longleftrightarrow> dag_inv st'"
  unfolding core_eq rest_eq dag_inv_def works_ok_def nodes_ok_def parents_ok_def open_ok_def by simp

lemma dag_invD:
  assumes "dag_inv st"
  shows "fair (set (dg_finished st))" "works_ok st" "nodes_ok st" "parents_ok st" "open_ok st"
  using assms by (simp_all add: dag_inv_def)

section \<open>The start\<close>

lemma start_inv: "dag_inv (start_run cfg base)"
proof -
  let ?w = "DirWork base None"
  have st: "dg_sched (start_run cfg base) = submit_work ?w (new_scheduler (max 1 (dc_max_concurrent_llm cfg)))"
    "rest (start_run cfg base) = (False, Map.empty, Map.empty, False, [], [], WaitRoot, None)"
    using core_schedule(3) [of "new_dag cfg base" base None]
    by (simp_all add: start_run_def core_def new_dag_def rest_def get_semantic_node_scheduler_def)
  have sub: "submitted L r base {} = {?w}"
  proof (rule set_eqI)
    fix v
    show "v \<in> submitted L r base {} \<longleftrightarrow> v \<in> {?w}"
    proof (cases v)
      case (DirWork c p)
      then show ?thesis by (cases p) (auto simp: dispatched_def)
    qed (auto simp: dispatched_def ready_def)
  qed
  have q: "ns_queue (dg_sched (start_run cfg base)) = [?w]" using st by (simp add: new_scheduler_def)
  have "workers_ok 0 (dg_sched (start_run cfg base))"
    using st by (auto simp: workers_ok_def new_scheduler_def submit_work_def ensure_workers_def)
  then show ?thesis
    using st(2) q sub fair_empty
    by (auto simp: dag_inv_def works_ok_def nodes_ok_def parents_ok_def open_ok_def rest_def
        dispatched_def root_settled_def)
qed

section \<open>A worker takes a unit\<close>

lemma queued_facts:
  assumes inv: "dag_inv st" and w: "w \<in> set (dg_running st) \<union> set (ns_queue (dg_sched st))"
  shows "w \<in> submitted L r base (set (dg_finished st))" "w \<notin> set (dg_finished st)"
  using w dag_invD(2) [OF inv] unfolding works_ok_def by auto

lemma queued_nodes:
  assumes inv: "dag_inv st" and w: "w \<in> set (dg_running st) \<union> set (ns_queue (dg_sched st))"
  shows "w = DirWork d p \<Longrightarrow> dg_nodes st d = None"
    and "w = FileWork d f \<Longrightarrow> dg_nodes st d \<noteq> None"
    and "w = OverviewWork d \<Longrightarrow> dg_nodes st d \<noteq> None"
proof -
  note sub = queued_facts [OF inv w]
  note nodes = dag_invD(3) [OF inv, unfolded nodes_ok_def]
  note fair = dag_invD(1) [OF inv]
  show "dg_nodes st d = None" if "w = DirWork d p"
    using fresh_children(1) [OF fair] sub that nodes by blast
  show "dg_nodes st d \<noteq> None" if f: "w = FileWork d f"
  proof -
    have "OverviewWork d \<notin> set (dg_finished st)"
    proof
      assume "OverviewWork d \<in> set (dg_finished st)"
      then have "ready L r (set (dg_finished st)) d" using fair soundD by (fastforce simp: fair_def)
      then show False using sub f by (auto simp: ready_def waiting_files_def filter_empty_conv)
    qed
    then show ?thesis using nodes sub f by auto
  qed
  show "dg_nodes st d \<noteq> None" if "w = OverviewWork d"
    using nodes sub that ready_dispatched by auto
qed

lemma take_effect:
  assumes inv: "dag_inv st" and step: "take_work st = Some st'"
  obtains w q where "ns_queue (dg_sched st) = w # q" "length (dg_running st) < ns_workers (dg_sched st)"
    "dg_sched st' = (dg_sched st)\<lparr>ns_queue := q\<rparr>"
    "rest st' = (False, dg_nodes st, (case w of DirWork d p \<Rightarrow> (dg_parent st)(d \<mapsto> p) | _ \<Rightarrow> dg_parent st),
       dg_root_done st, dg_running st @ [w], dg_finished st, dg_phase st, dg_failure st)"
proof -
  obtain w q where q: "ns_queue (dg_sched st) = w # q" and room: "length (dg_running st) < ns_workers (dg_sched st)"
    and st': "st' = begin_work w (st\<lparr>dg_sched := (dg_sched st)\<lparr>ns_queue := q\<rparr>\<rparr>)"
    using step by (auto simp: take_work_def split: list.splits if_splits)
  have "\<not> dg_closed st" using dag_invD(5) [OF inv] by (simp add: open_ok_def)
  then have "dg_sched st' = (dg_sched st)\<lparr>ns_queue := q\<rparr>"
    "rest st' = (False, dg_nodes st, (case w of DirWork d p \<Rightarrow> (dg_parent st)(d \<mapsto> p) | _ \<Rightarrow> dg_parent st),
       dg_root_done st, dg_running st @ [w], dg_finished st, dg_phase st, dg_failure st)"
    using st' queued_nodes [OF inv, of w] q
    by (auto simp: begin_work_def rest_def mark_node_started_def mark_node_done_def split: dag_work.splits)
  then show thesis using q room that by blast
qed

lemma take_inv:
  assumes inv: "dag_inv st" and step: "take_work st = Some st'"
  shows "dag_inv st'"
proof -
  obtain w q where q: "ns_queue (dg_sched st) = w # q" and room: "length (dg_running st) < ns_workers (dg_sched st)"
    and core: "dg_sched st' = (dg_sched st)\<lparr>ns_queue := q\<rparr>"
      "rest st' = (False, dg_nodes st, (case w of DirWork d p \<Rightarrow> (dg_parent st)(d \<mapsto> p) | _ \<Rightarrow> dg_parent st),
       dg_root_done st, dg_running st @ [w], dg_finished st, dg_phase st, dg_failure st)"
    using take_effect [OF assms] by blast
  note parts = dag_invD [OF inv]
  have sub: "w \<in> submitted L r base (set (dg_finished st))" using queued_facts(1) [OF inv] q by simp
  have "parents_ok st'"
    unfolding parents_ok_def
  proof (intro allI impI)
    fix d p
    assume d: "DirWork d p \<in> set (dg_finished st') \<union> set (dg_running st')"
      and open_: "OverviewWork d \<notin> set (dg_finished st')"
    show "dg_parent st' d = Some p"
    proof (cases "\<exists>p'. w = DirWork d p'")
      case True
      then obtain p' where p': "w = DirWork d p'" by blast
      have "DirWork d p \<in> submitted L r base (set (dg_finished st))"
        using d core(2) sub p' queued_facts(1) [OF inv] parts(2) by (auto simp: rest_def works_ok_def)
      then have "p = p'" using parent_unique [OF parts(1)] sub p' by blast
      then show ?thesis using p' core(2) by (simp add: rest_def)
    next
      case False
      then have "DirWork d p \<in> set (dg_finished st) \<union> set (dg_running st)" "OverviewWork d \<notin> set (dg_finished st)"
        using d open_ core(2) by (auto simp: rest_def)
      then have "dg_parent st d = Some p" using parts(4) by (auto simp: parents_ok_def)
      then show ?thesis using False core(2) by (auto simp: rest_def split: dag_work.splits)
    qed
  qed
  moreover have "workers_ok (length (dg_running st')) (dg_sched st')"
    using parts(5) room core by (auto simp: open_ok_def workers_ok_def rest_def)
  ultimately show ?thesis
    using parts core q
    by (auto simp: dag_inv_def works_ok_def nodes_ok_def open_ok_def rest_def)
qed

lemma idle_inv:
  assumes "dag_inv st" "worker_idle st = Some st'"
  shows "dag_inv st'"
  using assms
  by (auto simp: worker_idle_def dag_inv_def works_ok_def nodes_ok_def parents_ok_def open_ok_def workers_ok_def
      split: if_splits)

section \<open>A unit ends\<close>

lemma finish_frame:
  assumes inv: "dag_inv st" and w: "w \<in> set (dg_running st)"
  shows "w \<in> submitted L r base (set (dg_finished st))" "w \<notin> set (dg_finished st)"
    "fair (insert w (set (dg_finished st)))"
    "distinct ((dg_finished st @ [w]) @ remove1 w (dg_running st) @ ns_queue (dg_sched st))"
    "set (remove1 w (dg_running st)) = set (dg_running st) - {w}"
    "workers_ok (length (remove1 w (dg_running st))) (dg_sched st)"
proof -
  note parts = dag_invD [OF inv]
  show sub: "w \<in> submitted L r base (set (dg_finished st))" "w \<notin> set (dg_finished st)"
    using queued_facts [OF inv] w by auto
  show "fair (insert w (set (dg_finished st)))" by (rule fair_insert [OF parts(1) sub])
  have dist: "distinct (dg_finished st @ dg_running st @ ns_queue (dg_sched st))"
    using parts(2) by (simp add: works_ok_def)
  then show set: "set (remove1 w (dg_running st)) = set (dg_running st) - {w}" by (simp add: set_remove1_eq)
  show "distinct ((dg_finished st @ [w]) @ remove1 w (dg_running st) @ ns_queue (dg_sched st))"
    using dist set w by (auto simp: distinct_remove1)
  show "workers_ok (length (remove1 w (dg_running st))) (dg_sched st)"
    using parts(5) by (auto simp: open_ok_def length_remove1 intro: workers_ok_less)
qed

text \<open>A unit ends that one directory \<open>d\<close> waits for.\<close>

lemma settle_inv:
  assumes inv: "dag_inv st" and w: "w \<in> set (dg_running st)" and F': "F' = insert w (set (dg_finished st))"
    and disp: "\<And>e. dispatched L F' e \<longleftrightarrow> dispatched L (set (dg_finished st)) e"
    and sub: "submitted L r base F' = submitted L r base (set (dg_finished st)) \<union>
                (if ready L r F' d then {OverviewWork d} else {})"
    and late: "\<not> ready L r (set (dg_finished st)) d"
    and d: "dispatched L (set (dg_finished st)) d" "OverviewWork d \<notin> F'"
    and others: "\<And>e. e \<noteq> d \<Longrightarrow> dispatched L (set (dg_finished st)) e \<Longrightarrow>
        waiting_files L F' e = waiting_files L (set (dg_finished st)) e \<and>
        waiting_dirs L r F' e = waiting_dirs L r (set (dg_finished st)) e"
    and node: "node_ok L r F' d n2"
    and root: "root_settled L base F' \<longleftrightarrow> root_settled L base (set (dg_finished st))"
    and st': "rest st' = (False, (\<lambda>e. if w = OverviewWork e then None else if e = d then Some n2 else dg_nodes st e),
        (\<lambda>e. if w = OverviewWork e then None else dg_parent st e), dg_root_done st,
        remove1 w (dg_running st), dg_finished st @ [w], WaitRoot, None)"
    and sched: "dg_sched st' = (if ready L r F' d then submit_work (OverviewWork d) (dg_sched st) else dg_sched st)"
  shows "dag_inv st'"
proof -
  note parts = dag_invD [OF inv]
  note frame = finish_frame [OF inv w]
  have fin: "set (dg_finished st') = F'" using st' F' by (auto simp: rest_def)
  have fresh: "OverviewWork d \<notin> set (dg_finished st) \<union> set (dg_running st) \<union> set (ns_queue (dg_sched st))"
    using late parts(2) by (simp add: works_ok_def)
  have "works_ok st'"
    unfolding works_ok_def
  proof
    show "distinct (dg_finished st' @ dg_running st' @ ns_queue (dg_sched st'))"
      using frame(4,5) fresh st' sched w by (auto simp: rest_def)
    show "set (dg_finished st') \<union> set (dg_running st') \<union> set (ns_queue (dg_sched st')) =
        submitted L r base (set (dg_finished st'))"
      using fin sub parts(2) frame(5) st' sched F' w by (auto simp: rest_def works_ok_def)
  qed
  moreover have "nodes_ok st'"
    unfolding nodes_ok_def fin
  proof (intro conjI allI impI)
    fix e
    show "dg_nodes st' e \<noteq> None \<longleftrightarrow> dispatched L F' e \<and> OverviewWork e \<notin> F'"
      using parts(3) st' disp d F' by (auto simp: rest_def nodes_ok_def)
  next
    fix e n
    assume e: "dg_nodes st' e = Some n"
    show "node_ok L r F' e n"
    proof (cases "e = d")
      case True
      then show ?thesis using e st' node by (auto simp: rest_def split: if_splits)
    next
      case False
      then have n: "dg_nodes st e = Some n" using e st' by (auto simp: rest_def split: if_splits)
      then have "dispatched L (set (dg_finished st)) e" using parts(3) unfolding nodes_ok_def by blast
      then show ?thesis using node_ok_frame [of L r "set (dg_finished st)" e n F'] others [OF False] n parts(3)
        unfolding nodes_ok_def by blast
    qed
  qed
  moreover have "parents_ok st'"
    using parts(4) st' F' w frame(5) unfolding parents_ok_def by (auto simp: rest_def)
  moreover have "open_ok st'"
    using parts(5) st' sched root fin frame(6) submit_ok by (auto simp: rest_def open_ok_def)
  ultimately show ?thesis using frame(3) fin F' by (simp add: dag_inv_def)
qed

text \<open>A file.\<close>

lemma file_inv:
  assumes inv: "dag_inv st" and w: "FileWork d f \<in> set (dg_running st)"
    and st1: "core st1 = core (st\<lparr>dg_running := remove1 (FileWork d f) (dg_running st),
                                 dg_finished := dg_finished st @ [FileWork d f]\<rparr>)"
  shows "dag_inv (on_file_done d f v st1)"
proof -
  let ?w = "FileWork d f" and ?F = "set (dg_finished st)"
  let ?F' = "insert ?w ?F"
  note parts = dag_invD [OF inv]
  note frame = finish_frame [OF inv w]
  have disp: "dispatched L ?F d" "f \<in> set (files_of L d)" using frame(1) by auto
  obtain n where n: "dg_nodes st d = Some n" using queued_nodes(2) [OF inv, of ?w d f] w by auto
  then have nok: "node_ok L r ?F d n" and undone: "OverviewWork d \<notin> ?F"
    using parts(3) unfolding nodes_ok_def by blast+
  have late: "\<not> ready L r ?F d" using disp(2) frame(2) by (auto simp: ready_def waiting_files_def filter_empty_conv)
  have dist: "distinct (files_of L d)" using entries_distinct dispatched_ok(1) [OF parts(1) disp(1)] by blast
  let ?n1 = "n\<lparr>dn_file_summaries := fill_slot (dn_file_summaries n) (dn_file_index n f) v\<rparr>"
  let ?n2 = "?n1\<lparr>dn_pending := dn_pending n - 1, dn_overview_scheduled := (dn_pending n = 1)\<rparr>"
  have n2: "node_ok L r ?F' d ?n2" using node_ok_file_done [OF nok disp(2) frame(2) dist] by simp
  have sch: "\<not> dn_overview_scheduled ?n1"
    using nok late disp(1) by (auto simp: node_ok_def ready_def)
  have rdy: "ready L r ?F' d \<longleftrightarrow> dn_pending n = 1"
  proof -
    have "dn_overview_scheduled ?n2 \<longleftrightarrow> waiting_files L ?F' d = [] \<and> waiting_dirs L r ?F' d = []"
      using n2 unfolding node_ok_def by blast
    then show ?thesis using disp(1) unfolding ready_def by simp
  qed
  have open1: "\<not> dg_closed st1" and nodes1: "dg_nodes st1 = dg_nodes st" and sched1: "dg_sched st1 = dg_sched st"
    using st1 parts(5) by (auto simp: core_eq rest_eq open_ok_def)
  have eff: "on_file_done d f v st1 = count_down d ?n1 st1" using n nodes1 by (simp add: on_file_done_def)
  note cd = core_count_down [OF open1 sch, of d]
  show ?thesis
  proof (rule settle_inv [OF inv w refl])
    show "rest (on_file_done d f v st1) =
        (False, (\<lambda>e. if ?w = OverviewWork e then None else if e = d then Some ?n2 else dg_nodes st e),
         (\<lambda>e. if ?w = OverviewWork e then None else dg_parent st e), dg_root_done st,
         remove1 ?w (dg_running st), dg_finished st @ [?w], WaitRoot, None)"
      using cd eff st1 parts(5) by (auto simp: core_def rest_def open_ok_def)
    show "dg_sched (on_file_done d f v st1) =
        (if ready L r ?F' d then submit_work (OverviewWork d) (dg_sched st) else dg_sched st)"
      using cd eff rdy sched1 by (auto simp: core_def)
    show "submitted L r base ?F' = submitted L r base ?F \<union> (if ready L r ?F' d then {OverviewWork d} else {})"
      by (rule submitted_file [OF disp(1)])
  qed (use disp late undone n2 in \<open>auto simp: root_settled_def\<close>)
qed

text \<open>A subdirectory.\<close>

lemma child_inv:
  assumes inv: "dag_inv st" and w: "w \<in> set (dg_running st)" and s: "settles w d c"
    and d: "r" "dispatched L (set (dg_finished st)) d" "c \<in> set (dirs_of L d)"
    and new: "\<not> settled L (set (dg_finished st)) d c"
    and st1: "core st1 = core (st\<lparr>dg_running := remove1 w (dg_running st), dg_finished := dg_finished st @ [w]\<rparr>)"
    and st': "core st' = core (if w = OverviewWork c then release_dir_node c (on_child_done d c ab st1)
                               else on_child_done d c ab st1)"
  shows "dag_inv st'"
proof -
  let ?F = "set (dg_finished st)"
  let ?F' = "insert w ?F"
  note parts = dag_invD [OF inv]
  note frame = finish_frame [OF inv w]
  note okd = dispatched_ok [OF parts(1) d(2)]
  have c: "length base < length c" "c \<noteq> d" using child_ok [OF okd(1) d(3)] okd(2) by auto
  have late: "\<not> ready L r ?F d" using d new by (auto simp: ready_def waiting_dirs_def filter_empty_conv)
  have undone: "OverviewWork d \<notin> ?F'"
    using late parts(1) soundD [of L r base ?F "OverviewWork d"] s c by (auto simp: fair_def settles_def)
  obtain n where n: "dg_nodes st d = Some n" using parts(3) d(2) undone unfolding nodes_ok_def by blast
  then have nok: "node_ok L r ?F d n" using parts(3) unfolding nodes_ok_def by blast
  let ?n1 = "n\<lparr>dn_children_abstracts := fill_slot (dn_children_abstracts n) (dn_child_index n c)
                 \<lparr>ca_name = uri_name c, ca_abstract = ab\<rparr>\<rparr>"
  let ?n2 = "?n1\<lparr>dn_pending := dn_pending n - 1, dn_overview_scheduled := (dn_pending n = 1)\<rparr>"
  have n2: "node_ok L r ?F' d ?n2"
  proof -
    have "node_ok L r ?F' d (n\<lparr>dn_children_abstracts := fill_slot (dn_children_abstracts n) (dn_child_index n c)
            \<lparr>ca_name = uri_name c, ca_abstract = ab\<rparr>,
            dn_pending := dn_pending n - 1, dn_overview_scheduled := (dn_pending n = 1)\<rparr>)"
      by (rule node_ok_child_done [OF nok d(3) new d(1)])
        (use entries_distinct [OF okd(1)] waiting_dirs_settles [OF parts(1) s d(2,3) d(2)]
          settles_frame(2) [OF s] s in \<open>auto simp: settles_def\<close>)
    then show ?thesis by simp
  qed
  have sch: "\<not> dn_overview_scheduled ?n1"
    using nok late d(2) by (auto simp: node_ok_def ready_def)
  have rdy: "ready L r ?F' d \<longleftrightarrow> dn_pending n = 1"
  proof -
    have "dn_overview_scheduled ?n2 \<longleftrightarrow> waiting_files L ?F' d = [] \<and> waiting_dirs L r ?F' d = []"
      using n2 unfolding node_ok_def by blast
    then show ?thesis using d(2) settles_frame(1) [OF s] unfolding ready_def by simp
  qed
  have open1: "\<not> dg_closed st1" and nodes1: "dg_nodes st1 = dg_nodes st" and sched1: "dg_sched st1 = dg_sched st"
    using st1 parts(5) by (auto simp: core_eq rest_eq open_ok_def)
  have eff: "on_child_done d c ab st1 = count_down d ?n1 st1" using n nodes1 by (simp add: on_child_done_def)
  note cd = core_count_down [OF open1 sch, of d]
  show ?thesis
  proof (rule settle_inv [OF inv w refl settles_frame(1) [OF s] submitted_settles [OF parts(1) s d(2,3)]])
    show "rest st' =
        (False, (\<lambda>e. if w = OverviewWork e then None else if e = d then Some ?n2 else dg_nodes st e),
         (\<lambda>e. if w = OverviewWork e then None else dg_parent st e), dg_root_done st,
         remove1 w (dg_running st), dg_finished st @ [w], WaitRoot, None)"
      using cd eff st1 st' s c(2) parts(5) by (auto simp: core_def rest_def open_ok_def release_dir_node_def settles_def)
    show "dg_sched st' = (if ready L r ?F' d then submit_work (OverviewWork d) (dg_sched st) else dg_sched st)"
      using cd eff rdy sched1 st' by (auto simp: core_def release_dir_node_def split: if_splits)
    show "root_settled L base ?F' \<longleftrightarrow> root_settled L base ?F"
      using s c(1) by (auto simp: root_settled_def settles_def)
    show "waiting_files L ?F' e = waiting_files L ?F e \<and> waiting_dirs L r ?F' e = waiting_dirs L r ?F e"
      if "e \<noteq> d" "dispatched L ?F e" for e
      using that settles_frame(2) [OF s] waiting_dirs_settles [OF parts(1) s d(2,3) that(2)] by simp
  qed (use d late undone n2 in auto)
qed

text \<open>The root.\<close>

lemma root_inv:
  assumes inv: "dag_inv st" and w: "w \<in> set (dg_running st)"
    and s: "w = OverviewWork base \<or> (w = DirWork base None \<and> L base = None)"
    and st': "rest st' = (False, (\<lambda>e. if w = OverviewWork e then None else dg_nodes st e),
        (\<lambda>e. if w = OverviewWork e then None else dg_parent st e), True,
        remove1 w (dg_running st), dg_finished st @ [w], WaitRoot, None)"
    and sched: "dg_sched st' = dg_sched st"
  shows "dag_inv st'"
proof -
  let ?F = "set (dg_finished st)"
  let ?F' = "insert w ?F"
  note parts = dag_invD [OF inv]
  note frame = finish_frame [OF inv w]
  have fin: "set (dg_finished st') = ?F'" using st' by (auto simp: rest_def)
  have disp: "dispatched L ?F' e \<longleftrightarrow> dispatched L ?F e" for e using s by auto
  have same: "waiting_files L ?F' e = waiting_files L ?F e \<and> waiting_dirs L r ?F' e = waiting_dirs L r ?F e"
    if e: "dispatched L ?F e" for e
  proof -
    have "base \<notin> set (waiting_dirs L r ?F e)"
      using child_longer(1) [OF parts(1) e, of base] by (auto simp: waiting_dirs_def)
    then have "filter (\<lambda>x. x \<noteq> base) (waiting_dirs L r ?F e) = waiting_dirs L r ?F e"
      by (auto simp: filter_id_conv)
    then show ?thesis using s by auto
  qed
  have "works_ok st'"
    using frame(4,5) fin submitted_root [OF parts(1) s] parts(2) st' sched w
    by (auto simp: works_ok_def rest_def)
  moreover have "nodes_ok st'"
    unfolding nodes_ok_def fin
  proof (intro conjI allI impI)
    fix e
    show "dg_nodes st' e \<noteq> None \<longleftrightarrow> dispatched L ?F' e \<and> OverviewWork e \<notin> ?F'"
      using parts(3) st' disp by (auto simp: rest_def nodes_ok_def)
  next
    fix e n
    assume "dg_nodes st' e = Some n"
    then have n: "dg_nodes st e = Some n" using st' by (auto simp: rest_def split: if_splits)
    then have "dispatched L ?F e" using parts(3) unfolding nodes_ok_def by blast
    then show "node_ok L r ?F' e n"
      using node_ok_frame [of L r ?F e n ?F'] same n parts(3) unfolding nodes_ok_def by blast
  qed
  moreover have "parents_ok st'"
    using parts(4) st' w frame(5) unfolding parents_ok_def by (auto simp: rest_def)
  moreover have "open_ok st'"
    using parts(5) st' sched s fin frame(6) by (auto simp: rest_def open_ok_def root_settled_def)
  ultimately show ?thesis using frame(3) fin by (simp add: dag_inv_def)
qed

text \<open>The units of a listed directory.\<close>

definition new_works :: "string \<Rightarrow> dag_work list" where
  "new_works d =
     (if files_of L d = [] \<and> (r \<longrightarrow> dirs_of L d = []) then [OverviewWork d]
      else map (FileWork d) (files_of L d) @ (if r then map (\<lambda>c. DirWork c (Some d)) (dirs_of L d) else []))"

lemma dispatch_core:
  assumes r: "r = dc_recursive cfg" and L: "listing_of (en_ls env) d = L d" "L d \<noteq> None" and open_: "\<not> dg_closed st"
  shows "core (finish_dir cfg env d p st) =
         (fold submit_work (new_works d) (dg_sched st),
          rest (st\<lparr>dg_nodes := (dg_nodes st)(d \<mapsto> (new_dir_node cfg d (dirs_of L d) (files_of L d))
             \<lparr>dn_overview_scheduled := (files_of L d = [] \<and> (r \<longrightarrow> dirs_of L d = []))\<rparr>)\<rparr>))"
proof -
  let ?n = "new_dir_node cfg d (dirs_of L d) (files_of L d)"
  let ?st = "st\<lparr>dg_nodes := (dg_nodes st)(d \<mapsto> ?n)\<rparr>"
  have ls: "list_dir (en_ls env) d = Inr (dirs_of L d, files_of L d)"
    using L by (auto simp: listing_of_def dirs_of_def files_of_def split: sum.splits)
  have pend: "dn_pending ?n = 0 \<longleftrightarrow> files_of L d = [] \<and> (r \<longrightarrow> dirs_of L d = [])"
  proof -
    have "int (length (dirs_of L d)) + int (length (files_of L d)) = 0 \<longleftrightarrow> dirs_of L d = [] \<and> files_of L d = []"
      by (metis add_is_0 length_0_conv of_nat_add of_nat_eq_0_iff)
    then show ?thesis using r by (auto simp: new_dir_node_def)
  qed
  have n: "?n\<lparr>dn_overview_scheduled := False\<rparr> = ?n" by (simp add: new_dir_node_def)
  have opn: "\<not> dg_closed ?st" using open_ by simp
  show ?thesis
  proof (cases "dn_pending ?n = 0")
    case True
    then have eff: "finish_dir cfg env d p st = mark_node_waiting (schedule_overview d ?st)"
      using ls by (simp add: finish_dir_def dispatch_dir_def Let_def)
    have "\<not> dn_overview_scheduled ?n" by (simp add: new_dir_node_def)
    then have "core (schedule_overview d ?st) =
        (submit_work (OverviewWork d) (dg_sched st), rest (st\<lparr>dg_nodes := (dg_nodes st)(d \<mapsto> ?n\<lparr>dn_overview_scheduled := True\<rparr>)\<rparr>))"
      using open_ by (simp add: schedule_overview_def core_schedule)
    moreover have "files_of L d = [] \<and> (r \<longrightarrow> dirs_of L d = [])" using True pend by blast
    ultimately show ?thesis by (simp add: eff new_works_def)
  next
    case False
    have f: "core (fold (schedule_file d) (files_of L d) ?st) =
        (fold submit_work (map (FileWork d) (files_of L d)) (dg_sched ?st), rest ?st)"
      using core_schedule_all [of "schedule_file d" "FileWork d", OF core_schedule(2) opn] by simp
    then have "\<not> dg_closed (fold (schedule_file d) (files_of L d) ?st)" using opn by (auto simp: core_def rest_def)
    note c = core_schedule_all [of "\<lambda>c. schedule_dir c (Some d)" "\<lambda>c. DirWork c (Some d)", OF core_schedule(3) this,
        of "dirs_of L d"]
    have flag: "(files_of L d = [] \<and> (r \<longrightarrow> dirs_of L d = [])) = False" using False pend by blast
    have "finish_dir cfg env d p st = mark_node_waiting
        (if r then fold (\<lambda>c. schedule_dir c (Some d)) (dirs_of L d) (fold (schedule_file d) (files_of L d) ?st)
         else fold (schedule_file d) (files_of L d) ?st)"
      using False ls r by (simp add: finish_dir_def dispatch_dir_def Let_def)
    then show ?thesis
      unfolding flag n new_works_def using c f by (simp add: core_def)
  qed
qed

lemma dir_inv:
  assumes inv: "dag_inv st" and w: "DirWork d p \<in> set (dg_running st)" and r: "r = dc_recursive cfg"
    and L: "listing_of (en_ls env) d = L d" "L d \<noteq> None"
    and st1: "core st1 = core (st\<lparr>dg_running := remove1 (DirWork d p) (dg_running st),
                                 dg_finished := dg_finished st @ [DirWork d p]\<rparr>)"
  shows "dag_inv (finish_dir cfg env d p st1)"
proof -
  let ?w = "DirWork d p" and ?F = "set (dg_finished st)" and ?st' = "finish_dir cfg env d p st1"
  let ?F' = "insert ?w ?F"
  note parts = dag_invD [OF inv]
  note frame = finish_frame [OF inv w]
  note fresh = fresh_children [OF parts(1) frame(1,2)]
  note waits = waiting_fresh [OF parts(1) frame(1,2)]
  have opn: "\<not> dg_closed st1" using st1 parts(5) by (auto simp: core_eq rest_eq open_ok_def)
  let ?none = "files_of L d = [] \<and> (r \<longrightarrow> dirs_of L d = [])"
  define n where "n = (new_dir_node cfg d (dirs_of L d) (files_of L d))\<lparr>dn_overview_scheduled := ?none\<rparr>"
  have sched: "dg_sched ?st' = fold submit_work (new_works d) (dg_sched st)"
    and rest: "rest ?st' = (False, (dg_nodes st)(d \<mapsto> n), dg_parent st, dg_root_done st,
        remove1 ?w (dg_running st), dg_finished st @ [?w], WaitRoot, None)"
    using dispatch_core [OF r L opn, of p] st1 parts(5)
    by (auto simp: n_def core_def rest_def open_ok_def)
  have fin: "set (dg_finished ?st') = ?F'" using rest by (auto simp: rest_def)
  have okd: "ok d" using frame(1) parts(1) by (auto simp: fair_def good_dirs_def)
  have new: "set (new_works d) \<inter> submitted L r base ?F = {}"
    using fresh by (auto simp: new_works_def)
  have dist: "distinct (new_works d)"
    using entries_distinct [OF okd] by (auto simp: new_works_def distinct_map inj_on_def)
  have sub: "submitted L r base ?F' = submitted L r base ?F \<union> set (new_works d)"
    using submitted_dir [OF parts(1) frame(1,2) L(2)] by (auto simp: new_works_def)
  have "works_ok ?st'"
    unfolding works_ok_def
  proof
    have all: "?F \<union> set (dg_running st) \<union> set (ns_queue (dg_sched st)) = submitted L r base ?F"
      using parts(2) by (simp add: works_ok_def)
    then show "set (dg_finished ?st') \<union> set (dg_running ?st') \<union> set (ns_queue (dg_sched ?st')) =
        submitted L r base (set (dg_finished ?st'))"
      using fin sub frame(5) rest sched w by (auto simp: rest_def)
    have "set (new_works d) \<inter> (?F \<union> set (dg_running st) \<union> set (ns_queue (dg_sched st))) = {}"
      using new all by simp
    then show "distinct (dg_finished ?st' @ dg_running ?st' @ ns_queue (dg_sched ?st'))"
      using frame(4,5) dist rest sched w by (auto simp: rest_def)
  qed
  moreover have "nodes_ok ?st'"
    unfolding nodes_ok_def fin
  proof (intro conjI allI impI)
    fix e
    have "OverviewWork d \<notin> ?F'" using fresh(4) parts(1) by (auto simp: fair_def sound_def)
    then show "dg_nodes ?st' e \<noteq> None \<longleftrightarrow> dispatched L ?F' e \<and> OverviewWork e \<notin> ?F'"
      using parts(3) rest L(2) fresh(1) by (auto simp: rest_def nodes_ok_def)
  next
    fix e m
    assume e: "dg_nodes ?st' e = Some m"
    show "node_ok L r ?F' e m"
    proof (cases "e = d")
      case True
      have "node_ok L r ?F' d n"
        unfolding n_def by (rule node_ok_new) (use waits L(2) r in auto)
      then show ?thesis using e True rest by (simp add: rest_def)
    next
      case False
      then have m: "dg_nodes st e = Some m" using e rest by (simp add: rest_def)
      then have "node_ok L r ?F e m" using parts(3) unfolding nodes_ok_def by blast
      then show ?thesis by (rule node_ok_frame) (use L(2) in auto)
    qed
  qed
  moreover have "parents_ok ?st'"
    using parts(4) rest w frame(5) unfolding parents_ok_def by (auto simp: rest_def)
  moreover have "open_ok ?st'"
    using parts(5) rest sched fin frame(6) L(2) submit_all_ok by (auto simp: rest_def open_ok_def root_settled_def)
  ultimately show ?thesis using frame(3) fin by (simp add: dag_inv_def)
qed

section \<open>Every event\<close>

text \<open>The events of a run in which no unit raises and \<^verbatim>\<open>run\<close> still waits for the root; the directories are
  listed as \<open>L\<close> says.\<close>

definition tree_event :: "dag_event \<Rightarrow> bool" where
  "tree_event ev \<longleftrightarrow>
     (case ev of
        FinishWork (DirWork d p) env \<Rightarrow> listing_of (en_ls env) d = L d
      | RaiseWork _ _ \<Rightarrow> False
      | ResumeRun \<Rightarrow> False
      | _ \<Rightarrow> True)"

lemma overview_inv:
  assumes inv: "dag_inv st" and w: "OverviewWork c \<in> set (dg_running st)"
    and st1: "st1 = st\<lparr>dg_running := remove1 (OverviewWork c) (dg_running st),
                       dg_finished := dg_finished st @ [OverviewWork c]\<rparr>"
  shows "dag_inv (finish_overview cfg env c st1)"
proof -
  let ?w = "OverviewWork c" and ?F = "set (dg_finished st)"
  note parts = dag_invD [OF inv]
  note frame = finish_frame [OF inv w]
  obtain n where n: "dg_nodes st c = Some n" using queued_nodes(3) [OF inv, of ?w c] w by auto
  have disp: "dispatched L ?F c" using n parts(3) unfolding nodes_ok_def by blast
  obtain p where p: "DirWork c p \<in> ?F" using disp by (auto simp: dispatched_def)
  then have par: "dg_parent st c = Some p" using parts(4) frame(2) by (auto simp: parents_ok_def)
  have psub: "DirWork c p \<in> submitted L r base ?F" using parts(1) p by (auto simp: fair_def sound_def)
  define ch where "ch = (if dc_incremental_update cfg
      then check_dir_children_changed cfg env st1 c (dn_file_paths n) (dn_children_dirs n) else True)"
  obtain st2 ab where body: "overview_body cfg env c n ch st1 = (st2, ab)" by fastforce
  have core2: "core st2 = core st1" using core_overview_body [of cfg env c n ch st1] body by simp
  define st3 where "st3 = (mark_node_done st2)\<lparr>dg_dir_change_status :=
      (dg_dir_change_status (mark_node_done st2))(c \<mapsto> ch)\<rparr>"
  have core3: "core st3 = core st1"
    using core2 core_marks(3) [of st2] by (simp add: st3_def core_def rest_def)
  have par3: "dg_parent st3 c = Some p" using core3 par st1 by (simp add: core_def rest_def)
  have eff: "finish_overview cfg env c st1 =
      (case p of Some d \<Rightarrow> release_dir_node c (on_child_done d c ab st3)
               | None \<Rightarrow> (release_dir_node c st3)\<lparr>dg_root_done := True\<rparr>)"
  proof -
    have n1: "dg_nodes st1 c = Some n" using n st1 by simp
    show ?thesis
      unfolding finish_overview_def n1 option.case Let_def ch_def [symmetric] body prod.case st3_def [symmetric] par3
      by (simp split: option.splits)
  qed
  show ?thesis
  proof (cases p)
    case None
    then have c: "c = base" using psub by simp
    have e: "finish_overview cfg env c st1 = (release_dir_node c st3)\<lparr>dg_root_done := True\<rparr>" using eff None by simp
    show ?thesis
      by (rule root_inv [OF inv w])
        (use c e core3 st1 parts(5) in \<open>auto simp: core_def rest_def open_ok_def release_dir_node_def\<close>)
  next
    case (Some d)
    then have d: "r" "dispatched L ?F d" "c \<in> set (dirs_of L d)" using psub by auto
    have "\<not> settled L ?F d c" using frame(2) disp by (auto simp: settled_def dispatched_def)
    then show ?thesis
      by (rule child_inv [OF inv w _ d, rotated]) (use Some eff core3 st1 in \<open>auto simp: settles_def\<close>)
  qed
qed

lemma failed_dir_inv:
  assumes inv: "dag_inv st" and w: "DirWork c p \<in> set (dg_running st)"
    and L: "listing_of (en_ls env) c = L c" "L c = None"
    and st1: "st1 = st\<lparr>dg_running := remove1 (DirWork c p) (dg_running st),
                       dg_finished := dg_finished st @ [DirWork c p]\<rparr>"
  shows "dag_inv (finish_dir cfg env c p st1)"
proof -
  let ?w = "DirWork c p" and ?F = "set (dg_finished st)"
  note parts = dag_invD [OF inv]
  note frame = finish_frame [OF inv w]
  obtain e where ls: "list_dir (en_ls env) c = Inl e" using L by (auto simp: listing_of_def split: sum.splits)
  show ?thesis
  proof (cases p)
    case None
    then have c: "c = base" using frame(1) by simp
    have eff: "core (finish_dir cfg env c p st1) = core (st1\<lparr>dg_root_done := True\<rparr>)"
      using None ls by (simp add: finish_dir_def dispatch_dir_def is_truthy_def)
    show ?thesis
      by (rule root_inv [OF inv w])
        (use None c L(2) eff st1 parts(5) in \<open>auto simp: core_def rest_def open_ok_def\<close>)
  next
    case (Some d)
    then have d: "r" "dispatched L ?F d" "c \<in> set (dirs_of L d)" using frame(1) by auto
    have "d \<noteq> []" using ok_nonempty dispatched_ok(1) [OF parts(1) d(2)] by blast
    then have eff: "core (finish_dir cfg env c p st1) = core (on_child_done d c (Some []) st1)"
      using Some ls by (simp add: finish_dir_def dispatch_dir_def is_truthy_def)
    have "OverviewWork c \<notin> ?F"
    proof
      assume "OverviewWork c \<in> ?F"
      then have "ready L r ?F c" using parts(1) soundD by (fastforce simp: fair_def)
      then show False using L(2) by (auto simp: ready_def dispatched_def)
    qed
    then have "\<not> settled L ?F d c" using frame(2) Some by (auto simp: settled_def)
    then show ?thesis
      by (rule child_inv [OF inv w _ d, rotated]) (use Some L(2) eff st1 in \<open>auto simp: settles_def\<close>)
  qed
qed

lemma finish_inv:
  assumes inv: "dag_inv st" and r: "r = dc_recursive cfg" and ev: "tree_event (FinishWork w env)"
    and w: "w \<in> set (dg_running st)"
  shows "dag_inv (end_work cfg env w
           (st\<lparr>dg_running := remove1 w (dg_running st), dg_finished := dg_finished st @ [w]\<rparr>))"
proof (cases w)
  case (DirWork d p)
  have L: "listing_of (en_ls env) d = L d" using ev DirWork by (simp add: tree_event_def)
  have run: "DirWork d p \<in> set (dg_running st)" using w DirWork by simp
  show ?thesis
    unfolding end_work_def DirWork dag_work.case
  proof (cases "L d = None")
    case True
    show "dag_inv (finish_dir cfg env d p (st\<lparr>dg_running := remove1 (DirWork d p) (dg_running st),
        dg_finished := dg_finished st @ [DirWork d p]\<rparr>))"
      by (rule failed_dir_inv [OF inv run L True refl])
  next
    case False
    show "dag_inv (finish_dir cfg env d p (st\<lparr>dg_running := remove1 (DirWork d p) (dg_running st),
        dg_finished := dg_finished st @ [DirWork d p]\<rparr>))"
      by (rule dir_inv [OF inv run r L False refl])
  qed
next
  case (FileWork d f)
  let ?st1 = "st\<lparr>dg_running := remove1 w (dg_running st), dg_finished := dg_finished st @ [w]\<rparr>"
  obtain st2 s nv where s: "summarize_file cfg env f ?st1 = (st2, s, nv)" by (metis prod_cases3)
  have "core st2 = core ?st1" using core_summarize_file [of cfg env f ?st1] s by simp
  then have c3: "core (if nv then add_vectorize_task cfg (file_vectorize_task cfg d f s) (mark_node_done st2)
                   else mark_node_done st2) = core ?st1" by simp
  have run: "FileWork d f \<in> set (dg_running st)" using w FileWork by simp
  have eff: "end_work cfg env w ?st1 =
      on_file_done d f s (if nv then add_vectorize_task cfg (file_vectorize_task cfg d f s) (mark_node_done st2)
                          else mark_node_done st2)"
    using s FileWork by (simp add: end_work_def finish_file_def)
  show ?thesis unfolding eff by (rule file_inv [OF inv run]) (use c3 FileWork in simp)
next
  case (OverviewWork d)
  have run: "OverviewWork d \<in> set (dg_running st)" using w OverviewWork by simp
  show ?thesis unfolding end_work_def OverviewWork dag_work.case by (rule overview_inv [OF inv run refl])
next
  case (VectorizeWork t)
  then show ?thesis using finish_frame(1) [OF inv w] by simp
qed

lemma event_inv:
  assumes inv: "dag_inv st" and r: "r = dc_recursive cfg" and ev: "tree_event ev"
    and step: "dag_step cfg ev st = Some st'"
  shows "dag_inv st'"
proof (cases ev)
  case TakeWork
  then show ?thesis using step take_inv [OF inv] by (simp add: dag_step_def)
next
  case (FinishWork w env)
  then show ?thesis using step finish_inv [OF inv r] ev by (auto simp: dag_step_def split: if_splits)
next
  case WorkerIdle
  then show ?thesis using step idle_inv [OF inv] by (simp add: dag_step_def)
qed (use ev in \<open>simp_all add: tree_event_def\<close>)

lemma run_inv:
  assumes "dag_inv st" "r = dc_recursive cfg" "list_all tree_event evs" "dag_run cfg evs st = Some st'"
  shows "dag_inv st'"
  using assms
proof (induction evs arbitrary: st)
  case (Cons ev evs)
  obtain st1 where st1: "dag_step cfg ev st = Some st1" "dag_run cfg evs st1 = Some st'"
    using Cons.prems(4) by (auto split: option.splits)
  have "dag_inv st1" using event_inv [OF Cons.prems(1,2) _ st1(1)] Cons.prems(3) by simp
  then show ?case using Cons.IH [OF _ Cons.prems(2) _ st1(2)] Cons.prems(3) by simp
qed simp

lemma tree_run_inv:
  "r = dc_recursive cfg \<Longrightarrow> list_all tree_event evs \<Longrightarrow> dag_run cfg evs (start_run cfg base) = Some st \<Longrightarrow>
   dag_inv st"
  using run_inv start_inv by blast

end

end
