(* ===== verification/Semantic_Dag_Tree.thy ===== *)
theory Semantic_Dag_Tree
  imports Semantic_Dag_Inv
begin

text \<open>
  The listings of \<^verbatim>\<open>_list_dir\<close> form a tree: what the file system promises about a listing (the names
  of one directory are distinct and have no slash) gives the laws of the locale \<open>dir_tree\<close> for
  \<^const>\<open>list_dir\<close> below a root directory in canonical form.
\<close>

section \<open>Canonical directory URIs\<close>

text \<open>A scheme, a known scope, and no slash at the end.\<close>

definition canonical_uri :: "string \<Rightarrow> bool" where
  "canonical_uri u \<longleftrightarrow>
     py_startswith u SCHEME_PREFIX \<and> drop (length SCHEME_PREFIX) u \<noteq> [] \<and> List.last u \<noteq> CHR ''/'' \<and>
     hd (py_split (CHR ''/'') (drop (length SCHEME_PREFIX) u)) \<in> set VISITABLE_SCOPES"

lemma canonical_cases:
  assumes "canonical_uri u"
  obtains p where "u = SCHEME_PREFIX @ p" "p \<noteq> []" "List.last p \<noteq> CHR ''/''"
    "hd (py_split (CHR ''/'') p) \<in> set VISITABLE_SCOPES"
  using assms by (auto simp: canonical_uri_def startswith_iff)

lemma canonical_child:
  assumes "canonical_uri d" "CHR ''/'' \<notin> set name" "name \<noteq> []"
  shows "canonical_uri (d @ CHR ''/'' # name)"
proof -
  obtain p where p: "d = SCHEME_PREFIX @ p" "hd (py_split (CHR ''/'') p) \<in> set VISITABLE_SCOPES"
    using assms(1) by (rule canonical_cases)
  have "List.last name \<noteq> CHR ''/''" using assms(2,3) last_in_set by metis
  then show ?thesis using p assms(3) by (simp add: canonical_uri_def split_append_sep)
qed

lemma strip_slashes_id:
  assumes "CHR ''/'' \<notin> set s"
  shows "strip_slashes s = s"
proof -
  have "py_lstrip (CHR ''/'') s = s" using assms by (cases s) (auto simp: py_lstrip_def)
  moreover have "py_rstrip (CHR ''/'') s = s" by (rule rstrip_id) (use assms in \<open>auto dest: last_in_set\<close>)
  ultimately show ?thesis by (simp add: strip_slashes_def)
qed

lemma mem_dropWhile: "x \<in> set xs \<Longrightarrow> \<not> P x \<Longrightarrow> x \<in> set (dropWhile P xs)"
  by (induction xs) auto

lemma strip_slashes_nonempty:
  assumes "x \<in> set s" "x \<noteq> CHR ''/''"
  shows "strip_slashes s \<noteq> []"
proof -
  have "x \<in> set (py_lstrip (CHR ''/'') s)" using assms by (simp add: py_lstrip_def mem_dropWhile)
  then have "x \<in> set (strip_slashes s)" using assms(2) by (simp add: strip_slashes_def py_rstrip_def mem_dropWhile)
  then show ?thesis by auto
qed

lemma new_viking_uri_canonical:
  assumes "canonical_uri u"
  shows "new_viking_uri u =
    Inr \<lparr>vu_uri = u, vu_scope = hd (py_split (CHR ''/'') (drop (length SCHEME_PREFIX) u)),
         vu_full_path = drop (length SCHEME_PREFIX) u\<rparr>"
proof -
  obtain p where p: "u = SCHEME_PREFIX @ p" "p \<noteq> []" "List.last p \<noteq> CHR ''/''"
    "hd (py_split (CHR ''/'') p) \<in> set VISITABLE_SCOPES"
    using assms by (rule canonical_cases)
  have "strip_slashes p \<noteq> []" by (rule strip_slashes_nonempty [of "List.last p"]) (use p in auto)
  then show ?thesis using p by (simp add: new_viking_uri_def viking_normalize_def viking_parse_def Let_def)
qed

lemma item_uri_canonical:
  assumes "canonical_uri d" "CHR ''/'' \<notin> set name" "name \<noteq> []"
  shows "item_uri d name = Inr (d @ CHR ''/'' # name)"
proof -
  obtain p where p: "d = SCHEME_PREFIX @ p" "p \<noteq> []" "List.last p \<noteq> CHR ''/''"
    using assms(1) by (rule canonical_cases)
  have "new_viking_uri (SCHEME_PREFIX @ p @ ''/'' @ name) = new_viking_uri (d @ CHR ''/'' # name)"
    using p by simp
  then show ?thesis
    using new_viking_uri_canonical [OF assms(1)] new_viking_uri_canonical [OF canonical_child [OF assms]] p assms
    by (simp add: item_uri_def vu_join_def strip_slashes_id Let_def rstrip_id)
qed

section \<open>Listings\<close>

definition lawful_entries :: "(string \<times> bool) list \<Rightarrow> bool" where
  "lawful_entries entries \<longleftrightarrow> distinct (map fst entries) \<and> list_all (\<lambda>e. CHR ''/'' \<notin> set (fst e)) entries"

text \<open>What \<^verbatim>\<open>VikingFS.ls\<close> promises: every name of a directory once, and no slash in a name.\<close>

definition lawful_ls :: "(string \<Rightarrow> (string \<times> bool) list option) \<Rightarrow> bool" where
  "lawful_ls ls \<longleftrightarrow> (\<forall>d. case ls d of None \<Rightarrow> True | Some entries \<Rightarrow> lawful_entries entries)"

definition listed :: "bool \<Rightarrow> (string \<times> bool) list \<Rightarrow> string list" where
  "listed b entries = map fst (filter (\<lambda>e. snd e = b \<and> \<not> skipped_name (fst e)) entries)"

definition under :: "string \<Rightarrow> string \<Rightarrow> string" where
  "under d name = d @ CHR ''/'' # name"

lemma collect_entries_canonical:
  assumes "canonical_uri d"
  shows "list_all (\<lambda>e. CHR ''/'' \<notin> set (fst e)) entries \<Longrightarrow>
    collect_entries d entries dirs files =
      Inr (dirs @ map (under d) (listed True entries), files @ map (under d) (listed False entries))"
proof (induction entries arbitrary: dirs files)
  case Nil
  then show ?case by (simp add: listed_def)
next
  case (Cons e entries)
  obtain name is_dir where e: "e = (name, is_dir)" by (cases e)
  have item: "item_uri d name = Inr (under d name)" if "\<not> skipped_name name"
    using item_uri_canonical [OF assms, of name] that Cons.prems e by (auto simp: under_def skipped_name_def)
  show ?case
    using Cons.IH Cons.prems item e
    by (cases "skipped_name name"; cases is_dir) (auto simp: listed_def)
qed

lemma listing_canonical:
  assumes "canonical_uri d" "lawful_ls ls"
  shows "dirs_of (listing_of ls) d = (case ls d of None \<Rightarrow> [] | Some es \<Rightarrow> map (under d) (listed True es))"
    and "files_of (listing_of ls) d = (case ls d of None \<Rightarrow> [] | Some es \<Rightarrow> map (under d) (listed False es))"
    and "listing_of ls d \<noteq> None"
proof -
  have "lawful_entries es" if "ls d = Some es" for es
    using assms(2) that unfolding lawful_ls_def by (metis option.simps(5))
  then have "list_dir ls d = Inr (case ls d of None \<Rightarrow> ([], [])
      | Some es \<Rightarrow> (map (under d) (listed True es), map (under d) (listed False es)))"
    using collect_entries_canonical [OF assms(1)] by (auto simp: list_dir_def lawful_entries_def split: option.splits)
  then show "dirs_of (listing_of ls) d = (case ls d of None \<Rightarrow> [] | Some es \<Rightarrow> map (under d) (listed True es))"
    "files_of (listing_of ls) d = (case ls d of None \<Rightarrow> [] | Some es \<Rightarrow> map (under d) (listed False es))"
    "listing_of ls d \<noteq> None"
    by (simp_all add: dirs_of_def files_of_def listing_of_def split: option.splits)
qed

lemma under_inj: "inj (under d)"
  by (auto simp: under_def inj_def)

lemma under_parent:
  assumes "under d x = under e y" "CHR ''/'' \<notin> set x" "CHR ''/'' \<notin> set y"
  shows "d = e"
proof -
  have "py_split (CHR ''/'') d @ [x] = py_split (CHR ''/'') e @ [y]"
    using arg_cong [OF assms(1), of "py_split (CHR ''/'')"] assms(2,3)
    by (simp add: under_def split_snoc_sep)
  then show ?thesis by (metis butlast_snoc split_join)
qed

lemma listed_facts:
  assumes "lawful_entries es"
  shows "distinct (listed b es)" "x \<in> set (listed b es) \<Longrightarrow> CHR ''/'' \<notin> set x \<and> x \<noteq> []"
  using assms distinct_map_filter [of fst es]
  by (auto simp: lawful_entries_def listed_def list_all_iff skipped_name_def)

lemma child_listed:
  assumes "canonical_uri d" "lawful_ls ls" "c \<in> set (dirs_of (listing_of ls) d)"
  obtains x where "c = under d x" "CHR ''/'' \<notin> set x" "x \<noteq> []"
proof -
  obtain es where es: "ls d = Some es" "c \<in> under d ` set (listed True es)"
    using assms listing_canonical(1) [OF assms(1,2)] by (cases "ls d") auto
  moreover have "lawful_entries es" using es(1) assms(2) unfolding lawful_ls_def by (metis option.simps(5))
  ultimately show thesis using that listed_facts(2) by blast
qed

lemma listing_dir_tree:
  assumes ls: "lawful_ls ls" and u: "canonical_uri u"
  shows "dir_tree (listing_of ls) u canonical_uri"
proof
  show "canonical_uri u" by (rule u)
next
  fix d
  assume d: "canonical_uri d"
  have "distinct (map (under d) (listed b es))" if "ls d = Some es" for b es
    using listed_facts(1) [of es b] ls that under_inj [of d] unfolding lawful_ls_def
    by (metis (mono_tags, lifting) distinct_map inj_on_subset option.simps(5) top_greatest)
  then show "distinct (dirs_of (listing_of ls) d) \<and> distinct (files_of (listing_of ls) d)"
    using listing_canonical [OF d ls] by (auto split: option.splits)
next
  fix d c
  assume d: "canonical_uri d" and c: "c \<in> set (dirs_of (listing_of ls) d)"
  then obtain x where "c = under d x" "CHR ''/'' \<notin> set x" "x \<noteq> []" using child_listed ls by metis
  then show "canonical_uri c \<and> length d < length c" using canonical_child d by (simp add: under_def)
next
  fix d
  show "canonical_uri d \<Longrightarrow> d \<noteq> []" by (auto simp: canonical_uri_def)
next
  fix d e c
  assume "canonical_uri d" "canonical_uri e" "c \<in> set (dirs_of (listing_of ls) d)" "c \<in> set (dirs_of (listing_of ls) e)"
  then show "d = e" using child_listed ls under_parent by metis
qed

section \<open>The interpretation\<close>

text \<open>The laws hold for every file system and root that keep the two conditions; other arguments stand
  for the empty listing at a fixed directory.\<close>

definition tree_listing :: "(string \<Rightarrow> (string \<times> bool) list option) \<Rightarrow> listing" where
  "tree_listing ls = (if lawful_ls ls then listing_of ls else listing_of (\<lambda>_. None))"

definition tree_root :: "string \<Rightarrow> string" where
  "tree_root u = (if canonical_uri u then u else ''viking://resources'')"

interpretation dag_tree: dir_tree "tree_listing ls" r "tree_root u" canonical_uri
  for ls :: "string \<Rightarrow> (string \<times> bool) list option" and r :: bool and u :: string
proof -
  have "lawful_ls (\<lambda>_. None)" by (simp add: lawful_ls_def)
  moreover have "canonical_uri ''viking://resources''" by code_simp
  ultimately show "dir_tree (tree_listing ls) (tree_root u) canonical_uri"
    unfolding tree_listing_def tree_root_def by (cases "lawful_ls ls"; cases "canonical_uri u") (simp_all add: listing_dir_tree)
qed

lemma tree_simps [simp]:
  "lawful_ls ls \<Longrightarrow> tree_listing ls = listing_of ls" "canonical_uri u \<Longrightarrow> tree_root u = u"
  by (simp_all add: tree_listing_def tree_root_def)

end
