(* ===== verification/Semantic_Dag_Example.thy ===== *)
theory Semantic_Dag_Example
  imports Semantic_Dag_Tree
begin

text \<open>
  A small run of the executor, evaluated: a directory with a file and a subdirectory that has a file, two
  workers, an incremental update in which the file of the subdirectory changed.  It instantiates
  the properties of the executor.
\<close>

definition demo_root :: string where "demo_root = ''viking://resources/a''"
definition demo_sub :: string where "demo_sub = ''viking://resources/a/s''"
definition demo_x :: string where "demo_x = ''viking://resources/a/x.md''"
definition demo_y :: string where "demo_y = ''viking://resources/a/s/y.md''"

definition demo_ls :: "string \<Rightarrow> (string \<times> bool) list option" where
  "demo_ls d =
     (if d = demo_root then Some [(''x.md'', False), (''s'', True), (''.overview.md'', False)]
      else if d = demo_sub then Some [(''y.md'', False)] else None)"

definition demo_cfg :: dag_config where
  "demo_cfg =
     \<lparr>dc_context_type = ''resource'', dc_max_concurrent_llm = 2, dc_incremental_update = True,
      dc_target_uri = Some demo_root, dc_semantic_msg_id = Some ''m'', dc_telemetry_id = [],
      dc_recursive = True, dc_is_code_repo = False, dc_changes = [(''modified'', [demo_y])],
      dc_skip_vectorization = False, dc_coalesce_key = [], dc_coalesce_version = 0,
      dc_limits = \<lparr>overview_max_chars = 4000, abstract_max_chars = 256\<rparr>\<rparr>"

definition demo_env :: dag_env where
  "demo_env =
     \<lparr>en_ls = demo_ls, en_size = (\<lambda>_. None), en_read = (\<lambda>_. None), en_abstract = (\<lambda>_. None),
      en_summary = (\<lambda>f. Some \<lparr>fsm_name = uri_name f, fsm_summary = ''text'', fsm_content = None\<rparr>),
      en_overview = (\<lambda>d files children. Some ''A directory.''),
      en_versions = Map.empty, en_versions_locked = Map.empty, en_has_lock_manager = False, en_path_lock = True,
      en_write = (\<lambda>_. True)\<rparr>"

definition demo_events :: "dag_event list" where
  "demo_events =
     [TakeWork, FinishWork (DirWork demo_root None) demo_env, TakeWork, TakeWork,
      FinishWork (DirWork demo_sub (Some demo_root)) demo_env, FinishWork (FileWork demo_root demo_x) demo_env,
      TakeWork, FinishWork (FileWork demo_sub demo_y) demo_env, TakeWork,
      FinishWork (OverviewWork demo_sub) demo_env, TakeWork, FinishWork (OverviewWork demo_root) demo_env]"

definition demo_state :: "nat \<Rightarrow> dag" where
  "demo_state n = the (dag_run demo_cfg (take n demo_events) (start_run demo_cfg demo_root))"

lemma demo_runs: "\<not> Option.is_none (dag_run demo_cfg demo_events (start_run demo_cfg demo_root))"
  by code_simp

lemma dag_run_append:
  "dag_run cfg (xs @ ys) st = (case dag_run cfg xs st of None \<Rightarrow> None | Some st' \<Rightarrow> dag_run cfg ys st')"
  by (induction xs arbitrary: st) (auto split: option.splits)

lemma demo_dag_run: "dag_run demo_cfg (take n demo_events) (start_run demo_cfg demo_root) = Some (demo_state n)"
proof -
  have "dag_run demo_cfg (take n demo_events @ drop n demo_events) (start_run demo_cfg demo_root) \<noteq> None"
    using demo_runs by (auto simp: Option.is_none_def)
  then show ?thesis unfolding dag_run_append demo_state_def by (auto split: option.splits)
qed

lemma demo_lawful: "lawful_ls demo_ls"
proof -
  have "lawful_entries [(''x.md'', False), (''s'', True), (''.overview.md'', False)]" "lawful_entries [(''y.md'', False)]"
    by code_simp+
  then show ?thesis by (simp add: lawful_ls_def demo_ls_def)
qed

lemma demo_canonical: "canonical_uri demo_root"
  by code_simp

lemma demo_listing:
  "dirs_of (listing_of demo_ls) demo_root = [demo_sub]" "files_of (listing_of demo_ls) demo_root = [demo_x]"
  "dirs_of (listing_of demo_ls) demo_sub = []" "files_of (listing_of demo_ls) demo_sub = [demo_y]"
  by code_simp+

lemma demo_facts:
  "dg_root_done (demo_state 12)" "\<not> dg_root_done (demo_state 3)" "OverviewWork demo_root \<in> set (dg_running (demo_state 11))"
  "path_has_direct_change demo_cfg demo_root" "0 < dg_vectorize_task_count (demo_state 12)"
  unfolding demo_state_def by code_simp+

end
