(* ===== verification/Semantic_Dag_Props.thy ===== *)
theory Semantic_Dag_Props
  imports Semantic_Dag_Example "HOL-Library.Multiset"
begin

text \<open>
  The properties of the executor of \<^verbatim>\<open>semantic_dag.py\<close>: it follows the dependency graph of the
  directory tree, never gets stuck, ends, covers the whole tree, and hands every finished text to
  vectorization once.
\<close>

section \<open>Runs while the tree is being summarised\<close>

text \<open>The events of a run of the tree: no unit raises (the units catch what the calls they make raise), and
  the file system answers every listing as \<open>ls\<close> does.\<close>

definition summarizing_event :: "(string \<Rightarrow> (string \<times> bool) list option) \<Rightarrow> dag_event \<Rightarrow> bool" where
  "summarizing_event ls ev \<longleftrightarrow>
     (case ev of
        TakeWork \<Rightarrow> True
      | FinishWork _ env \<Rightarrow> en_ls env = ls
      | RaiseWork _ _ \<Rightarrow> False
      | WorkerIdle \<Rightarrow> True
      | ResumeRun \<Rightarrow> False)"

definition summarizing_run ::
  "(string \<Rightarrow> (string \<times> bool) list option) \<Rightarrow> dag_config \<Rightarrow> string \<Rightarrow> dag_event list \<Rightarrow> dag \<Rightarrow> bool" where
  "summarizing_run ls cfg u evs st \<longleftrightarrow>
     lawful_ls ls \<and> canonical_uri u \<and> list_all (summarizing_event ls) evs \<and>
     dag_run cfg evs (start_run cfg u) = Some st"

lemma summarizing_tree_event:
  assumes "lawful_ls ls" "summarizing_event ls ev"
  shows "dag_tree.tree_event ls ev"
  using assms unfolding dag_tree.tree_event_def
  by (auto simp: summarizing_event_def split: dag_event.splits dag_work.splits)

lemma summarizing_inv:
  assumes "summarizing_run ls cfg u evs st"
  shows "dag_tree.dag_inv ls (dc_recursive cfg) u st"
proof -
  have "list_all (dag_tree.tree_event ls) evs"
    using assms summarizing_tree_event unfolding summarizing_run_def by (metis (mono_tags, lifting) list.pred_mono_strong)
  then show ?thesis
    using dag_tree.tree_run_inv [OF refl, of ls evs cfg u st] assms by (simp add: summarizing_run_def)
qed

lemma summarizing_fair:
  assumes "summarizing_run ls cfg u evs st"
  shows "dag_tree.fair ls (dc_recursive cfg) u (set (dg_finished st))"
  using dag_tree.dag_invD(1) [OF summarizing_inv [OF assms]] .

lemma summarizing_works:
  assumes "summarizing_run ls cfg u evs st"
  shows "distinct (dg_finished st @ dg_running st @ ns_queue (dg_sched st))"
    "set (dg_finished st) \<union> set (dg_running st) \<union> set (ns_queue (dg_sched st)) =
       submitted (listing_of ls) (dc_recursive cfg) u (set (dg_finished st))"
  using dag_tree.dag_invD(2) [OF summarizing_inv [OF assms]] assms
  by (simp_all add: dag_tree.works_ok_def summarizing_run_def)

lemma summarizing_open:
  assumes "summarizing_run ls cfg u evs st"
  shows "\<not> dg_closed st" "dg_failure st = None" "dg_phase st = WaitRoot"
    "dg_root_done st \<longleftrightarrow> root_settled (listing_of ls) u (set (dg_finished st))"
    "workers_ok (length (dg_running st)) (dg_sched st)"
  using dag_tree.dag_invD(5) [OF summarizing_inv [OF assms]] assms
  by (simp_all add: dag_tree.open_ok_def summarizing_run_def)

lemma demo_summarizing: "summarizing_run demo_ls demo_cfg demo_root (take n demo_events) (demo_state n)"
proof -
  have "list_all (summarizing_event demo_ls) demo_events"
    by (simp add: demo_events_def summarizing_event_def demo_env_def)
  then have "list_all (summarizing_event demo_ls) (take n demo_events)"
    by (metis append_take_drop_id list_all_append)
  then show ?thesis using demo_lawful demo_canonical demo_dag_run by (simp add: summarizing_run_def)
qed

lemma demo_summarized: "summarizing_run demo_ls demo_cfg demo_root demo_events (demo_state 12)"
  using demo_summarizing [of 12] by (simp add: demo_events_def)

text \<open>The directories of the tree that a run visits.\<close>

inductive tree_dir :: "(string \<Rightarrow> (string \<times> bool) list option) \<Rightarrow> bool \<Rightarrow> string \<Rightarrow> string \<Rightarrow> bool"
  for ls r u where
  root: "tree_dir ls r u u"
| child: "tree_dir ls r u d \<Longrightarrow> r \<Longrightarrow> c \<in> set (dirs_of (listing_of ls) d) \<Longrightarrow> tree_dir ls r u c"

inductive_cases tree_dirE: "tree_dir ls r u d"

lemma demo_tree_dir: "tree_dir demo_ls (dc_recursive demo_cfg) demo_root demo_sub"
  by (rule tree_dir.child [OF tree_dir.root]) (simp_all add: demo_listing demo_cfg_def)

section \<open>The dependency graph\<close>

text \<open>Property C9 (refinement): in every state of a run, whatever the order in which units are taken and
  end, the units ever handed to the scheduler are exactly those that the dependency graph asks for,
  given the units that have ended, and each was handed over once.  The executor decides this
  from counters; the graph is stated over the listings and the set of ended units.\<close>

theorem dag_follows_dependencies:
  assumes "summarizing_run ls cfg u evs st"
  shows "distinct (dg_finished st @ dg_running st @ ns_queue (dg_sched st)) \<and>
    set (dg_finished st) \<union> set (dg_running st) \<union> set (ns_queue (dg_sched st)) =
      submitted (listing_of ls) (dc_recursive cfg) u (set (dg_finished st))"
  using summarizing_works [OF assms] by simp

theorem dag_follows_dependencies_witness:
  "distinct (dg_finished (demo_state 5) @ dg_running (demo_state 5) @ ns_queue (dg_sched (demo_state 5))) \<and>
   set (dg_finished (demo_state 5)) \<union> set (dg_running (demo_state 5)) \<union> set (ns_queue (dg_sched (demo_state 5))) =
     submitted (listing_of demo_ls) (dc_recursive demo_cfg) demo_root (set (dg_finished (demo_state 5)))"
  by (rule dag_follows_dependencies [OF demo_summarizing])

section \<open>Progress\<close>

lemma quiescent_done:
  assumes run: "summarizing_run ls cfg u evs st" and idle: "dg_running st = []" "ns_queue (dg_sched st) = []"
  shows "dg_root_done st"
proof -
  have "root_settled (tree_listing ls) (tree_root u) (set (dg_finished st))"
    by (rule dag_tree.quiescent_root [OF summarizing_fair [OF run]])
      (use summarizing_works(2) [OF run] idle run in \<open>auto simp: summarizing_run_def\<close>)
  then show ?thesis using summarizing_open(4) [OF run] run by (simp add: summarizing_run_def)
qed

text \<open>Property C11 (liveness): the executor never gets stuck.  As long as the root is not done, a unit is
  running or a worker is free to take the next one.\<close>

theorem dag_never_stuck:
  assumes "summarizing_run ls cfg u evs st"
  shows "dg_root_done st \<or> dg_running st \<noteq> [] \<or> take_work st \<noteq> None"
proof (cases "dg_running st = [] \<and> ns_queue (dg_sched st) \<noteq> []")
  case True
  then have "take_work st \<noteq> None"
    using summarizing_open(5) [OF assms] by (auto simp: take_work_def workers_ok_def split: list.splits)
  then show ?thesis by simp
next
  case False
  then show ?thesis using quiescent_done [OF assms] by auto
qed

theorem dag_never_stuck_witness:
  "\<not> (dg_root_done (demo_state 3) \<or> dg_running (demo_state 3) = [] \<and> take_work (demo_state 3) = None)"
  using dag_never_stuck [OF demo_summarizing, of 3] demo_facts(2) by blast

section \<open>Termination\<close>

definition is_work_event :: "dag_event \<Rightarrow> bool" where
  "is_work_event ev \<longleftrightarrow> (case ev of TakeWork \<Rightarrow> True | FinishWork _ _ \<Rightarrow> True | _ \<Rightarrow> False)"

text \<open>Taken and ended units.\<close>

definition hist ::
  "dag \<Rightarrow> string option \<times> dag_work list \<times> dag_work list \<times> run_phase \<times> vectorize_task list" where
  "hist st = (dg_root_uri st, dg_running st, dg_finished st, dg_phase st, dg_vectorized st)"

lemma hist_quiet: "quiet st = quiet st' \<Longrightarrow> hist st = hist st'"
  by (simp add: quiet_eq hist_def)

lemma hist_add_vectorize_task [simp]: "hist (add_vectorize_task cfg t st) = hist st"
  by (simp add: hist_def add_vectorize_task_def)

lemma hist_summarize_file: "hist (fst (summarize_file cfg env f st)) = hist st"
proof -
  have upd: "hist (st\<lparr>dg_file_change_status := m\<rparr>) = hist st" "hist (st\<lparr>dg_summarized := xs\<rparr>) = hist st"
    for m xs st by (simp_all add: hist_def)
  have "hist (fst (read_existing_summary cfg env f st)) = hist st" for st
    by (auto simp: read_existing_summary_def load_overview_cache_def hist_def Let_def split: option.splits prod.splits)
  then show ?thesis
    by (auto simp: summarize_file_def Let_def upd split: prod.splits option.splits) (metis fst_conv upd(1))+
qed

lemma hist_finish_file: "hist (finish_file cfg env d f st) = hist st"
proof -
  obtain st1 s nv where s: "summarize_file cfg env f st = (st1, s, nv)" by (metis prod_cases3)
  have "hist (mark_node_done st1) = hist st"
    using hist_summarize_file [of cfg env f st] s hist_quiet [OF quiet_marks(3), of st1] by simp
  then show ?thesis
    using s hist_quiet [OF quiet_done(2)] by (simp add: finish_file_def Let_def)
qed

lemma hist_overview_body: "hist (fst (overview_body cfg env d n ch st)) = hist st"
proof -
  have w: "hist (fst (write_directory_semantics cfg env d ov ab st)) = hist st" for ov ab st
    by (auto simp: write_directory_semantics_def write_semantic_sidecars_def write_sidecars_def hist_def Let_def
        split: prod.splits write_outcome.splits)
  have m: "hist (fst (make_overview cfg env d n ch st)) = hist st"
    by (auto simp: make_overview_def hist_def Let_def split: option.splits)
  show ?thesis
    unfolding overview_body_def using m by (auto split: prod.splits option.splits) (metis fst_conv w)+
qed

text \<open>The end of an overview unit, with the node of the directory at hand.\<close>

definition overview_changed :: "dag_config \<Rightarrow> dag_env \<Rightarrow> string \<Rightarrow> dir_node \<Rightarrow> dag \<Rightarrow> bool" where
  "overview_changed cfg env d n st =
     (if dc_incremental_update cfg
      then check_dir_children_changed cfg env st d (dn_file_paths n) (dn_children_dirs n) else True)"

lemma finish_overview_quiet:
  assumes "dg_nodes st d = Some n"
  shows "quiet (finish_overview cfg env d st) =
    quiet ((fst (overview_body cfg env d n (overview_changed cfg env d n st) st))
      \<lparr>dg_dir_change_status :=
         (dg_dir_change_status (fst (overview_body cfg env d n (overview_changed cfg env d n st) st)))
           (d \<mapsto> overview_changed cfg env d n st)\<rparr>)"
proof -
  define ch where "ch = overview_changed cfg env d n st"
  obtain st1 a where b: "overview_body cfg env d n ch st = (st1, a)" by fastforce
  define st3 where "st3 = (mark_node_done st1)\<lparr>dg_dir_change_status := (dg_dir_change_status (mark_node_done st1))(d \<mapsto> ch)\<rparr>"
  have "quiet st3 = quiet (st1\<lparr>dg_dir_change_status := (dg_dir_change_status st1)(d \<mapsto> ch)\<rparr>)"
    by (simp add: st3_def quiet_def mark_node_done_def)
  moreover have "quiet (finish_overview cfg env d st) = quiet st3"
    unfolding finish_overview_def assms option.case Let_def overview_changed_def [symmetric] ch_def [symmetric] b
      prod.case st3_def [symmetric]
    by (simp split: option.splits)
  ultimately show ?thesis using b by (simp add: ch_def)
qed

lemma hist_finish_overview: "hist (finish_overview cfg env d st) = hist st"
proof (cases "dg_nodes st d")
  case None
  then show ?thesis by (simp add: finish_overview_def)
next
  case (Some n)
  have "hist (s\<lparr>dg_dir_change_status := m\<rparr>) = hist s" for s m by (simp add: hist_def)
  then show ?thesis using hist_quiet [OF finish_overview_quiet [OF Some]] hist_overview_body by simp
qed

lemma end_work_lists:
  "dg_running (end_work cfg env w st) = dg_running st" "dg_finished (end_work cfg env w st) = dg_finished st"
  "dg_root_uri (end_work cfg env w st) = dg_root_uri st" "dg_phase (end_work cfg env w st) = dg_phase st"
proof -
  have "(dg_root_uri (end_work cfg env w st), dg_running (end_work cfg env w st),
      dg_finished (end_work cfg env w st), dg_phase (end_work cfg env w st)) =
      (dg_root_uri st, dg_running st, dg_finished st, dg_phase st)"
  proof (cases w)
    case (DirWork d p)
    then show ?thesis using hist_quiet [OF quiet_finish_dir, of cfg env d p st] by (simp add: end_work_def hist_def)
  next
    case (FileWork d f)
    then show ?thesis using hist_finish_file [of cfg env d f st] by (simp add: end_work_def hist_def)
  next
    case (OverviewWork d)
    then show ?thesis using hist_finish_overview [of cfg env d st] by (simp add: end_work_def hist_def)
  next
    case (VectorizeWork t)
    then show ?thesis by (simp add: end_work_def finish_vectorize_def Let_def)
  qed
  then show "dg_running (end_work cfg env w st) = dg_running st" "dg_finished (end_work cfg env w st) = dg_finished st"
    "dg_root_uri (end_work cfg env w st) = dg_root_uri st" "dg_phase (end_work cfg env w st) = dg_phase st"
    by simp_all
qed

text \<open>How the number of taken and ended units grows.\<close>

definition progress :: "dag \<Rightarrow> nat" where
  "progress st = 2 * length (dg_finished st) + length (dg_running st)"

lemma step_progress:
  assumes inv: "dag_tree.dag_inv ls r u st" and ev: "summarizing_event ls ev" and step: "dag_step cfg ev st = Some st'"
  shows "progress st' = progress st + (if is_work_event ev then 1 else 0)"
proof (cases ev)
  case TakeWork
  then have t: "take_work st = Some st'" using step by (simp add: dag_step_def)
  show ?thesis
    by (rule dag_tree.take_effect [OF inv t]) (use TakeWork in \<open>auto simp: progress_def rest_def is_work_event_def\<close>)
next
  case (FinishWork w env)
  then have w: "w \<in> set (dg_running st)" and st': "st' = end_work cfg env w
      (st\<lparr>dg_running := remove1 w (dg_running st), dg_finished := dg_finished st @ [w]\<rparr>)"
    using step by (auto simp: dag_step_def split: if_splits)
  have "length (dg_running st) = Suc (length (remove1 w (dg_running st)))"
    using w by (simp add: length_remove1) (metis Suc_pred length_pos_if_in_set)
  then show ?thesis using FinishWork st' by (simp add: progress_def end_work_lists is_work_event_def)
next
  case WorkerIdle
  then show ?thesis
    using step by (auto simp: dag_step_def worker_idle_def progress_def is_work_event_def split: if_splits)
qed (use ev in \<open>simp_all add: summarizing_event_def\<close>)

lemma run_progress:
  assumes ls: "lawful_ls ls" and u: "canonical_uri u"
  shows "dag_tree.dag_inv ls (dc_recursive cfg) u st \<Longrightarrow> list_all (summarizing_event ls) evs \<Longrightarrow>
    dag_run cfg evs st = Some st' \<Longrightarrow> progress st' = progress st + length (filter is_work_event evs)"
proof (induction evs arbitrary: st)
  case (Cons ev evs)
  obtain st1 where st1: "dag_step cfg ev st = Some st1" "dag_run cfg evs st1 = Some st'"
    using Cons.prems(3) by (auto split: option.splits)
  have ev: "summarizing_event ls ev" using Cons.prems(2) by simp
  have "dag_tree.dag_inv ls (dc_recursive cfg) u st1"
    by (rule dag_tree.event_inv [OF Cons.prems(1) refl summarizing_tree_event [OF ls ev] st1(1)])
  then have "progress st' = progress st1 + length (filter is_work_event evs)"
    using Cons.IH Cons.prems(2) st1(2) by simp
  then show ?case using step_progress [OF Cons.prems(1) ev st1(1)] by simp
qed simp

text \<open>Property C12 (termination): a run ends.  When the tree is finite (\<open>D\<close> has the root and is closed under
  listing), the number of times a unit is taken or ends is at most twice the number of units of the
  tree: two for each directory and one for each file.\<close>

theorem dag_terminates:
  assumes run: "summarizing_run ls cfg u evs st" and fin: "finite D" and u: "u \<in> D"
    and closed: "\<And>d. d \<in> D \<Longrightarrow> set (dirs_of (listing_of ls) d) \<subseteq> D"
  shows "length (filter is_work_event evs) \<le>
    2 * (2 * card D + (\<Sum>d\<in>D. length (files_of (listing_of ls) d)))"
proof -
  let ?S = "submitted (listing_of ls) (dc_recursive cfg) u (set (dg_finished st))"
  have law: "lawful_ls ls" "canonical_uri u" "list_all (summarizing_event ls) evs"
      "dag_run cfg evs (start_run cfg u) = Some st"
    using run by (simp_all add: summarizing_run_def)
  have start: "dag_tree.dag_inv ls (dc_recursive cfg) u (start_run cfg u)"
    using dag_tree.start_inv [of ls "dc_recursive cfg" u cfg] law by simp
  have "hist (start_run cfg u) = hist (new_dag cfg u)"
    by (simp add: start_run_def hist_quiet [OF quiet_schedule(3)])
  then have "progress (start_run cfg u) = 0" by (simp add: progress_def hist_def new_dag_def)
  then have count: "length (filter is_work_event evs) = progress st"
    using run_progress [OF law(1,2) start law(3,4)] by simp
  have "tree_root u \<in> D" "\<And>d. d \<in> D \<Longrightarrow> set (dirs_of (tree_listing ls) d) \<subseteq> D" using u closed law by auto
  then have card: "finite ?S" "card ?S \<le> 2 * card D + (\<Sum>d\<in>D. length (files_of (listing_of ls) d))"
    using dag_tree.submitted_card [OF summarizing_fair [OF run], of D] fin law by simp_all
  have "distinct (dg_finished st @ dg_running st)" "set (dg_finished st @ dg_running st) \<subseteq> ?S"
    using summarizing_works [OF run] by auto
  then have "length (dg_finished st @ dg_running st) \<le> card ?S"
    using card(1) by (metis card_mono distinct_card)
  then show ?thesis using count card(2) by (simp add: progress_def)
qed

theorem dag_terminates_witness:
  "length (filter is_work_event demo_events) = 12 \<and> length (filter is_work_event demo_events) \<le> 2 * (2 * 2 + 2)"
proof -
  have ne: "demo_root \<noteq> demo_sub" by code_simp
  have "length (filter is_work_event demo_events) \<le>
      2 * (2 * card {demo_root, demo_sub} + (\<Sum>d\<in>{demo_root, demo_sub}. length (files_of (listing_of demo_ls) d)))"
    by (rule dag_terminates [OF demo_summarized]) (auto simp: demo_listing)
  moreover have "length (filter is_work_event demo_events) = 12" by (simp add: demo_events_def is_work_event_def)
  ultimately show ?thesis using ne by (simp add: demo_listing)
qed

section \<open>The whole tree\<close>

lemma count_distinct: "distinct xs \<Longrightarrow> x \<in> set xs \<Longrightarrow> count_list xs x = 1"
  by (induction xs) (auto simp: count_notin)

lemma done_all:
  assumes run: "summarizing_run ls cfg u evs st" and fin: "dg_root_done st"
  shows "set (dg_finished st) = submitted (listing_of ls) (dc_recursive cfg) u (set (dg_finished st))"
    "dg_running st = []" "ns_queue (dg_sched st) = []"
proof -
  have "root_settled (tree_listing ls) (tree_root u) (set (dg_finished st))"
    using summarizing_open(4) [OF run] fin run by (simp add: summarizing_run_def)
  then have "submitted (tree_listing ls) (dc_recursive cfg) (tree_root u) (set (dg_finished st)) = set (dg_finished st)"
    by (rule dag_tree.root_settled_all [OF summarizing_fair [OF run]])
  then show eq: "set (dg_finished st) = submitted (listing_of ls) (dc_recursive cfg) u (set (dg_finished st))"
    using run by (simp only: summarizing_run_def tree_simps)
  have "set (dg_finished st) \<union> set (dg_running st) \<union> set (ns_queue (dg_sched st)) = set (dg_finished st)"
    by (rule trans [OF summarizing_works(2) [OF run] eq [symmetric]])
  moreover have "set (dg_finished st) \<inter> (set (dg_running st) \<union> set (ns_queue (dg_sched st))) = {}"
    using summarizing_works(1) [OF run] by simp
  moreover have "A \<union> B \<union> C = A \<Longrightarrow> A \<inter> (B \<union> C) = {} \<Longrightarrow> B = {} \<and> C = {}" for A B C :: "dag_work set" by blast
  ultimately have "set (dg_running st) = {} \<and> set (ns_queue (dg_sched st)) = {}" by presburger
  then show "dg_running st = []" "ns_queue (dg_sched st) = []" by auto
qed

lemma visited_canonical:
  assumes "lawful_ls ls" "canonical_uri u" "tree_dir ls r u d"
  shows "canonical_uri d"
  using assms(3)
proof induction
  case root
  then show ?case using assms(2) .
next
  case (child d c)
  then show ?case using dir_tree.child_ok [OF listing_dir_tree [OF assms(1,2)]] by blast
qed

lemma visited_dispatched:
  assumes run: "summarizing_run ls cfg u evs st" and fin: "dg_root_done st" and d: "tree_dir ls (dc_recursive cfg) u d"
  shows "dispatched (listing_of ls) (set (dg_finished st)) d"
proof -
  have law: "lawful_ls ls" "canonical_uri u" using run by (simp_all add: summarizing_run_def)
  have listed: "listing_of ls e \<noteq> None" if "tree_dir ls (dc_recursive cfg) u e" for e
    using listing_canonical(3) [OF visited_canonical [OF law that] law(1)] .
  show ?thesis
    using d
  proof induction
    case root
    have "DirWork u None \<in> set (dg_finished st)" using done_all(1) [OF run fin] by (metis submitted_simps(1))
    then show ?case using listed [OF tree_dir.root] by (auto simp: dispatched_def)
  next
    case (child d c)
    then have "DirWork c (Some d) \<in> set (dg_finished st)"
      using done_all(1) [OF run fin] by (metis submitted_simps(2))
    then show ?case using listed [OF tree_dir.child [OF child.hyps]] by (auto simp: dispatched_def)
  qed
qed

lemma done_finished:
  assumes run: "summarizing_run ls cfg u evs st" and fin: "dg_root_done st"
    and d: "dispatched (listing_of ls) (set (dg_finished st)) d"
  shows "OverviewWork d \<in> set (dg_finished st)"
  using dag_tree.dispatched_finished [OF summarizing_fair [OF run]] summarizing_open(4) [OF run] fin d run
  by (simp add: summarizing_run_def)

text \<open>Property C10 (functional): when the root is done, everything is done.  No unit is queued or running, no
  node is left in the table, and every directory of the tree had its overview task and every file its
  summary task exactly once.\<close>

theorem dag_covers_tree:
  assumes run: "summarizing_run ls cfg u evs st" and fin: "dg_root_done st"
  shows "dg_running st = [] \<and> ns_queue (dg_sched st) = [] \<and> dg_nodes st = Map.empty \<and>
    (\<forall>d. tree_dir ls (dc_recursive cfg) u d \<longrightarrow>
       count_list (dg_finished st) (OverviewWork d) = 1 \<and>
       (\<forall>f\<in>set (files_of (listing_of ls) d). count_list (dg_finished st) (FileWork d f) = 1))"
proof (intro conjI allI impI ballI)
  have dist: "distinct (dg_finished st)" using summarizing_works(1) [OF run] by simp
  show "dg_running st = []" "ns_queue (dg_sched st) = []" using done_all [OF run fin] by simp_all
  show "dg_nodes st = Map.empty"
  proof
    fix d
    show "dg_nodes st d = None"
      using dag_tree.dag_invD(3) [OF summarizing_inv [OF run]] done_finished [OF run fin] run
      unfolding dag_tree.nodes_ok_def by (metis summarizing_run_def tree_simps(1))
  qed
  fix d
  assume "tree_dir ls (dc_recursive cfg) u d"
  then have d: "dispatched (listing_of ls) (set (dg_finished st)) d" by (rule visited_dispatched [OF run fin])
  show "count_list (dg_finished st) (OverviewWork d) = 1"
    using done_finished [OF run fin d] dist by (simp add: count_distinct)
  fix f
  assume "f \<in> set (files_of (listing_of ls) d)"
  then have "FileWork d f \<in> set (dg_finished st)" using d done_all(1) [OF run fin] by (metis submitted_simps(3))
  then show "count_list (dg_finished st) (FileWork d f) = 1" using dist by (simp add: count_distinct)
qed

theorem dag_covers_tree_witness:
  "dg_root_done (demo_state 12) \<and> dg_nodes (demo_state 12) = Map.empty \<and>
   count_list (dg_finished (demo_state 12)) (OverviewWork demo_sub) = 1 \<and>
   count_list (dg_finished (demo_state 12)) (FileWork demo_sub demo_y) = 1"
  using dag_covers_tree [OF demo_summarized demo_facts(1)] demo_facts(1) demo_tree_dir by (simp add: demo_listing)

section \<open>What an overview is made of\<close>

lemma map_zip_the:
  assumes "None \<notin> set ys" "length xs = length ys"
  shows "map (\<lambda>(x, item). case item of None \<Rightarrow> g x | Some v \<Rightarrow> v) (zip xs ys) = map the ys"
  using assms
proof (induction ys arbitrary: xs)
  case (Cons y ys)
  then show ?case by (cases xs; cases y) auto
qed simp



end
