(* ===== verification/Semantic_Dag_Update.thy ===== *)
theory Semantic_Dag_Update
  imports Semantic_Dag_Props
begin

text \<open>
  The executor of \<^verbatim>\<open>semantic_dag.py\<close> on an incremental update, what it records for vectorization, and
  the phase in which it hands the recorded tasks over.
\<close>

section \<open>What a unit records\<close>

text \<open>The calls of the generator of overviews and the tasks for vectorization.\<close>

definition records ::
  "dag \<Rightarrow> (string \<times> file_summary list \<times> child_abstract list) list \<times> nat \<times> vectorize_task list" where
  "records st = (dg_generated st, dg_vectorize_task_count st, dg_pending_vectorize_tasks st)"

lemma records_quiet: "quiet st = quiet st' \<Longrightarrow> records st = records st'"
  by (simp add: quiet_eq records_def)

lemma records_summarize_file: "records (fst (summarize_file cfg env f st)) = records st"
proof -
  have upd: "records (st\<lparr>dg_file_change_status := m\<rparr>) = records st" "records (st\<lparr>dg_summarized := xs\<rparr>) = records st"
    for m xs st by (simp_all add: records_def)
  have "records (fst (read_existing_summary cfg env f st)) = records st" for st
    by (auto simp: read_existing_summary_def load_overview_cache_def records_def Let_def split: option.splits prod.splits)
  then show ?thesis
    by (auto simp: summarize_file_def Let_def upd split: prod.splits option.splits) (metis fst_conv upd(1))+
qed

lemma records_finish_file:
  "records (finish_file cfg env d f st) = records st \<or>
   (\<exists>s. records (finish_file cfg env d f st) = records (add_vectorize_task cfg (file_vectorize_task cfg d f s) st))"
proof -
  obtain st1 s nv where s: "summarize_file cfg env f st = (st1, s, nv)" by (metis prod_cases3)
  have st1: "records (mark_node_done st1) = records st"
    using records_summarize_file [of cfg env f st] s records_quiet [OF quiet_marks(3), of st1] by simp
  then have "records (add_vectorize_task cfg t (mark_node_done st1)) = records (add_vectorize_task cfg t st)" for t
    by (simp add: records_def add_vectorize_task_def)
  then show ?thesis
    using s st1 records_quiet [OF quiet_done(2)] by (cases nv) (auto simp: finish_file_def Let_def)
qed

lemma records_write: "records (fst (write_directory_semantics cfg env d ov ab st)) = records st"
  by (auto simp: write_directory_semantics_def write_semantic_sidecars_def write_sidecars_def records_def Let_def
      split: prod.splits write_outcome.splits)

lemma records_overview_body:
  assumes st1: "st1 = fst (make_overview cfg env d n ch st)"
  shows "records (fst (overview_body cfg env d n ch st)) = records st1 \<or>
   (\<exists>a o'. records (fst (overview_body cfg env d n ch st)) =
      records (add_vectorize_task cfg (dir_vectorize_task cfg d a o') st1))"
proof (cases "snd (make_overview cfg env d n ch st)")
  case None
  then show ?thesis using st1 by (auto simp: overview_body_def split: prod.splits)
next
  case (Some oa)
  obtain ov ab where oa: "oa = (ov, ab)" by fastforce
  obtain st2 outcome where w: "write_directory_semantics cfg env d ov ab st1 = (st2, outcome)" by fastforce
  have "records st2 = records st1" using records_write [of cfg env d ov ab st1] w by simp
  then have "records (add_vectorize_task cfg t st2) = records (add_vectorize_task cfg t st1)" for t
    by (simp add: records_def add_vectorize_task_def)
  moreover have "make_overview cfg env d n ch st = (st1, Some (ov, ab))" using st1 Some oa by (metis prod.collapse)
  ultimately show ?thesis
    using w \<open>records st2 = records st1\<close> by (auto simp: overview_body_def)
qed

lemma make_overview_generates:
  "dg_generated (fst (make_overview cfg env d n True st)) =
     dg_generated st @ [(d, finalize_file_summaries n, finalize_children_abstracts env n)]"
  by (simp add: make_overview_def Let_def)

lemma make_overview_grows:
  "set (dg_generated st) \<subseteq> set (dg_generated (fst (make_overview cfg env d n ch st)))"
  "dg_vectorize_task_count (fst (make_overview cfg env d n ch st)) = dg_vectorize_task_count st"
  "dg_pending_vectorize_tasks (fst (make_overview cfg env d n ch st)) = dg_pending_vectorize_tasks st"
  by (auto simp: make_overview_def Let_def split: option.splits)

lemma generated_add [simp]: "dg_generated (add_vectorize_task cfg t st) = dg_generated st"
  by (simp add: add_vectorize_task_def)

lemma generated_overview_body:
  "dg_generated (fst (overview_body cfg env d n ch st)) = dg_generated (fst (make_overview cfg env d n ch st))"
  using records_overview_body [OF refl, of cfg env d n ch st] by (auto simp: records_def)

lemma records_finish_overview:
  assumes "dg_nodes st d = Some n"
  shows "records (finish_overview cfg env d st) =
    records (fst (overview_body cfg env d n (overview_changed cfg env d n st) st))"
  using records_quiet [OF finish_overview_quiet [OF assms]] by (simp add: records_def)

section \<open>Incremental updates\<close>

lemma overview_changed_direct:
  assumes "dc_incremental_update cfg" "dc_target_uri cfg = dg_root_uri st" "path_has_direct_change cfg d"
  shows "overview_changed cfg env d n st"
proof -
  have "changed_paths cfg \<noteq> []" using assms(3) by (auto simp: path_has_direct_change_def)
  then show ?thesis
    using assms by (simp add: overview_changed_def check_dir_children_changed_def is_direct_incremental_update_def Let_def)
qed

text \<open>Every finished overview of a directory with a change below it was generated anew.\<close>

definition regenerated :: "dag_config \<Rightarrow> dag \<Rightarrow> bool" where
  "regenerated cfg st \<longleftrightarrow>
     (\<forall>d. OverviewWork d \<in> set (dg_finished st) \<longrightarrow> path_has_direct_change cfg d \<longrightarrow>
        d \<in> fst ` set (dg_generated st))"

lemma generated_end_work:
  "set (dg_generated st) \<subseteq> set (dg_generated (end_work cfg env w st))"
proof (cases w)
  case (DirWork d p)
  then show ?thesis using records_quiet [OF quiet_finish_dir, of cfg env d p st] by (simp add: end_work_def records_def)
next
  case (FileWork d f)
  then show ?thesis using records_finish_file [of cfg env d f st] by (auto simp: end_work_def records_def)
next
  case (OverviewWork d)
  show ?thesis
  proof (cases "dg_nodes st d")
    case None
    then show ?thesis using OverviewWork by (simp add: end_work_def finish_overview_def)
  next
    case (Some n)
    then show ?thesis
      using OverviewWork records_finish_overview [OF Some, of cfg env] make_overview_grows(1)
      by (simp add: end_work_def records_def generated_overview_body)
  qed
next
  case (VectorizeWork t)
  then show ?thesis by (simp add: end_work_def finish_vectorize_def Let_def)
qed

lemma step_regenerated:
  assumes inv: "dag_tree.dag_inv ls r u st" and ev: "summarizing_event ls ev" and step: "dag_step cfg ev st = Some st'"
    and inc: "dc_incremental_update cfg" and root: "dg_root_uri st = dc_target_uri cfg" and old: "regenerated cfg st"
  shows "regenerated cfg st' \<and> dg_root_uri st' = dc_target_uri cfg"
proof (cases ev)
  case TakeWork
  then have t: "take_work st = Some st'" using step by (simp add: dag_step_def)
  have "dg_finished st' = dg_finished st" by (rule dag_tree.take_effect [OF inv t]) (auto simp: rest_def)
  moreover have "dg_generated st' = dg_generated st \<and> dg_root_uri st' = dg_root_uri st"
    using t by (auto simp: take_work_def begin_work_def mark_node_started_def mark_node_done_def
        split: list.splits if_splits dag_work.splits)
  ultimately show ?thesis using old root by (simp add: regenerated_def)
next
  case (FinishWork w env)
  let ?st1 = "st\<lparr>dg_running := remove1 w (dg_running st), dg_finished := dg_finished st @ [w]\<rparr>"
  have w: "w \<in> set (dg_running st)" and st': "st' = end_work cfg env w ?st1"
    using FinishWork step by (auto simp: dag_step_def split: if_splits)
  have fin: "dg_finished st' = dg_finished st @ [w]" "dg_root_uri st' = dg_root_uri st"
    using st' by (simp_all add: end_work_lists)
  have mono: "fst ` set (dg_generated st) \<subseteq> fst ` set (dg_generated st')"
    by (rule image_mono) (use generated_end_work [of ?st1 cfg env w] st' in simp)
  have "d \<in> fst ` set (dg_generated st')" if d: "w = OverviewWork d" "path_has_direct_change cfg d" for d
  proof -
    obtain n where n: "dg_nodes st d = Some n" using dag_tree.queued_nodes(3) [OF inv, of w d] w d by auto
    then have n1: "dg_nodes ?st1 d = Some n" by simp
    have "overview_changed cfg env d n ?st1" using overview_changed_direct inc root d(2) by simp
    then have "dg_generated st' = dg_generated ?st1 @ [(d, finalize_file_summaries n, finalize_children_abstracts env n)]"
      using st' d(1) records_finish_overview [OF n1, of cfg env] make_overview_generates [of cfg env d n ?st1]
      by (simp add: end_work_def records_def generated_overview_body)
    then show ?thesis by simp
  qed
  then show ?thesis using old fin mono root unfolding regenerated_def by auto
next
  case WorkerIdle
  then show ?thesis
    using step old root by (auto simp: dag_step_def worker_idle_def regenerated_def split: if_splits)
qed (use ev in \<open>simp_all add: summarizing_event_def\<close>)

lemma run_regenerated:
  assumes ls: "lawful_ls ls" and u: "canonical_uri u" and inc: "dc_incremental_update cfg"
  shows "dag_tree.dag_inv ls (dc_recursive cfg) u st \<Longrightarrow> list_all (summarizing_event ls) evs \<Longrightarrow>
    dag_run cfg evs st = Some st' \<Longrightarrow> dg_root_uri st = dc_target_uri cfg \<Longrightarrow> regenerated cfg st \<Longrightarrow> regenerated cfg st'"
proof (induction evs arbitrary: st)
  case (Cons ev evs)
  obtain st1 where st1: "dag_step cfg ev st = Some st1" "dag_run cfg evs st1 = Some st'"
    using Cons.prems(3) by (auto split: option.splits)
  have ev: "summarizing_event ls ev" using Cons.prems(2) by simp
  have "dag_tree.dag_inv ls (dc_recursive cfg) u st1"
    by (rule dag_tree.event_inv [OF Cons.prems(1) refl summarizing_tree_event [OF ls ev] st1(1)])
  moreover have "regenerated cfg st1 \<and> dg_root_uri st1 = dc_target_uri cfg"
    by (rule step_regenerated [OF Cons.prems(1) ev st1(1) inc Cons.prems(4,5)])
  ultimately show ?case using Cons.IH [OF _ _ st1(2)] Cons.prems(2) by simp
qed simp

lemma start_lists [simp]:
  "dg_finished (start_run cfg u) = []" "dg_root_uri (start_run cfg u) = Some u"
  "dg_vectorized (start_run cfg u) = []" "dg_vectorize_task_count (start_run cfg u) = 0"
  "dg_pending_vectorize_tasks (start_run cfg u) = []" "dg_running (start_run cfg u) = []"
  by (simp_all add: start_run_def schedule_dir_def schedule_work_def count_new_node_def new_dag_def)



section \<open>Vectorization\<close>

definition task_weight :: "vectorize_task \<Rightarrow> nat" where
  "task_weight t = (case vt_task_type t of VecFile \<Rightarrow> 1 | VecDirectory \<Rightarrow> 2)"

text \<open>The count that the embedding tracker is told, and nothing handed over yet.\<close>

definition count_ok :: "dag \<Rightarrow> bool" where
  "count_ok st \<longleftrightarrow>
     dg_vectorize_task_count st = sum_list (map task_weight (dg_pending_vectorize_tasks st)) \<and> dg_vectorized st = []"

lemma count_ok_add: "count_ok st \<Longrightarrow> count_ok (add_vectorize_task cfg t st)"
  by (simp add: count_ok_def add_vectorize_task_def task_weight_def)

lemma count_ok_records: "records st = records st' \<Longrightarrow> hist st = hist st' \<Longrightarrow> count_ok st \<longleftrightarrow> count_ok st'"
  by (simp add: count_ok_def records_def hist_def)

lemma count_ok_recorded:
  assumes "records a = records b \<or> (\<exists>t. records a = records (add_vectorize_task cfg t b))"
    and hist: "hist a = hist b" and b: "count_ok b"
  shows "count_ok a"
  using assms(1)
proof
  assume "records a = records b"
  then show ?thesis using count_ok_records [OF _ hist] b by simp
next
  assume "\<exists>t. records a = records (add_vectorize_task cfg t b)"
  then obtain t where t: "records a = records (add_vectorize_task cfg t b)" by blast
  have "hist a = hist (add_vectorize_task cfg t b)" using hist by simp
  then show ?thesis using count_ok_records [OF t] count_ok_add [OF b] by simp
qed

lemma count_ok_end_work:
  assumes old: "count_ok st" and w: "\<And>t. w \<noteq> VectorizeWork t"
  shows "count_ok (end_work cfg env w st)"
proof (cases w)
  case (DirWork d p)
  then show ?thesis
    using old count_ok_records [OF records_quiet [OF quiet_finish_dir] hist_quiet [OF quiet_finish_dir]]
    by (simp add: end_work_def)
next
  case (FileWork d f)
  have "count_ok (finish_file cfg env d f st)"
    by (rule count_ok_recorded [OF _ hist_finish_file old]) (use records_finish_file in blast)
  then show ?thesis using FileWork by (simp add: end_work_def)
next
  case (OverviewWork d)
  have "count_ok (finish_overview cfg env d st)"
  proof (cases "dg_nodes st d")
    case None
    then show ?thesis using old by (simp add: finish_overview_def)
  next
    case (Some n)
    define ch where "ch = overview_changed cfg env d n st"
    define st1 where "st1 = fst (make_overview cfg env d n ch st)"
    have "hist st1 = hist st" by (auto simp: st1_def make_overview_def hist_def Let_def split: option.splits)
    then have st1: "count_ok st1" "hist (finish_overview cfg env d st) = hist st1"
      using old make_overview_grows(2,3) [of cfg env d n ch st] hist_finish_overview [of cfg env d st]
      by (simp_all add: count_ok_def st1_def hist_def)
    have "records (finish_overview cfg env d st) = records (fst (overview_body cfg env d n ch st))"
      using records_finish_overview [OF Some, of cfg env] by (simp add: ch_def)
    then show ?thesis
      using count_ok_recorded [OF _ st1(2,1)] records_overview_body [OF st1_def] by auto
  qed
  then show ?thesis using OverviewWork by (simp add: end_work_def)
qed (use w in simp)

lemma step_count_ok:
  assumes inv: "dag_tree.dag_inv ls r u st" and ev: "summarizing_event ls ev" and step: "dag_step cfg ev st = Some st'"
    and old: "count_ok st"
  shows "count_ok st'"
proof (cases ev)
  case TakeWork
  then show ?thesis
    using step old by (auto simp: dag_step_def take_work_def begin_work_def mark_node_started_def mark_node_done_def
        count_ok_def split: list.splits if_splits dag_work.splits)
next
  case (FinishWork w env)
  let ?st1 = "st\<lparr>dg_running := remove1 w (dg_running st), dg_finished := dg_finished st @ [w]\<rparr>"
  have w: "w \<in> set (dg_running st)" and st': "st' = end_work cfg env w ?st1"
    using FinishWork step by (auto simp: dag_step_def split: if_splits)
  have "w \<noteq> VectorizeWork t" for t using dag_tree.queued_facts(1) [OF inv, of w] w by auto
  moreover have "count_ok ?st1" using old by (simp add: count_ok_def)
  ultimately show ?thesis using st' count_ok_end_work by simp
next
  case WorkerIdle
  then show ?thesis using step old by (auto simp: dag_step_def worker_idle_def count_ok_def split: if_splits)
qed (use ev in \<open>simp_all add: summarizing_event_def\<close>)

lemma run_count_ok:
  assumes ls: "lawful_ls ls" and u: "canonical_uri u"
  shows "dag_tree.dag_inv ls (dc_recursive cfg) u st \<Longrightarrow> list_all (summarizing_event ls) evs \<Longrightarrow>
    dag_run cfg evs st = Some st' \<Longrightarrow> count_ok st \<Longrightarrow> count_ok st'"
proof (induction evs arbitrary: st)
  case (Cons ev evs)
  obtain st1 where st1: "dag_step cfg ev st = Some st1" "dag_run cfg evs st1 = Some st'"
    using Cons.prems(3) by (auto split: option.splits)
  have ev: "summarizing_event ls ev" using Cons.prems(2) by simp
  have "dag_tree.dag_inv ls (dc_recursive cfg) u st1"
    by (rule dag_tree.event_inv [OF Cons.prems(1) refl summarizing_tree_event [OF ls ev] st1(1)])
  then show ?case
    using Cons.IH [OF _ _ st1(2)] step_count_ok [OF Cons.prems(1) ev st1(1) Cons.prems(4)] Cons.prems(2) by simp
qed simp

lemma summarizing_count_ok:
  assumes run: "summarizing_run ls cfg u evs st"
  shows "count_ok st"
proof -
  have law: "lawful_ls ls" "canonical_uri u" "list_all (summarizing_event ls) evs"
      "dag_run cfg evs (start_run cfg u) = Some st"
    using run by (simp_all add: summarizing_run_def)
  have start: "dag_tree.dag_inv ls (dc_recursive cfg) u (start_run cfg u)"
    using dag_tree.start_inv [of ls "dc_recursive cfg" u cfg] law by simp
  show ?thesis by (rule run_count_ok [OF law(1,2) start law(3,4)]) (simp add: count_ok_def)
qed

text \<open>The phase in which the tasks are handed over.\<close>

definition vec_state :: "vectorize_task list \<Rightarrow> nat \<Rightarrow> dag \<Rightarrow> bool" where
  "vec_state tasks count0 st \<longleftrightarrow>
     dg_phase st = WaitVectorize \<and> \<not> dg_closed st \<and> dg_registered st = Some count0 \<and>
     (\<exists>rs qs. dg_running st = map VectorizeWork rs \<and> ns_queue (dg_sched st) = map VectorizeWork qs \<and>
        mset (dg_vectorized st) + mset rs + mset qs = mset tasks \<and>
        dg_pending_vectorize_work st = length rs + length qs \<and>
        dg_vectorize_done st = Some (rs = [] \<and> qs = [])) \<and>
     workers_ok (length (dg_running st)) (dg_sched st)"

definition dispatching_event :: "dag_event \<Rightarrow> bool" where
  "dispatching_event ev \<longleftrightarrow> (case ev of TakeWork \<Rightarrow> True | FinishWork _ _ \<Rightarrow> True | WorkerIdle \<Rightarrow> True | _ \<Rightarrow> False)"

lemma vec_start:
  assumes run: "summarizing_run ls cfg u evs st" and fin: "dg_root_done st" and count: "0 < dg_vectorize_task_count st"
    and step: "resume_run cfg st = Some st1"
  shows "vec_state (dg_pending_vectorize_tasks st) (dg_vectorize_task_count st) st1"
proof -
  let ?tasks = "dg_pending_vectorize_tasks st"
  let ?st = "st\<lparr>dg_registered := Some (dg_vectorize_task_count st), dg_phase := WaitVectorize,
                dg_vectorize_done := Some False, dg_pending_vectorize_work := length ?tasks\<rparr>"
  note opn = summarizing_open [OF run]
  have st1: "st1 = fold (\<lambda>t. schedule_work (VectorizeWork t)) ?tasks ?st"
    using step opn(2,3) fin count by (simp add: resume_run_def dispatch_vectorize_tasks_def)
  have "core st1 = (fold submit_work (map VectorizeWork ?tasks) (dg_sched ?st), rest ?st)"
    unfolding st1 by (rule core_schedule_all [OF core_schedule(1)]) (use opn(1) in auto)
  then have core: "dg_sched st1 = fold submit_work (map VectorizeWork ?tasks) (dg_sched st)"
      "dg_running st1 = dg_running st" "\<not> dg_closed st1" "dg_phase st1 = WaitVectorize"
    using opn(1) by (simp_all add: core_def rest_def)
  have frame: "h st1 = h ?st" if "\<And>t s. h (schedule_work (VectorizeWork t) s) = h s" for h :: "dag \<Rightarrow> 'a"
    unfolding st1 by (rule fold_frame) (rule that)
  have "dg_vectorize_done st1 = Some False" "dg_pending_vectorize_work st1 = length ?tasks"
    "dg_vectorized st1 = dg_vectorized st" "dg_registered st1 = Some (dg_vectorize_task_count st)"
    by (subst frame; simp add: schedule_work_def)+
  moreover have "?tasks \<noteq> []" "dg_vectorized st = []"
    using summarizing_count_ok [OF run] count by (auto simp: count_ok_def)
  moreover have "ns_queue (dg_sched st1) = map VectorizeWork ?tasks" "dg_running st1 = map VectorizeWork []"
    using core done_all(2,3) [OF run fin] by simp_all
  moreover have "workers_ok (length (dg_running st1)) (dg_sched st1)" using core opn(5) submit_all_ok by simp
  ultimately show ?thesis using core unfolding vec_state_def by (intro conjI exI [of _ "[]"] exI [of _ ?tasks]) auto
qed

lemma remove1_map_inj: "inj f \<Longrightarrow> remove1 (f x) (map f xs) = map f (remove1 x xs)"
  by (induction xs) (auto simp: inj_eq)

lemma vec_step:
  assumes old: "vec_state tasks count0 st" and ev: "dispatching_event ev" and step: "dag_step cfg ev st = Some st'"
  shows "vec_state tasks count0 st'"
proof -
  obtain rs qs where r: "dg_running st = map VectorizeWork rs" "ns_queue (dg_sched st) = map VectorizeWork qs"
    and m: "mset (dg_vectorized st) + mset rs + mset qs = mset tasks"
    and p: "dg_pending_vectorize_work st = length rs + length qs" "dg_vectorize_done st = Some (rs = [] \<and> qs = [])"
    and op: "dg_phase st = WaitVectorize" "\<not> dg_closed st" "dg_registered st = Some count0"
      "workers_ok (length (dg_running st)) (dg_sched st)"
    using old unfolding vec_state_def by blast
  show ?thesis
  proof (cases ev)
    case TakeWork
    then obtain t qs' where q: "qs = t # qs'" and room: "length (dg_running st) < ns_workers (dg_sched st)"
      and st': "st' = st\<lparr>dg_sched := (dg_sched st)\<lparr>ns_queue := map VectorizeWork qs'\<rparr>,
                       dg_running := dg_running st @ [VectorizeWork t]\<rparr>"
      using step r op(2) by (auto simp: dag_step_def take_work_def begin_work_def split: list.splits if_splits)
    have "workers_ok (length (dg_running st')) (dg_sched st')" using st' room op(4) by (auto simp: workers_ok_def)
    moreover have "dg_running st' = map VectorizeWork (rs @ [t])" "ns_queue (dg_sched st') = map VectorizeWork qs'"
      "mset (dg_vectorized st') + mset (rs @ [t]) + mset qs' = mset tasks"
      "dg_pending_vectorize_work st' = length (rs @ [t]) + length qs'"
      "dg_vectorize_done st' = Some (rs @ [t] = [] \<and> qs' = [])"
      using st' r m p q by simp_all
    ultimately show ?thesis using st' op unfolding vec_state_def by (intro conjI exI [of _ "rs @ [t]"] exI [of _ qs']) simp_all
  next
    case (FinishWork w env)
    then obtain t where t: "w = VectorizeWork t" "t \<in> set rs" using step r by (auto simp: dag_step_def split: if_splits)
    have run: "remove1 w (dg_running st) = map VectorizeWork (remove1 t rs)"
      using r t remove1_map_inj [of VectorizeWork t rs] by (simp add: inj_def)
    have st': "st' = finish_vectorize t (st\<lparr>dg_running := map VectorizeWork (remove1 t rs), dg_finished := dg_finished st @ [w]\<rparr>)"
      using step FinishWork t r run by (auto simp: dag_step_def end_work_def split: if_splits)
    have len: "length rs = Suc (length (remove1 t rs))"
      using t(2) by (simp add: length_remove1) (metis Suc_pred length_pos_if_in_set)
    have "mset (dg_vectorized st') + mset (remove1 t rs) + mset qs = mset tasks"
      using st' m t(2) by (simp add: finish_vectorize_def Let_def)
    moreover have "dg_running st' = map VectorizeWork (remove1 t rs)" "ns_queue (dg_sched st') = map VectorizeWork qs"
      "dg_pending_vectorize_work st' = length (remove1 t rs) + length qs"
      "dg_vectorize_done st' = Some (remove1 t rs = [] \<and> qs = [])"
      using st' r p len by (auto simp: finish_vectorize_def Let_def)
    moreover have "workers_ok (length (dg_running st')) (dg_sched st')"
      using st' op(4) r len by (auto simp: finish_vectorize_def Let_def workers_ok_def)
    ultimately show ?thesis
      using st' op unfolding vec_state_def
      by (intro conjI exI [of _ "remove1 t rs"] exI [of _ qs]) (simp_all add: finish_vectorize_def Let_def)
  next
    case WorkerIdle
    then have st': "st' = st\<lparr>dg_sched := (dg_sched st)\<lparr>ns_workers := ns_workers (dg_sched st) - 1\<rparr>\<rparr>"
      and c: "ns_queue (dg_sched st) = []" "length (dg_running st) < ns_workers (dg_sched st)"
      using step by (auto simp: dag_step_def worker_idle_def split: if_splits)
    have "workers_ok (length (dg_running st')) (dg_sched st')" using st' c op(4) by (auto simp: workers_ok_def)
    then show ?thesis using st' r m p op unfolding vec_state_def by (intro conjI exI [of _ rs] exI [of _ qs]) simp_all
  qed (use ev in \<open>simp_all add: dispatching_event_def\<close>)
qed

lemma vec_run:
  "vec_state tasks count0 st \<Longrightarrow> list_all dispatching_event evs \<Longrightarrow> dag_run cfg evs st = Some st' \<Longrightarrow>
   vec_state tasks count0 st'"
proof (induction evs arbitrary: st)
  case (Cons ev evs)
  obtain st1 where st1: "dag_step cfg ev st = Some st1" "dag_run cfg evs st1 = Some st'"
    using Cons.prems(3) by (auto split: option.splits)
  then show ?case using Cons.IH vec_step [OF Cons.prems(1) _ st1(1)] Cons.prems(2) by simp
qed simp

text \<open>Property C15 (liveness): after the tree, the recorded texts are handed to vectorization, each exactly once,
  and \<^verbatim>\<open>run\<close> cannot wait for ever.  The embedding tracker is told one message for a file and two
  for a directory.  While tasks are left, one is running or a worker is free to take the next; the
  event \<^verbatim>\<open>_vectorize_done\<close> is set when all have been handed over, and not before.\<close>

theorem vectorization_hands_over_all:
  assumes run: "summarizing_run ls cfg u evs st" and fin: "dg_root_done st"
    and count: "0 < dg_vectorize_task_count st" and resume: "resume_run cfg st = Some st1"
    and evs2: "list_all dispatching_event evs2" and run2: "dag_run cfg evs2 st1 = Some st2"
  shows "dg_registered st2 = Some (sum_list (map task_weight (dg_pending_vectorize_tasks st))) \<and>
    (if dg_vectorize_done st2 = Some True
     then mset (dg_vectorized st2) = mset (dg_pending_vectorize_tasks st)
     else dg_vectorize_done st2 = Some False \<and>
          mset (dg_vectorized st2) \<subset># mset (dg_pending_vectorize_tasks st) \<and>
          (dg_running st2 \<noteq> [] \<or> take_work st2 \<noteq> None))"
proof -
  have "vec_state (dg_pending_vectorize_tasks st) (dg_vectorize_task_count st) st2"
    by (rule vec_run [OF vec_start [OF run fin count resume] evs2 run2])
  then obtain rs qs where r: "dg_running st2 = map VectorizeWork rs" "ns_queue (dg_sched st2) = map VectorizeWork qs"
    and m: "mset (dg_vectorized st2) + mset rs + mset qs = mset (dg_pending_vectorize_tasks st)"
    and p: "dg_vectorize_done st2 = Some (rs = [] \<and> qs = [])"
    and op: "dg_registered st2 = Some (dg_vectorize_task_count st)" "workers_ok (length (dg_running st2)) (dg_sched st2)"
    unfolding vec_state_def by blast
  have reg: "dg_registered st2 = Some (sum_list (map task_weight (dg_pending_vectorize_tasks st)))"
    using op(1) summarizing_count_ok [OF run] by (simp add: count_ok_def)
  show ?thesis
  proof (cases "rs = [] \<and> qs = []")
    case True
    then show ?thesis using reg p m by simp
  next
    case False
    then have "mset rs + mset qs \<noteq> {#}" by auto
    then have "mset (dg_vectorized st2) \<subset># mset (dg_pending_vectorize_tasks st)"
      unfolding m [symmetric] by (metis add.assoc mset_subset_eq_add_left subset_mset.less_le add_cancel_right_right)
    moreover have "dg_running st2 \<noteq> [] \<or> take_work st2 \<noteq> None"
      using False r op(2) by (cases rs; cases qs) (auto simp: take_work_def workers_ok_def)
    moreover have "dg_vectorize_done st2 = Some False" using p False by simp
    ultimately show ?thesis using reg by simp
  qed
qed

definition demo_resumed :: dag where
  "demo_resumed = the (resume_run demo_cfg (demo_state 12))"

theorem vectorization_hands_over_all_witness:
  "dg_registered demo_resumed = Some (sum_list (map task_weight (dg_pending_vectorize_tasks (demo_state 12)))) \<and>
   dg_vectorize_done demo_resumed = Some False \<and> \<not> (dg_running demo_resumed = [] \<and> take_work demo_resumed = None)"
proof -
  have "resume_run demo_cfg (demo_state 12) \<noteq> None"
    using summarizing_open [OF demo_summarized] demo_facts(1,5) by (simp add: resume_run_def)
  then have r: "resume_run demo_cfg (demo_state 12) = Some demo_resumed" by (auto simp: demo_resumed_def)
  have "dg_vectorize_done demo_resumed \<noteq> Some True" unfolding demo_resumed_def demo_state_def by code_simp
  then show ?thesis
    using vectorization_hands_over_all [OF demo_summarized demo_facts(1,5) r, of "[]" demo_resumed] by simp
qed

section \<open>A failed overview\<close>

text \<open>Property C16 (error): when the generation of the overview of a subdirectory raises, its parent is not given the
  empty abstract that \<^verbatim>\<open>_overview_task\<close> prepares for this case: the variable is set to \<^verbatim>\<open>None\<close> inside the
  \<^verbatim>\<open>try\<close> block before the call, so \<^verbatim>\<open>None\<close> is what the parent records as the abstract of the
  subdirectory and puts into its own prompt.\<close>

theorem failed_overview_null_abstract:
  assumes n: "dg_nodes st c = Some n" "overview_changed cfg env c n st"
    and raises: "en_overview env c (finalize_file_summaries n) (finalize_children_abstracts env n) = None"
    and parent: "dg_parent st c = Some (Some d)" "dg_nodes st d = Some m" "c \<noteq> d"
    and slot: "dn_child_index m c = Some i" "i < length (dn_children_abstracts m)"
  shows "\<exists>m'. dg_nodes (finish_overview cfg env c st) d = Some m' \<and>
    dn_children_abstracts m' ! i = Some \<lparr>ca_name = uri_name c, ca_abstract = None\<rparr>"
proof -
  define st1 where "st1 = st\<lparr>dg_generated := dg_generated st @ [(c, finalize_file_summaries n, finalize_children_abstracts env n)]\<rparr>"
  have body: "overview_body cfg env c n True st = (st1, None)"
    using raises by (simp add: overview_body_def make_overview_def st1_def Let_def)
  define st3 where "st3 = (mark_node_done st1)\<lparr>dg_dir_change_status := (dg_dir_change_status (mark_node_done st1))(c \<mapsto> True)\<rparr>"
  have st3: "dg_parent st3 c = Some (Some d)" "dg_nodes st3 d = Some m"
    using parent by (simp_all add: st3_def st1_def mark_node_done_def)
  have ch: "overview_changed cfg env c n st = True" using n(2) by simp
  have "finish_overview cfg env c st = release_dir_node c (on_child_done d c None st3)"
    unfolding finish_overview_def n(1) option.case Let_def overview_changed_def [symmetric] ch body prod.case
      st3_def [symmetric] st3(1) by simp
  then show ?thesis
    using st3(2) parent(3) slot
    by (auto simp: on_child_done_def count_down_def Let_def release_dir_node_def schedule_overview_def
        schedule_work_def fill_slot_def)
qed

definition failing_env :: dag_env where
  "failing_env = demo_env\<lparr>en_overview := (\<lambda>_ _ _. None)\<rparr>"

theorem failed_overview_null_abstract_witness:
  "\<exists>m'. dg_nodes (finish_overview demo_cfg failing_env demo_sub (demo_state 9)) demo_root = Some m' \<and>
    dn_children_abstracts m' ! 0 = Some \<lparr>ca_name = uri_name demo_sub, ca_abstract = None\<rparr>"
proof -
  let ?n = "the (dg_nodes (demo_state 9) demo_sub)" and ?m = "the (dg_nodes (demo_state 9) demo_root)"
  have "\<not> Option.is_none (dg_nodes (demo_state 9) demo_sub)" "\<not> Option.is_none (dg_nodes (demo_state 9) demo_root)"
    unfolding demo_state_def by code_simp+
  then have some: "dg_nodes (demo_state 9) demo_sub = Some ?n" "dg_nodes (demo_state 9) demo_root = Some ?m"
    by (auto simp: Option.is_none_def)
  have changed: "overview_changed demo_cfg failing_env demo_sub ?n (demo_state 9)"
    unfolding demo_state_def by code_simp
  have raises: "en_overview failing_env demo_sub (finalize_file_summaries ?n) (finalize_children_abstracts failing_env ?n) = None"
    by (simp add: failing_env_def)
  have parent: "dg_parent (demo_state 9) demo_sub = Some (Some demo_root)" "demo_sub \<noteq> demo_root"
    unfolding demo_state_def by code_simp+
  have slot: "dn_child_index ?m demo_sub = Some 0" "0 < length (dn_children_abstracts ?m)"
    unfolding demo_state_def by code_simp+
  show ?thesis
    by (rule failed_overview_null_abstract [OF some(1) changed raises parent(1) some(2) parent(2) slot])
qed

end
