(* ===== verification/Spec2Isabelle.thy ===== *)
theory Spec2Isabelle
  imports
    Lock_Manager_Props
    Task_Tracker_Props
    Resilience_Props
    Queue_Trackers
    Streaming_Batcher
    Bytes_Row_Props
    Uri_Props
    Active_Budget_Props
    Watch_Props
    Semantic_Dag_Update
begin

text \<open>
  \<^bold>\<open>A verification of the storage and concurrency core of OpenViking.\<close>

  OpenViking is a context database for agents: a virtual file system over AGFS, queues that summarise and embed what is
  written, a vector store, sessions, and a server.  This development models the parts that the rest relies on for its
  consistency: the names and paths of everything that is stored and who may reach them, the lock files that processes
  share, background tasks and their store, the trackers that tell when queued work is done, the guards around model calls,
  batching, the row format of the vector store, and what a session keeps of its messages.  All paths
  below are under \<^verbatim>\<open>src/\<close>.

  \<^bold>\<open>Shared theories.\<close>
  \<open>Py_Prelude\<close> has the fragment of Python's strings, integers and dictionaries that the sources use.
  \<open>Agfs\<close> has the interface of the file service as a record of operations, the locale of the laws its clients rely on, and
  its interpretation on a model of the in-memory plugin (\<^verbatim>\<open>crates/ragfs/src/plugins/memfs/mod.rs\<close>).

  \<^bold>\<open>Path locks\<close> (\<^verbatim>\<open>openviking/storage/transaction/\<close>).
  \<open>Fencing_Token\<close> and \<open>Path_Lock\<close> model \<^verbatim>\<open>path_lock.py\<close> and \<^verbatim>\<open>lock_handle.py\<close>: a lock is a token file in the file service;
  an acquisition is a loop of attempt, write and re-check, each a function on a world of file system and clock, with what
  other processes do between two steps as an argument.  The loops take fuel, and the termination property shows that the
  fuel given by the timeout and the poll interval is enough.  \<open>Lock_Manager\<close> models \<^verbatim>\<open>lock_manager.py\<close> and \<^verbatim>\<open>redo_log.py\<close>
  with handles as objects of a heap, \<open>Lock_Lease\<close> models \<^verbatim>\<open>lock_lease.py\<close>, \<^verbatim>\<open>lock_context.py\<close> and
  \<^verbatim>\<open>openviking/storage/queuefs/semantic_lock.py\<close>.  The theories \<open>Path_Lock_Facts\<close> and \<open>Lock_Manager_Facts\<close> hold the lemmas,
  \<open>Path_Lock_Props\<close> and \<open>Lock_Manager_Props\<close> the properties: when an acquisition succeeds, what it leaves on disk,
  exclusion between owners, termination, release, refresh, batches that are all-or-nothing, a global order of batches, the
  invariant of the handle table under any sequence of calls, hand-offs between processes, scopes and leases; and two
  properties that show a race and a release of locks that were held before.

  \<^bold>\<open>Tasks\<close> (\<^verbatim>\<open>openviking/service/\<close>).
  \<open>Task_Store\<close> models \<^verbatim>\<open>task_store.py\<close> over the file service, \<open>Task_Tracker\<close> models \<^verbatim>\<open>task_tracker.py\<close> over the store's
  interface; an operation is one step, since the tracker serialises them.  \<open>Task_Store_Facts\<close> has the contract of a store
  (locale \<open>task_store_laws\<close>) and proves that the persistent store over the in-memory plugin keeps it for every JSON codec that
  reads back what it wrote.  \<open>Task_Tracker_Facts\<close> proves, inside that contract, the agreement of cache and store along every
  run (relation \<open>tk_step\<close>); \<open>Sanitize_Facts\<close> treats the redaction of secrets; \<open>Task_Tracker_Props\<close> has the properties:
  finished tasks stay finished, at most one active task per resource, bounded eviction, what callers may see, and
  what a failed write leaves in the cache.

  \<^bold>\<open>Guards around model calls.\<close>
  \<open>Model_Retry\<close> models the classification of errors, with its regular expressions as matchers, and the retry loops of
  \<^verbatim>\<open>openviking/utils/model_retry.py\<close>; \<open>Failover\<close> its two switchers with the request loops of \<^verbatim>\<open>openviking/models/vlm/base.py\<close>
  and \<^verbatim>\<open>openviking/models/embedder/base.py\<close>; \<open>Circuit_Breaker\<close> models \<^verbatim>\<open>openviking/utils/circuit_breaker.py\<close>.
  \<open>Resilience_Props\<close> shows that the breaker implements a specification over histories, that waiting gets through it, that
  retries return the right call's outcome, what a failover request returns in every case, and that traffic returns to the
  first credential.

  \<^bold>\<open>Queued work and batches.\<close>
  \<open>Queue_Trackers\<close> models \<^verbatim>\<open>openviking/storage/queuefs/embedding_tracker.py\<close> and
  \<^verbatim>\<open>openviking/telemetry/request_wait_tracker.py\<close> and shows that a completion callback runs exactly once and that a waiting
  request returns when, and only when, its roots are marked; its polling loop takes one unit of fuel per poll.
  \<open>Streaming_Batcher\<close> models \<^verbatim>\<open>openviking/session/memory/utils/streaming_batcher.py\<close> as a labelled step relation of one event
  loop, and proves that batches partition the submissions in order and that closing can strand submitters.

  \<^bold>\<open>Rows.\<close>
  \<open>Bytes_Row\<close> and \<open>Bytes_Row_Props\<close> treat \<^verbatim>\<open>openviking/storage/vectordb/store/bytes_row.py\<close>: what was written is read back,
  also by a schema that has grown.

  \<^bold>\<open>Names, URIs and access.\<close>
  \<open>Viking_Uri\<close> models \<^verbatim>\<open>openviking/core/identifiers.py\<close>, \<^verbatim>\<open>peer_id.py\<close>, the identity of a request
  (\<^verbatim>\<open>openviking_cli/session/user_id.py\<close>, \<^verbatim>\<open>openviking/server/identity.py\<close>) and the class \<^verbatim>\<open>VikingURI\<close> of
  \<^verbatim>\<open>openviking_cli/utils/uri.py\<close>; \<open>Namespace\<close> models \<^verbatim>\<open>openviking/core/namespace.py\<close>, whose two resolution functions call each
  other: the recursion takes Python's limit as fuel, and \<open>namespace_resolution_ends\<close> shows that for validated ids two calls
  are enough.  \<open>Viking_Fs_Access\<close> models the gate of \<^verbatim>\<open>openviking/storage/viking_fs.py\<close> (the checks before reading, writing and
  deleting, and the map from URIs to paths), \<open>Uri_Validation\<close> models \<^verbatim>\<open>openviking/core/uri_validation.py\<close> and
  \<^verbatim>\<open>retrieval_targets.py\<close>.  \<open>Namespace_Facts\<close> and \<open>Viking_Fs_Facts\<close> reduce all of them to lists of segments;
  \<open>Access_Props\<close> and \<open>Uri_Props\<close> have the properties: a request without the root role is confined to its account and its own
  user directory, canonical forms are stable, a validated URI never addresses internal files, a search under an actor peer
  sees no other peer, URI objects keep their form; and the spelling of a URI that evades the protection of the watch-task
  files.

  \<^bold>\<open>What a session keeps.\<close>
  \<open>Retention\<close> models the token estimates of \<^verbatim>\<open>openviking/utils/token_estimation.py\<close>, the messages of
  \<^verbatim>\<open>openviking/message/\<close> and the planner of \<^verbatim>\<open>openviking/session/retention.py\<close>; \<open>Active_Budget\<close> models the budgeted view of the
  same file, with the shortening of a group of messages and the search for its smallest budget.  \<open>Retention_Facts\<close> and
  \<open>Active_Budget_Facts\<close> hold the lemmas: turns flatten to the session, a shortened group keeps everything but its texts, and
  the search finds the least budget.  \<open>Retention_Props\<close> and \<open>Active_Budget_Props\<close> show that archive and retained messages make
  up the session and no tool result is separated from its call, that both results keep to their budgets, and that a long
  query does not push the newest answer out.  Every loop here ends by a measure; no fuel is used.

  \<^bold>\<open>Watch tasks\<close> (\<^verbatim>\<open>openviking/resource/watch_manager.py\<close>).
  \<open>Watch_Manager\<close> models the manager of the tasks that refresh resources: the tasks, the index of their targets, every
  call with its save, and the file that is replaced through a temporary and a backup file.  The file system object is
  injected in the code and is a record of calls here, the JSON encoding a codec.  \<open>Watch_Facts\<close> has the invariants and one
  preservation lemma per call; \<open>Watch_Props\<close> shows that targets are unique under any sequence of calls, that an update
  which is refused half-way breaks this, that tasks follow a moved resource or stay exactly as they were, and that no
  failure or crash during a save loses the tasks.

  \<^bold>\<open>Semantic summaries\<close> (\<^verbatim>\<open>openviking/storage/queuefs/semantic_dag.py\<close>, \<^verbatim>\<open>semantic_sidecar.py\<close>,
  \<^verbatim>\<open>semantic_queue.py\<close>, the text functions of \<^verbatim>\<open>semantic_processor.py\<close>).
  \<open>Semantic_Queue\<close> models how rapid messages for one directory coalesce, \<open>Overview_Text\<close> the texts of overviews and abstracts.
  \<open>Semantic_Dag\<close> models the executor that summarises a directory tree bottom-up: its node table and counters, the scheduler
  with its workers, the units of work for directories, files and overviews, incremental updates, and the vectorization phase.
  Units end in any order, one event each, and every event has its own answers of the file system and the language model.
  \<open>Semantic_Dag_Spec\<close> states the dependency graph over the listings alone, and the laws of listings as the locale \<open>dir_tree\<close>;
  \<open>Semantic_Dag_Facts\<close> and \<open>Semantic_Dag_Inv\<close> prove that every event keeps the executor in step with the graph;
  \<open>Semantic_Dag_Tree\<close> interprets the locale for listings with distinct names below a canonical root;
  \<open>Semantic_Dag_Example\<close> evaluates a run.  \<open>Semantic_Dag_Props\<close> and \<open>Semantic_Dag_Update\<close> show that the executor implements the
  graph, never gets stuck, ends within twice the number of units, covers the tree, writes an overview only from
  complete inputs, regenerates every directory above a change, and hands each text to vectorization once.

  \<^bold>\<open>Conventions.\<close>
  A Python exception is a value of a sum or option type.  Clock readings, random numbers, fresh identifiers and the outcomes
  of calls to models are arguments.  Strings are made of the first 256 code points, except
  the texts of messages, which are lists of any code points.  Floating-point times are integers of
  ticks in the lock and task theories and real numbers elsewhere.

  \<^bold>\<open>Not modelled.\<close>
  Logging, tracing, singletons and the start of asyncio tasks; the operations of the virtual file system behind its gate,
  sessions and retrieval, which drive language models and the vector store; the prompts and the message loop of the
  semantic processor, which call a language model; the vector engines, bindings to C++; the
  server, clients, command line and the bot, which are I/O and glue.
\<close>

end
